(* ===== verification/Prelude.thy ===== *)
theory Prelude
  imports Main "HOL-Library.Word"
begin

text \<open>
  Shared vocabulary of the development: bytes and byte strings, the little-endian integer
  layout of Go's \<open>encoding/binary\<close>, \<open>io.ReadFull\<close> over an in-memory reader, the
  error-or-value result type, and the list, map and arithmetic lemmas that the component
  theories use. Nothing in this theory is specific to the broker.
\<close>

named_theorems codec_simps "unfolding and length facts of the byte-level codecs"
named_theorems store_simps "projections of updated component states"

unbundle bit_operations_syntax

section \<open>Types\<close>

type_synonym byte = "8 word"
type_synonym bytes = "8 word list"
type_synonym ('e, 'a) result = "'e + 'a"

text \<open>Go strings are byte strings; a HOL \<open>char\<close> is exactly one byte.\<close>

definition byte_of_char :: "char \<Rightarrow> byte" where
  "byte_of_char c = word_of_nat (of_char c)"

definition char_of_byte :: "byte \<Rightarrow> char" where
  "char_of_byte b = char_of (unat b)"

definition bytes_of_string :: "string \<Rightarrow> bytes" where
  "bytes_of_string s = map byte_of_char s"

definition string_of_bytes :: "bytes \<Rightarrow> string" where
  "string_of_bytes bs = map char_of_byte bs"

lemma of_char_less: "(of_char c :: nat) < 256"
  by (metis nat_of_char_less_256)

lemma char_of_byte_of_char [simp]: "char_of_byte (byte_of_char c) = c"
  by (simp add: char_of_byte_def byte_of_char_def unat_of_nat of_char_less)

lemma unat_byte_less [simp]: "unat (b :: byte) < 256"
  using unsigned_less [of b, where ?'a = nat] by simp

lemma byte_of_char_of_byte [simp]: "byte_of_char (char_of_byte b) = b"
  by (simp add: char_of_byte_def byte_of_char_def)

lemma string_of_bytes_of_string [simp]: "string_of_bytes (bytes_of_string s) = s"
  by (simp add: string_of_bytes_def bytes_of_string_def comp_def)

lemma bytes_of_string_of_bytes [simp]: "bytes_of_string (string_of_bytes bs) = bs"
  by (simp add: string_of_bytes_def bytes_of_string_def comp_def)

lemma length_bytes_of_string [simp]: "length (bytes_of_string s) = length s"
  by (simp add: bytes_of_string_def)

section \<open>Little-endian integers\<close>

text \<open>
  \<open>le_bytes n x\<close> is what \<open>binary.LittleEndian.PutUint\<close> stores in an \<open>n\<close>-byte window:
  the low \<open>8 * n\<close> bits of \<open>x\<close>, least significant byte first. \<open>le_nat\<close> reads it back.
\<close>

primrec le_bytes :: "nat \<Rightarrow> nat \<Rightarrow> bytes" where
  "le_bytes 0 x = []"
| "le_bytes (Suc n) x = word_of_nat (x mod 256) # le_bytes n (x div 256)"

primrec le_nat :: "bytes \<Rightarrow> nat" where
  "le_nat [] = 0"
| "le_nat (b # bs) = unat b + 256 * le_nat bs"

lemma le_bytes_numeral:
  "le_bytes (numeral n) x = word_of_nat (x mod 256) # le_bytes (pred_numeral n) (x div 256)"
  by (subst numeral_eq_Suc) (rule le_bytes.simps(2))

lemma length_le_bytes [simp]: "length (le_bytes n x) = n"
  by (induction n arbitrary: x) auto

lemma le_nat_le_bytes: "le_nat (le_bytes n x) = x mod 256 ^ n"
proof (induction n arbitrary: x)
  case 0
  then show ?case by simp
next
  case (Suc n)
  have "le_nat (le_bytes (Suc n) x) = x mod 256 + 256 * (x div 256 mod 256 ^ n)"
    by (simp add: Suc unat_of_nat)
  also have "\<dots> = x mod (256 * 256 ^ n)"
    by (metis mod_mult2_eq add.commute)
  finally show ?case by simp
qed

lemma le_nat_le_bytes_id: "x < 256 ^ n \<Longrightarrow> le_nat (le_bytes n x) = x"
  by (simp add: le_nat_le_bytes)

lemma le_nat_less: "le_nat bs < 256 ^ length bs"
proof (induction bs)
  case Nil
  then show ?case by simp
next
  case (Cons b bs)
  have "unat b + 256 * le_nat bs < 256 + 256 * le_nat bs" by simp
  also have "\<dots> \<le> 256 * 256 ^ length bs" using Cons by (simp add: algebra_simps)
  finally show ?case by simp
qed

lemma le_bytes_le_nat: "length bs = n \<Longrightarrow> le_bytes n (le_nat bs) = bs"
proof (induction bs arbitrary: n)
  case Nil
  then show ?case by simp
next
  case (Cons b bs)
  have small: "unat b < 256"
    using unsigned_less [of b, where ?'a = nat] by simp
  have "(unat b + 256 * le_nat bs) mod 256 = unat b" "(unat b + 256 * le_nat bs) div 256 = le_nat bs"
    using small by simp_all
  with Cons show ?case by (simp only: list.size le_nat.simps flip: Cons.prems) (simp add: Cons.IH)
qed

text \<open>Signed 64-bit values travel as their two's-complement bit pattern.\<close>

definition int64_range :: "int \<Rightarrow> bool" where
  "int64_range x \<longleftrightarrow> - (2 ^ 63) \<le> x \<and> x < 2 ^ 63"

text \<open>The result of 64-bit signed arithmetic, which wraps around.\<close>

definition int64_of :: "int \<Rightarrow> int" where
  "int64_of x = (x + 2 ^ 63) mod 2 ^ 64 - 2 ^ 63"

lemma int64_of_id [simp]: "int64_range x \<Longrightarrow> int64_of x = x"
  by (simp add: int64_of_def int64_range_def)

lemma int64_of_bounds: "int64_range (int64_of x)"
  using pos_mod_bound [of "2 ^ 64" "x + 2 ^ 63"] pos_mod_sign [of "2 ^ 64" "x + 2 ^ 63"]
  by (simp add: int64_range_def int64_of_def)

lemma int64_of_max: "int64_of (2 ^ 63 - 1 + 1) = - (2 ^ 63)"
  by (simp add: int64_of_def)

definition put_int64 :: "int \<Rightarrow> bytes" where
  "put_int64 x = le_bytes 8 (unat (word_of_int x :: 64 word))"

definition get_int64 :: "bytes \<Rightarrow> int" where
  "get_int64 bs = sint (word_of_nat (le_nat bs) :: 64 word)"

lemma length_put_int64 [simp]: "length (put_int64 x) = 8"
  by (simp add: put_int64_def)

lemma get_put_int64:
  assumes "int64_range x"
  shows "get_int64 (put_int64 x) = x"
proof -
  have "unat (word_of_int x :: 64 word) < 256 ^ 8"
    using unsigned_less [of "word_of_int x :: 64 word", where ?'a = nat] by simp
  then have "le_nat (put_int64 x) = unat (word_of_int x :: 64 word)"
    by (simp only: put_int64_def le_nat_le_bytes_id)
  then have "get_int64 (put_int64 x) = sint (word_of_int x :: 64 word)"
    by (simp add: get_int64_def)
  also have "\<dots> = x"
    using assms by (simp add: int64_range_def signed_of_int signed_take_bit_int_eq_self)
  finally show ?thesis .
qed

section \<open>Results\<close>

definition map_result :: "('a \<Rightarrow> 'b) \<Rightarrow> ('e, 'a) result \<Rightarrow> ('e, 'b) result" where
  "map_result f r = (case r of Inl e \<Rightarrow> Inl e | Inr x \<Rightarrow> Inr (f x))"

lemma map_result_simps [simp]:
  "map_result f (Inl e) = Inl e" "map_result f (Inr x) = Inr (f x)"
  by (simp_all add: map_result_def)

lemma map_result_append_Nil [simp]: "map_result ((@) []) r = r"
  by (cases r) simp_all

lemma map_result_Cons_append [simp]:
  "map_result ((#) x) (map_result ((@) xs) r) = map_result ((@) (x # xs)) r"
  by (cases r) simp_all

lemma map_result_eq_Inr [simp]: "map_result f r = Inr y \<longleftrightarrow> (\<exists>x. r = Inr x \<and> y = f x)"
  by (cases r) auto

lemma map_result_eq_Inl [simp]: "map_result f r = Inl e \<longleftrightarrow> r = Inl e"
  by (cases r) auto

section \<open>Readers\<close>

text \<open>
  \<open>io.ReadFull\<close> on a reader that holds exactly \<open>bs\<close>: no byte at all is \<open>io.EOF\<close>, too few
  bytes is \<open>io.ErrUnexpectedEOF\<close>, and a zero-length read always succeeds.
\<close>

datatype io_error = EOF | ErrUnexpectedEOF

definition readFull :: "nat \<Rightarrow> bytes \<Rightarrow> (io_error, bytes \<times> bytes) result" where
  "readFull n bs =
     (if n \<le> length bs then Inr (take n bs, drop n bs)
      else if bs = [] then Inl EOF else Inl ErrUnexpectedEOF)"

lemma readFull_append [simp]: "length xs = n \<Longrightarrow> readFull n (xs @ ys) = Inr (xs, ys)"
  by (simp add: readFull_def)

lemma readFull_Inr: "readFull n bs = Inr (x, r) \<Longrightarrow> bs = x @ r \<and> length x = n"
  by (auto simp: readFull_def split: if_splits)

lemma readFull_InrE:
  assumes "readFull n bs = Inr p"
  obtains x r where "p = (x, r)" and "bs = x @ r" and "length x = n"
  using assms by (cases p) (blast dest: readFull_Inr)

lemma readFull_short:
  assumes "length bs < n"
  obtains e where "readFull n bs = Inl e"
  using assms by (cases "bs = []") (simp_all add: readFull_def)

text \<open>A field of a fixed layout: \<open>hdr[a:b]\<close>.\<close>

definition window :: "nat \<Rightarrow> nat \<Rightarrow> 'a list \<Rightarrow> 'a list" where
  "window a b xs = take (b - a) (drop a xs)"

lemma window_skip [simp]:
  "length xs \<le> a \<Longrightarrow> window a b (xs @ ys) = window (a - length xs) (b - length xs) ys"
  by (simp add: window_def)

lemma window_Cons [simp]: "0 < a \<Longrightarrow> window a b (x # xs) = window (a - 1) (b - 1) xs"
  by (cases a) (simp_all add: window_def)

lemma window_here [simp]: "length xs = b \<Longrightarrow> window 0 b (xs @ ys) = xs"
  by (simp add: window_def)

lemma window_all [simp]: "length xs = b \<Longrightarrow> window 0 b xs = xs"
  by (simp add: window_def)

lemma window_join: "a \<le> b \<Longrightarrow> b \<le> c \<Longrightarrow> window a b xs @ window b c xs = window a c xs"
  using take_add [of "b - a" "c - b" "drop a xs"] by (simp add: window_def)

lemma window_nth: "i < length xs \<Longrightarrow> [xs ! i] = window i (Suc i) xs"
  by (simp add: window_def Cons_nth_drop_Suc [symmetric])

lemma window_full: "length xs = n \<Longrightarrow> window 0 n xs = xs"
  by (simp add: window_def)

lemma length_window [simp]: "b \<le> length xs \<Longrightarrow> length (window a b xs) = b - a"
  by (simp add: window_def)

end
