(* ===== verification/Json.thy ===== *)
theory Json
  imports Prelude "HOL-Library.List_Lexorder" "HOL-Library.Char_ord"
begin

text \<open>
  What the broker uses of Go's \<^verbatim>\<open>encoding/json\<close>, \<^verbatim>\<open>encoding/base64\<close> and \<^verbatim>\<open>strconv\<close>: the text
  \<open>json.Marshal\<close> produces, the parser behind \<open>json.Unmarshal\<close>, and the assignment of parsed
  values to struct fields. Text is a \<open>string\<close> whose characters are bytes, so that a Go string
  that is not valid UTF-8 can be expressed. The theory shows that parsing inverts printing on
  every document whose strings are valid UTF-8, and that base64 and decimal numbers round trip.
  The nesting limit of the Go scanner (10000) is not modelled.
\<close>

section \<open>Decimal numbers\<close>

definition digit :: "nat \<Rightarrow> char" where
  "digit n = char_of (48 + n)"

definition is_digit :: "char \<Rightarrow> bool" where
  "is_digit c \<longleftrightarrow> 48 \<le> (of_char c :: nat) \<and> (of_char c :: nat) \<le> 57"

definition digit_val :: "char \<Rightarrow> nat" where
  "digit_val c = of_char c - 48"

fun show_nat :: "nat \<Rightarrow> string" where
  "show_nat n = (if n < 10 then [digit n] else show_nat (n div 10) @ [digit (n mod 10)])"

declare show_nat.simps [simp del]

definition show_int :: "int \<Rightarrow> string" where
  "show_int i = (if i < 0 then CHR ''-'' # show_nat (nat (- i)) else show_nat (nat i))"

definition read_nat :: "string \<Rightarrow> nat" where
  "read_nat = foldl (\<lambda>a c. 10 * a + digit_val c) 0"

text \<open>\<open>strconv.ParseInt\<close> on a JSON literal: digits with an optional sign, nothing else.\<close>

definition read_int :: "string \<Rightarrow> int option" where
  "read_int s =
     (case s of
        [] \<Rightarrow> None
      | c # r \<Rightarrow>
          if c = CHR ''-'' then
            (if r \<noteq> [] \<and> list_all is_digit r then Some (- int (read_nat r)) else None)
          else if list_all is_digit s then Some (int (read_nat s)) else None)"

lemma of_char_digit [simp]: "n < 10 \<Longrightarrow> of_char (digit n) = (48 + n :: nat)"
  by (simp add: digit_def)

lemma is_digit_digit [simp]: "n < 10 \<Longrightarrow> is_digit (digit n)"
  by (simp add: is_digit_def)

lemma digit_val_digit [simp]: "n < 10 \<Longrightarrow> digit_val (digit n) = n"
  by (simp add: digit_val_def)

lemma show_nat_digits: "list_all is_digit (show_nat n)"
  by (induction n rule: show_nat.induct) (subst show_nat.simps, simp)

lemma show_nat_nonempty [simp]: "show_nat n \<noteq> []"
  by (subst show_nat.simps) simp

lemma read_nat_snoc: "read_nat (s @ [c]) = 10 * read_nat s + digit_val c"
  by (simp add: read_nat_def)

lemma read_show_nat [simp]: "read_nat (show_nat n) = n"
proof (induction n rule: show_nat.induct)
  case (1 n)
  show ?case
  proof (cases "n < 10")
    case True
    then show ?thesis by (simp add: show_nat.simps [of n] read_nat_def)
  next
    case False
    then show ?thesis using 1 by (simp add: show_nat.simps [of n] read_nat_snoc)
  qed
qed

lemma not_digit_minus [simp]: "\<not> is_digit (CHR ''-'')"
  by (simp add: is_digit_def)

lemma read_show_int [simp]: "read_int (show_int i) = Some i"
proof (cases "i < 0")
  case True
  then show ?thesis by (simp add: read_int_def show_int_def show_nat_digits)
next
  case False
  obtain c r where cr: "show_nat (nat i) = c # r" by (cases "show_nat (nat i)") auto
  then have "is_digit c" using show_nat_digits [of "nat i"] by simp
  then have "c \<noteq> CHR ''-''" by auto
  then show ?thesis
    using False cr show_nat_digits [of "nat i"] read_show_nat [of "nat i"]
    by (simp add: read_int_def show_int_def del: read_show_nat)
qed

section \<open>UTF-8\<close>

definition in_range :: "nat \<Rightarrow> nat \<Rightarrow> char \<Rightarrow> bool" where
  "in_range lo hi c \<longleftrightarrow> lo \<le> (of_char c :: nat) \<and> (of_char c :: nat) \<le> hi"

definition rune2 :: "char \<Rightarrow> char \<Rightarrow> bool" where
  "rune2 a b \<longleftrightarrow> in_range 0xC2 0xDF a \<and> in_range 0x80 0xBF b"

definition rune3 :: "char \<Rightarrow> char \<Rightarrow> char \<Rightarrow> bool" where
  "rune3 a b c \<longleftrightarrow>
     in_range 0xE0 0xEF a \<and>
     in_range (if a = CHR 0xE0 then 0xA0 else 0x80) (if a = CHR 0xED then 0x9F else 0xBF) b \<and>
     in_range 0x80 0xBF c"

definition rune4 :: "char \<Rightarrow> char \<Rightarrow> char \<Rightarrow> char \<Rightarrow> bool" where
  "rune4 a b c d \<longleftrightarrow>
     in_range 0xF0 0xF4 a \<and>
     in_range (if a = CHR 0xF0 then 0x90 else 0x80) (if a = CHR 0xF4 then 0x8F else 0xBF) b \<and>
     in_range 0x80 0xBF c \<and> in_range 0x80 0xBF d"

text \<open>
  Length of the multi-byte rune at the head of a string as \<open>utf8.DecodeRune\<close> accepts it;
  0 when the bytes are not a valid encoding.
\<close>

fun rune_len :: "string \<Rightarrow> nat" where
  "rune_len (a # b # c # d # s) =
     (if rune2 a b then 2 else if rune3 a b c then 3 else if rune4 a b c d then 4 else 0)"
| "rune_len [a, b, c] = (if rune2 a b then 2 else if rune3 a b c then 3 else 0)"
| "rune_len [a, b] = (if rune2 a b then 2 else 0)"
| "rune_len s = 0"

lemma rune_len_le: "rune_len s \<le> length s"
  by (cases s rule: rune_len.cases) simp_all

lemma rune_len_prefix:
  assumes "rune_len s \<noteq> 0"
  obtains a b t where "s = a # b # t" "rune2 a b" "rune_len s = 2"
  | a b c t where "s = a # b # c # t" "\<not> rune2 a b" "rune3 a b c" "rune_len s = 3"
  | a b c d t where "s = a # b # c # d # t" "\<not> rune2 a b" "\<not> rune3 a b c" "rune4 a b c d" "rune_len s = 4"
  using assms by (cases s rule: rune_len.cases) (auto split: if_splits)

lemma rune_len2: "rune2 a b \<Longrightarrow> rune_len (a # b # t) = 2"
  by (cases "a # b # t" rule: rune_len.cases) simp_all

lemma rune_len3: "\<not> rune2 a b \<Longrightarrow> rune3 a b c \<Longrightarrow> rune_len (a # b # c # t) = 3"
  by (cases t) simp_all

lemma rune_len_take:
  assumes "rune_len s \<noteq> 0"
  shows "rune_len (take (rune_len s) s @ t) = rune_len s"
  using assms by (cases s rule: rune_len_prefix) (simp_all add: rune_len2 rune_len3)

function valid_utf8 :: "string \<Rightarrow> bool" where
  "valid_utf8 [] = True"
| "valid_utf8 (c # s) =
     (if (of_char c :: nat) < 128 then valid_utf8 s
      else let k = rune_len (c # s) in if k = 0 then False else valid_utf8 (drop k (c # s)))"
  by pat_completeness auto
termination
  by (relation "measure length") (auto simp: Let_def)

text \<open>UTF-8 encoding of a code point (\<open>utf8.AppendRune\<close>).\<close>

definition utf8_enc :: "nat \<Rightarrow> string" where
  "utf8_enc r =
     (if r < 0x80 then [char_of r]
      else if r < 0x800 then [char_of (0xC0 + r div 64), char_of (0x80 + r mod 64)]
      else if r < 0x10000 then
        [char_of (0xE0 + r div 4096), char_of (0x80 + r div 64 mod 64), char_of (0x80 + r mod 64)]
      else [char_of (0xF0 + r div 262144), char_of (0x80 + r div 4096 mod 64),
            char_of (0x80 + r div 64 mod 64), char_of (0x80 + r mod 64)])"

definition rune_error :: string where
  "rune_error = [CHR 0xEF, CHR 0xBF, CHR 0xBD]"

section \<open>String literals\<close>

definition hexd :: "nat \<Rightarrow> char" where
  "hexd n = (if n < 10 then char_of (48 + n) else char_of (87 + n))"

text \<open>\<open>appendString\<close> with HTML escaping on one ASCII byte.\<close>

definition esc_ascii :: "char \<Rightarrow> string" where
  "esc_ascii c =
     (if c = CHR 0x22 then [CHR 0x5C, CHR 0x22]
      else if c = CHR 0x5C then [CHR 0x5C, CHR 0x5C]
      else if c = CHR 0x08 then [CHR 0x5C, CHR ''b'']
      else if c = CHR 0x0C then [CHR 0x5C, CHR ''f'']
      else if c = CHR 0x0A then [CHR 0x5C, CHR ''n'']
      else if c = CHR 0x0D then [CHR 0x5C, CHR ''r'']
      else if c = CHR 0x09 then [CHR 0x5C, CHR ''t'']
      else if (of_char c :: nat) < 32 \<or> c = CHR ''<'' \<or> c = CHR ''>'' \<or> c = CHR 0x26
      then [CHR 0x5C, CHR ''u'', CHR ''0'', CHR ''0'', hexd (of_char c div 16), hexd (of_char c mod 16)]
      else [c])"

definition esc_rune :: "string \<Rightarrow> string" where
  "esc_rune r =
     (if r = [CHR 0xE2, CHR 0x80, CHR 0xA8] then [CHR 0x5C] @ ''u2028''
      else if r = [CHR 0xE2, CHR 0x80, CHR 0xA9] then [CHR 0x5C] @ ''u2029''
      else r)"

function escape :: "string \<Rightarrow> string" where
  "escape [] = []"
| "escape (c # s) =
     (if (of_char c :: nat) < 128 then esc_ascii c @ escape s
      else let k = rune_len (c # s) in
        if k = 0 then [CHR 0x5C] @ ''ufffd'' @ escape s
        else esc_rune (take k (c # s)) @ escape (drop k (c # s)))"
  by pat_completeness auto
termination
  by (relation "measure length") (auto simp: Let_def)

definition quote :: "string \<Rightarrow> string" where
  "quote s = [CHR 0x22] @ escape s @ [CHR 0x22]"

definition hex_val :: "char \<Rightarrow> nat option" where
  "hex_val c =
     (if in_range 48 57 c then Some (of_char c - 48)
      else if in_range 97 102 c then Some (of_char c - 87)
      else if in_range 65 70 c then Some (of_char c - 55)
      else None)"

text \<open>\<open>getu4\<close>: four hex digits.\<close>

fun read_u4 :: "string \<Rightarrow> (nat \<times> string) option" where
  "read_u4 (a # b # c # d # s) =
     (case (hex_val a, hex_val b, hex_val c, hex_val d) of
        (Some w, Some x, Some y, Some z) \<Rightarrow> Some (((w * 16 + x) * 16 + y) * 16 + z, s)
      | _ \<Rightarrow> None)"
| "read_u4 _ = None"

definition is_surrogate :: "nat \<Rightarrow> bool" where
  "is_surrogate r \<longleftrightarrow> 0xD800 \<le> r \<and> r < 0xE000"

text \<open>A \<open>\u\<close> escape, with the second half of a surrogate pair when it follows.\<close>

definition read_uescape :: "string \<Rightarrow> (string \<times> string) option" where
  "read_uescape s =
     (case read_u4 s of
        None \<Rightarrow> None
      | Some (r, t) \<Rightarrow>
          if \<not> is_surrogate r then Some (utf8_enc r, t)
          else case t of
            a # b # t' \<Rightarrow>
              (if a = CHR 0x5C \<and> b = CHR ''u'' then
                 (case read_u4 t' of
                    Some (r', t'') \<Rightarrow>
                      if r < 0xDC00 \<and> 0xDC00 \<le> r' \<and> r' < 0xE000
                      then Some (utf8_enc ((r - 0xD800) * 1024 + (r' - 0xDC00) + 0x10000), t'')
                      else Some (rune_error, t)
                  | None \<Rightarrow> Some (rune_error, t))
               else Some (rune_error, t))
          | _ \<Rightarrow> Some (rune_error, t))"

definition simple_escape :: "char \<Rightarrow> char option" where
  "simple_escape c =
     (if c \<in> {CHR 0x22, CHR 0x5C, CHR ''/''} then Some c
      else if c = CHR ''b'' then Some (CHR 0x08)
      else if c = CHR ''f'' then Some (CHR 0x0C)
      else if c = CHR ''n'' then Some (CHR 0x0A)
      else if c = CHR ''r'' then Some (CHR 0x0D)
      else if c = CHR ''t'' then Some (CHR 0x09)
      else None)"

lemma read_u4_shorter: "read_u4 s = Some (r, t) \<Longrightarrow> length t < length s"
  by (induction s rule: read_u4.induct) (auto split: option.splits prod.splits)

lemma read_uescape_shorter: "read_uescape s = Some (r, t) \<Longrightarrow> length t < length s"
  by (auto simp: read_uescape_def dest!: read_u4_shorter split: option.splits if_splits list.splits)

text \<open>The rest of a string literal after its opening quote.\<close>

function read_string :: "string \<Rightarrow> (string \<times> string) option" where
  "read_string [] = None"
| "read_string (c # s) =
     (if c = CHR 0x22 then Some ([], s)
      else if c = CHR 0x5C then
        (case s of
           [] \<Rightarrow> None
         | e # t \<Rightarrow>
             if e = CHR ''u'' then
               (case read_uescape t of
                  None \<Rightarrow> None
                | Some (r, t') \<Rightarrow> map_option (apfst ((@) r)) (read_string t'))
             else
               (case simple_escape e of
                  None \<Rightarrow> None
                | Some x \<Rightarrow> map_option (apfst ((#) x)) (read_string t)))
      else if (of_char c :: nat) < 32 then None
      else if (of_char c :: nat) < 128 then map_option (apfst ((#) c)) (read_string s)
      else let k = rune_len (c # s) in
        if k = 0 then map_option (apfst ((@) rune_error)) (read_string s)
        else map_option (apfst ((@) (take k (c # s)))) (read_string (drop k (c # s))))"
  by pat_completeness auto
termination
  by (relation "measure length") (auto simp: Let_def dest: read_uescape_shorter)

declare valid_utf8.simps(2) [simp del] escape.simps(2) [simp del] read_string.simps(2) [simp del]

lemma read_string_quote [simp]: "read_string (CHR 0x22 # s) = Some ([], s)"
  by (simp add: read_string.simps(2))

lemma read_string_escaped:
  "simple_escape e = Some x \<Longrightarrow> e \<noteq> CHR ''u'' \<Longrightarrow>
   read_string (CHR 0x5C # e # t) = map_option (apfst ((#) x)) (read_string t)"
  by (simp add: read_string.simps(2) [of "CHR 0x5C"])

lemma read_string_uescaped:
  "read_uescape u = Some (r, t) \<Longrightarrow>
   read_string (CHR 0x5C # CHR ''u'' # u) = map_option (apfst ((@) r)) (read_string t)"
  by (simp add: read_string.simps(2) [of "CHR 0x5C"])

lemma hex_val_hexd [simp]: "n < 16 \<Longrightarrow> hex_val (hexd n) = Some n"
  by (simp add: hex_val_def hexd_def in_range_def)

lemma hex_val_0 [simp]: "hex_val (CHR ''0'') = Some 0"
  by (simp add: hex_val_def in_range_def)

lemma read_uescape_00:
  assumes "(of_char c :: nat) < 128"
  shows "read_uescape (CHR ''0'' # CHR ''0'' # hexd (of_char c div 16) # hexd (of_char c mod 16) # t)
     = Some ([c], t)"
proof -
  have "(of_char c :: nat) div 16 < 16" using assms by simp
  then have "read_u4 (CHR ''0'' # CHR ''0'' # hexd (of_char c div 16) # hexd (of_char c mod 16) # t)
      = Some (of_char c, t)"
    by simp
  then show ?thesis using assms by (simp add: read_uescape_def is_surrogate_def utf8_enc_def)
qed

lemma read_string_plain:
  "c \<noteq> CHR 0x22 \<Longrightarrow> c \<noteq> CHR 0x5C \<Longrightarrow> \<not> (of_char c :: nat) < 32 \<Longrightarrow> (of_char c :: nat) < 128 \<Longrightarrow>
   read_string (c # t) = map_option (apfst ((#) c)) (read_string t)"
  by (simp add: read_string.simps(2) [of c])

lemma read_string_esc_ascii:
  assumes "(of_char c :: nat) < 128"
  shows "read_string (esc_ascii c @ t) = map_option (apfst ((#) c)) (read_string t)"
proof -
  have one: "(@) [c] = (#) c" by (rule ext) simp
  have u: "read_string (CHR 0x5C # CHR ''u'' # CHR ''0'' # CHR ''0'' # hexd (of_char c div 16)
      # hexd (of_char c mod 16) # t) = map_option (apfst ((#) c)) (read_string t)"
    using read_string_uescaped [OF read_uescape_00 [OF assms]]
    unfolding one by simp
  have e: "simple_escape (CHR 0x22) = Some (CHR 0x22)" "simple_escape (CHR 0x5C) = Some (CHR 0x5C)"
    "simple_escape (CHR ''b'') = Some (CHR 0x08)" "simple_escape (CHR ''f'') = Some (CHR 0x0C)"
    "simple_escape (CHR ''n'') = Some (CHR 0x0A)" "simple_escape (CHR ''r'') = Some (CHR 0x0D)"
    "simple_escape (CHR ''t'') = Some (CHR 0x09)"
    by (simp_all add: simple_escape_def)
  show ?thesis
    unfolding esc_ascii_def using u assms
    by (simp add: e read_string_escaped read_string_plain)
qed

lemma read_uescape_2028: "read_uescape (''2028'' @ t) = Some ([CHR 0xE2, CHR 0x80, CHR 0xA8], t)"
  and read_uescape_2029: "read_uescape (''2029'' @ t) = Some ([CHR 0xE2, CHR 0x80, CHR 0xA9], t)"
  by (simp_all add: read_uescape_def hex_val_def in_range_def is_surrogate_def utf8_enc_def char_of_def bit_0)

lemma rune_len_ge2: "rune_len s \<noteq> 0 \<Longrightarrow> 2 \<le> rune_len s"
  by (cases s rule: rune_len_prefix) simp_all

lemma read_string_esc_rune:
  assumes "\<not> (of_char c :: nat) < 128" and "rune_len (c # s) = k" and "k \<noteq> 0"
  shows "read_string (esc_rune (take k (c # s)) @ t)
     = map_option (apfst ((@) (take k (c # s)))) (read_string t)"
proof -
  have ls: "k \<le> length (c # s)" using rune_len_le [of "c # s"] assms(2) by simp
  obtain r where r: "take k (c # s) = c # r" using assms(3) by (cases k) auto
  then have len: "length (c # r) = k" using ls by (metis length_take min.absorb2)
  have "rune_len (c # r @ t) = k"
    using rune_len_take [of "c # s" t] assms r by simp
  moreover have "c \<noteq> CHR 0x22" "c \<noteq> CHR 0x5C" using assms(1) by auto
  moreover have "take k (c # r @ t) = c # r" "drop k (c # r @ t) = t"
    using len by auto
  ultimately have plain: "read_string (c # r @ t) = map_option (apfst ((@) (c # r))) (read_string t)"
    using assms(1,3) by (simp add: read_string.simps(2) [of c])
  show ?thesis
    unfolding esc_rune_def r
    using plain read_string_uescaped [OF read_uescape_2028] read_string_uescaped [OF read_uescape_2029]
    by simp
qed

lemma read_string_escape:
  "valid_utf8 s \<Longrightarrow> read_string (escape s @ CHR 0x22 # rest) = Some (s, rest)"
proof (induction s rule: escape.induct)
  case 1
  then show ?case by simp
next
  case (2 c s)
  show ?case
  proof (cases "(of_char c :: nat) < 128")
    case True
    then show ?thesis
      using 2 by (simp add: escape.simps(2) valid_utf8.simps(2) read_string_esc_ascii)
  next
    case False
    define k where "k = rune_len (c # s)"
    have k: "k \<noteq> 0" and v: "valid_utf8 (drop k (c # s))"
      using False 2(4) by (auto simp: valid_utf8.simps(2) k_def Let_def split: if_splits)
    have "read_string (escape (drop k (c # s)) @ CHR 0x22 # rest) = Some (drop k (c # s), rest)"
      using 2(3) False k v by (simp add: k_def)
    moreover have "escape (c # s) = esc_rune (take k (c # s)) @ escape (drop k (c # s))"
      using False k by (simp add: escape.simps(2) k_def Let_def)
    ultimately show ?thesis
      using read_string_esc_rune [OF False k_def [symmetric] k] by simp
  qed
qed

section \<open>Base64\<close>

text \<open>The standard alphabet: \<open>A\<close> to \<open>Z\<close>, \<open>a\<close> to \<open>z\<close>, \<open>0\<close> to \<open>9\<close>, \<open>+\<close> and \<open>/\<close>.\<close>

definition b64_char :: "nat \<Rightarrow> char" where
  "b64_char n =
     char_of (if n < 26 then n + 65 else if n < 52 then n + 71 else if n < 62 then n - 4
              else if n = 62 then 43 else 47)"

definition b64_val :: "char \<Rightarrow> nat option" where
  "b64_val c =
     (let n = of_char c in
      if 65 \<le> n \<and> n \<le> 90 then Some (n - 65)
      else if 97 \<le> n \<and> n \<le> 122 then Some (n - 71)
      else if 48 \<le> n \<and> n \<le> 57 then Some (n + 4)
      else if n = 43 then Some 62
      else if n = 47 then Some 63
      else None)"

definition b64_pad :: char where
  "b64_pad = CHR 0x3D"

fun b64_enc :: "nat list \<Rightarrow> string" where
  "b64_enc [] = []"
| "b64_enc [a] = [b64_char (a div 4), b64_char (a mod 4 * 16), b64_pad, b64_pad]"
| "b64_enc [a, b] =
     [b64_char (a div 4), b64_char (a mod 4 * 16 + b div 16), b64_char (b mod 16 * 4), b64_pad]"
| "b64_enc (a # b # c # r) =
     [b64_char (a div 4), b64_char (a mod 4 * 16 + b div 16),
      b64_char (b mod 16 * 4 + c div 64), b64_char (c mod 64)] @ b64_enc r"

text \<open>
  \<open>base64.StdEncoding.Decode\<close> after its line breaks are dropped: whole quanta, padding only in
  the last one, unused trailing bits ignored.
\<close>

fun b64_dec :: "string \<Rightarrow> nat list option" where
  "b64_dec [] = Some []"
| "b64_dec (p # q # s # t # r) =
     (case (b64_val p, b64_val q) of
        (Some a, Some b) \<Rightarrow>
          if t = b64_pad then
            (if r \<noteq> [] then None
             else if s = b64_pad then Some [a * 4 + b div 16]
             else case b64_val s of
               None \<Rightarrow> None
             | Some c \<Rightarrow> Some [a * 4 + b div 16, b mod 16 * 16 + c div 4])
          else
            (case (b64_val s, b64_val t) of
               (Some c, Some d) \<Rightarrow>
                 map_option (\<lambda>bs. (a * 4 + b div 16) # (b mod 16 * 16 + c div 4) # (c mod 4 * 64 + d) # bs)
                   (b64_dec r)
             | _ \<Rightarrow> None)
      | _ \<Rightarrow> None)"
| "b64_dec _ = None"

definition b64_of_bytes :: "bytes \<Rightarrow> string" where
  "b64_of_bytes bs = b64_enc (map unat bs)"

definition bytes_of_b64 :: "string \<Rightarrow> bytes option" where
  "bytes_of_b64 s =
     map_option (map word_of_nat) (b64_dec (filter (\<lambda>c. c \<noteq> CHR 0x0A \<and> c \<noteq> CHR 0x0D) s))"

lemma of_char_b64:
  "(of_char (b64_char n) :: nat) =
     (if n < 26 then n + 65 else if n < 52 then n + 71 else if n < 62 then n - 4
      else if n = 62 then 43 else 47)"
  by (simp add: b64_char_def)

lemma b64_char_props:
  assumes "n < 64"
  shows "b64_val (b64_char n) = Some n" "b64_char n \<noteq> b64_pad" "b64_char n \<noteq> CHR 0x0A"
    "b64_char n \<noteq> CHR 0x0D" "(of_char (b64_char n) :: nat) < 128"
proof -
  show "b64_val (b64_char n) = Some n"
    using assms by (auto simp: b64_val_def of_char_b64 Let_def)
  show "(of_char (b64_char n) :: nat) < 128" by (auto simp: of_char_b64)
  have "(of_char (b64_char n) :: nat) \<notin> {10, 13, 61}" by (auto simp: of_char_b64)
  then show "b64_char n \<noteq> b64_pad" "b64_char n \<noteq> CHR 0x0A" "b64_char n \<noteq> CHR 0x0D"
    by (auto simp: b64_pad_def)
qed

lemma b64_bounds:
  assumes "a < (256 :: nat)" "b < (256 :: nat)" "c < (256 :: nat)"
  shows "a div 4 < 64" "a mod 4 * 16 < 64" "a mod 4 * 16 + b div 16 < 64" "b mod 16 * 4 < 64"
    "b mod 16 * 4 + c div 64 < 64" "c mod 64 < 64"
  using assms by linarith+

lemma b64_regroup:
  assumes "a < (256 :: nat)" "b < (256 :: nat)" "c < (256 :: nat)"
  shows "a div 4 * 4 + a mod 4 * 16 div 16 = a" "a div 4 * 4 + (a mod 4 * 16 + b div 16) div 16 = a"
    "(a mod 4 * 16 + b div 16) mod 16 * 16 + b mod 16 * 4 div 4 = b"
    "(a mod 4 * 16 + b div 16) mod 16 * 16 + (b mod 16 * 4 + c div 64) div 4 = b"
    "(b mod 16 * 4 + c div 64) mod 4 * 64 + c mod 64 = c"
proof -
  have m: "a mod 4 * 16 div 16 = a mod 4" "b mod 16 * 4 div 4 = b mod 16" by simp_all
  have d: "(a mod 4 * 16 + b div 16) div 16 = a mod 4" "(a mod 4 * 16 + b div 16) mod 16 = b div 16"
    "(b mod 16 * 4 + c div 64) div 4 = b mod 16" "(b mod 16 * 4 + c div 64) mod 4 = c div 64"
    using assms by simp_all
  show "a div 4 * 4 + a mod 4 * 16 div 16 = a" "a div 4 * 4 + (a mod 4 * 16 + b div 16) div 16 = a"
    "(a mod 4 * 16 + b div 16) mod 16 * 16 + b mod 16 * 4 div 4 = b"
    "(a mod 4 * 16 + b div 16) mod 16 * 16 + (b mod 16 * 4 + c div 64) div 4 = b"
    "(b mod 16 * 4 + c div 64) mod 4 * 64 + c mod 64 = c"
    unfolding d m by (rule div_mult_mod_eq)+
qed

lemma b64_dec_enc: "list_all (\<lambda>n. n < 256) bs \<Longrightarrow> b64_dec (b64_enc bs) = Some bs"
proof (induction bs rule: b64_enc.induct)
  case 1
  then show ?case by simp
next
  case (2 a)
  then have "a < 256" by simp
  note b = b64_bounds [OF this this this] and g = b64_regroup [OF this this this]
  show ?case
    by (simp only: b64_enc.simps b64_dec.simps b64_char_props(1) [OF b(1)] b64_char_props(1) [OF b(2)]
        g prod.case option.case if_True not_True_eq_False if_False refl)
next
  case (3 a b)
  then have ab: "a < 256" "b < 256" by simp_all
  note bd = b64_bounds [OF ab ab(2)] and g = b64_regroup [OF ab ab(2)]
  show ?case
    by (simp only: b64_enc.simps b64_dec.simps b64_char_props [OF bd(1)] b64_char_props [OF bd(3)]
        b64_char_props [OF bd(4)] g prod.case option.case if_True not_True_eq_False if_False refl)
next
  case (4 a b c r)
  then have abc: "a < 256" "b < 256" "c < 256" and "b64_dec (b64_enc r) = Some r" by simp_all
  note bd = b64_bounds [OF abc] and g = b64_regroup [OF abc]
  show ?case
    by (simp only: b64_enc.simps append_Cons append_Nil b64_dec.simps b64_char_props [OF bd(1)]
        b64_char_props [OF bd(3)] b64_char_props [OF bd(5)] b64_char_props [OF bd(6)] g \<open>b64_dec (b64_enc r) = Some r\<close>
        prod.case option.case if_True not_True_eq_False if_False refl option.map)
qed

lemma b64_enc_chars:
  "list_all (\<lambda>n. n < 256) bs \<Longrightarrow>
   list_all (\<lambda>c. c \<noteq> CHR 0x0A \<and> c \<noteq> CHR 0x0D \<and> (of_char c :: nat) < 128) (b64_enc bs)"
proof (induction bs rule: b64_enc.induct)
  case 1
  then show ?case by simp
next
  case (2 a)
  then have "a < 256" by simp
  note b = b64_bounds [OF this this this]
  show ?case
    by (simp add: b64_char_props [OF b(1)] b64_char_props [OF b(2)]) (simp add: b64_pad_def)
next
  case (3 a b)
  then have ab: "a < 256" "b < 256" by simp_all
  note bd = b64_bounds [OF ab ab(2)]
  show ?case
    by (simp add: b64_char_props [OF bd(1)] b64_char_props [OF bd(3)] b64_char_props [OF bd(4)])
      (simp add: b64_pad_def)
next
  case (4 a b c r)
  then have abc: "a < 256" "b < 256" "c < 256" by simp_all
  note bd = b64_bounds [OF abc]
  show ?case
    using 4 by (simp add: b64_char_props [OF bd(1)] b64_char_props [OF bd(3)] b64_char_props [OF bd(5)]
        b64_char_props [OF bd(6)])
qed

lemma bytes_of_b64_of_bytes [simp]: "bytes_of_b64 (b64_of_bytes bs) = Some bs"
proof -
  have b: "list_all (\<lambda>n. n < 256) (map unat bs)"
    by (simp add: list_all_iff unat_byte_less)
  have "filter (\<lambda>c. c \<noteq> CHR 0x0A \<and> c \<noteq> CHR 0x0D) (b64_of_bytes bs) = b64_of_bytes bs"
    using b64_enc_chars [OF b] by (auto simp: filter_id_conv list_all_iff b64_of_bytes_def)
  then show ?thesis
    using b64_dec_enc [OF b] by (simp add: bytes_of_b64_def b64_of_bytes_def comp_def)
qed

lemma ascii_valid_utf8: "list_all (\<lambda>c. (of_char c :: nat) < 128) s \<Longrightarrow> valid_utf8 s"
  by (induction s) (auto simp: valid_utf8.simps(2))

lemma b64_valid_utf8 [simp]: "valid_utf8 (b64_of_bytes bs)"
proof -
  have "list_all (\<lambda>n. n < 256) (map unat bs)"
    by (simp add: list_all_iff unat_byte_less)
  from b64_enc_chars [OF this] show ?thesis
    by (intro ascii_valid_utf8) (auto simp: list_all_iff b64_of_bytes_def)
qed

section \<open>Documents\<close>

text \<open>Numbers keep their literal, as the Go decoder does until it knows the target type.\<close>

datatype json =
    JNull
  | JBool bool
  | JNum string
  | JStr string
  | JArr "json list"
  | JObj "(string \<times> json) list"

fun json_text :: "json \<Rightarrow> string"
and elems_text :: "json list \<Rightarrow> string"
and fields_text :: "(string \<times> json) list \<Rightarrow> string" where
  "json_text JNull = ''null''"
| "json_text (JBool b) = (if b then ''true'' else ''false'')"
| "json_text (JNum l) = l"
| "json_text (JStr s) = quote s"
| "json_text (JArr js) = CHR ''['' # elems_text js @ '']''"
| "json_text (JObj fs) = CHR ''{'' # fields_text fs @ ''}''"
| "elems_text [] = []"
| "elems_text [j] = json_text j"
| "elems_text (j # js) = json_text j @ CHR '','' # elems_text js"
| "fields_text [] = []"
| "fields_text [(k, j)] = quote k @ CHR '':'' # json_text j"
| "fields_text ((k, j) # fs) = quote k @ CHR '':'' # json_text j @ CHR '','' # fields_text fs"

definition is_ws :: "char \<Rightarrow> bool" where
  "is_ws c \<longleftrightarrow> c = CHR '' '' \<or> c = CHR 0x09 \<or> c = CHR 0x0A \<or> c = CHR 0x0D"

definition skip_ws :: "string \<Rightarrow> string" where
  "skip_ws = dropWhile is_ws"

text \<open>The integer part, an optional fraction and an optional exponent of a number literal.\<close>

definition read_digits1 :: "string \<Rightarrow> (string \<times> string) option" where
  "read_digits1 s = (if takeWhile is_digit s = [] then None else Some (takeWhile is_digit s, dropWhile is_digit s))"

definition read_intpart :: "string \<Rightarrow> (string \<times> string) option" where
  "read_intpart s =
     (case s of
        [] \<Rightarrow> None
      | c # r \<Rightarrow> if c = CHR ''0'' then Some ([c], r) else read_digits1 s)"

definition read_frac :: "string \<Rightarrow> (string \<times> string) option" where
  "read_frac s =
     (case s of
        [] \<Rightarrow> Some ([], s)
      | c # r \<Rightarrow> if c = CHR ''.'' then map_option (apfst ((#) c)) (read_digits1 r) else Some ([], s))"

definition read_exp :: "string \<Rightarrow> (string \<times> string) option" where
  "read_exp s =
     (case s of
        [] \<Rightarrow> Some ([], s)
      | c # r \<Rightarrow>
          if c = CHR ''e'' \<or> c = CHR ''E'' then
            (case r of
               [] \<Rightarrow> None
             | d # t \<Rightarrow>
                 if d = CHR ''+'' \<or> d = CHR ''-''
                 then map_option (apfst (\<lambda>ds. c # d # ds)) (read_digits1 t)
                 else map_option (apfst ((#) c)) (read_digits1 r))
          else Some ([], s))"

definition read_unsigned :: "string \<Rightarrow> (string \<times> string) option" where
  "read_unsigned s =
     (case read_intpart s of
        None \<Rightarrow> None
      | Some (i, s1) \<Rightarrow>
          (case read_frac s1 of
             None \<Rightarrow> None
           | Some (f, s2) \<Rightarrow> map_option (apfst (\<lambda>e. i @ f @ e)) (read_exp s2)))"

definition read_number :: "string \<Rightarrow> (string \<times> string) option" where
  "read_number s =
     (case s of
        [] \<Rightarrow> None
      | c # r \<Rightarrow>
          if c = CHR ''-'' then map_option (apfst ((#) c)) (read_unsigned r) else read_unsigned s)"

fun p_value :: "nat \<Rightarrow> string \<Rightarrow> (json \<times> string) option"
and p_elems :: "nat \<Rightarrow> string \<Rightarrow> (json list \<times> string) option"
and p_fields :: "nat \<Rightarrow> string \<Rightarrow> ((string \<times> json) list \<times> string) option" where
  "p_value 0 s = None"
| "p_value (Suc n) s =
     (case skip_ws s of
        [] \<Rightarrow> None
      | c # r \<Rightarrow>
          if c = CHR ''{'' then
            (case skip_ws r of
               [] \<Rightarrow> None
             | d # t \<Rightarrow> if d = CHR ''}'' then Some (JObj [], t)
                        else map_option (apfst JObj) (p_fields n (d # t)))
          else if c = CHR ''['' then
            (case skip_ws r of
               [] \<Rightarrow> None
             | d # t \<Rightarrow> if d = CHR '']'' then Some (JArr [], t)
                        else map_option (apfst JArr) (p_elems n (d # t)))
          else if c = CHR 0x22 then map_option (apfst JStr) (read_string r)
          else if take 4 (c # r) = ''null'' then Some (JNull, drop 4 (c # r))
          else if take 4 (c # r) = ''true'' then Some (JBool True, drop 4 (c # r))
          else if take 5 (c # r) = ''false'' then Some (JBool False, drop 5 (c # r))
          else map_option (apfst JNum) (read_number (c # r)))"
| "p_elems 0 s = None"
| "p_elems (Suc n) s =
     (case p_value n s of
        None \<Rightarrow> None
      | Some (v, r) \<Rightarrow>
          (case skip_ws r of
             [] \<Rightarrow> None
           | c # t \<Rightarrow> if c = CHR '','' then map_option (apfst ((#) v)) (p_elems n t)
                      else if c = CHR '']'' then Some ([v], t) else None))"
| "p_fields 0 s = None"
| "p_fields (Suc n) s =
     (case skip_ws s of
        [] \<Rightarrow> None
      | q # r \<Rightarrow>
          if q \<noteq> CHR 0x22 then None
          else case read_string r of
            None \<Rightarrow> None
          | Some (k, r1) \<Rightarrow>
              (case skip_ws r1 of
                 [] \<Rightarrow> None
               | a # r2 \<Rightarrow>
                   if a \<noteq> CHR '':'' then None
                   else case p_value n r2 of
                     None \<Rightarrow> None
                   | Some (v, r3) \<Rightarrow>
                       (case skip_ws r3 of
                          [] \<Rightarrow> None
                        | b # t \<Rightarrow>
                            if b = CHR '','' then map_option (apfst ((#) (k, v))) (p_fields n t)
                            else if b = CHR ''}'' then Some ([(k, v)], t) else None)))"

text \<open>
  Every recursive call that does not consume a character is followed by one that does, so the
  length of the text is enough fuel; \<open>json_parse_text\<close> below shows it for every printed document.
\<close>

definition json_parse :: "string \<Rightarrow> json option" where
  "json_parse s =
     (case p_value (Suc (length s)) s of
        Some (j, r) \<Rightarrow> if skip_ws r = [] then Some j else None
      | None \<Rightarrow> None)"

definition int_literal :: "string \<Rightarrow> bool" where
  "int_literal l \<longleftrightarrow> (case read_int l of Some i \<Rightarrow> show_int i = l | None \<Rightarrow> False)"

fun valid_json :: "json \<Rightarrow> bool" where
  "valid_json (JNum l) = int_literal l"
| "valid_json (JStr s) = valid_utf8 s"
| "valid_json (JArr js) = list_all valid_json js"
| "valid_json (JObj fs) = list_all (\<lambda>(k, j). valid_utf8 k \<and> valid_json j) fs"
| "valid_json _ = True"

section \<open>Parsing inverts printing\<close>

definition ends_value :: "string \<Rightarrow> bool" where
  "ends_value s \<longleftrightarrow> (case s of [] \<Rightarrow> True | c # _ \<Rightarrow> c \<in> {CHR '','', CHR '']'', CHR ''}''})"

lemma ends_value_simps [simp]:
  "ends_value []" "ends_value (c # s) \<longleftrightarrow> c \<in> {CHR '','', CHR '']'', CHR ''}''}"
  by (simp_all add: ends_value_def)

lemma ends_value_not_digit: "ends_value s \<Longrightarrow> takeWhile is_digit s = [] \<and> dropWhile is_digit s = s"
  by (cases s) (auto simp: is_digit_def)

lemma read_digits1_append:
  "list_all is_digit ds \<Longrightarrow> ds \<noteq> [] \<Longrightarrow> ends_value s \<Longrightarrow> read_digits1 (ds @ s) = Some (ds, s)"
  using ends_value_not_digit [of s]
  by (simp add: read_digits1_def list_all_iff takeWhile_append dropWhile_append)

lemma read_frac_end: "ends_value s \<Longrightarrow> read_frac s = Some ([], s)"
  by (auto simp: read_frac_def split: list.splits)

lemma read_exp_end: "ends_value s \<Longrightarrow> read_exp s = Some ([], s)"
  by (auto simp: read_exp_def split: list.splits)

lemma show_nat_head: "0 < n \<Longrightarrow> hd (show_nat n) \<noteq> CHR ''0''"
proof (induction n rule: show_nat.induct)
  case (1 n)
  show ?case
  proof (cases "n < 10")
    case True
    then have "(of_char (digit n) :: nat) \<noteq> of_char (CHR ''0'')" using 1 by simp
    then have "digit n \<noteq> CHR ''0''" by (intro notI) (simp only: not_True_eq_False)
    then show ?thesis using True by (simp add: show_nat.simps [of n])
  next
    case False
    then show ?thesis using 1 by (simp add: show_nat.simps [of n])
  qed
qed

lemma show_nat_0 [simp]: "show_nat 0 = ''0''"
  by (simp add: show_nat.simps [of 0] digit_def char_of_def bit_0)

lemma read_intpart_show: "ends_value s \<Longrightarrow> read_intpart (show_nat n @ s) = Some (show_nat n, s)"
proof (cases "n = 0")
  case False
  assume e: "ends_value s"
  obtain c r where cr: "show_nat n = c # r" by (cases "show_nat n") auto
  have "c \<noteq> CHR ''0''" using show_nat_head [of n] False cr by simp
  then show ?thesis
    using read_digits1_append [OF show_nat_digits [of n] _ e] by (simp add: read_intpart_def cr)
qed (simp add: read_intpart_def)

lemma read_unsigned_show: "ends_value s \<Longrightarrow> read_unsigned (show_nat n @ s) = Some (show_nat n, s)"
  by (simp add: read_unsigned_def read_intpart_show read_frac_end read_exp_end)

lemma show_nat_Cons: obtains c r where "show_nat n = c # r" "is_digit c"
  using show_nat_digits [of n] by (cases "show_nat n") auto

lemma show_int_Cons: obtains c r where "show_int i = c # r" "is_digit c \<or> c = CHR ''-''"
  by (cases "i < 0") (auto simp: show_int_def intro: show_nat_Cons [of "nat i"])

lemma read_number_show:
  assumes "ends_value s"
  shows "read_number (show_int i @ s) = Some (show_int i, s)"
proof (cases "i < 0")
  case True
  then show ?thesis using assms by (simp add: read_number_def show_int_def read_unsigned_show)
next
  case False
  obtain c r where cr: "show_nat (nat i) = c # r" "is_digit c" by (rule show_nat_Cons)
  then have "c \<noteq> CHR ''-''" by auto
  then show ?thesis
    using False cr read_unsigned_show [OF assms, of "nat i"]
    by (simp add: read_number_def show_int_def)
qed

definition plain_head :: "char \<Rightarrow> bool" where
  "plain_head c \<longleftrightarrow> is_digit c \<or> c = CHR ''-''"

lemma plain_head_neq:
  "plain_head c \<Longrightarrow> \<not> is_ws c \<and> c \<noteq> CHR ''{'' \<and> c \<noteq> CHR ''['' \<and> c \<noteq> CHR 0x22 \<and> c \<noteq> CHR ''n'' \<and>
   c \<noteq> CHR ''t'' \<and> c \<noteq> CHR ''f'' \<and> c \<noteq> CHR '']'' \<and> c \<noteq> CHR ''}''"
  by (auto simp: plain_head_def is_digit_def is_ws_def)

lemma int_literalE:
  assumes "int_literal l"
  obtains i c r where "l = show_int i" "l = c # r" "plain_head c"
proof -
  obtain i where "l = show_int i" using assms by (auto simp: int_literal_def split: option.splits)
  then show ?thesis using that by (metis show_int_Cons plain_head_def)
qed

lemma int_literal_show [simp]: "int_literal (show_int i)"
  by (simp add: int_literal_def)

lemma json_head:
  assumes "valid_json j"
  obtains c r where "json_text j = c # r" "\<not> is_ws c" "c \<noteq> CHR '']''"
proof (cases j)
  case (JNum l)
  then have "int_literal l" using assms by simp
  then obtain c r where "l = c # r" "plain_head c" by (rule int_literalE)
  then show ?thesis using that [of c r] plain_head_neq [of c] JNum by simp
next
  case (JBool b)
  then show ?thesis using that by (cases b) (auto simp: is_ws_def)
qed (use that in \<open>auto simp: quote_def is_ws_def\<close>)

lemma skip_ws_id [simp]: "\<not> is_ws c \<Longrightarrow> skip_ws (c # s) = c # s"
  by (simp add: skip_ws_def)

lemma skip_ws_Nil [simp]: "skip_ws [] = []"
  by (simp add: skip_ws_def)

lemma not_ws [simp]:
  "\<not> is_ws (CHR ''{'')" "\<not> is_ws (CHR ''['')" "\<not> is_ws (CHR 0x22)" "\<not> is_ws (CHR ''n'')"
  "\<not> is_ws (CHR ''t'')" "\<not> is_ws (CHR ''f'')" "\<not> is_ws (CHR '','')" "\<not> is_ws (CHR '':'')"
  "\<not> is_ws (CHR ''}'')" "\<not> is_ws (CHR '']'')"
  by (simp_all add: is_ws_def)

lemma p_value_num:
  assumes "int_literal l" and "ends_value s"
  shows "p_value (Suc n) (l @ s) = Some (JNum l, s)"
proof -
  obtain i c r where l: "l = show_int i" "l = c # r" "plain_head c" using assms(1) by (rule int_literalE)
  have "read_number (l @ s) = Some (l, s)" unfolding l(1) by (rule read_number_show [OF assms(2)])
  then have "read_number (c # r @ s) = Some (l, s)" using l(2) by simp
  then show ?thesis using plain_head_neq [OF l(3)] l(2) by simp
qed

lemma p_value_str: "valid_utf8 t \<Longrightarrow> p_value (Suc n) (quote t @ s) = Some (JStr t, s)"
  by (simp add: quote_def read_string_escape)

lemma p_value_text:
  shows "valid_json j \<Longrightarrow> length (json_text j) \<le> n \<Longrightarrow> ends_value s \<Longrightarrow>
           p_value n (json_text j @ s) = Some (j, s)"
    and "js \<noteq> [] \<Longrightarrow> list_all valid_json js \<Longrightarrow> length (elems_text js) < n \<Longrightarrow>
           p_elems n (elems_text js @ CHR '']'' # s) = Some (js, s)"
    and "fs \<noteq> [] \<Longrightarrow> list_all (\<lambda>(k, j). valid_utf8 k \<and> valid_json j) fs \<Longrightarrow>
           length (fields_text fs) \<le> n \<Longrightarrow>
           p_fields n (fields_text fs @ CHR ''}'' # s) = Some (fs, s)"
proof (induction j and js and fs arbitrary: n s and n s and n s
    rule: json_text_elems_text_fields_text.induct)
  case 1
  then show ?case by (cases n) simp_all
next
  case (2 b)
  then show ?case by (cases n; cases b) simp_all
next
  case (3 l)
  then have "l \<noteq> []" by (auto simp: int_literal_def read_int_def)
  with 3 show ?case by (cases n) (simp_all add: p_value_num del: p_value.simps(2))
next
  case (4 t)
  then show ?case by (cases n) (simp add: quote_def, simp add: p_value_str del: p_value.simps(2))
next
  case (5 js)
  show ?case
  proof (cases js)
    case Nil
    then show ?thesis using 5 by (cases n) simp_all
  next
    case (Cons j js')
    obtain m where m: "n = Suc m" using 5 by (cases n) auto
    obtain c r where cr: "elems_text js = c # r" "\<not> is_ws c" "c \<noteq> CHR '']''"
    proof -
      obtain c r where "json_text j = c # r" "\<not> is_ws c" "c \<noteq> CHR '']''"
        using json_head [of j] 5(2) Cons by auto
      then show ?thesis using that Cons by (cases js') auto
    qed
    have "p_elems m (elems_text js @ CHR '']'' # s) = Some (js, s)"
      using 5 m Cons by simp
    then show ?thesis using m cr by simp
  qed
next
  case (6 fs)
  show ?case
  proof (cases fs)
    case Nil
    then show ?thesis using 6 by (cases n) simp_all
  next
    case (Cons kj fs')
    obtain m where m: "n = Suc m" using 6 by (cases n) auto
    obtain r where cr: "fields_text fs = CHR 0x22 # r"
      using Cons by (cases kj; cases fs') (auto simp: quote_def)
    have "p_fields m (fields_text fs @ CHR ''}'' # s) = Some (fs, s)"
      using 6 m Cons by simp
    then show ?thesis using m cr by simp
  qed
next
  case 7
  then show ?case by simp
next
  case (8 j)
  then show ?case by (cases n) simp_all
next
  case (9 j v va)
  then show ?case by (cases n) simp_all
next
  case 10
  then show ?case by simp
next
  case (11 k j)
  then show ?case by (cases n) (simp_all add: quote_def read_string_escape)
next
  case (12 k j v va)
  then show ?case by (cases n) (simp_all add: quote_def read_string_escape)
qed

lemma json_parse_text: "valid_json j \<Longrightarrow> json_parse (json_text j) = Some j"
  using p_value_text(1) [of j "Suc (length (json_text j))" "[]"] by (simp add: json_parse_def)

section \<open>Assignment to Go values\<close>

text \<open>
  A Go \<open>map[string]V\<close> is kept as an association list with strictly increasing keys, the order
  \<open>json.Marshal\<close> writes it in, so that equal maps are equal lists.
\<close>

fun map_put :: "'k::linorder \<Rightarrow> 'v \<Rightarrow> ('k \<times> 'v) list \<Rightarrow> ('k \<times> 'v) list" where
  "map_put k v [] = [(k, v)]"
| "map_put k v ((a, b) # m) =
     (if k < a then (k, v) # (a, b) # m
      else if k = a then (k, v) # m
      else (a, b) # map_put k v m)"

definition map_sorted :: "('k::linorder \<times> 'v) list \<Rightarrow> bool" where
  "map_sorted m \<longleftrightarrow> sorted_wrt (<) (map fst m)"

lemma set_keys_map_put: "set (map fst (map_put k v m)) = insert k (set (map fst m))"
  by (induction k v m rule: map_put.induct) auto

lemma map_sorted_put: "map_sorted m \<Longrightarrow> map_sorted (map_put k v m)"
proof (induction k v m rule: map_put.induct)
  case (2 k v a b m)
  then show ?case
    using set_keys_map_put [of k v m]
    by (auto simp: map_sorted_def dest: order.strict_trans)
qed (simp add: map_sorted_def)

lemma map_of_map_put: "map_sorted m \<Longrightarrow> map_of (map_put k v m) = (map_of m)(k \<mapsto> v)"
proof (induction k v m rule: map_put.induct)
  case (2 k v a b m)
  then show ?case by (auto simp: map_sorted_def fun_eq_iff)
qed auto

lemma map_put_last: "list_all (\<lambda>(a, _). a < k) m \<Longrightarrow> map_put k v m = m @ [(k, v)]"
  by (induction k v m rule: map_put.induct) auto

text \<open>
  Field names match after Unicode simple folding: ASCII letters without case, and the two
  non-ASCII runes that fold to an ASCII letter (U+017F and U+212A).
\<close>

definition lower :: "char \<Rightarrow> char" where
  "lower c = (if in_range 65 90 c then char_of ((of_char c :: nat) + 32) else c)"

fun fold_name :: "string \<Rightarrow> string" where
  "fold_name (a # b # c # s) =
     (if a = CHR 0xE2 \<and> b = CHR 0x84 \<and> c = CHR 0xAA then CHR ''k'' # fold_name s
      else if a = CHR 0xC5 \<and> b = CHR 0xBF then CHR ''s'' # fold_name (c # s)
      else lower a # fold_name (b # c # s))"
| "fold_name [a, b] =
     (if a = CHR 0xC5 \<and> b = CHR 0xBF then ''s'' else [lower a, lower b])"
| "fold_name [a] = [lower a]"
| "fold_name [] = []"

declare fold_name.simps [simp del]

type_synonym 'a setter = "json \<Rightarrow> 'a \<Rightarrow> 'a option"

fun assign_fields :: "(string \<times> 'a setter) list \<Rightarrow> (string \<times> json) list \<Rightarrow> 'a \<Rightarrow> 'a option" where
  "assign_fields tbl [] x = Some x"
| "assign_fields tbl ((k, j) # fs) x =
     (case map_of tbl (fold_name k) of
        None \<Rightarrow> assign_fields tbl fs x
      | Some f \<Rightarrow> (case f j x of None \<Rightarrow> None | Some y \<Rightarrow> assign_fields tbl fs y))"

definition assign_struct :: "(string \<times> 'a setter) list \<Rightarrow> 'a setter" where
  "assign_struct tbl j x =
     (case j of JObj fs \<Rightarrow> assign_fields tbl fs x | JNull \<Rightarrow> Some x | _ \<Rightarrow> None)"

definition as_string :: "(string \<Rightarrow> 'a \<Rightarrow> 'a) \<Rightarrow> 'a setter" where
  "as_string upd j x = (case j of JStr s \<Rightarrow> Some (upd s x) | JNull \<Rightarrow> Some x | _ \<Rightarrow> None)"

definition as_bool :: "(bool \<Rightarrow> 'a \<Rightarrow> 'a) \<Rightarrow> 'a setter" where
  "as_bool upd j x = (case j of JBool b \<Rightarrow> Some (upd b x) | JNull \<Rightarrow> Some x | _ \<Rightarrow> None)"

definition num_in :: "int \<Rightarrow> int \<Rightarrow> string \<Rightarrow> int option" where
  "num_in lo hi l =
     (case read_int l of
        Some i \<Rightarrow> if lo \<le> i \<and> i \<le> hi then Some i else None
      | None \<Rightarrow> None)"

definition as_int :: "int \<Rightarrow> int \<Rightarrow> (int \<Rightarrow> 'a \<Rightarrow> 'a) \<Rightarrow> 'a setter" where
  "as_int lo hi upd j x =
     (case j of
        JNum l \<Rightarrow> map_option (\<lambda>i. upd i x) (num_in lo hi l)
      | JNull \<Rightarrow> Some x
      | _ \<Rightarrow> None)"

abbreviation "as_int64 \<equiv> as_int (- (2 ^ 63)) (2 ^ 63 - 1)"
abbreviation "as_int32 \<equiv> as_int (- (2 ^ 31)) (2 ^ 31 - 1)"

text \<open>\<open>strconv.ParseUint\<close> accepts no sign, not even on zero.\<close>

definition unum_in :: "nat \<Rightarrow> string \<Rightarrow> nat option" where
  "unum_in hi l = (if l \<noteq> [] \<and> list_all is_digit l \<and> read_nat l \<le> hi then Some (read_nat l) else None)"

definition as_uint :: "nat \<Rightarrow> (nat \<Rightarrow> 'a \<Rightarrow> 'a) \<Rightarrow> 'a setter" where
  "as_uint hi upd j x =
     (case j of
        JNum l \<Rightarrow> map_option (\<lambda>n. upd n x) (unum_in hi l)
      | JNull \<Rightarrow> Some x
      | _ \<Rightarrow> None)"

text \<open>A pointer field: \<open>null\<close> sets it to nil.\<close>

definition as_int_ptr :: "int \<Rightarrow> int \<Rightarrow> (int option \<Rightarrow> 'a \<Rightarrow> 'a) \<Rightarrow> 'a setter" where
  "as_int_ptr lo hi upd j x =
     (case j of
        JNum l \<Rightarrow> map_option (\<lambda>i. upd (Some i) x) (num_in lo hi l)
      | JNull \<Rightarrow> Some (upd None x)
      | _ \<Rightarrow> None)"

text \<open>
  A \<open>[]byte\<close> field is base64 text; an array of small numbers is accepted too, \<open>null\<close> sets nil.
\<close>

definition byte_elem :: "json \<Rightarrow> byte option" where
  "byte_elem j =
     (case j of JNum l \<Rightarrow> map_option word_of_nat (unum_in 255 l) | JNull \<Rightarrow> Some 0 | _ \<Rightarrow> None)"

definition as_bytes :: "(bytes option \<Rightarrow> 'a \<Rightarrow> 'a) \<Rightarrow> 'a setter" where
  "as_bytes upd j x =
     (case j of
        JStr s \<Rightarrow> map_option (\<lambda>bs. upd (Some bs) x) (bytes_of_b64 s)
      | JArr js \<Rightarrow> (if list_all (\<lambda>e. byte_elem e \<noteq> None) js
                    then Some (upd (Some (map (the \<circ> byte_elem) js)) x) else None)
      | JNull \<Rightarrow> Some (upd None x)
      | _ \<Rightarrow> None)"

text \<open>A \<open>map[string]string\<close> field: entries are added to the map that is there, \<open>null\<close> clears it.\<close>

fun put_strings :: "(string \<times> json) list \<Rightarrow> (string \<times> string) list \<Rightarrow> (string \<times> string) list option" where
  "put_strings [] m = Some m"
| "put_strings ((k, j) # fs) m =
     (case j of
        JStr s \<Rightarrow> put_strings fs (map_put k s m)
      | JNull \<Rightarrow> put_strings fs (map_put k [] m)
      | _ \<Rightarrow> None)"

definition as_strmap ::
  "('a \<Rightarrow> (string \<times> string) list) \<Rightarrow> ((string \<times> string) list \<Rightarrow> 'a \<Rightarrow> 'a) \<Rightarrow> 'a setter" where
  "as_strmap get upd j x =
     (case j of
        JObj fs \<Rightarrow> map_option (\<lambda>m. upd m x) (put_strings fs (get x))
      | JNull \<Rightarrow> Some (upd [] x)
      | _ \<Rightarrow> None)"

definition strmap_json :: "(string \<times> string) list \<Rightarrow> json" where
  "strmap_json m = JObj (map (\<lambda>(k, v). (k, JStr v)) m)"

definition bytes_json :: "bytes option \<Rightarrow> json" where
  "bytes_json p = (case p of None \<Rightarrow> JNull | Some bs \<Rightarrow> JStr (b64_of_bytes bs))"

definition int_json :: "int \<Rightarrow> json" where
  "int_json i = JNum (show_int i)"

definition Marshal :: "json \<Rightarrow> bytes" where
  "Marshal j = bytes_of_string (json_text j)"

definition Unmarshal :: "'a setter \<Rightarrow> bytes \<Rightarrow> 'a \<Rightarrow> 'a option" where
  "Unmarshal f bs x = Option.bind (json_parse (string_of_bytes bs)) (\<lambda>j. f j x)"

lemma Unmarshal_Marshal [simp]: "valid_json j \<Longrightarrow> Unmarshal f (Marshal j) x = f j x"
  by (simp add: Unmarshal_def Marshal_def json_parse_text)

lemma num_in_show [simp]: "num_in lo hi (show_int i) = (if lo \<le> i \<and> i \<le> hi then Some i else None)"
  by (simp add: num_in_def)

lemma unum_in_show [simp]:
  "0 \<le> i \<Longrightarrow> unum_in hi (show_int i) = (if nat i \<le> hi then Some (nat i) else None)"
  by (simp add: unum_in_def show_int_def show_nat_digits)

lemma assign_fields_append:
  "assign_fields tbl (fs @ gs) x = Option.bind (assign_fields tbl fs x) (assign_fields tbl gs)"
  by (induction tbl fs x rule: assign_fields.induct) (auto split: option.splits)

lemma put_strings_sorted:
  "map_sorted (m @ h) \<Longrightarrow> put_strings (map (\<lambda>(k, v). (k, JStr v)) h) m = Some (m @ h)"
proof (induction h arbitrary: m)
  case (Cons kv h)
  obtain k v where kv: "kv = (k, v)" by (cases kv)
  have "list_all (\<lambda>(a, _). a < k) m"
    using Cons.prems kv by (auto simp: map_sorted_def sorted_wrt_append list_all_iff)
  then show ?case using Cons kv by (simp add: map_put_last)
qed simp

lemma as_setters [simp, codec_simps]:
  "as_string upd (JStr s) x = Some (upd s x)"
  "as_bool upd1 (JBool b) x = Some (upd1 b x)"
  "as_int lo hi upd2 (int_json i) x = (if lo \<le> i \<and> i \<le> hi then Some (upd2 i x) else None)"
  "0 \<le> i \<Longrightarrow> as_uint n upd4 (int_json i) x = (if nat i \<le> n then Some (upd4 (nat i) x) else None)"
  "as_bytes upd3 (bytes_json p) x = Some (upd3 p x)"
  by (simp_all add: as_string_def as_bool_def as_int_def as_uint_def as_bytes_def int_json_def bytes_json_def
      split: option.splits)

lemma as_strmap_json [simp]:
  "map_sorted h \<Longrightarrow> get x = [] \<Longrightarrow> as_strmap get upd (strmap_json h) x = Some (upd h x)"
  using put_strings_sorted [of "[]" h] by (simp add: as_strmap_def strmap_json_def)

lemma valid_json_simps [simp]:
  "valid_json (int_json i)"
  "valid_json (bytes_json p)"
  "valid_json (strmap_json h) \<longleftrightarrow> list_all (\<lambda>(k, v). valid_utf8 k \<and> valid_utf8 v) h"
  by (simp_all add: int_json_def bytes_json_def strmap_json_def list_all_iff case_prod_beta
      split: option.splits)

section \<open>Lists in JSON\<close>

text \<open>
  Decoding an array into a slice: each element is decoded over the element that is there, or over
  the zero value past the end.
\<close>

fun assign_elems :: "'e setter \<Rightarrow> 'e \<Rightarrow> json list \<Rightarrow> 'e list \<Rightarrow> 'e list option" where
  "assign_elems elem zero [] olds = Some []"
| "assign_elems elem zero (j # js) olds =
     (case elem j (case olds of [] \<Rightarrow> zero | o1 # _ \<Rightarrow> o1) of
        None \<Rightarrow> None
      | Some e \<Rightarrow> map_option ((#) e) (assign_elems elem zero js (tl olds)))"

definition as_list :: "'e setter \<Rightarrow> 'e \<Rightarrow> ('a \<Rightarrow> 'e list) \<Rightarrow> ('e list \<Rightarrow> 'a \<Rightarrow> 'a) \<Rightarrow> 'a setter" where
  "as_list elem zero get upd j x =
     (case j of
        JArr js \<Rightarrow> map_option (\<lambda>es. upd es x) (assign_elems elem zero js (get x))
      | JNull \<Rightarrow> Some (upd [] x)
      | _ \<Rightarrow> None)"

definition list_json :: "('e \<Rightarrow> json) \<Rightarrow> 'e list \<Rightarrow> json" where
  "list_json f es = (if es = [] then JNull else JArr (map f es))"

lemma assign_elems_map:
  "list_all (\<lambda>e. elem (f e) zero = Some e) es \<Longrightarrow> assign_elems elem zero (map f es) [] = Some es"
  by (induction es) simp_all

lemma as_list_json [simp]:
  "list_all (\<lambda>e. elem (f e) zero = Some e) es \<Longrightarrow> get x = [] \<Longrightarrow>
   as_list elem zero get upd (list_json f es) x = Some (upd es x)"
  by (simp add: as_list_def list_json_def assign_elems_map)

lemma valid_list_json [simp]: "list_all (\<lambda>e. valid_json (f e)) es \<Longrightarrow> valid_json (list_json f es)"
  by (simp add: list_json_def list_all_iff)

end
