(* ===== verification/Frame_Codec.thy ===== *)
theory Frame_Codec
  imports Prelude
begin

text \<open>
  The binary wire protocol of \<^verbatim>\<open>src/internal/protocol/protocol.go\<close>: command bytes, the frame
  type, \<open>Encoder.Encode\<close>/\<open>writeFrame\<close> and \<open>Decoder.Decode\<close>. A connection is the byte string
  still to be read; the encoder returns the bytes it hands to the writer. Bodies are the
  already marshalled JSON bytes. The theory shows that encoding and decoding are inverse to
  each other in both directions, that a stream of frames decodes frame by frame, and that a
  truncated frame is never accepted.
\<close>

section \<open>Constants and commands\<close>

definition Magic :: nat where
  "Magic = 0x50534201"

definition Version :: byte where
  "Version = 1"

definition HeaderSize :: nat where
  "HeaderSize = 4 + 1 + 1 + 8 + 4"

definition MaxBodySize :: nat where
  "MaxBodySize = 16 * 1024 * 1024"

lemmas frame_consts = Magic_def Version_def HeaderSize_def MaxBodySize_def

datatype Command =
    CmdPublish | CmdSubscribe | CmdUnsubscribe | CmdFetch | CmdAck | CmdNack
  | CmdCommitOffset | CmdCreateTopic | CmdDeleteTopic | CmdListTopics | CmdAuth
  | CmdPing | CmdPong | CmdResponse | CmdError | CmdBatchPublish | CmdPush
  | CmdSeek | CmdResetGroup | CmdOther byte

fun command_byte :: "Command \<Rightarrow> byte" where
  "command_byte CmdPublish = 0x01"
| "command_byte CmdSubscribe = 0x02"
| "command_byte CmdUnsubscribe = 0x03"
| "command_byte CmdFetch = 0x04"
| "command_byte CmdAck = 0x05"
| "command_byte CmdNack = 0x06"
| "command_byte CmdCommitOffset = 0x07"
| "command_byte CmdCreateTopic = 0x08"
| "command_byte CmdDeleteTopic = 0x09"
| "command_byte CmdListTopics = 0x0A"
| "command_byte CmdAuth = 0x0B"
| "command_byte CmdPing = 0x0C"
| "command_byte CmdPong = 0x0D"
| "command_byte CmdResponse = 0x0E"
| "command_byte CmdError = 0x0F"
| "command_byte CmdBatchPublish = 0x10"
| "command_byte CmdPush = 0x20"
| "command_byte CmdSeek = 0x30"
| "command_byte CmdResetGroup = 0x31"
| "command_byte (CmdOther b) = b"

text \<open>The named commands, in the order of the constant block.\<close>

definition named_commands :: "Command list" where
  "named_commands =
     [CmdPublish, CmdSubscribe, CmdUnsubscribe, CmdFetch, CmdAck, CmdNack, CmdCommitOffset,
      CmdCreateTopic, CmdDeleteTopic, CmdListTopics, CmdAuth, CmdPing, CmdPong, CmdResponse,
      CmdError, CmdBatchPublish, CmdPush, CmdSeek, CmdResetGroup]"

definition command_of_byte :: "byte \<Rightarrow> Command" where
  "command_of_byte b =
     (case List.find (\<lambda>c. command_byte c = b) named_commands of
        Some c \<Rightarrow> c | None \<Rightarrow> CmdOther b)"

text \<open>A command value is canonical when a named byte is never hidden in \<open>CmdOther\<close>.\<close>

definition canonical_command :: "Command \<Rightarrow> bool" where
  "canonical_command c \<longleftrightarrow> command_of_byte (command_byte c) = c"

lemma command_byte_of_byte [simp]: "command_byte (command_of_byte b) = b"
  by (auto simp: command_of_byte_def find_Some_iff split: option.splits)

lemma canonical_command_of_byte [simp]: "canonical_command (command_of_byte b)"
  by (simp add: canonical_command_def)

lemma canonical_named: "c \<in> set named_commands \<Longrightarrow> canonical_command c"
  by (auto simp: canonical_command_def command_of_byte_def named_commands_def)

definition hex_digit :: "nat \<Rightarrow> char" where
  "hex_digit n = ''0123456789ABCDEF'' ! (n mod 16)"

fun command_String :: "Command \<Rightarrow> string" where
  "command_String CmdPublish = ''PUBLISH''"
| "command_String CmdSubscribe = ''SUBSCRIBE''"
| "command_String CmdUnsubscribe = ''UNSUBSCRIBE''"
| "command_String CmdFetch = ''FETCH''"
| "command_String CmdAck = ''ACK''"
| "command_String CmdNack = ''NACK''"
| "command_String CmdCommitOffset = ''COMMIT_OFFSET''"
| "command_String CmdCreateTopic = ''CREATE_TOPIC''"
| "command_String CmdDeleteTopic = ''DELETE_TOPIC''"
| "command_String CmdListTopics = ''LIST_TOPICS''"
| "command_String CmdAuth = ''AUTH''"
| "command_String CmdPing = ''PING''"
| "command_String CmdPong = ''PONG''"
| "command_String CmdResponse = ''RESPONSE''"
| "command_String CmdError = ''ERROR''"
| "command_String CmdBatchPublish = ''BATCH_PUBLISH''"
| "command_String CmdPush = ''PUSH''"
| "command_String CmdSeek = ''SEEK''"
| "command_String CmdResetGroup = ''RESET_GROUP''"
| "command_String (CmdOther b) =
     ''UNKNOWN(0x'' @ [hex_digit (unat b div 16), hex_digit (unat b)] @ '')''"

section \<open>Frames\<close>

record Frame =
  Command :: Command
  RequestID :: "64 word"
  Body :: bytes

datatype encode_error = BodyTooLarge

definition writeFrame :: "Frame \<Rightarrow> bytes" where
  "writeFrame f =
     le_bytes 4 Magic @ [Version] @ [command_byte (Command f)] @
     le_bytes 8 (unat (RequestID f)) @ le_bytes 4 (length (Body f)) @ Body f"

text \<open>
  \<open>Encode\<close> compares \<open>uint32(len(bodyBytes))\<close>, the length modulo \<open>2 ^ 32\<close>, with the cap. A nil
  body marshals to no bytes.
\<close>

definition Encode :: "Command \<Rightarrow> 64 word \<Rightarrow> bytes \<Rightarrow> (encode_error, bytes) result" where
  "Encode cmd reqID bodyBytes =
     (if length bodyBytes mod 2 ^ 32 > MaxBodySize then Inl BodyTooLarge
      else Inr (writeFrame \<lparr>Command = cmd, RequestID = reqID, Body = bodyBytes\<rparr>))"

datatype decode_error =
    ReadHeader io_error
  | InvalidMagic nat
  | UnsupportedVersion byte
  | DecodeBodyTooLarge nat
  | BodyLengthOverflow
  | ReadBody io_error

definition Decode :: "bytes \<Rightarrow> (decode_error, Frame \<times> bytes) result" where
  "Decode r =
     (case readFull HeaderSize r of
        Inl e \<Rightarrow> Inl (ReadHeader e)
      | Inr (hdr, r1) \<Rightarrow>
          (let magic = le_nat (window 0 4 hdr);
               ver = hdr ! 4;
               cmd = command_of_byte (hdr ! 5);
               reqID = word_of_nat (le_nat (window 6 14 hdr));
               bodyLen = le_nat (window 14 18 hdr)
           in if magic \<noteq> Magic then Inl (InvalidMagic magic)
              else if ver \<noteq> Version then Inl (UnsupportedVersion ver)
              else if bodyLen > MaxBodySize then Inl (DecodeBodyTooLarge bodyLen)
              else if bodyLen > 2 ^ 31 - 1 then Inl BodyLengthOverflow
              else if bodyLen > 0 then
                (case readFull bodyLen r1 of
                   Inl e \<Rightarrow> Inl (ReadBody e)
                 | Inr (body, r2) \<Rightarrow>
                     Inr (\<lparr>Command = cmd, RequestID = reqID, Body = body\<rparr>, r2))
              else Inr (\<lparr>Command = cmd, RequestID = reqID, Body = []\<rparr>, r1)))"

text \<open>
  The read side of a connection: decode frame after frame until the first error, which is
  returned with the frames read so far. Each frame consumes at least the header.
\<close>

lemma Decode_consumes: "Decode r = Inr (f, r') \<Longrightarrow> length r' < length r"
  by (auto simp: Decode_def Let_def HeaderSize_def readFull_def split: if_splits)

function decode_stream :: "bytes \<Rightarrow> Frame list \<times> decode_error" where
  "decode_stream r =
     (case Decode r of
        Inl e \<Rightarrow> ([], e)
      | Inr (f, r') \<Rightarrow> (case decode_stream r' of (fs, e) \<Rightarrow> (f # fs, e)))"
  by pat_completeness auto
termination
  by (relation "measure length") (auto dest: Decode_consumes)

declare decode_stream.simps [simp del]

text \<open>Frames the broker can put on the wire.\<close>

definition wf_frame :: "Frame \<Rightarrow> bool" where
  "wf_frame f \<longleftrightarrow> canonical_command (Command f) \<and> length (Body f) \<le> MaxBodySize"

section \<open>Correctness\<close>

lemma length_writeFrame [simp]: "length (writeFrame f) = HeaderSize + length (Body f)"
  by (simp add: writeFrame_def HeaderSize_def)

lemma Decode_writeFrame:
  assumes "wf_frame f"
  shows "Decode (writeFrame f @ rest) = Inr (f, rest)"
proof -
  let ?hdr = "le_bytes 4 Magic @ [Version] @ [command_byte (Command f)] @
     le_bytes 8 (unat (RequestID f)) @ le_bytes 4 (length (Body f))"
  have split: "writeFrame f @ rest = ?hdr @ (Body f @ rest)"
    by (simp add: writeFrame_def)
  have hdr: "readFull HeaderSize (writeFrame f @ rest) = Inr (?hdr, Body f @ rest)"
    unfolding split by (rule readFull_append) (simp add: HeaderSize_def)
  have bl: "length (Body f) \<le> 16777216"
    using assms by (simp add: wf_frame_def MaxBodySize_def)
  have magic: "le_nat (window 0 4 ?hdr) = Magic"
    by (simp add: le_nat_le_bytes Magic_def)
  have len: "le_nat (window 14 18 ?hdr) = length (Body f)"
    using bl by (simp add: le_nat_le_bytes)
  have "unat (RequestID f) < 256 ^ 8"
    using unsigned_less [of "RequestID f", where ?'a = nat] by simp
  then have req: "word_of_nat (le_nat (window 6 14 ?hdr)) = RequestID f"
    by (simp add: le_nat_le_bytes)
  have ver: "?hdr ! 4 = Version" and cmd: "?hdr ! 5 = command_byte (Command f)"
    by (simp_all add: nth_append)
  have "command_of_byte (command_byte (Command f)) = Command f"
    using assms by (simp add: wf_frame_def canonical_command_def)
  then show ?thesis
    using bl by (simp only: Decode_def hdr sum.case prod.case Let_def magic len req ver cmd)
      (simp add: MaxBodySize_def)
qed

lemma header_fields:
  assumes "length (hdr :: bytes) = 18"
  shows "hdr = window 0 4 hdr @ [hdr ! 4] @ [hdr ! 5] @ window 6 14 hdr @ window 14 18 hdr"
  using assms by (simp add: window_nth window_join window_full)

text \<open>A frame is recovered from its encoding.\<close>

theorem Decode_Encode:
  assumes "canonical_command cmd" and "length body < 2 ^ 32" and "Encode cmd reqID body = Inr bs"
  shows "Decode (bs @ rest) = Inr (\<lparr>Command = cmd, RequestID = reqID, Body = body\<rparr>, rest)"
proof -
  from assms(2,3) have "bs = writeFrame \<lparr>Command = cmd, RequestID = reqID, Body = body\<rparr>"
    and "length body \<le> MaxBodySize"
    by (auto simp: Encode_def split: if_splits)
  with assms(1) show ?thesis by (simp add: Decode_writeFrame wf_frame_def)
qed

lemma Decode_InrD:
  assumes "Decode r = Inr (f, r')"
  shows "r = writeFrame f @ r' \<and> wf_frame f"
proof -
  from assms obtain hdr r1 where rd: "readFull HeaderSize r = Inr (hdr, r1)"
    by (auto simp: Decode_def split: sum.splits)
  then have r: "r = hdr @ r1" and lh: "length hdr = 18"
    by (auto dest: readFull_Inr simp: HeaderSize_def)
  have bytes: "le_bytes 4 (le_nat (window 0 4 hdr)) = window 0 4 hdr"
    "le_bytes 8 (le_nat (window 6 14 hdr)) = window 6 14 hdr"
    "le_bytes 4 (le_nat (window 14 18 hdr)) = window 14 18 hdr"
    using lh by (simp_all add: le_bytes_le_nat)
  have small: "le_nat (window 6 14 hdr) < 2 ^ 64"
    using le_nat_less [of "window 6 14 hdr"] lh by simp
  from assms rd have acc: "le_nat (window 0 4 hdr) = Magic" "hdr ! 4 = Version"
    "command_byte (Command f) = hdr ! 5" "unat (RequestID f) = le_nat (window 6 14 hdr)"
    "length (Body f) = le_nat (window 14 18 hdr)" "length (Body f) \<le> MaxBodySize"
    "canonical_command (Command f)" "r1 = Body f @ r'"
    using small
    by (auto simp: Decode_def Let_def unat_of_nat split: if_splits sum.splits dest: readFull_Inr)
  have "hdr = le_bytes 4 Magic @ [Version] @ [command_byte (Command f)] @
     le_bytes 8 (unat (RequestID f)) @ le_bytes 4 (length (Body f))"
    using header_fields [OF lh] acc bytes by simp
  then have "r = writeFrame f @ r'"
    using r acc by (simp add: writeFrame_def)
  with acc show ?thesis by (simp add: wf_frame_def)
qed

text \<open>C18. The decoder accepts exactly the encodings of well-formed frames: it returns \<open>f\<close> and
  leaves \<open>r'\<close> unread if and only if the reader held the encoding of \<open>f\<close> followed by \<open>r'\<close>.\<close>

theorem Decode_iff: "Decode r = Inr (f, r') \<longleftrightarrow> wf_frame f \<and> r = writeFrame f @ r'"
  using Decode_InrD Decode_writeFrame by blast

theorem Decode_Encode_witness:
  "Decode ([1, 66, 83, 80, 1, 4, 9, 0, 0, 0, 0, 0, 0, 0, 2, 0, 0, 0, 123, 125] @ [0xFF]) =
     Inr (\<lparr>Command = CmdFetch, RequestID = 9, Body = [123, 125]\<rparr>, [0xFF])"
proof -
  have e: "Encode CmdFetch 9 [123, 125] =
      Inr [1, 66, 83, 80, 1, 4, 9, 0, 0, 0, 0, 0, 0, 0, 2, 0, 0, 0, 123, 125]"
    by (simp add: Encode_def writeFrame_def frame_consts le_bytes_numeral)
  have c: "canonical_command CmdFetch"
    by (simp add: canonical_named named_commands_def)
  show ?thesis using Decode_Encode [OF c _ e] by simp
qed

text \<open>Frames written one after another decode to the same frames in the same order, and
  the stream ends with the error of reading a header at end of file.\<close>

theorem decode_stream_frames:
  assumes "list_all wf_frame fs"
  shows "decode_stream (concat (map writeFrame fs)) = (fs, ReadHeader EOF)"
  using assms
proof (induction fs)
  case Nil
  then show ?case
    by (simp add: decode_stream.simps [of "[]"] Decode_def readFull_def HeaderSize_def)
next
  case (Cons f fs)
  then show ?case
    by (simp add: decode_stream.simps [of "writeFrame f @ concat (map writeFrame fs)"]
        Decode_writeFrame)
qed

theorem decode_stream_frames_witness:
  "list_all wf_frame [\<lparr>Command = CmdPing, RequestID = 1, Body = []\<rparr>,
     \<lparr>Command = CmdPublish, RequestID = 2, Body = [123, 125]\<rparr>] \<and>
   decode_stream (concat (map writeFrame [\<lparr>Command = CmdPing, RequestID = 1, Body = []\<rparr>,
     \<lparr>Command = CmdPublish, RequestID = 2, Body = [123, 125]\<rparr>])) =
   ([\<lparr>Command = CmdPing, RequestID = 1, Body = []\<rparr>,
     \<lparr>Command = CmdPublish, RequestID = 2, Body = [123, 125]\<rparr>], ReadHeader EOF)"
proof -
  let ?fs = "[\<lparr>Command = CmdPing, RequestID = 1, Body = []\<rparr>,
     \<lparr>Command = CmdPublish, RequestID = 2, Body = [123, 125]\<rparr>]"
  have w: "list_all wf_frame ?fs"
    by (simp add: wf_frame_def canonical_named named_commands_def MaxBodySize_def)
  show ?thesis using w decode_stream_frames [OF w] by blast
qed

text \<open>No proper prefix of a frame is accepted: the decoder reports a read error at the header
  or at the body.\<close>

theorem Decode_truncated:
  assumes "wf_frame f" and "n < length (writeFrame f)"
  shows "\<exists>e. Decode (take n (writeFrame f)) = Inl (ReadHeader e)
            \<or> Decode (take n (writeFrame f)) = Inl (ReadBody e)"
proof (cases "Decode (take n (writeFrame f))")
  case (Inr p)
  then obtain g r where d: "Decode (take n (writeFrame f)) = Inr (g, r)" by (cases p) auto
  then have eq: "take n (writeFrame f) = writeFrame g @ r" by (blast dest: Decode_InrD)
  have "writeFrame f = writeFrame g @ r @ drop n (writeFrame f)"
    by (metis eq append.assoc append_take_drop_id)
  then have "Decode (writeFrame f) = Inr (g, r @ drop n (writeFrame f))"
    using Decode_InrD [OF d] by (metis Decode_writeFrame)
  then have "drop n (writeFrame f) = []"
    using Decode_writeFrame [OF assms(1), of "[]"] by simp
  with assms(2) show ?thesis by simp
next
  case (Inl e)
  show ?thesis
  proof (cases "HeaderSize \<le> n")
    case False
    then show ?thesis by (auto simp: Decode_def readFull_def)
  next
    case True
    define h where "h = take HeaderSize (writeFrame f)"
    obtain b where whole: "readFull HeaderSize (writeFrame f) = Inr (h, b)"
      by (simp add: readFull_def h_def)
    obtain b' where part: "readFull HeaderSize (take n (writeFrame f)) = Inr (h, b')"
      using True assms(2) by (simp add: readFull_def h_def)
    have "\<exists>p. Decode (writeFrame f) = Inr p"
      using Decode_writeFrame [OF assms(1), of "[]"] by simp
    then have "le_nat (window 0 4 h) = Magic" "h ! 4 = Version"
      "le_nat (window 14 18 h) \<le> MaxBodySize" "le_nat (window 14 18 h) \<le> 2 ^ 31 - 1"
      by (auto simp: Decode_def whole Let_def split: if_splits)
    with Inl show ?thesis
      by (auto simp: Decode_def part Let_def split: if_splits sum.splits)
  qed
qed

theorem Decode_truncated_witness:
  "wf_frame \<lparr>Command = CmdPing, RequestID = 1, Body = [65]\<rparr> \<and>
   (\<exists>e. Decode (take 18 (writeFrame \<lparr>Command = CmdPing, RequestID = 1, Body = [65]\<rparr>)) = Inl (ReadHeader e)
      \<or> Decode (take 18 (writeFrame \<lparr>Command = CmdPing, RequestID = 1, Body = [65]\<rparr>)) = Inl (ReadBody e))"
proof -
  let ?f = "\<lparr>Command = CmdPing, RequestID = 1, Body = [65]\<rparr>"
  have w: "wf_frame ?f"
    by (simp add: wf_frame_def canonical_named named_commands_def MaxBodySize_def)
  have l: "18 < length (writeFrame ?f)" by (simp add: HeaderSize_def)
  show ?thesis using w Decode_truncated [OF w l] by blast
qed

end
