(* ===== verification/Broker_Types.thy ===== *)
theory Broker_Types
  imports Json Frame_Codec
begin

text \<open>
  The domain types of \<^verbatim>\<open>src/pkg/types/types.go\<close> and the request bodies of
  \<^verbatim>\<open>src/internal/protocol/protocol.go\<close> that the broker also writes to disk, with their JSON
  forms as the struct tags give them. \<open>Marshal_Message\<close> and the functions beside it follow the
  field order and the \<open>omitempty\<close> options; a nil \<open>[]byte\<close> is \<open>None\<close>. Each codec is shown to
  round trip and is an instance of the \<open>byte_codec\<close> interface, which the record and log
  theories build on.
\<close>

section \<open>Delivery modes and identifiers\<close>

type_synonym DeliveryMode = byte

definition AtMostOnce :: DeliveryMode where
  "AtMostOnce = 0"

definition AtLeastOnce :: DeliveryMode where
  "AtLeastOnce = 1"

definition ExactlyOnce :: DeliveryMode where
  "ExactlyOnce = 2"

definition DeliveryMode_String :: "DeliveryMode \<Rightarrow> string" where
  "DeliveryMode_String d =
     (if d = AtMostOnce then ''at-most-once''
      else if d = AtLeastOnce then ''at-least-once''
      else if d = ExactlyOnce then ''exactly-once''
      else ''unknown'')"

definition hex_byte :: "byte \<Rightarrow> string" where
  "hex_byte b = [hexd (unat b div 16), hexd (unat b mod 16)]"

text \<open>\<open>NewUUID\<close> on the sixteen bytes the random source delivers.\<close>

definition uuid_bytes :: "bytes \<Rightarrow> bytes" where
  "uuid_bytes b = b[6 := (b ! 6 AND 0x0f) OR 0x40, 8 := (b ! 8 AND 0x3f) OR 0x80]"

definition NewUUID :: "bytes \<Rightarrow> string" where
  "NewUUID r =
     (let b = uuid_bytes r; hex = (\<lambda>i j. concat (map hex_byte (window i j b)))
      in hex 0 4 @ ''-'' @ hex 4 6 @ ''-'' @ hex 6 8 @ ''-'' @ hex 8 10 @ ''-'' @ hex 10 16)"

section \<open>Messages\<close>

record Message =
  m_ID :: string
  m_Topic :: string
  m_Timestamp :: int
  m_Payload :: "bytes option"
  m_Headers :: "(string \<times> string) list"
  m_Key :: string
  m_Partition :: int
  m_Offset :: int
  m_Codec :: byte

text \<open>The zero value a decoder starts from.\<close>

definition zero_Message :: Message where
  "zero_Message = \<lparr>m_ID = [], m_Topic = [], m_Timestamp = 0, m_Payload = None, m_Headers = [],
     m_Key = [], m_Partition = 0, m_Offset = 0, m_Codec = 0\<rparr>"

definition NewMessage ::
  "string \<Rightarrow> int \<Rightarrow> string \<Rightarrow> bytes option \<Rightarrow> string \<Rightarrow> (string \<times> string) list \<Rightarrow> Message" where
  "NewMessage uuid now topic payload key headers =
     zero_Message\<lparr>m_ID := uuid, m_Topic := topic, m_Timestamp := now, m_Payload := payload,
       m_Headers := headers, m_Key := key\<rparr>"

definition opt_field :: "bool \<Rightarrow> string \<Rightarrow> json \<Rightarrow> (string \<times> json) list" where
  "opt_field present k j = (if present then [(k, j)] else [])"

definition Message_json :: "Message \<Rightarrow> json" where
  "Message_json m = JObj (
     [(''id'', JStr (m_ID m)), (''topic'', JStr (m_Topic m)),
      (''timestamp'', int_json (m_Timestamp m)), (''payload'', bytes_json (m_Payload m))] @
     opt_field (m_Headers m \<noteq> []) ''headers'' (strmap_json (m_Headers m)) @
     opt_field (m_Key m \<noteq> []) ''key'' (JStr (m_Key m)) @
     [(''partition'', int_json (m_Partition m))] @
     opt_field (m_Offset m \<noteq> 0) ''offset'' (int_json (m_Offset m)) @
     opt_field (m_Codec m \<noteq> 0) ''codec'' (int_json (uint (m_Codec m))))"

definition Message_fields :: "(string \<times> Message setter) list" where
  "Message_fields =
     [(''id'', as_string (\<lambda>s. m_ID_update (\<lambda>_. s))),
      (''topic'', as_string (\<lambda>s. m_Topic_update (\<lambda>_. s))),
      (''timestamp'', as_int64 (\<lambda>i. m_Timestamp_update (\<lambda>_. i))),
      (''payload'', as_bytes (\<lambda>p. m_Payload_update (\<lambda>_. p))),
      (''headers'', as_strmap m_Headers (\<lambda>h. m_Headers_update (\<lambda>_. h))),
      (''key'', as_string (\<lambda>s. m_Key_update (\<lambda>_. s))),
      (''partition'', as_int32 (\<lambda>i. m_Partition_update (\<lambda>_. i))),
      (''offset'', as_int64 (\<lambda>i. m_Offset_update (\<lambda>_. i))),
      (''codec'', as_uint 255 (\<lambda>n. m_Codec_update (\<lambda>_. word_of_nat n)))]"

definition Marshal_Message :: "Message \<Rightarrow> bytes" where
  "Marshal_Message m = Marshal (Message_json m)"

definition Unmarshal_Message :: "bytes \<Rightarrow> Message option" where
  "Unmarshal_Message bs = Unmarshal (assign_struct Message_fields) bs zero_Message"

definition int32_range :: "int \<Rightarrow> bool" where
  "int32_range x \<longleftrightarrow> - (2 ^ 31) \<le> x \<and> x < 2 ^ 31"

definition wf_headers :: "(string \<times> string) list \<Rightarrow> bool" where
  "wf_headers h \<longleftrightarrow> map_sorted h \<and> list_all (\<lambda>(k, v). valid_utf8 k \<and> valid_utf8 v) h"

definition wf_Message :: "Message \<Rightarrow> bool" where
  "wf_Message m \<longleftrightarrow>
     valid_utf8 (m_ID m) \<and> valid_utf8 (m_Topic m) \<and> valid_utf8 (m_Key m) \<and>
     wf_headers (m_Headers m) \<and> int64_range (m_Timestamp m) \<and> int32_range (m_Partition m) \<and>
     int64_range (m_Offset m)"

lemma fold_field_names [simp]:
  "fold_name ''id'' = ''id''" "fold_name ''topic'' = ''topic''"
  "fold_name ''timestamp'' = ''timestamp''" "fold_name ''payload'' = ''payload''"
  "fold_name ''headers'' = ''headers''" "fold_name ''key'' = ''key''"
  "fold_name ''partition'' = ''partition''" "fold_name ''offset'' = ''offset''"
  "fold_name ''codec'' = ''codec''"
  by (simp_all add: fold_name.simps lower_def in_range_def)

lemma assign_fields_Cons:
  "map_of tbl (fold_name k) = Some f \<Longrightarrow> f j x = Some y \<Longrightarrow>
   assign_fields tbl ((k, j) # fs) x = assign_fields tbl fs y"
  by simp

lemma assign_opt_field:
  "map_of tbl (fold_name k) = Some f \<Longrightarrow> (b \<Longrightarrow> f j x = Some y) \<Longrightarrow> (\<not> b \<Longrightarrow> y = x) \<Longrightarrow>
   assign_fields tbl (opt_field b k j @ fs) x = assign_fields tbl fs y"
  by (simp add: opt_field_def)

lemma Message_json_valid: "wf_Message m \<Longrightarrow> valid_json (Message_json m)"
  by (auto simp: Message_json_def wf_Message_def wf_headers_def opt_field_def
      ascii_valid_utf8)

lemma Message_lookup [simp]:
  "map_of Message_fields ''id'' = Some (as_string (\<lambda>s. m_ID_update (\<lambda>_. s)))"
  "map_of Message_fields ''topic'' = Some (as_string (\<lambda>s. m_Topic_update (\<lambda>_. s)))"
  "map_of Message_fields ''timestamp'' = Some (as_int64 (\<lambda>i. m_Timestamp_update (\<lambda>_. i)))"
  "map_of Message_fields ''payload'' = Some (as_bytes (\<lambda>p. m_Payload_update (\<lambda>_. p)))"
  "map_of Message_fields ''headers'' = Some (as_strmap m_Headers (\<lambda>h. m_Headers_update (\<lambda>_. h)))"
  "map_of Message_fields ''key'' = Some (as_string (\<lambda>s. m_Key_update (\<lambda>_. s)))"
  "map_of Message_fields ''partition'' = Some (as_int32 (\<lambda>i. m_Partition_update (\<lambda>_. i)))"
  "map_of Message_fields ''offset'' = Some (as_int64 (\<lambda>i. m_Offset_update (\<lambda>_. i)))"
  "map_of Message_fields ''codec'' = Some (as_uint 255 (\<lambda>n. m_Codec_update (\<lambda>_. word_of_nat n)))"
  by (simp_all add: Message_fields_def)

lemma unat_byte_le: "unat (b :: byte) \<le> 255"
  using unat_byte_less [of b] by linarith

lemma assign_Message:
  assumes "wf_Message m"
  shows "assign_struct Message_fields (Message_json m) zero_Message = Some m"
  using assms
  by (cases m)
    (simp add: assign_struct_def Message_json_def opt_field_def zero_Message_def wf_Message_def
      wf_headers_def int64_range_def int32_range_def assign_fields_append unat_byte_le)

lemma Unmarshal_Marshal_Message: "wf_Message m \<Longrightarrow> Unmarshal_Message (Marshal_Message m) = Some m"
  by (simp add: Unmarshal_Message_def Marshal_Message_def Message_json_valid assign_Message)

section \<open>Request bodies\<close>

record PublishRequest =
  pr_Topic :: string
  pr_Key :: string
  pr_Payload :: "bytes option"
  pr_Headers :: "(string \<times> string) list"
  pr_DeliveryMode :: DeliveryMode
  pr_SeqNum :: "64 word"
  pr_Codec :: byte
  pr_TargetOffset :: "int option"

definition zero_PublishRequest :: PublishRequest where
  "zero_PublishRequest = \<lparr>pr_Topic = [], pr_Key = [], pr_Payload = None, pr_Headers = [],
     pr_DeliveryMode = 0, pr_SeqNum = 0, pr_Codec = 0, pr_TargetOffset = None\<rparr>"

definition PublishRequest_json :: "PublishRequest \<Rightarrow> json" where
  "PublishRequest_json r = JObj (
     [(''topic'', JStr (pr_Topic r))] @
     opt_field (pr_Key r \<noteq> []) ''key'' (JStr (pr_Key r)) @
     [(''payload'', bytes_json (pr_Payload r))] @
     opt_field (pr_Headers r \<noteq> []) ''headers'' (strmap_json (pr_Headers r)) @
     [(''delivery_mode'', int_json (uint (pr_DeliveryMode r)))] @
     opt_field (pr_SeqNum r \<noteq> 0) ''seq_num'' (int_json (uint (pr_SeqNum r))) @
     opt_field (pr_Codec r \<noteq> 0) ''codec'' (int_json (uint (pr_Codec r))) @
     opt_field (pr_TargetOffset r \<noteq> None) ''target_offset'' (int_json (the (pr_TargetOffset r))))"

definition PublishRequest_fields :: "(string \<times> PublishRequest setter) list" where
  "PublishRequest_fields =
     [(''topic'', as_string (\<lambda>s. pr_Topic_update (\<lambda>_. s))),
      (''key'', as_string (\<lambda>s. pr_Key_update (\<lambda>_. s))),
      (''payload'', as_bytes (\<lambda>p. pr_Payload_update (\<lambda>_. p))),
      (''headers'', as_strmap pr_Headers (\<lambda>h. pr_Headers_update (\<lambda>_. h))),
      (''delivery_mode'', as_uint 255 (\<lambda>n. pr_DeliveryMode_update (\<lambda>_. word_of_nat n))),
      (''seq_num'', as_uint (2 ^ 64 - 1) (\<lambda>n. pr_SeqNum_update (\<lambda>_. word_of_nat n))),
      (''codec'', as_uint 255 (\<lambda>n. pr_Codec_update (\<lambda>_. word_of_nat n))),
      (''target_offset'', as_int_ptr (- (2 ^ 63)) (2 ^ 63 - 1) (\<lambda>i. pr_TargetOffset_update (\<lambda>_. i)))]"

definition Marshal_PublishRequest :: "PublishRequest \<Rightarrow> bytes" where
  "Marshal_PublishRequest r = Marshal (PublishRequest_json r)"

definition Unmarshal_PublishRequest :: "bytes \<Rightarrow> PublishRequest option" where
  "Unmarshal_PublishRequest bs =
     Unmarshal (assign_struct PublishRequest_fields) bs zero_PublishRequest"

definition wf_PublishRequest :: "PublishRequest \<Rightarrow> bool" where
  "wf_PublishRequest r \<longleftrightarrow>
     valid_utf8 (pr_Topic r) \<and> valid_utf8 (pr_Key r) \<and> wf_headers (pr_Headers r) \<and>
     (case pr_TargetOffset r of None \<Rightarrow> True | Some t \<Rightarrow> int64_range t)"

record SubscribeRequest =
  sr_Topic :: string
  sr_Group :: string
  sr_ConsumerID :: string
  sr_Push :: bool

definition SubscribeRequest_fields :: "(string \<times> SubscribeRequest setter) list" where
  "SubscribeRequest_fields =
     [(''topic'', as_string (\<lambda>s. sr_Topic_update (\<lambda>_. s))),
      (''group'', as_string (\<lambda>s. sr_Group_update (\<lambda>_. s))),
      (''consumer_id'', as_string (\<lambda>s. sr_ConsumerID_update (\<lambda>_. s))),
      (''push'', as_bool (\<lambda>b. sr_Push_update (\<lambda>_. b)))]"

record FetchRequest =
  fr_Topic :: string
  fr_Group :: string
  fr_Partition :: int
  fr_Offset :: int
  fr_MaxCount :: int
  fr_RawTransfer :: bool

definition FetchRequest_fields :: "(string \<times> FetchRequest setter) list" where
  "FetchRequest_fields =
     [(''topic'', as_string (\<lambda>s. fr_Topic_update (\<lambda>_. s))),
      (''group'', as_string (\<lambda>s. fr_Group_update (\<lambda>_. s))),
      (''partition'', as_int32 (\<lambda>i. fr_Partition_update (\<lambda>_. i))),
      (''offset'', as_int64 (\<lambda>i. fr_Offset_update (\<lambda>_. i))),
      (''max_count'', as_int64 (\<lambda>i. fr_MaxCount_update (\<lambda>_. i))),
      (''raw_transfer'', as_bool (\<lambda>b. fr_RawTransfer_update (\<lambda>_. b)))]"

record CommitOffsetRequest =
  co_Group :: string
  co_ConsumerID :: string
  co_Topic :: string
  co_Partition :: int
  co_Offset :: int

definition CommitOffsetRequest_fields :: "(string \<times> CommitOffsetRequest setter) list" where
  "CommitOffsetRequest_fields =
     [(''group'', as_string (\<lambda>s. co_Group_update (\<lambda>_. s))),
      (''consumer_id'', as_string (\<lambda>s. co_ConsumerID_update (\<lambda>_. s))),
      (''topic'', as_string (\<lambda>s. co_Topic_update (\<lambda>_. s))),
      (''partition'', as_int32 (\<lambda>i. co_Partition_update (\<lambda>_. i))),
      (''offset'', as_int64 (\<lambda>i. co_Offset_update (\<lambda>_. i)))]"

record AckRequest =
  ak_ConsumerID :: string
  ak_Topic :: string
  ak_Partition :: int
  ak_Offset :: int

definition AckRequest_fields :: "(string \<times> AckRequest setter) list" where
  "AckRequest_fields =
     [(''consumer_id'', as_string (\<lambda>s. ak_ConsumerID_update (\<lambda>_. s))),
      (''topic'', as_string (\<lambda>s. ak_Topic_update (\<lambda>_. s))),
      (''partition'', as_int32 (\<lambda>i. ak_Partition_update (\<lambda>_. i))),
      (''offset'', as_int64 (\<lambda>i. ak_Offset_update (\<lambda>_. i)))]"

record NackRequest =
  nk_ConsumerID :: string
  nk_Topic :: string
  nk_Partition :: int
  nk_Offset :: int
  nk_Group :: string
  nk_Requeue :: bool

definition NackRequest_fields :: "(string \<times> NackRequest setter) list" where
  "NackRequest_fields =
     [(''consumer_id'', as_string (\<lambda>s. nk_ConsumerID_update (\<lambda>_. s))),
      (''topic'', as_string (\<lambda>s. nk_Topic_update (\<lambda>_. s))),
      (''partition'', as_int32 (\<lambda>i. nk_Partition_update (\<lambda>_. i))),
      (''offset'', as_int64 (\<lambda>i. nk_Offset_update (\<lambda>_. i))),
      (''group'', as_string (\<lambda>s. nk_Group_update (\<lambda>_. s))),
      (''requeue'', as_bool (\<lambda>b. nk_Requeue_update (\<lambda>_. b)))]"

record CreateTopicRequest =
  ct_Name :: string
  ct_Partitions :: int
  ct_ReplicationFactor :: int
  ct_RetentionHours :: int
  ct_CompactionMode :: string

definition CreateTopicRequest_fields :: "(string \<times> CreateTopicRequest setter) list" where
  "CreateTopicRequest_fields =
     [(''name'', as_string (\<lambda>s. ct_Name_update (\<lambda>_. s))),
      (''partitions'', as_int64 (\<lambda>i. ct_Partitions_update (\<lambda>_. i))),
      (''replication_factor'', as_int64 (\<lambda>i. ct_ReplicationFactor_update (\<lambda>_. i))),
      (''retention_hours'', as_int64 (\<lambda>i. ct_RetentionHours_update (\<lambda>_. i))),
      (''compaction_mode'', as_string (\<lambda>s. ct_CompactionMode_update (\<lambda>_. s)))]"

record SeekRequest =
  sk_Topic :: string
  sk_Group :: string
  sk_TimestampNs :: int
  sk_ToEnd :: bool
  sk_Offset :: "int option"

definition SeekRequest_fields :: "(string \<times> SeekRequest setter) list" where
  "SeekRequest_fields =
     [(''topic'', as_string (\<lambda>s. sk_Topic_update (\<lambda>_. s))),
      (''group'', as_string (\<lambda>s. sk_Group_update (\<lambda>_. s))),
      (''timestamp_ns'', as_int64 (\<lambda>i. sk_TimestampNs_update (\<lambda>_. i))),
      (''to_end'', as_bool (\<lambda>b. sk_ToEnd_update (\<lambda>_. b))),
      (''offset'', as_int_ptr (- (2 ^ 63)) (2 ^ 63 - 1) (\<lambda>i. sk_Offset_update (\<lambda>_. i)))]"

record ResetGroupRequest =
  rg_Group :: string
  rg_Topic :: string

definition ResetGroupRequest_fields :: "(string \<times> ResetGroupRequest setter) list" where
  "ResetGroupRequest_fields =
     [(''group'', as_string (\<lambda>s. rg_Group_update (\<lambda>_. s))),
      (''topic'', as_string (\<lambda>s. rg_Topic_update (\<lambda>_. s)))]"

record AuthRequest =
  au_APIKey :: string
  au_ClientID :: string

definition AuthRequest_fields :: "(string \<times> AuthRequest setter) list" where
  "AuthRequest_fields =
     [(''api_key'', as_string (\<lambda>s. au_APIKey_update (\<lambda>_. s))),
      (''client_id'', as_string (\<lambda>s. au_ClientID_update (\<lambda>_. s)))]"

text \<open>\<open>protocol.Unmarshal\<close>: an empty body leaves the zero value.\<close>

definition Unmarshal_body :: "'a setter \<Rightarrow> bytes \<Rightarrow> 'a \<Rightarrow> 'a option" where
  "Unmarshal_body f body x = (if body = [] then Some x else Unmarshal f body x)"

section \<open>Topic configuration\<close>

record TopicConfig =
  tc_Name :: string
  tc_Partitions :: int
  tc_ReplicationFactor :: int
  tc_RetentionHours :: int
  tc_RetentionBytes :: int
  tc_DeliveryMode :: DeliveryMode
  tc_CompressionCodec :: byte
  tc_MinISR :: int
  tc_CompactionMode :: string

definition zero_TopicConfig :: TopicConfig where
  "zero_TopicConfig = \<lparr>tc_Name = [], tc_Partitions = 0, tc_ReplicationFactor = 0,
     tc_RetentionHours = 0, tc_RetentionBytes = 0, tc_DeliveryMode = 0, tc_CompressionCodec = 0,
     tc_MinISR = 0, tc_CompactionMode = []\<rparr>"

text \<open>Fields without a tag keep their Go name.\<close>

definition TopicConfig_json :: "TopicConfig \<Rightarrow> json" where
  "TopicConfig_json c = JObj (
     [(''Name'', JStr (tc_Name c)), (''Partitions'', int_json (tc_Partitions c)),
      (''ReplicationFactor'', int_json (tc_ReplicationFactor c)),
      (''RetentionHours'', int_json (tc_RetentionHours c)),
      (''RetentionBytes'', int_json (tc_RetentionBytes c)),
      (''DeliveryMode'', int_json (uint (tc_DeliveryMode c))),
      (''CompressionCodec'', int_json (uint (tc_CompressionCodec c)))] @
     opt_field (tc_MinISR c \<noteq> 0) ''min_isr'' (int_json (tc_MinISR c)) @
     opt_field (tc_CompactionMode c \<noteq> []) ''compaction_mode'' (JStr (tc_CompactionMode c)))"

definition TopicConfig_fields :: "(string \<times> TopicConfig setter) list" where
  "TopicConfig_fields =
     [(''name'', as_string (\<lambda>s. tc_Name_update (\<lambda>_. s))),
      (''partitions'', as_int64 (\<lambda>i. tc_Partitions_update (\<lambda>_. i))),
      (''replicationfactor'', as_int64 (\<lambda>i. tc_ReplicationFactor_update (\<lambda>_. i))),
      (''retentionhours'', as_int64 (\<lambda>i. tc_RetentionHours_update (\<lambda>_. i))),
      (''retentionbytes'', as_int64 (\<lambda>i. tc_RetentionBytes_update (\<lambda>_. i))),
      (''deliverymode'', as_uint 255 (\<lambda>n. tc_DeliveryMode_update (\<lambda>_. word_of_nat n))),
      (''compressioncodec'', as_uint 255 (\<lambda>n. tc_CompressionCodec_update (\<lambda>_. word_of_nat n))),
      (''min_isr'', as_int64 (\<lambda>i. tc_MinISR_update (\<lambda>_. i))),
      (''compaction_mode'', as_string (\<lambda>s. tc_CompactionMode_update (\<lambda>_. s)))]"

definition wf_TopicConfig :: "TopicConfig \<Rightarrow> bool" where
  "wf_TopicConfig c \<longleftrightarrow>
     valid_utf8 (tc_Name c) \<and> valid_utf8 (tc_CompactionMode c) \<and> int64_range (tc_Partitions c) \<and>
     int64_range (tc_ReplicationFactor c) \<and> int64_range (tc_RetentionHours c) \<and>
     int64_range (tc_RetentionBytes c) \<and> int64_range (tc_MinISR c)"

section \<open>Codecs\<close>

text \<open>
  What the logs rely on: decoding what was encoded gives the value back, for the values the
  writer can produce.
\<close>

locale byte_codec =
  fixes enc :: "'a \<Rightarrow> bytes" and dec :: "bytes \<Rightarrow> 'a option" and ok :: "'a \<Rightarrow> bool"
  assumes dec_enc: "ok x \<Longrightarrow> dec (enc x) = Some x"
begin

lemma enc_inject: "ok x \<Longrightarrow> ok y \<Longrightarrow> enc x = enc y \<Longrightarrow> x = y"
  by (metis dec_enc option.inject)

lemma dec_all: "list_all ok xs \<Longrightarrow> map dec (map enc xs) = map Some xs"
  by (induction xs) (simp_all add: dec_enc)

lemma map_filter_dec: "list_all ok xs \<Longrightarrow> List.map_filter dec (map enc xs) = xs"
  by (induction xs) (simp_all add: List.map_filter_def dec_enc)

end

interpretation message_codec: byte_codec Marshal_Message Unmarshal_Message wf_Message
  by unfold_locales (rule Unmarshal_Marshal_Message)

lemma fold_request_names [simp]:
  "fold_name ''delivery_mode'' = ''delivery_mode''" "fold_name ''seq_num'' = ''seq_num''"
  "fold_name ''target_offset'' = ''target_offset''"
  by (simp_all add: fold_name.simps lower_def in_range_def)

lemma PublishRequest_lookup [simp]:
  "map_of PublishRequest_fields ''topic'' = Some (as_string (\<lambda>s. pr_Topic_update (\<lambda>_. s)))"
  "map_of PublishRequest_fields ''key'' = Some (as_string (\<lambda>s. pr_Key_update (\<lambda>_. s)))"
  "map_of PublishRequest_fields ''payload'' = Some (as_bytes (\<lambda>p. pr_Payload_update (\<lambda>_. p)))"
  "map_of PublishRequest_fields ''headers'' = Some (as_strmap pr_Headers (\<lambda>h. pr_Headers_update (\<lambda>_. h)))"
  "map_of PublishRequest_fields ''delivery_mode'' =
     Some (as_uint 255 (\<lambda>n. pr_DeliveryMode_update (\<lambda>_. word_of_nat n)))"
  "map_of PublishRequest_fields ''seq_num'' =
     Some (as_uint (2 ^ 64 - 1) (\<lambda>n. pr_SeqNum_update (\<lambda>_. word_of_nat n)))"
  "map_of PublishRequest_fields ''codec'' = Some (as_uint 255 (\<lambda>n. pr_Codec_update (\<lambda>_. word_of_nat n)))"
  "map_of PublishRequest_fields ''target_offset'' =
     Some (as_int_ptr (- (2 ^ 63)) (2 ^ 63 - 1) (\<lambda>i. pr_TargetOffset_update (\<lambda>_. i)))"
  by (simp_all add: PublishRequest_fields_def)

lemma unat_u64_le: "unat (w :: 64 word) \<le> 18446744073709551615"
  using unsigned_less [of w, where ?'a = nat] by simp

lemma as_int_ptr_json [simp]:
  "as_int_ptr lo hi upd (int_json i) x = (if lo \<le> i \<and> i \<le> hi then Some (upd (Some i) x) else None)"
  by (simp add: as_int_ptr_def int_json_def)

lemma assign_PublishRequest:
  assumes "wf_PublishRequest r"
  shows "assign_struct PublishRequest_fields (PublishRequest_json r) zero_PublishRequest = Some r"
  using assms
  by (cases r; cases "pr_TargetOffset r")
    (auto simp: assign_struct_def PublishRequest_json_def opt_field_def zero_PublishRequest_def
      wf_PublishRequest_def wf_headers_def int64_range_def assign_fields_append unat_byte_le
      unat_u64_le)

lemma PublishRequest_json_valid: "wf_PublishRequest r \<Longrightarrow> valid_json (PublishRequest_json r)"
  by (auto simp: PublishRequest_json_def wf_PublishRequest_def wf_headers_def opt_field_def
      ascii_valid_utf8)

interpretation request_codec: byte_codec Marshal_PublishRequest Unmarshal_PublishRequest wf_PublishRequest
  by unfold_locales
    (simp add: Unmarshal_PublishRequest_def Marshal_PublishRequest_def PublishRequest_json_valid
      assign_PublishRequest)

lemma fold_topic_names [simp]:
  "fold_name ''Name'' = ''name''" "fold_name ''Partitions'' = ''partitions''"
  "fold_name ''ReplicationFactor'' = ''replicationfactor''"
  "fold_name ''RetentionHours'' = ''retentionhours''"
  "fold_name ''RetentionBytes'' = ''retentionbytes''"
  "fold_name ''DeliveryMode'' = ''deliverymode''"
  "fold_name ''CompressionCodec'' = ''compressioncodec''"
  "fold_name ''min_isr'' = ''min_isr''" "fold_name ''compaction_mode'' = ''compaction_mode''"
  by (simp_all add: fold_name.simps lower_def in_range_def char_of_def bit_0)

lemma TopicConfig_lookup [simp]:
  "map_of TopicConfig_fields ''name'' = Some (as_string (\<lambda>s. tc_Name_update (\<lambda>_. s)))"
  "map_of TopicConfig_fields ''partitions'' = Some (as_int64 (\<lambda>i. tc_Partitions_update (\<lambda>_. i)))"
  "map_of TopicConfig_fields ''replicationfactor'' =
     Some (as_int64 (\<lambda>i. tc_ReplicationFactor_update (\<lambda>_. i)))"
  "map_of TopicConfig_fields ''retentionhours'' =
     Some (as_int64 (\<lambda>i. tc_RetentionHours_update (\<lambda>_. i)))"
  "map_of TopicConfig_fields ''retentionbytes'' =
     Some (as_int64 (\<lambda>i. tc_RetentionBytes_update (\<lambda>_. i)))"
  "map_of TopicConfig_fields ''deliverymode'' =
     Some (as_uint 255 (\<lambda>n. tc_DeliveryMode_update (\<lambda>_. word_of_nat n)))"
  "map_of TopicConfig_fields ''compressioncodec'' =
     Some (as_uint 255 (\<lambda>n. tc_CompressionCodec_update (\<lambda>_. word_of_nat n)))"
  "map_of TopicConfig_fields ''min_isr'' = Some (as_int64 (\<lambda>i. tc_MinISR_update (\<lambda>_. i)))"
  "map_of TopicConfig_fields ''compaction_mode'' =
     Some (as_string (\<lambda>s. tc_CompactionMode_update (\<lambda>_. s)))"
  by (simp_all add: TopicConfig_fields_def)

lemma assign_TopicConfig:
  assumes "wf_TopicConfig c"
  shows "assign_struct TopicConfig_fields (TopicConfig_json c) zero_TopicConfig = Some c"
  using assms
  by (cases c)
    (auto simp: assign_struct_def TopicConfig_json_def opt_field_def zero_TopicConfig_def
      wf_TopicConfig_def int64_range_def assign_fields_append unat_byte_le)

lemma TopicConfig_json_valid: "wf_TopicConfig c \<Longrightarrow> valid_json (TopicConfig_json c)"
  by (auto simp: TopicConfig_json_def wf_TopicConfig_def opt_field_def ascii_valid_utf8)

end
