(* ===== verification/Record_Codec.thy ===== *)
theory Record_Codec
  imports Broker_Types
begin

text \<open>
  The log record format of \<^verbatim>\<open>src/internal/storage/record.go\<close> in both versions, the checksum
  \<open>crc32.ChecksumIEEE\<close> it uses, and the codec switch of \<^verbatim>\<open>src/internal/compress/compress.go\<close>.
  The DEFLATE and zlib streams themselves are a parameter, the record \<open>flate_lib\<close>. The clock
  value stored in a record header is an argument. The theory shows that decoding inverts
  encoding for uncompressed messages, that a record with one altered payload byte is always
  rejected, and that a truncated record is reported as an end-of-file condition.
\<close>

section \<open>CRC-32\<close>

definition crc_step :: "32 word \<Rightarrow> 32 word" where
  "crc_step c = (if odd c then drop_bit 1 c XOR 0xEDB88320 else drop_bit 1 c)"

definition crc_byte :: "32 word \<Rightarrow> byte \<Rightarrow> 32 word" where
  "crc_byte c b = (crc_step ^^ 8) (c XOR ucast b)"

definition ChecksumIEEE :: "bytes \<Rightarrow> 32 word" where
  "ChecksumIEEE bs = NOT (foldl crc_byte (NOT 0) bs)"

section \<open>Compression\<close>

record flate_lib =
  flate_compress :: "bytes \<Rightarrow> bytes"
  flate_decompress :: "bytes \<Rightarrow> bytes option"
  zlib_compress :: "bytes \<Rightarrow> bytes"
  zlib_decompress :: "bytes \<Rightarrow> bytes option"

datatype compress_error = UnknownCodec byte | FlateDecompress | ZlibDecompress

definition CodecNone :: byte where
  "CodecNone = 0"

definition CodecFlate :: byte where
  "CodecFlate = 1"

definition CodecZlib :: byte where
  "CodecZlib = 2"

lemmas codec_consts = CodecNone_def CodecFlate_def CodecZlib_def

definition Compress :: "flate_lib \<Rightarrow> byte \<Rightarrow> bytes \<Rightarrow> (compress_error, bytes) result" where
  "Compress lib codec src =
     (if codec = CodecNone then Inr src
      else if codec = CodecFlate then Inr (flate_compress lib src)
      else if codec = CodecZlib then Inr (zlib_compress lib src)
      else Inl (UnknownCodec codec))"

definition Decompress :: "flate_lib \<Rightarrow> byte \<Rightarrow> bytes \<Rightarrow> (compress_error, bytes) result" where
  "Decompress lib codec src =
     (if codec = CodecNone then Inr src
      else if codec = CodecFlate then
        (case flate_decompress lib src of Some out \<Rightarrow> Inr out | None \<Rightarrow> Inl FlateDecompress)
      else if codec = CodecZlib then
        (case zlib_decompress lib src of Some out \<Rightarrow> Inr out | None \<Rightarrow> Inl ZlibDecompress)
      else Inl (UnknownCodec codec))"

section \<open>Records\<close>

definition recV1HeaderSize :: nat where
  "recV1HeaderSize = 8 + 8 + 2 + 4 + 4"

definition recV2HeaderSize :: nat where
  "recV2HeaderSize = 8 + 8 + 2 + 4 + 4 + 1"

definition RecordVersion :: byte where
  "RecordVersion = 2"

definition segMagic :: bytes where
  "segMagic = [0x50, 0x53, 0x47, 0x32]"

definition segFileHeaderSize :: nat where
  "segFileHeaderSize = 5"

definition recHeaderSize :: "byte \<Rightarrow> nat" where
  "recHeaderSize ver = (if RecordVersion \<le> ver then recV2HeaderSize else recV1HeaderSize)"

definition record_header :: "byte \<Rightarrow> int \<Rightarrow> int \<Rightarrow> string \<Rightarrow> bytes \<Rightarrow> byte \<Rightarrow> bytes" where
  "record_header ver offset now key payload codec =
     put_int64 offset @ put_int64 now @ le_bytes 2 (length key) @ le_bytes 4 (length payload) @
     le_bytes 4 (unat (ChecksumIEEE payload)) @ (if RecordVersion \<le> ver then [codec] else [])"

definition encodeRecord :: "int \<Rightarrow> int \<Rightarrow> Message \<Rightarrow> byte \<Rightarrow> bytes" where
  "encodeRecord now offset msg ver =
     (let payload = Marshal_Message msg; key = m_Key msg
      in record_header ver offset now key payload (m_Codec msg) @ bytes_of_string key @ payload)"

datatype record_error =
    RecEOF io_error
  | ChecksumMismatch int
  | RecDecompress int compress_error
  | RecUnmarshal

text \<open>The last part of the decoder: decompress when the codec byte says so, then unmarshal.\<close>

definition decode_payload ::
  "flate_lib \<Rightarrow> int \<Rightarrow> byte \<Rightarrow> bytes \<Rightarrow> bytes \<Rightarrow> (record_error, Message \<times> int \<times> bytes) result" where
  "decode_payload lib offset codec payload rest =
     (case (if codec \<noteq> 0 then Decompress lib codec payload else Inr payload) of
        Inl e \<Rightarrow> Inl (RecDecompress offset e)
      | Inr json \<Rightarrow>
          (case Unmarshal_Message json of
             None \<Rightarrow> Inl RecUnmarshal
           | Some msg \<Rightarrow> Inr (msg\<lparr>m_Offset := offset\<rparr>, offset, rest)))"

definition decodeRecord ::
  "flate_lib \<Rightarrow> byte \<Rightarrow> bytes \<Rightarrow> (record_error, Message \<times> int \<times> bytes) result" where
  "decodeRecord lib ver r =
     (case readFull (recHeaderSize ver) r of
        Inl e \<Rightarrow> Inl (RecEOF e)
      | Inr (hdr, r1) \<Rightarrow>
          (let offset = get_int64 (window 0 8 hdr);
               keyLen = le_nat (window 16 18 hdr);
               payloadLen = le_nat (window 18 22 hdr);
               checksum = word_of_nat (le_nat (window 22 26 hdr));
               codec = (if RecordVersion \<le> ver then hdr ! 26 else 0)
           in case readFull (keyLen + payloadLen) r1 of
                Inl e \<Rightarrow> Inl (RecEOF e)
              | Inr (body, r2) \<Rightarrow>
                  (let payload = drop keyLen body
                   in if ChecksumIEEE payload \<noteq> checksum then Inl (ChecksumMismatch offset)
                      else decode_payload lib offset codec payload r2)))"

definition eof_error :: "record_error \<Rightarrow> bool" where
  "eof_error e \<longleftrightarrow> (case e of RecEOF _ \<Rightarrow> True | _ \<Rightarrow> False)"

text \<open>
  What the fixed-width fields of a header can hold: the key length has 16 bits, the payload
  length 32 bits.
\<close>

definition wf_record :: "int \<Rightarrow> Message \<Rightarrow> bool" where
  "wf_record offset msg \<longleftrightarrow>
     wf_Message msg \<and> int64_range offset \<and> length (m_Key msg) < 2 ^ 16 \<and>
     length (Marshal_Message msg) < 2 ^ 32"

lemmas record_consts =
  recV1HeaderSize_def recV2HeaderSize_def RecordVersion_def segFileHeaderSize_def

lemma length_record_header [simp]:
  "length (record_header ver offset now key payload codec) = recHeaderSize ver"
  by (simp add: record_header_def recHeaderSize_def record_consts)

lemma record_header_fields:
  assumes "hdr = record_header ver offset now key payload codec"
  shows "window 0 8 hdr = put_int64 offset" "window 16 18 hdr = le_bytes 2 (length key)"
    "window 18 22 hdr = le_bytes 4 (length payload)"
    "window 22 26 hdr = le_bytes 4 (unat (ChecksumIEEE payload))"
    "RecordVersion \<le> ver \<Longrightarrow> hdr ! 26 = codec"
  using assms by (simp_all add: record_header_def nth_append)

lemma length_encodeRecord:
  "length (encodeRecord now offset msg ver) =
     recHeaderSize ver + length (m_Key msg) + length (Marshal_Message msg)"
  by (simp add: encodeRecord_def Let_def)

lemma decodeRecord_framed:
  assumes "int64_range offset" and "length key < 2 ^ 16" and "length payload < 2 ^ 32"
    and "length body = length payload"
  shows "decodeRecord lib ver
      (record_header ver offset now key payload codec @ bytes_of_string key @ body @ rest) =
     (if ChecksumIEEE body \<noteq> ChecksumIEEE payload then Inl (ChecksumMismatch offset)
      else decode_payload lib offset (if RecordVersion \<le> ver then codec else 0) body rest)"
proof -
  let ?hdr = "record_header ver offset now key payload codec"
  note f = record_header_fields [of ?hdr, OF refl]
  have k: "le_nat (window 16 18 ?hdr) = length key" using assms(2) by (simp add: f le_nat_le_bytes)
  have p: "le_nat (window 18 22 ?hdr) = length payload" using assms(3) by (simp add: f le_nat_le_bytes)
  have "unat (ChecksumIEEE payload) < 256 ^ 4"
    using unsigned_less [of "ChecksumIEEE payload", where ?'a = nat] by simp
  then have c: "word_of_nat (le_nat (window 22 26 ?hdr)) = ChecksumIEEE payload"
    by (simp only: f le_nat_le_bytes_id) simp
  have off: "get_int64 (window 0 8 ?hdr) = offset" using assms(1) by (simp add: f get_put_int64)
  have body: "readFull (length key + length payload) (bytes_of_string key @ body @ rest) =
      Inr (bytes_of_string key @ body, rest)"
    using readFull_append [of "bytes_of_string key @ body" "length key + length payload" rest] assms(4)
    by simp
  show ?thesis
    by (simp add: decodeRecord_def k p c body Let_def f(5) off)
qed

lemma decodeRecord_encodeRecord:
  assumes "wf_record offset msg" and "ver < RecordVersion \<or> m_Codec msg = 0"
  shows "decodeRecord lib ver (encodeRecord now offset msg ver @ rest) =
    Inr (msg\<lparr>m_Offset := offset\<rparr>, offset, rest)"
proof -
  have "wf_Message msg" using assms(1) by (simp add: wf_record_def)
  then have "decode_payload lib offset (if RecordVersion \<le> ver then m_Codec msg else 0) (Marshal_Message msg) rest =
      Inr (msg\<lparr>m_Offset := offset\<rparr>, offset, rest)"
    using assms(2) by (auto simp: decode_payload_def message_codec.dec_enc)
  then show ?thesis
    using assms(1) decodeRecord_framed [of offset "m_Key msg" "Marshal_Message msg" "Marshal_Message msg"]
    by (simp add: wf_record_def encodeRecord_def Let_def)
qed

section \<open>Error detection\<close>

lemma bit_crc_poly: "bit (0xEDB88320 :: 32 word) 31"
  by simp

lemma crc_step_top: "bit (crc_step c) 31 \<longleftrightarrow> odd c"
  by (auto simp: crc_step_def bit_simps bit_crc_poly dest: bit_imp_le_length)

lemma xor_cancel_right: "x XOR k = y XOR k \<Longrightarrow> x = (y :: 'a::len word)"
proof -
  assume "x XOR k = y XOR k"
  from arg_cong [OF this, of "\<lambda>z. z XOR k"] show ?thesis by (simp add: xor.assoc)
qed

lemma crc_step_inj: "inj crc_step"
proof (rule injI)
  fix c d :: "32 word"
  assume eq: "crc_step c = crc_step d"
  then have par: "odd c \<longleftrightarrow> odd d" using crc_step_top by metis
  have dr: "drop_bit 1 c = drop_bit 1 d"
  proof (cases "odd c")
    case True
    then have "drop_bit 1 c XOR 0xEDB88320 = drop_bit 1 d XOR 0xEDB88320"
      using eq par by (simp only: crc_step_def if_True not_False_eq_True)
    then show ?thesis by (rule xor_cancel_right)
  next
    case False
    then show ?thesis using eq par by (simp only: crc_step_def if_False if_True not_False_eq_True not_True_eq_False)
  qed
  have "c = push_bit 1 (drop_bit 1 c) + take_bit 1 c" "d = push_bit 1 (drop_bit 1 d) + take_bit 1 d"
    by (simp_all only: bits_ident)
  moreover have "take_bit 1 c = take_bit 1 d"
    using par by (simp add: take_bit_eq_mod mod_2_eq_odd)
  ultimately show "c = d" using dr by metis
qed

lemma crc_steps_inj: "inj (crc_step ^^ n)"
proof (induction n)
  case (Suc n)
  then show ?case using inj_compose [OF crc_step_inj Suc] by (simp add: comp_def)
qed simp

lemma crc_byte_inj_state: "crc_byte c b = crc_byte d b \<Longrightarrow> c = d"
  unfolding crc_byte_def by (drule injD [OF crc_steps_inj]) (rule xor_cancel_right)

lemma crc_byte_inj_byte: "crc_byte c a = crc_byte c b \<Longrightarrow> a = b"
proof -
  assume "crc_byte c a = crc_byte c b"
  then have "c XOR ucast a = c XOR ucast b"
    unfolding crc_byte_def by (rule injD [OF crc_steps_inj])
  then have "(ucast a :: 32 word) = ucast b"
    by (simp only: xor.commute [of c]) (rule xor_cancel_right)
  then have "(ucast (ucast a :: 32 word) :: byte) = ucast (ucast b :: 32 word)" by simp
  then show "a = b" by (simp add: ucast_up_ucast_id is_up)
qed

lemma crc_fold_inj_state: "foldl crc_byte c bs = foldl crc_byte d bs \<Longrightarrow> c = d"
  by (induction bs arbitrary: c d) (auto dest: crc_byte_inj_state)

lemma ChecksumIEEE_one_byte:
  assumes "i < length bs" and "bs ! i \<noteq> b"
  shows "ChecksumIEEE (bs[i := b]) \<noteq> ChecksumIEEE bs"
proof
  assume "ChecksumIEEE (bs[i := b]) = ChecksumIEEE bs"
  then have eq: "foldl crc_byte (NOT 0) (bs[i := b]) = foldl crc_byte (NOT 0) bs"
    by (simp add: ChecksumIEEE_def)
  have "bs[i := b] = take i bs @ b # drop (Suc i) bs" and "bs = take i bs @ bs ! i # drop (Suc i) bs"
    using assms(1) by (simp_all add: upd_conv_take_nth_drop id_take_nth_drop [symmetric])
  then have "foldl crc_byte (NOT 0) (take i bs @ b # drop (Suc i) bs) =
      foldl crc_byte (NOT 0) (take i bs @ bs ! i # drop (Suc i) bs)"
    using eq by metis
  then have "crc_byte (foldl crc_byte (NOT 0) (take i bs)) b =
      crc_byte (foldl crc_byte (NOT 0) (take i bs)) (bs ! i)"
    by (simp add: crc_fold_inj_state)
  with assms(2) show False using crc_byte_inj_byte by metis
qed

lemma decodeRecord_prefix:
  assumes "wf_record offset msg" and "n < length (encodeRecord now offset msg ver)"
  shows "\<exists>e. decodeRecord lib ver (take n (encodeRecord now offset msg ver)) = Inl (RecEOF e)"
proof (cases "n < recHeaderSize ver")
  case True
  then have "length (take n (encodeRecord now offset msg ver)) < recHeaderSize ver" by simp
  then obtain e where "readFull (recHeaderSize ver) (take n (encodeRecord now offset msg ver)) = Inl e"
    by (rule readFull_short)
  then show ?thesis by (simp add: decodeRecord_def)
next
  case False
  let ?key = "m_Key msg" and ?pl = "Marshal_Message msg"
  let ?hdr = "record_header ver offset now ?key ?pl (m_Codec msg)"
  let ?body = "take (n - recHeaderSize ver) (bytes_of_string ?key @ ?pl)"
  have split: "take n (encodeRecord now offset msg ver) = ?hdr @ ?body"
    using False by (simp add: encodeRecord_def Let_def)
  note f = record_header_fields [of ?hdr, OF refl]
  have k: "le_nat (window 16 18 ?hdr) = length ?key" "le_nat (window 18 22 ?hdr) = length ?pl"
    using assms(1) by (simp_all add: f le_nat_le_bytes wf_record_def)
  have "length ?body < length ?key + length ?pl"
    using False assms(2) by (simp add: length_encodeRecord)
  then obtain e where "readFull (length ?key + length ?pl) ?body = Inl e" by (rule readFull_short)
  then have "decodeRecord lib ver (?hdr @ ?body) = Inl (RecEOF e)"
    by (simp add: decodeRecord_def k Let_def)
  then show ?thesis using split by auto
qed

text \<open>Altering any single byte of the stored JSON payload is caught: the record is
  rejected with a checksum error at its offset, whatever follows it in the file.\<close>

theorem corrupt_payload_rejected:
  assumes "wf_record offset msg" and "i < length (Marshal_Message msg)"
    and "Marshal_Message msg ! i \<noteq> b"
  shows "decodeRecord lib ver
      ((encodeRecord now offset msg ver)[recHeaderSize ver + length (m_Key msg) + i := b] @ rest) =
    Inl (ChecksumMismatch offset)"
proof -
  let ?pl = "Marshal_Message msg"
  have "(encodeRecord now offset msg ver)[recHeaderSize ver + length (m_Key msg) + i := b] =
      record_header ver offset now (m_Key msg) ?pl (m_Codec msg) @ bytes_of_string (m_Key msg) @ ?pl[i := b]"
    by (simp add: encodeRecord_def Let_def list_update_append)
  then show ?thesis
    using assms decodeRecord_framed [of offset "m_Key msg" ?pl "?pl[i := b]"]
      ChecksumIEEE_one_byte [OF assms(2,3)]
    by (simp add: wf_record_def)
qed

text \<open>A record cut short at any point, as a crash during the write leaves it, is reported as
  an end-of-file condition and never as a message.\<close>

theorem truncated_record_eof:
  assumes "wf_record offset msg" and "n < length (encodeRecord now offset msg ver)"
  shows "\<exists>e. decodeRecord lib ver (take n (encodeRecord now offset msg ver)) = Inl e \<and> eof_error e"
  using decodeRecord_prefix [OF assms, of lib] by (auto simp: eof_error_def)

text \<open>A message published with the zlib codec cannot be read back: the encoder stores the JSON
  text uncompressed and puts the codec byte in the header, and the decoder then hands that text to
  the zlib reader, which refuses a stream whose method nibble is not 8.\<close>

theorem zlib_record_unreadable:
  assumes "wf_record offset msg" and "RecordVersion \<le> ver" and "m_Codec msg = CodecZlib"
    and zlib_header: "\<And>b src. b AND 0x0f \<noteq> 8 \<Longrightarrow> zlib_decompress lib (b # src) = None"
  shows "decodeRecord lib ver (encodeRecord now offset msg ver @ rest) =
    Inl (RecDecompress offset ZlibDecompress)"
proof -
  obtain fs where "Message_json msg = JObj fs" by (simp add: Message_json_def)
  then obtain src where src: "Marshal_Message msg = byte_of_char (CHR ''{'') # src"
    by (simp add: Marshal_Message_def Marshal_def bytes_of_string_def)
  have "byte_of_char (CHR ''{'') = 0x7B" by (simp add: byte_of_char_def)
  then have "zlib_decompress lib (Marshal_Message msg) = None"
    using zlib_header [of "0x7B" src] src by simp
  then have "decode_payload lib offset (m_Codec msg) (Marshal_Message msg) rest =
      Inl (RecDecompress offset ZlibDecompress)"
    by (simp add: decode_payload_def assms(3) Decompress_def codec_consts)
  then show ?thesis
    using assms(1,2) decodeRecord_framed [of offset "m_Key msg" "Marshal_Message msg" "Marshal_Message msg"]
    by (simp add: wf_record_def encodeRecord_def Let_def)
qed

section \<open>Instances\<close>

definition sample_Message :: Message where
  "sample_Message = zero_Message\<lparr>m_Topic := ''t'', m_Payload := Some [104, 105]\<rparr>"

text \<open>A stand-in for the compression library that keeps the zlib method byte in front.\<close>

definition sample_lib :: flate_lib where
  "sample_lib = \<lparr>flate_compress = id, flate_decompress = Some, zlib_compress = (#) 0x78,
     zlib_decompress =
       (\<lambda>src. case src of [] \<Rightarrow> None | b # r \<Rightarrow> if b AND 0x0f = 8 then Some r else None)\<rparr>"

lemmas marshal_eval =
  Marshal_Message_def Marshal_def zero_Message_def Message_json_def opt_field_def
  int_json_def bytes_json_def show_int_def quote_def escape.simps esc_ascii_def b64_of_bytes_def
  b64_char_def b64_pad_def char_of_def bit_0

lemma length_sample: "length (Marshal_Message sample_Message) = 66"
  by (simp add: sample_Message_def marshal_eval)

lemma hd_sample: "Marshal_Message sample_Message ! 0 = 0x7B"
  by (simp add: sample_Message_def marshal_eval bytes_of_string_def byte_of_char_def)

lemma wf_Message_sample: "wf_Message sample_Message"
  by (simp add: wf_Message_def sample_Message_def zero_Message_def wf_headers_def map_sorted_def
      int64_range_def int32_range_def ascii_valid_utf8)

lemma key_sample: "m_Key sample_Message = []"
  by (simp add: sample_Message_def zero_Message_def)

lemma wf_record_sample: "wf_record 0 sample_Message"
  by (simp add: wf_record_def wf_Message_sample length_sample key_sample int64_range_def)

theorem corrupt_payload_rejected_witness:
  "decodeRecord sample_lib 2 ((encodeRecord 5 0 sample_Message 2)[27 := 0] @ [1, 2]) =
     Inl (ChecksumMismatch 0)"
proof -
  have "recHeaderSize 2 + length (m_Key sample_Message) + 0 = 27"
    by (simp add: recHeaderSize_def record_consts key_sample)
  then show ?thesis
    using corrupt_payload_rejected [OF wf_record_sample, of 0 0 sample_lib 2 5 "[1, 2]"]
    by (simp add: length_sample hd_sample)
qed

theorem truncated_record_eof_witness:
  "\<exists>e. decodeRecord sample_lib 2 (take 40 (encodeRecord 5 0 sample_Message 2)) = Inl e \<and> eof_error e"
  by (rule truncated_record_eof [OF wf_record_sample])
    (simp add: length_encodeRecord length_sample key_sample recHeaderSize_def record_consts)

definition sample_zlib_Message :: Message where
  "sample_zlib_Message = sample_Message\<lparr>m_Codec := CodecZlib\<rparr>"

lemma wf_record_sample_zlib: "wf_record 7 sample_zlib_Message"
proof -
  have "length (Marshal_Message sample_zlib_Message) = 76"
    by (simp add: sample_zlib_Message_def sample_Message_def marshal_eval codec_consts show_nat.simps
        digit_def)
  then show ?thesis
    using wf_Message_sample key_sample
    by (simp add: wf_record_def wf_Message_def sample_zlib_Message_def int64_range_def)
qed

theorem zlib_record_unreadable_witness:
  "decodeRecord sample_lib 2 (encodeRecord 5 7 sample_zlib_Message 2 @ []) =
     Inl (RecDecompress 7 ZlibDecompress)"
proof (rule zlib_record_unreadable [OF wf_record_sample_zlib])
  show "RecordVersion \<le> 2" by (simp add: RecordVersion_def)
  show "m_Codec sample_zlib_Message = CodecZlib" by (simp add: sample_zlib_Message_def)
  show "zlib_decompress sample_lib (b # src) = None" if "b AND 0x0f \<noteq> 8" for b src
    using that by (simp add: sample_lib_def)
qed

end
