(* ===== verification/Segment_Store.thy ===== *)
theory Segment_Store
  imports Record_Codec
begin

text \<open>
  Log segments, \<^verbatim>\<open>src/internal/storage/segment.go\<close>. A segment owns two files, which are byte
  strings here: the log (a five byte header and the records) and the sparse index (sixteen bytes
  per entry). Opening, appending, reading, recovery and the two position searches are modelled
  with the loops of the source; a failing write or sync is an explicit fault argument. The
  invariant \<open>seg_inv\<close> ties a segment to the list of entries it holds, and the lemmas show that
  every operation refines the obvious operation on that list.
\<close>

section \<open>State and operations\<close>

record Segment =
  s_baseOffset :: int
  s_nextOffset :: int
  s_logFile :: bytes
  s_indexFile :: bytes
  s_logSize :: int
  s_maxBytes :: int
  s_indexEvery :: int
  s_byteSinceIndex :: int
  s_syncPolicy :: string
  s_version :: byte
  s_dataStart :: nat

lemma recHeaderSize_pos [simp]: "0 < recHeaderSize ver"
  by (simp add: recHeaderSize_def record_consts)

lemma decodeRecord_shorter: "decodeRecord lib ver r = Inr (m, off, r') \<Longrightarrow> length r' < length r"
  using recHeaderSize_pos [of ver]
  by (auto simp: decodeRecord_def decode_payload_def Let_def dest!: readFull_Inr
      split: sum.splits if_splits option.splits prod.splits)

text \<open>The scan of \<open>recoverNextOffset\<close>: the last offset that decodes, whatever ends the scan.\<close>

function scan_last :: "flate_lib \<Rightarrow> byte \<Rightarrow> bytes \<Rightarrow> int \<Rightarrow> int" where
  "scan_last lib ver r lastOffset =
     (case decodeRecord lib ver r of
        Inl e \<Rightarrow> lastOffset
      | Inr (m, off, r') \<Rightarrow> scan_last lib ver r' off)"
  by pat_completeness auto
termination
  by (relation "measure (\<lambda>(lib, ver, r, last). length r)") (auto dest: decodeRecord_shorter)

declare scan_last.simps [simp del]

definition recoverNextOffset :: "flate_lib \<Rightarrow> Segment \<Rightarrow> Segment" where
  "recoverNextOffset lib s =
     s\<lparr>s_nextOffset :=
         scan_last lib (s_version s) (drop (s_dataStart s) (s_logFile s)) (s_baseOffset s - 1) + 1\<rparr>"

definition segment_header :: bytes where
  "segment_header = segMagic @ [RecordVersion]"

text \<open>\<open>createSegment\<close> on the contents the two files have when they are opened.\<close>

definition createSegment ::
  "flate_lib \<Rightarrow> int \<Rightarrow> int \<Rightarrow> int \<Rightarrow> string \<Rightarrow> bytes \<Rightarrow> bytes \<Rightarrow> Segment" where
  "createSegment lib baseOffset maxBytes indexEvery syncPolicy lf idf =
     (let s = \<lparr>s_baseOffset = baseOffset, s_nextOffset = baseOffset, s_logFile = lf, s_indexFile = idf,
               s_logSize = int (length lf), s_maxBytes = maxBytes, s_indexEvery = indexEvery,
               s_byteSinceIndex = 0, s_syncPolicy = syncPolicy, s_version = 1, s_dataStart = 0\<rparr>
      in if lf = [] then
           s\<lparr>s_logFile := segment_header, s_version := RecordVersion,
             s_logSize := int segFileHeaderSize, s_dataStart := segFileHeaderSize\<rparr>
         else
           recoverNextOffset lib
             (if segFileHeaderSize \<le> length lf \<and> take segFileHeaderSize lf = segment_header
              then s\<lparr>s_version := RecordVersion, s_dataStart := segFileHeaderSize\<rparr>
              else s))"

text \<open>What can go wrong on disk during a write: a short write of so many bytes, or a failed sync.\<close>

datatype disk_fault = NoFault | LogWriteFault nat | LogSyncFault | IndexWriteFault nat

datatype segment_error = LogWrite | LogSync | IndexWrite | SeekFailed | BadRecord record_error

definition index_entry :: "int \<Rightarrow> int \<Rightarrow> bytes" where
  "index_entry offset recPos = put_int64 offset @ put_int64 recPos"

definition Segment_index :: "disk_fault \<Rightarrow> int \<Rightarrow> int \<Rightarrow> nat \<Rightarrow> Segment \<Rightarrow> Segment \<times> (segment_error, int) result" where
  "Segment_index flt offset recPos n s =
     (let s1 = s\<lparr>s_byteSinceIndex := s_byteSinceIndex s + int n\<rparr>
      in if s_byteSinceIndex s1 \<ge> s_indexEvery s1 then
           (case flt of
              IndexWriteFault k \<Rightarrow>
                (s1\<lparr>s_indexFile := s_indexFile s1 @ take k (index_entry offset recPos)\<rparr>, Inl IndexWrite)
            | _ \<Rightarrow>
                (s1\<lparr>s_indexFile := s_indexFile s1 @ index_entry offset recPos, s_byteSinceIndex := 0\<rparr>,
                 Inr offset))
         else (s1, Inr offset))"

definition Segment_Write ::
  "int \<Rightarrow> disk_fault \<Rightarrow> Segment \<Rightarrow> Message \<Rightarrow> Segment \<times> (segment_error, int) result" where
  "Segment_Write now flt s msg =
     (let offset = s_nextOffset s;
          rec = encodeRecord now offset (msg\<lparr>m_Offset := offset\<rparr>) (s_version s);
          recPos = s_logSize s
      in case flt of
           LogWriteFault k \<Rightarrow> (s\<lparr>s_logFile := s_logFile s @ take k rec\<rparr>, Inl LogWrite)
         | _ \<Rightarrow>
             (let s1 = s\<lparr>s_logFile := s_logFile s @ rec, s_logSize := s_logSize s + int (length rec),
                         s_nextOffset := offset + 1\<rparr>
              in if s_syncPolicy s \<noteq> ''os'' \<and> flt = LogSyncFault then (s1, Inl LogSync)
                 else Segment_index flt offset recPos (length rec) s1))"

fun find_pos :: "bytes \<Rightarrow> int \<Rightarrow> int \<Rightarrow> int" where
  "find_pos data startOffset bestPos =
     (if length data < 16 then bestPos
      else if get_int64 (take 8 data) \<le> startOffset
      then find_pos (drop 16 data) startOffset (get_int64 (window 8 16 data))
      else bestPos)"

declare find_pos.simps [simp del]

definition findPosition :: "Segment \<Rightarrow> int \<Rightarrow> int" where
  "findPosition s startOffset = find_pos (s_indexFile s) startOffset (int (s_dataStart s))"

function read_loop ::
  "flate_lib \<Rightarrow> byte \<Rightarrow> int \<Rightarrow> nat \<Rightarrow> bytes \<Rightarrow> (segment_error, Message list) result" where
  "read_loop lib ver startOffset n r =
     (if n = 0 then Inr []
      else case decodeRecord lib ver r of
        Inl e \<Rightarrow> if eof_error e then Inr [] else Inl (BadRecord e)
      | Inr (msg, off, r') \<Rightarrow>
          if off < startOffset then read_loop lib ver startOffset n r'
          else map_result ((#) msg) (read_loop lib ver startOffset (n - 1) r'))"
  by pat_completeness auto
termination
  by (relation "measure (\<lambda>(lib, ver, start, n, r). length r)") (auto dest: decodeRecord_shorter)

declare read_loop.simps [simp del]

definition Segment_Read ::
  "flate_lib \<Rightarrow> Segment \<Rightarrow> int \<Rightarrow> int \<Rightarrow> (segment_error, Message list) result" where
  "Segment_Read lib s startOffset maxCount =
     (let pos = findPosition s startOffset
      in if pos < 0 then Inl SeekFailed
         else read_loop lib (s_version s) startOffset (nat maxCount) (drop (nat pos) (s_logFile s)))"

definition Segment_IsFull :: "Segment \<Rightarrow> bool" where
  "Segment_IsFull s \<longleftrightarrow> s_logSize s \<ge> s_maxBytes s"

text \<open>
  \<open>findExactPosition\<close> reads headers only and seeks over the bodies; seeking past the end is
  allowed and the next header read then fails.
\<close>

function exact_loop :: "byte \<Rightarrow> int \<Rightarrow> int \<Rightarrow> bytes \<Rightarrow> int" where
  "exact_loop ver startOffset pos r =
     (case readFull (recHeaderSize ver) r of
        Inl e \<Rightarrow> pos
      | Inr (hdr, r1) \<Rightarrow>
          if get_int64 (window 0 8 hdr) \<ge> startOffset then pos
          else let skip = le_nat (window 16 18 hdr) + le_nat (window 18 22 hdr)
               in exact_loop ver startOffset (pos + int (recHeaderSize ver + skip)) (drop skip r1))"
  by pat_completeness auto
termination
  by (relation "measure (\<lambda>(ver, start, pos, r). length r)")
    (auto dest!: readFull_Inr simp: Let_def intro: le_less_trans [OF diff_le_self])

declare exact_loop.simps [simp del]

definition findExactPosition :: "Segment \<Rightarrow> int \<Rightarrow> int" where
  "findExactPosition s startOffset =
     (let approx = findPosition s startOffset
      in if approx < 0 then approx
         else exact_loop (s_version s) startOffset approx (drop (nat approx) (s_logFile s)))"

section \<open>The entries of a segment\<close>

text \<open>An entry is the clock value stored with a record, its offset and the message.\<close>

type_synonym entry = "int \<times> int \<times> Message"

definition e_off :: "entry \<Rightarrow> int" where
  "e_off e = fst (snd e)"

definition e_msg :: "entry \<Rightarrow> Message" where
  "e_msg e = snd (snd e)"

definition record_of :: "byte \<Rightarrow> entry \<Rightarrow> bytes" where
  "record_of ver e = encodeRecord (fst e) (e_off e) (e_msg e) ver"

definition log_bytes :: "byte \<Rightarrow> entry list \<Rightarrow> bytes" where
  "log_bytes ver es = concat (map (record_of ver) es)"

definition wf_entry :: "entry \<Rightarrow> bool" where
  "wf_entry e \<longleftrightarrow>
     wf_record (e_off e) (e_msg e) \<and> m_Offset (e_msg e) = e_off e \<and> m_Codec (e_msg e) = 0"

definition wf_entries :: "int \<Rightarrow> int \<Rightarrow> entry list \<Rightarrow> bool" where
  "wf_entries lo hi es \<longleftrightarrow>
     list_all wf_entry es \<and> sorted_wrt (<) (map e_off es) \<and>
     list_all (\<lambda>e. lo \<le> e_off e \<and> e_off e < hi) es"

text \<open>Positions the sparse index may hold: the offset and file position of some record.\<close>

definition index_point :: "byte \<Rightarrow> nat \<Rightarrow> entry list \<Rightarrow> int \<times> int \<Rightarrow> bool" where
  "index_point ver start es p \<longleftrightarrow>
     (\<exists>i < length es. fst p = e_off (es ! i) \<and>
        snd p = int (start + length (log_bytes ver (take i es))))"

definition index_bytes :: "(int \<times> int) list \<Rightarrow> bytes" where
  "index_bytes ps = concat (map (\<lambda>(off, pos). index_entry off pos) ps)"

definition file_header :: "byte \<Rightarrow> bytes" where
  "file_header ver = (if ver = RecordVersion then segment_header else [])"

definition seg_inv :: "Segment \<Rightarrow> entry list \<Rightarrow> bool" where
  "seg_inv s es \<longleftrightarrow>
     (s_version s = 1 \<or> s_version s = RecordVersion) \<and>
     s_logFile s = file_header (s_version s) @ log_bytes (s_version s) es \<and>
     s_dataStart s = length (file_header (s_version s)) \<and>
     s_logSize s = int (length (s_logFile s)) \<and> s_logSize s < 2 ^ 63 \<and>
     wf_entries (s_baseOffset s) (s_nextOffset s) es \<and>
     s_baseOffset s \<le> s_nextOffset s \<and>
     (\<exists>ps. s_indexFile s = index_bytes ps \<and>
        list_all (index_point (s_version s) (s_dataStart s) es) ps)"

definition entries_from :: "int \<Rightarrow> entry list \<Rightarrow> Message list" where
  "entries_from start es = map e_msg (filter (\<lambda>e. start \<le> e_off e) es)"

lemma log_bytes_simps [simp]:
  "log_bytes ver [] = []" "log_bytes ver (e # es) = record_of ver e @ log_bytes ver es"
  "log_bytes ver (es @ fs) = log_bytes ver es @ log_bytes ver fs"
  by (simp_all add: log_bytes_def)

lemma decode_record_of:
  assumes "wf_entry e"
  shows "decodeRecord lib ver (record_of ver e @ r) = Inr (e_msg e, e_off e, r)"
proof -
  have "(e_msg e)\<lparr>m_Offset := e_off e\<rparr> = e_msg e" using assms by (simp add: wf_entry_def)
  then show ?thesis
    using decodeRecord_encodeRecord [of "e_off e" "e_msg e" ver lib "fst e" r] assms
    by (simp add: record_of_def wf_entry_def)
qed

lemma decode_empty [simp]: "decodeRecord lib ver [] = Inl (RecEOF EOF)"
proof -
  have "readFull (recHeaderSize ver) [] = Inl EOF"
    by (simp add: readFull_def recHeaderSize_def record_consts)
  then show ?thesis by (simp add: decodeRecord_def)
qed

lemma scan_last_log:
  "list_all wf_entry es \<Longrightarrow>
   scan_last lib ver (log_bytes ver es @ r) l =
     scan_last lib ver r (if es = [] then l else e_off (last es))"
  by (induction es arbitrary: l) (simp_all add: scan_last.simps [of lib ver "record_of ver _ @ _"] decode_record_of)

lemma read_loop_log_then:
  "list_all wf_entry es \<Longrightarrow>
   read_loop lib ver start n (log_bytes ver es @ t) =
     (let ms = entries_from start es
      in map_result ((@) (take n ms)) (read_loop lib ver start (n - length ms) t))"
proof (induction es arbitrary: n)
  case Nil
  show ?case by (simp add: entries_from_def)
next
  case (Cons e es)
  show ?case
  proof (cases n)
    case 0
    then show ?thesis by (simp add: read_loop.simps [of lib ver start 0] Let_def)
  next
    case (Suc k)
    then show ?thesis
      using Cons
      by (simp add: read_loop.simps [of lib ver start "Suc k" "record_of ver e @ log_bytes ver es @ t"]
          decode_record_of entries_from_def Let_def)
  qed
qed

lemma read_loop_eof:
  "decodeRecord lib ver t = Inl e \<Longrightarrow> eof_error e \<Longrightarrow> read_loop lib ver start n t = Inr []"
  by (simp add: read_loop.simps [of lib ver start n t])

lemma read_loop_bad:
  "0 < n \<Longrightarrow> decodeRecord lib ver t = Inl e \<Longrightarrow> \<not> eof_error e \<Longrightarrow>
   read_loop lib ver start n t = Inl (BadRecord e)"
  by (simp add: read_loop.simps [of lib ver start n t])

lemma read_loop_log:
  assumes "list_all wf_entry es"
  shows "read_loop lib ver start n (log_bytes ver es) = Inr (take n (entries_from start es))"
  using read_loop_log_then [OF assms, of lib ver start n "[]"] read_loop_eof [OF decode_empty]
  by (simp add: Let_def eof_error_def)

lemma length_index_entry [simp]: "length (index_entry off pos) = 16"
  by (simp add: index_entry_def)

lemma index_bytes_simps [simp]:
  "index_bytes [] = []" "index_bytes ((off, pos) # ps) = index_entry off pos @ index_bytes ps"
  "index_bytes (ps @ qs) = index_bytes ps @ index_bytes qs"
  by (simp_all add: index_bytes_def)

lemma find_pos_step:
  assumes "int64_range off" and "int64_range pos"
  shows "find_pos (index_entry off pos @ data) start best =
    (if off \<le> start then find_pos data start pos else best)"
proof -
  have "take 8 (index_entry off pos @ data) = put_int64 off"
    "window 8 16 (index_entry off pos @ data) = put_int64 pos"
    by (simp_all add: index_entry_def)
  then show ?thesis
    using assms by (simp add: find_pos.simps [of "index_entry off pos @ data"] get_put_int64)
qed

lemma find_pos_index:
  "list_all (\<lambda>(off, pos). int64_range off \<and> int64_range pos) ps \<Longrightarrow>
   find_pos (index_bytes ps) start best = best \<or>
   (\<exists>off. (off, find_pos (index_bytes ps) start best) \<in> set ps \<and> off \<le> start)"
proof (induction ps arbitrary: best)
  case Nil
  then show ?case by (simp add: find_pos.simps [of "[]"])
next
  case (Cons p ps)
  obtain off pos where p: "p = (off, pos)" by (cases p)
  show ?case
    using Cons.prems Cons.IH [of pos] by (auto simp: p find_pos_step)
qed

lemma index_point_range:
  assumes "index_point ver st es p" and "list_all wf_entry es"
    and "int (st + length (log_bytes ver es)) < 2 ^ 63"
  shows "int64_range (fst p) \<and> int64_range (snd p)"
proof -
  obtain i where i: "i < length es" "fst p = e_off (es ! i)"
    "snd p = int (st + length (log_bytes ver (take i es)))"
    using assms(1) by (auto simp: index_point_def)
  have "log_bytes ver es = log_bytes ver (take i es) @ log_bytes ver (drop i es)"
    by (metis append_take_drop_id log_bytes_simps(3))
  then have "length (log_bytes ver (take i es)) \<le> length (log_bytes ver es)" by simp
  moreover have "wf_entry (es ! i)" using assms(2) i(1) by (simp add: list_all_length)
  ultimately show ?thesis
    using assms(3) i by (simp add: int64_range_def wf_entry_def wf_record_def)
qed

lemma entries_from_drop:
  assumes "sorted_wrt (<) (map e_off es)" and "i < length es" and "e_off (es ! i) \<le> start"
  shows "entries_from start (drop i es) = entries_from start es"
proof -
  have "\<not> start \<le> e_off e" if e: "e \<in> set (take i es)" for e
  proof -
    obtain j where "j < i" "e = es ! j" using e by (auto simp: in_set_conv_nth)
    then have "e_off e < e_off (es ! i)" using assms(1,2) by (simp add: sorted_wrt_iff_nth_less)
    then show ?thesis using assms(3) by simp
  qed
  then have "filter (\<lambda>e. start \<le> e_off e) (take i es) = []" by (simp add: filter_empty_conv)
  then have "filter (\<lambda>e. start \<le> e_off e) (take i es @ drop i es) = filter (\<lambda>e. start \<le> e_off e) (drop i es)"
    by (simp only: filter_append append_Nil)
  then show ?thesis by (simp add: entries_from_def)
qed

text \<open>Reading starts at a record boundary that skips nothing of what is asked for.\<close>

lemma findPosition_sound:
  assumes "seg_inv s es"
  obtains i where "findPosition s start = int (s_dataStart s + length (log_bytes (s_version s) (take i es)))"
    and "entries_from start (drop i es) = entries_from start es" and "i \<le> length es"
    and "\<And>j. j < i \<Longrightarrow> e_off (es ! j) < start"
proof -
  obtain ps where ps: "s_indexFile s = index_bytes ps"
    "list_all (index_point (s_version s) (s_dataStart s) es) ps"
    and wf: "list_all wf_entry es" "sorted_wrt (<) (map e_off es)"
    using assms by (auto simp: seg_inv_def wf_entries_def)
  have "int (s_dataStart s + length (log_bytes (s_version s) es)) < 2 ^ 63"
    using assms by (auto simp: seg_inv_def)
  then have r: "list_all (\<lambda>(off, pos). int64_range off \<and> int64_range pos) ps"
    using ps(2) wf(1) index_point_range by (fastforce simp: list_all_iff)
  consider "findPosition s start = int (s_dataStart s)"
    | off where "(off, findPosition s start) \<in> set ps" "off \<le> start"
    using find_pos_index [OF r, of start "int (s_dataStart s)"] by (auto simp: findPosition_def ps(1))
  then show ?thesis
  proof cases
    case 1
    then show ?thesis using that [of 0] by simp
  next
    case 2
    then obtain i where i: "i < length es" "off = e_off (es ! i)"
      "findPosition s start = int (s_dataStart s + length (log_bytes (s_version s) (take i es)))"
      using ps(2) by (auto simp: list_all_iff index_point_def)
    have "e_off (es ! j) < start" if "j < i" for j
      using wf(2) i that 2(2) by (fastforce simp: sorted_wrt_iff_nth_less)
    then show ?thesis
      using that [of i] i entries_from_drop [OF wf(2) i(1)] 2(2) by simp
  qed
qed

lemma drop_log_bytes: "i \<le> length es \<Longrightarrow>
  drop (length h + length (log_bytes ver (take i es))) (h @ log_bytes ver es) = log_bytes ver (drop i es)"
  by (metis append_take_drop_id log_bytes_simps(3) append_assoc append_eq_conv_conj length_append)

lemma Segment_Read_refines:
  assumes "seg_inv s es"
  shows "Segment_Read lib s start maxCount = Inr (take (nat maxCount) (entries_from start es))"
proof -
  obtain i where i: "findPosition s start = int (s_dataStart s + length (log_bytes (s_version s) (take i es)))"
    "entries_from start (drop i es) = entries_from start es" "i \<le> length es"
    by (rule findPosition_sound [OF assms])
  have "drop (nat (findPosition s start)) (s_logFile s) = log_bytes (s_version s) (drop i es)"
    using assms i drop_log_bytes [OF i(3), of "file_header (s_version s)"] by (simp add: seg_inv_def nat_add_distrib)
  moreover have "list_all wf_entry (drop i es)"
    using assms by (auto simp: seg_inv_def wf_entries_def list_all_iff dest: in_set_dropD)
  ultimately show ?thesis
    using i by (simp add: Segment_Read_def Let_def read_loop_log)
qed

lemma index_point_snoc: "index_point ver st es p \<Longrightarrow> index_point ver st (es @ [e]) p"
  by (auto simp: index_point_def nth_append intro: less_SucI)

lemma wf_entries_snoc:
  "wf_entries lo hi es \<Longrightarrow> wf_entry e \<Longrightarrow> lo \<le> e_off e \<Longrightarrow> hi \<le> e_off e \<Longrightarrow> e_off e < hi' \<Longrightarrow>
   wf_entries lo hi' (es @ [e])"
  by (fastforce simp: wf_entries_def sorted_wrt_append list_all_iff)

text \<open>
  A write without a fault appends exactly one entry at the next offset, returns that offset and
  keeps the invariant, whether or not it also adds an index entry. The message has to be uncompressed: a record
  with another codec is written but cannot be decoded.
\<close>

definition fits :: "int \<Rightarrow> Segment \<Rightarrow> Message \<Rightarrow> bool" where
  "fits now s msg \<longleftrightarrow>
     wf_record (s_nextOffset s) (msg\<lparr>m_Offset := s_nextOffset s\<rparr>) \<and> m_Codec msg = 0 \<and>
     s_logSize s + int (length (encodeRecord now (s_nextOffset s) (msg\<lparr>m_Offset := s_nextOffset s\<rparr>) (s_version s)))
       < 2 ^ 63"

lemma Segment_Write_refines:
  assumes "seg_inv s es" and "fits now s msg" and "Segment_Write now NoFault s msg = (s', r)"
  shows "r = Inr (s_nextOffset s)"
    and "seg_inv s' (es @ [(now, s_nextOffset s, msg\<lparr>m_Offset := s_nextOffset s\<rparr>)])"
    and "s_nextOffset s' = s_nextOffset s + 1" "s_baseOffset s' = s_baseOffset s"
    "s_maxBytes s' = s_maxBytes s" "s_indexEvery s' = s_indexEvery s"
    "s_syncPolicy s' = s_syncPolicy s" "s_version s' = s_version s"
proof -
  let ?off = "s_nextOffset s"
  let ?e = "(now, ?off, msg\<lparr>m_Offset := ?off\<rparr>) :: entry"
  let ?rec = "encodeRecord now ?off (msg\<lparr>m_Offset := ?off\<rparr>) (s_version s)"
  have rec: "record_of (s_version s) ?e = ?rec" by (simp add: record_of_def e_off_def e_msg_def)
  have we: "wf_entry ?e" using assms(2) by (simp add: wf_entry_def fits_def e_off_def e_msg_def)
  obtain ps where ps: "s_indexFile s = index_bytes ps"
    "list_all (index_point (s_version s) (s_dataStart s) es) ps"
    using assms(1) by (auto simp: seg_inv_def)
  have wes: "wf_entries (s_baseOffset s) (?off + 1) (es @ [?e])"
    using assms(1) we by (intro wf_entries_snoc) (auto simp: seg_inv_def e_off_def)
  have pt: "index_point (s_version s) (s_dataStart s) (es @ [?e]) (?off, s_logSize s)"
    using assms(1) unfolding index_point_def
    by (intro exI [of _ "length es"]) (simp add: seg_inv_def e_off_def)
  have old: "list_all (index_point (s_version s) (s_dataStart s) (es @ [?e])) ps"
    using ps(2) by (auto simp: list_all_iff intro: index_point_snoc)
  define s1 where "s1 = s\<lparr>s_logFile := s_logFile s @ ?rec, s_logSize := s_logSize s + int (length ?rec),
                         s_nextOffset := ?off + 1\<rparr>"
  have w: "(s', r) = Segment_index NoFault ?off (s_logSize s) (length ?rec) s1"
    using assms(3) by (simp add: Segment_Write_def s1_def Let_def)
  have common: "s_logFile s' = s_logFile s @ ?rec" "s_logSize s' = s_logSize s + int (length ?rec)"
    "s_nextOffset s' = ?off + 1" "s_baseOffset s' = s_baseOffset s" "s_version s' = s_version s"
    "s_dataStart s' = s_dataStart s" "r = Inr ?off"
    and rest: "s_maxBytes s' = s_maxBytes s" "s_indexEvery s' = s_indexEvery s"
    "s_syncPolicy s' = s_syncPolicy s"
    using w by (auto simp: Segment_index_def s1_def Let_def split: if_splits)
  have "s_indexFile s' = index_bytes ps \<or> s_indexFile s' = index_bytes (ps @ [(?off, s_logSize s)])"
    using w ps(1) by (auto simp: Segment_index_def s1_def Let_def split: if_splits)
  then obtain qs where qs: "s_indexFile s' = index_bytes qs"
    "list_all (index_point (s_version s) (s_dataStart s) (es @ [?e])) qs"
  proof (elim disjE)
    assume "s_indexFile s' = index_bytes ps"
    then show thesis using old that [of ps] by simp
  next
    assume "s_indexFile s' = index_bytes (ps @ [(?off, s_logSize s)])"
    then show thesis using old pt that [of "ps @ [(?off, s_logSize s)]"] by simp
  qed
  show "r = Inr ?off" "s_nextOffset s' = ?off + 1" "s_baseOffset s' = s_baseOffset s"
    "s_maxBytes s' = s_maxBytes s" "s_indexEvery s' = s_indexEvery s"
    "s_syncPolicy s' = s_syncPolicy s" "s_version s' = s_version s"
    by (simp_all add: common rest)
  show "seg_inv s' (es @ [?e])"
    using assms(1,2) wes qs rec
    by (auto simp: seg_inv_def common fits_def)
qed

section \<open>Opening and recovery\<close>

lemma length_segment_header [simp]: "length segment_header = segFileHeaderSize"
  by (simp add: segment_header_def segMagic_def record_consts)

lemma segment_header_neq [simp]: "segment_header \<noteq> []"
  by (simp add: segment_header_def)

lemma file_header_2 [simp]: "file_header RecordVersion = segment_header"
  by (simp add: file_header_def)

lemma createSegment_fresh: "seg_inv (createSegment lib base maxB idxE sync [] []) []"
  by (auto simp: createSegment_def Let_def seg_inv_def wf_entries_def segFileHeaderSize_def
      intro: exI [of _ "[]"])

definition next_after :: "int \<Rightarrow> entry list \<Rightarrow> int" where
  "next_after base es = (if es = [] then base else e_off (last es) + 1)"

lemma wf_entries_next_after:
  assumes "wf_entries lo hi es"
  shows "wf_entries lo (next_after lo es) es \<and> lo \<le> next_after lo es"
proof (cases es rule: rev_cases)
  case Nil
  then show ?thesis by (simp add: wf_entries_def next_after_def)
next
  case (snoc fs e)
  then show ?thesis
    using assms by (auto simp: wf_entries_def next_after_def sorted_wrt_append list_all_iff)
qed

text \<open>
  Opening a log whose records are followed by anything that does not decode, a torn record in
  particular: the next offset is the one after the last record, and the tail stays in the file.
\<close>

lemma createSegment_existing:
  assumes "list_all wf_entry es" and "decodeRecord lib RecordVersion t = Inl err"
  shows "createSegment lib base maxB idxE sync (segment_header @ log_bytes RecordVersion es @ t) idf =
    \<lparr>s_baseOffset = base, s_nextOffset = next_after base es,
     s_logFile = segment_header @ log_bytes RecordVersion es @ t, s_indexFile = idf,
     s_logSize = int (length (segment_header @ log_bytes RecordVersion es @ t)),
     s_maxBytes = maxB, s_indexEvery = idxE, s_byteSinceIndex = 0, s_syncPolicy = sync,
     s_version = RecordVersion, s_dataStart = segFileHeaderSize\<rparr>"
  using assms
  by (simp add: createSegment_def recoverNextOffset_def Let_def scan_last_log next_after_def
      scan_last.simps [of lib RecordVersion t])

lemma createSegment_reopen:
  assumes "seg_inv s es" and "s_version s = RecordVersion"
  shows "seg_inv (createSegment lib (s_baseOffset s) maxB idxE sync (s_logFile s) (s_indexFile s)) es"
    and "s_nextOffset (createSegment lib (s_baseOffset s) maxB idxE sync (s_logFile s) (s_indexFile s)) =
      next_after (s_baseOffset s) es"
proof -
  have wf: "list_all wf_entry es" and lf: "s_logFile s = segment_header @ log_bytes RecordVersion es"
    using assms by (auto simp: seg_inv_def wf_entries_def)
  let ?s' = "createSegment lib (s_baseOffset s) maxB idxE sync (s_logFile s) (s_indexFile s)"
  have c: "?s' = \<lparr>s_baseOffset = s_baseOffset s, s_nextOffset = next_after (s_baseOffset s) es,
     s_logFile = s_logFile s, s_indexFile = s_indexFile s, s_logSize = int (length (s_logFile s)),
     s_maxBytes = maxB, s_indexEvery = idxE, s_byteSinceIndex = 0, s_syncPolicy = sync,
     s_version = RecordVersion, s_dataStart = segFileHeaderSize\<rparr>"
    using createSegment_existing [OF wf decode_empty, of lib "s_baseOffset s" maxB idxE sync "s_indexFile s"]
    by (simp add: lf)
  show "s_nextOffset ?s' = next_after (s_baseOffset s) es" by (simp add: c)
  show "seg_inv ?s' es"
    using assms wf_entries_next_after [of "s_baseOffset s" "s_nextOffset s" es]
    unfolding c by (auto simp: seg_inv_def)
qed

lemma torn_tail_decode:
  assumes "wf_entry e" and "n < length (record_of ver e)"
  obtains x where "decodeRecord lib ver (take n (record_of ver e)) = Inl (RecEOF x)"
  using decodeRecord_prefix [of "e_off e" "e_msg e" n "fst e" ver lib] assms
  by (auto simp: wf_entry_def record_of_def)

text \<open>The reads of a segment whose records are followed by a tail the decoder stops at.\<close>

lemma Segment_Read_tail:
  assumes inv: "seg_inv s es" and lf: "s_logFile s' = s_logFile s @ t"
    and same: "s_indexFile s' = s_indexFile s" "s_dataStart s' = s_dataStart s" "s_version s' = s_version s"
  shows "Segment_Read lib s' start maxCount =
    (let ms = entries_from start es
     in map_result ((@) (take (nat maxCount) ms))
          (read_loop lib (s_version s) start (nat maxCount - length ms) t))"
proof -
  obtain i where i: "findPosition s start = int (s_dataStart s + length (log_bytes (s_version s) (take i es)))"
    "entries_from start (drop i es) = entries_from start es" "i \<le> length es"
    by (rule findPosition_sound [OF inv])
  have pos: "findPosition s' start = findPosition s start"
    using same by (simp add: findPosition_def)
  have "length (log_bytes (s_version s) (take i es)) \<le> length (log_bytes (s_version s) es)"
    by (metis append_take_drop_id log_bytes_simps(3) length_append le_add1)
  then have "drop (nat (findPosition s' start)) (s_logFile s') = log_bytes (s_version s) (drop i es) @ t"
    using inv i(1) lf pos drop_log_bytes [OF i(3), of "file_header (s_version s)" "s_version s"]
    by (simp add: seg_inv_def nat_add_distrib)
  moreover have "list_all wf_entry (drop i es)"
    using inv by (auto simp: seg_inv_def wf_entries_def list_all_iff dest: in_set_dropD)
  ultimately show ?thesis
    using i pos same by (simp add: Segment_Read_def Let_def read_loop_log_then)
qed

text \<open>C36. Crash recovery of a segment in the current format that holds uncompressed records only (codec 0, part of
  the segment invariant): when it is reopened with a last record torn at any byte, every complete record is still
  readable and the next offset is the one after the last complete record.\<close>

theorem torn_record_recovery:
  assumes "seg_inv s es" and "s_version s = RecordVersion" and "wf_entry e"
    and "n < length (record_of RecordVersion e)"
    and "s' = createSegment lib (s_baseOffset s) maxB idxE sync
           (s_logFile s @ take n (record_of RecordVersion e)) (s_indexFile s)"
  shows "s_nextOffset s' = next_after (s_baseOffset s) es \<and>
    Segment_Read lib s' start maxCount = Inr (take (nat maxCount) (entries_from start es))"
proof -
  let ?t = "take n (record_of RecordVersion e)"
  obtain x where x: "decodeRecord lib RecordVersion ?t = Inl (RecEOF x)"
    by (rule torn_tail_decode [OF assms(3,4)])
  have wf: "list_all wf_entry es" and lf: "s_logFile s = segment_header @ log_bytes RecordVersion es"
    and ds: "s_dataStart s = segFileHeaderSize"
    using assms(1,2) by (auto simp: seg_inv_def wf_entries_def)
  note c = createSegment_existing [OF wf x, of "s_baseOffset s" maxB idxE sync "s_indexFile s"]
  have s': "s_nextOffset s' = next_after (s_baseOffset s) es" "s_logFile s' = s_logFile s @ ?t"
    "s_indexFile s' = s_indexFile s" "s_dataStart s' = s_dataStart s" "s_version s' = s_version s"
    using c by (simp_all add: assms(5) lf ds assms(2))
  have "read_loop lib (s_version s) start k ?t = Inr []" for k
    using read_loop_eof [OF x] by (simp add: assms(2) eof_error_def)
  then show ?thesis
    using Segment_Read_tail [OF assms(1) s'(2-5), of lib start maxCount] s'(1) by (simp add: Let_def)
qed

lemma last_byte_record:
  assumes "wf_entry e" and "b \<noteq> 0x7D"
  shows "decodeRecord lib ver (take (length (record_of ver e) - 1) (record_of ver e) @ b # r) =
    Inl (ChecksumMismatch (e_off e))"
proof -
  let ?m = "e_msg e" and ?pl = "Marshal_Message (e_msg e)"
  let ?h = "record_header ver (e_off e) (fst e) (m_Key ?m) ?pl (m_Codec ?m) @ bytes_of_string (m_Key ?m)"
  obtain fs where "Message_json ?m = JObj fs" by (simp add: Message_json_def)
  then obtain src where src: "?pl = src @ [byte_of_char (CHR ''}'')]"
    by (simp add: Marshal_Message_def Marshal_def bytes_of_string_def)
  have x: "byte_of_char (CHR ''}'') = 0x7D" by (simp add: byte_of_char_def)
  have rec: "record_of ver e = ?h @ src @ [0x7D]"
    using src x by (simp add: record_of_def encodeRecord_def Let_def)
  have "take (length (record_of ver e) - 1) (record_of ver e) = ?h @ src"
    by (simp only: rec) simp
  then have "take (length (record_of ver e) - 1) (record_of ver e) @ b # r = ?h @ (src @ [b]) @ r" by simp
  moreover have "ChecksumIEEE (src @ [b]) \<noteq> ChecksumIEEE ?pl"
    using ChecksumIEEE_one_byte [of "length src" ?pl b] assms(2) src x by simp
  ultimately show ?thesis
    using decodeRecord_framed [of "e_off e" "m_Key ?m" ?pl "src @ [b]" lib ver "fst e" "m_Codec ?m" r] assms(1) src
    by (simp add: wf_entry_def wf_record_def)
qed

lemma Segment_Write_ok:
  assumes "Segment_Write now NoFault s msg = (s', Inr off)"
  shows "s_logFile s' = s_logFile s @ encodeRecord now off (msg\<lparr>m_Offset := off\<rparr>) (s_version s)"
    "s_dataStart s' = s_dataStart s" "s_version s' = s_version s"
    "s_byteSinceIndex s + int (length (encodeRecord now off (msg\<lparr>m_Offset := off\<rparr>) (s_version s)))
        < s_indexEvery s \<Longrightarrow> s_indexFile s' = s_indexFile s"
    "off = s_nextOffset s"
  using assms by (auto simp: Segment_Write_def Segment_index_def Let_def split: if_splits)

text \<open>A segment that was reopened after a crash keeps the torn tail and appends behind it. When
  the crash lost only the last byte of a record, the first byte of the next record takes its
  place: from then on every read that gets past the complete records fails with a checksum error,
  so the record just acknowledged cannot be read.\<close>

theorem append_after_torn_record_lost:
  assumes "seg_inv s es" and "s_version s = RecordVersion" and "wf_entry e"
    and "s' = createSegment lib (s_baseOffset s) maxB idxE sync
           (s_logFile s @ take (length (record_of RecordVersion e) - 1) (record_of RecordVersion e))
           (s_indexFile s)"
    and "Segment_Write now NoFault s' msg = (s'', Inr off)"
    and "int (length (encodeRecord now off (msg\<lparr>m_Offset := off\<rparr>) RecordVersion)) < idxE"
    and "hd (put_int64 off) \<noteq> 0x7D" and "int (length es) < maxCount"
  shows "Segment_Read lib s'' start maxCount = Inl (BadRecord (ChecksumMismatch (e_off e)))"
proof -
  let ?t = "take (length (record_of RecordVersion e) - 1) (record_of RecordVersion e)"
  have "length (record_of RecordVersion e) - 1 < length (record_of RecordVersion e)"
    by (simp add: record_of_def length_encodeRecord del: length_greater_0_conv)
  then obtain x where x: "decodeRecord lib RecordVersion ?t = Inl (RecEOF x)"
    by (rule torn_tail_decode [OF assms(3)])
  have wf: "list_all wf_entry es" and lf: "s_logFile s = segment_header @ log_bytes RecordVersion es"
    and ds: "s_dataStart s = segFileHeaderSize"
    using assms(1,2) by (auto simp: seg_inv_def wf_entries_def)
  note c = createSegment_existing [OF wf x, of "s_baseOffset s" maxB idxE sync "s_indexFile s"]
  have s': "s_logFile s' = s_logFile s @ ?t" "s_indexFile s' = s_indexFile s"
    "s_dataStart s' = s_dataStart s" "s_version s' = RecordVersion" "s_byteSinceIndex s' = 0"
    "s_indexEvery s' = idxE"
    using c by (simp_all add: assms(4) lf ds assms(2))
  let ?rec = "encodeRecord now off (msg\<lparr>m_Offset := off\<rparr>) RecordVersion"
  note w = Segment_Write_ok [OF assms(5), unfolded s'(4)]
  have s'': "s_logFile s'' = s_logFile s @ ?t @ ?rec" "s_indexFile s'' = s_indexFile s"
    "s_dataStart s'' = s_dataStart s" "s_version s'' = s_version s"
    using w assms(2,6) s' by simp_all
  have "put_int64 off \<noteq> []" using length_put_int64 [of off] by (intro notI) simp
  then obtain b r' where b: "put_int64 off = b # r'" by (cases "put_int64 off") auto
  obtain r1 where "?rec = put_int64 off @ r1"
    unfolding encodeRecord_def record_header_def Let_def append_assoc by blast
  then have br: "?rec = b # r' @ r1" "b = hd (put_int64 off)" by (simp_all add: b)
  then have "decodeRecord lib RecordVersion (?t @ ?rec) = Inl (ChecksumMismatch (e_off e))"
    using last_byte_record [OF assms(3)] assms(7) by simp
  moreover have "0 < nat maxCount - length (entries_from start es)"
  proof -
    have "length (entries_from start es) \<le> length es" by (simp add: entries_from_def)
    then show ?thesis using assms(8) by linarith
  qed
  ultimately have "read_loop lib (s_version s) start (nat maxCount - length (entries_from start es)) (?t @ ?rec) =
      Inl (BadRecord (ChecksumMismatch (e_off e)))"
    unfolding assms(2) by (intro read_loop_bad) (simp_all only: eof_error_def record_error.case not_False_eq_True)
  then show ?thesis
    using Segment_Read_tail [OF assms(1) s'', of lib start maxCount] by (simp add: Let_def)
qed

text \<open>A zlib message makes the rest of a segment unreadable: its write is acknowledged, but as the record cannot be
  decoded, a read that gets past the records before it fails, and reopening the segment stops at it, so that the
  next offset falls back to the one after the records before it and is given out a second time.\<close>

theorem zlib_record_blocks_segment:
  assumes "seg_inv s es" and "s_version s = RecordVersion" and "wf_record (s_nextOffset s) (msg\<lparr>m_Offset := s_nextOffset s\<rparr>)"
    and "m_Codec msg = CodecZlib" and zlib_header: "\<And>b src. b AND 0x0f \<noteq> 8 \<Longrightarrow> zlib_decompress lib (b # src) = None"
    and "Segment_Write now NoFault s msg = (s', Inr off)"
    and "s_byteSinceIndex s + int (length (encodeRecord now off (msg\<lparr>m_Offset := off\<rparr>) RecordVersion)) < s_indexEvery s"
    and "int (length es) < maxCount"
  shows "off = s_nextOffset s \<and>
    Segment_Read lib s' start maxCount = Inl (BadRecord (RecDecompress off ZlibDecompress)) \<and>
    s_nextOffset (createSegment lib (s_baseOffset s) maxB idxE sync (s_logFile s') (s_indexFile s')) =
      next_after (s_baseOffset s) es"
proof -
  let ?rec = "encodeRecord now off (msg\<lparr>m_Offset := off\<rparr>) RecordVersion"
  note w = Segment_Write_ok [OF assms(6), unfolded assms(2)]
  have dec: "decodeRecord lib RecordVersion ?rec = Inl (RecDecompress off ZlibDecompress)"
    using zlib_record_unreadable [of off "msg\<lparr>m_Offset := off\<rparr>" RecordVersion lib now "[]", OF _ _ _ zlib_header] assms(3,4) w(5)
    by simp
  have wf: "list_all wf_entry es" and lf: "s_logFile s = segment_header @ log_bytes RecordVersion es"
    using assms(1,2) by (auto simp: seg_inv_def wf_entries_def)
  have s': "s_logFile s' = s_logFile s @ ?rec" "s_indexFile s' = s_indexFile s" "s_dataStart s' = s_dataStart s"
    "s_version s' = s_version s"
    using w assms(2,7) by simp_all
  have "length (entries_from start es) \<le> length es" by (simp add: entries_from_def)
  then have "0 < nat maxCount - length (entries_from start es)" using assms(8) by linarith
  then have "read_loop lib (s_version s) start (nat maxCount - length (entries_from start es)) ?rec =
      Inl (BadRecord (RecDecompress off ZlibDecompress))"
    unfolding assms(2) by (intro read_loop_bad [OF _ dec]) (simp_all add: eof_error_def)
  then show ?thesis
    using Segment_Read_tail [OF assms(1) s', of lib start maxCount] w(5)
      createSegment_existing [OF wf dec, of "s_baseOffset s" maxB idxE sync "s_indexFile s'"]
    by (simp add: Let_def s'(1) lf)
qed

section \<open>Faults and exact positions\<close>

text \<open>A failing log write is invisible to readers: the error is returned, no offset is used up,
  and reads give what they gave before, although a prefix of the record may be in the file.\<close>

theorem failed_write_invisible:
  assumes "seg_inv s es" and "fits now s msg" and "Segment_Write now (LogWriteFault k) s msg = (s', r)"
    and "k < length (encodeRecord now (s_nextOffset s) (msg\<lparr>m_Offset := s_nextOffset s\<rparr>) (s_version s))"
  shows "r = Inl LogWrite \<and> s_nextOffset s' = s_nextOffset s \<and>
    Segment_Read lib s' start maxCount = Segment_Read lib s start maxCount"
proof -
  let ?e = "(now, s_nextOffset s, msg\<lparr>m_Offset := s_nextOffset s\<rparr>) :: entry"
  have we: "wf_entry ?e" using assms(2) by (simp add: wf_entry_def fits_def e_off_def e_msg_def)
  have k: "k < length (record_of (s_version s) ?e)"
    using assms(4) by (simp add: record_of_def e_off_def e_msg_def)
  have s': "r = Inl LogWrite" "s_nextOffset s' = s_nextOffset s"
    "s_logFile s' = s_logFile s @ take k (record_of (s_version s) ?e)" "s_indexFile s' = s_indexFile s"
    "s_dataStart s' = s_dataStart s" "s_version s' = s_version s"
    using assms(3) by (auto simp: Segment_Write_def Let_def record_of_def e_off_def e_msg_def)
  obtain x where x: "decodeRecord lib (s_version s) (take k (record_of (s_version s) ?e)) = Inl (RecEOF x)"
    by (rule torn_tail_decode [OF we k])
  have "read_loop lib (s_version s) start n (take k (record_of (s_version s) ?e)) = Inr []" for n
    using read_loop_eof [OF x] by (simp add: eof_error_def)
  then show ?thesis
    using Segment_Read_tail [OF assms(1) s'(3-6), of lib start maxCount] s'(1,2)
      Segment_Read_refines [OF assms(1), of lib start maxCount]
    by (simp add: Let_def)
qed

text \<open>A failing sync is not invisible: the caller gets an error, yet the message stays in the
  log under the offset it was given and readers see it.\<close>

theorem failed_sync_keeps_message:
  assumes "seg_inv s es" and "fits now s msg" and "s_syncPolicy s \<noteq> ''os''"
    and "Segment_Write now LogSyncFault s msg = (s', r)"
  shows "r = Inl LogSync \<and>
    Segment_Read lib s' (s_nextOffset s) 1 = Inr [msg\<lparr>m_Offset := s_nextOffset s\<rparr>]"
proof -
  let ?e = "(now, s_nextOffset s, msg\<lparr>m_Offset := s_nextOffset s\<rparr>) :: entry"
  have we: "wf_entry ?e" using assms(2) by (simp add: wf_entry_def fits_def e_off_def e_msg_def)
  have s': "r = Inl LogSync" "s_logFile s' = s_logFile s @ record_of (s_version s) ?e"
    "s_indexFile s' = s_indexFile s" "s_dataStart s' = s_dataStart s" "s_version s' = s_version s"
    using assms(3,4) by (auto simp: Segment_Write_def Let_def record_of_def e_off_def e_msg_def)
  have none: "entries_from (s_nextOffset s) es = []"
    using assms(1) by (auto simp: seg_inv_def wf_entries_def entries_from_def filter_empty_conv list_all_iff)
  have "read_loop lib (s_version s) (s_nextOffset s) 1 (record_of (s_version s) ?e) =
      Inr [msg\<lparr>m_Offset := s_nextOffset s\<rparr>]"
    using read_loop_log [of "[?e]" lib "s_version s" "s_nextOffset s" 1] we
    by (simp add: entries_from_def e_off_def e_msg_def)
  then show ?thesis
    using Segment_Read_tail [OF assms(1) s'(2-5), of lib "s_nextOffset s" 1] s'(1) none
    by (simp add: Let_def)
qed

lemma exact_loop_log:
  "list_all wf_entry es \<Longrightarrow>
   exact_loop ver start pos (log_bytes ver es) =
     pos + int (length (log_bytes ver (takeWhile (\<lambda>e. e_off e < start) es)))"
proof (induction es arbitrary: pos)
  case Nil
  have "readFull (recHeaderSize ver) [] = Inl EOF"
    by (simp add: readFull_def recHeaderSize_def record_consts)
  then show ?case by (simp add: exact_loop.simps [of ver start pos "[]"])
next
  case (Cons e es)
  let ?m = "e_msg e"
  let ?h = "record_header ver (e_off e) (fst e) (m_Key ?m) (Marshal_Message ?m) (m_Codec ?m)"
  let ?b = "bytes_of_string (m_Key ?m) @ Marshal_Message ?m"
  have we: "wf_entry e" "list_all wf_entry es" using Cons.prems by simp_all
  have rec: "record_of ver e = ?h @ ?b" by (simp add: record_of_def encodeRecord_def Let_def)
  note f = record_header_fields [of ?h, OF refl]
  have fields: "get_int64 (window 0 8 ?h) = e_off e" "le_nat (window 16 18 ?h) = length (m_Key ?m)"
    "le_nat (window 18 22 ?h) = length (Marshal_Message ?m)"
    unfolding f using we(1) by (simp_all add: get_put_int64 le_nat_le_bytes wf_entry_def wf_record_def)
  have step: "exact_loop ver start pos (record_of ver e @ log_bytes ver es) =
      (if start \<le> e_off e then pos
       else exact_loop ver start (pos + int (length (record_of ver e))) (log_bytes ver es))"
    by (simp add: exact_loop.simps [of ver start pos "?h @ bytes_of_string (m_Key ?m) @ Marshal_Message ?m @ log_bytes ver es"]
        rec fields Let_def)
  show ?case using step Cons.IH [OF we(2)] by (simp add: not_le)
qed

lemma exact_position:
  assumes "seg_inv s es"
  shows "findExactPosition s start =
    int (s_dataStart s + length (log_bytes (s_version s) (takeWhile (\<lambda>e. e_off e < start) es)))"
proof -
  obtain i where i: "findPosition s start = int (s_dataStart s + length (log_bytes (s_version s) (take i es)))"
    "i \<le> length es" "\<And>j. j < i \<Longrightarrow> e_off (es ! j) < start"
    by (rule findPosition_sound [OF assms]) blast
  have d: "drop (nat (findPosition s start)) (s_logFile s) = log_bytes (s_version s) (drop i es)"
    using assms i drop_log_bytes [OF i(2), of "file_header (s_version s)"] by (simp add: seg_inv_def nat_add_distrib)
  have wf: "list_all wf_entry (drop i es)"
    using assms by (auto simp: seg_inv_def wf_entries_def list_all_iff dest: in_set_dropD)
  have "e_off e < start" if e: "e \<in> set (take i es)" for e
  proof -
    obtain j where "j < i" "e = es ! j" using e by (auto simp: in_set_conv_nth)
    then show ?thesis using i(3) by simp
  qed
  then have "takeWhile (\<lambda>e. e_off e < start) es = take i es @ takeWhile (\<lambda>e. e_off e < start) (drop i es)"
    using takeWhile_append2 [of "take i es" "\<lambda>e. e_off e < start" "drop i es"] by simp
  then show ?thesis
    using i(1) d exact_loop_log [OF wf] by (simp add: findExactPosition_def Let_def)
qed

text \<open>The position a raw transfer starts from is exactly the first byte of the first record
  whose offset is not below the requested one (the end of the log when there is none), whatever
  the sparse index holds.\<close>

theorem findExactPosition_exact:
  assumes "seg_inv s es"
  shows "findExactPosition s start =
    int (s_dataStart s + length (log_bytes (s_version s) (takeWhile (\<lambda>e. e_off e < start) es)))"
  by (rule exact_position [OF assms])

section \<open>Instances\<close>

definition sample_entry :: entry where
  "sample_entry = (5, 0, sample_Message)"

definition sample_entry1 :: entry where
  "sample_entry1 = (6, 1, sample_Message\<lparr>m_Offset := 1\<rparr>)"

definition sample_fresh :: Segment where
  "sample_fresh = createSegment sample_lib 0 1000 4096 ''always'' [] []"

definition sample_segment :: Segment where
  "sample_segment = fst (Segment_Write 5 NoFault sample_fresh sample_Message)"

lemma sample_offset0: "sample_Message\<lparr>m_Offset := 0\<rparr> = sample_Message"
  by (simp add: sample_Message_def zero_Message_def)

lemma length_sample1: "length (Marshal_Message (sample_Message\<lparr>m_Offset := 1\<rparr>)) = 77"
  by (simp add: sample_Message_def marshal_eval show_nat.simps digit_def)

lemma wf_record_sample1: "wf_record 1 (sample_Message\<lparr>m_Offset := 1\<rparr>)"
  using wf_Message_sample
  by (simp add: wf_record_def length_sample1 key_sample int64_range_def wf_Message_def)

lemma wf_sample_entries: "wf_entry sample_entry" "wf_entry sample_entry1"
  using wf_record_sample wf_record_sample1
  by (simp_all add: wf_entry_def sample_entry_def sample_entry1_def e_off_def e_msg_def
      sample_Message_def zero_Message_def)

lemma sample_fresh_fields:
  "s_nextOffset sample_fresh = 0" "s_baseOffset sample_fresh = 0" "s_version sample_fresh = RecordVersion"
  "s_logSize sample_fresh = 5" "s_syncPolicy sample_fresh = ''always''" "s_indexEvery sample_fresh = 4096"
  by (simp_all add: sample_fresh_def createSegment_def segFileHeaderSize_def)

lemma fits_sample: "fits 5 sample_fresh sample_Message"
  by (simp add: fits_def sample_fresh_fields sample_offset0 wf_record_sample length_encodeRecord
      length_sample key_sample recHeaderSize_def record_consts)
    (simp add: sample_Message_def zero_Message_def)

lemma sample_segment_inv:
  "seg_inv sample_segment [sample_entry]" "s_nextOffset sample_segment = 1"
  "s_version sample_segment = RecordVersion" "s_baseOffset sample_segment = 0"
  "s_syncPolicy sample_segment = ''always''"
proof -
  obtain s' r where w: "Segment_Write 5 NoFault sample_fresh sample_Message = (s', r)" by fastforce
  then have s': "sample_segment = s'" by (simp add: sample_segment_def)
  have f: "seg_inv sample_fresh []" by (simp add: sample_fresh_def createSegment_fresh)
  note r = Segment_Write_refines [OF f fits_sample w, unfolded sample_fresh_fields]
  show "seg_inv sample_segment [sample_entry]" "s_nextOffset sample_segment = 1"
    "s_version sample_segment = RecordVersion" "s_baseOffset sample_segment = 0"
    "s_syncPolicy sample_segment = ''always''"
    using r by (simp_all add: s' sample_entry_def sample_offset0)
qed

lemma sample_log_size: "s_logSize sample_segment < 1000"
  using sample_segment_inv(1)
  by (auto simp: seg_inv_def sample_segment_inv record_of_def sample_entry_def e_off_def e_msg_def
      length_encodeRecord length_sample key_sample recHeaderSize_def recV2HeaderSize_def
      segFileHeaderSize_def)

lemma fits_sample1: "fits 6 sample_segment sample_Message"
  using wf_record_sample1 sample_log_size
  by (auto simp: fits_def sample_segment_inv length_encodeRecord length_sample1 recHeaderSize_def
      recV2HeaderSize_def) (simp_all add: sample_Message_def zero_Message_def)

theorem torn_record_recovery_witness:
  "s_nextOffset (createSegment sample_lib 0 1000 4096 ''always''
       (s_logFile sample_segment @ take 40 (record_of RecordVersion sample_entry1)) (s_indexFile sample_segment)) = 1 \<and>
   Segment_Read sample_lib (createSegment sample_lib 0 1000 4096 ''always''
       (s_logFile sample_segment @ take 40 (record_of RecordVersion sample_entry1)) (s_indexFile sample_segment)) 0 10 =
     Inr [sample_Message]"
proof -
  have "40 < length (record_of RecordVersion sample_entry1)"
    by (simp add: record_of_def sample_entry1_def e_off_def e_msg_def length_encodeRecord length_sample1
        recHeaderSize_def record_consts)
  from torn_record_recovery [OF sample_segment_inv(1,3) wf_sample_entries(2) this refl,
      of sample_lib 1000 4096 "''always''" 0 10]
  show ?thesis
    by (simp add: sample_segment_inv next_after_def entries_from_def sample_entry_def e_off_def e_msg_def)
qed

theorem append_after_torn_record_lost_witness:
  "\<exists>s''. Segment_Write 7 NoFault (createSegment sample_lib 0 1000 4096 ''always''
       (s_logFile sample_segment @
        take (length (record_of RecordVersion sample_entry1) - 1) (record_of RecordVersion sample_entry1))
       (s_indexFile sample_segment)) sample_Message = (s'', Inr 1) \<and>
     Segment_Read sample_lib s'' 1 10 = Inl (BadRecord (ChecksumMismatch 1))"
proof -
  let ?t = "take (length (record_of RecordVersion sample_entry1) - 1) (record_of RecordVersion sample_entry1)"
  let ?s' = "createSegment sample_lib (s_baseOffset sample_segment) 1000 4096 ''always''
       (s_logFile sample_segment @ ?t) (s_indexFile sample_segment)"
  have n: "length (record_of RecordVersion sample_entry1) - 1 < length (record_of RecordVersion sample_entry1)"
    by (simp add: record_of_def length_encodeRecord del: length_greater_0_conv)
  obtain x where x: "decodeRecord sample_lib RecordVersion ?t = Inl (RecEOF x)"
    by (rule torn_tail_decode [OF wf_sample_entries(2) n])
  have lf: "s_logFile sample_segment = segment_header @ log_bytes RecordVersion [sample_entry]"
    using sample_segment_inv by (simp add: seg_inv_def)
  have wf: "list_all wf_entry [sample_entry]" using wf_sample_entries by simp
  have c: "s_nextOffset ?s' = 1" "s_version ?s' = RecordVersion" "s_byteSinceIndex ?s' = 0" "s_indexEvery ?s' = 4096"
    using createSegment_existing [OF wf x, of 0 1000 4096 "''always''" "s_indexFile sample_segment"]
    by (simp_all add: lf sample_segment_inv next_after_def sample_entry_def e_off_def)
  have len: "length (encodeRecord 7 1 (sample_Message\<lparr>m_Offset := 1\<rparr>) RecordVersion) = 104"
    by (simp add: length_encodeRecord length_sample1 key_sample recHeaderSize_def record_consts)
  obtain s'' where w: "Segment_Write 7 NoFault ?s' sample_Message = (s'', Inr 1)"
    using c len by (auto simp: Segment_Write_def Segment_index_def Let_def)
  have "hd (put_int64 1) \<noteq> 0x7D" by (simp add: put_int64_def le_bytes_numeral)
  with append_after_torn_record_lost [OF sample_segment_inv(1,3) wf_sample_entries(2) refl w, of 10 1] len
  have "Segment_Read sample_lib s'' 1 10 = Inl (BadRecord (ChecksumMismatch 1))"
    by (simp add: sample_entry1_def e_off_def)
  then show ?thesis using w by (auto simp: sample_segment_inv)
qed

theorem failed_write_invisible_witness:
  "Segment_Read sample_lib (fst (Segment_Write 6 (LogWriteFault 40) sample_segment sample_Message)) 0 10 =
     Inr [sample_Message]"
proof -
  obtain s' r where w: "Segment_Write 6 (LogWriteFault 40) sample_segment sample_Message = (s', r)" by fastforce
  have k: "40 < length (encodeRecord 6 (s_nextOffset sample_segment)
      (sample_Message\<lparr>m_Offset := s_nextOffset sample_segment\<rparr>) (s_version sample_segment))"
    by (simp add: sample_segment_inv length_encodeRecord length_sample1 recHeaderSize_def record_consts)
  show ?thesis
    using failed_write_invisible [OF sample_segment_inv(1) fits_sample1 w k, of sample_lib 0 10] w
      Segment_Read_refines [OF sample_segment_inv(1), of sample_lib 0 10]
    by (simp add: entries_from_def sample_entry_def e_off_def e_msg_def)
qed

theorem failed_sync_keeps_message_witness:
  "snd (Segment_Write 6 LogSyncFault sample_segment sample_Message) = Inl LogSync \<and>
   Segment_Read sample_lib (fst (Segment_Write 6 LogSyncFault sample_segment sample_Message)) 1 1 =
     Inr [sample_Message\<lparr>m_Offset := 1\<rparr>]"
proof -
  obtain s' r where w: "Segment_Write 6 LogSyncFault sample_segment sample_Message = (s', r)" by fastforce
  show ?thesis
    using failed_sync_keeps_message [OF sample_segment_inv(1) fits_sample1 _ w, of sample_lib] w
    by (simp add: sample_segment_inv)
qed

theorem findExactPosition_exact_witness:
  "findExactPosition sample_segment 1 = int (5 + length (record_of RecordVersion sample_entry))"
proof -
  have "s_dataStart sample_segment = 5"
    using sample_segment_inv by (simp add: seg_inv_def segFileHeaderSize_def)
  then show ?thesis
    using findExactPosition_exact [OF sample_segment_inv(1), of 1]
    by (simp add: sample_segment_inv sample_entry_def e_off_def)
qed

text \<open>The theorem on zlib records at a concrete segment.\<close>

theorem zlib_record_blocks_segment_witness:
  "\<exists>s'. Segment_Write 7 NoFault sample_segment sample_zlib_Message = (s', Inr 1) \<and>
     Segment_Read sample_lib s' 0 10 = Inl (BadRecord (RecDecompress 1 ZlibDecompress)) \<and>
     s_nextOffset (createSegment sample_lib 0 1000 4096 ''always'' (s_logFile s') (s_indexFile s')) = 1"
proof -
  have "length (Marshal_Message (sample_zlib_Message\<lparr>m_Offset := 1\<rparr>)) < 900"
    by (simp add: sample_zlib_Message_def sample_Message_def marshal_eval codec_consts show_nat.simps digit_def)
  then have len: "length (encodeRecord 7 1 (sample_zlib_Message\<lparr>m_Offset := 1\<rparr>) RecordVersion) < 1000"
    and wf: "wf_record 1 (sample_zlib_Message\<lparr>m_Offset := 1\<rparr>)"
    using wf_record_sample_zlib
    by (simp_all add: length_encodeRecord sample_zlib_Message_def key_sample recHeaderSize_def record_consts wf_record_def
        wf_Message_def int64_range_def)
  have "s_byteSinceIndex sample_segment < 200" "s_indexEvery sample_segment = 4096"
    by (simp_all add: sample_segment_def sample_fresh_def createSegment_def Segment_Write_def Segment_index_def Let_def
        length_encodeRecord sample_offset0 length_sample key_sample recHeaderSize_def record_consts)
  then have room: "s_byteSinceIndex sample_segment +
      int (length (encodeRecord 7 1 (sample_zlib_Message\<lparr>m_Offset := 1\<rparr>) RecordVersion)) < s_indexEvery sample_segment"
    using len by linarith
  obtain s' where w: "Segment_Write 7 NoFault sample_segment sample_zlib_Message = (s', Inr 1)"
    using room by (simp add: Segment_Write_def Segment_index_def Let_def sample_segment_inv)
  have lib: "zlib_decompress sample_lib (b # src) = None" if "b AND 0x0f \<noteq> 8" for b src
    using that by (simp add: sample_lib_def)
  have wf': "wf_record (s_nextOffset sample_segment) (sample_zlib_Message\<lparr>m_Offset := s_nextOffset sample_segment\<rparr>)"
    using wf by (simp add: sample_segment_inv)
  have "m_Codec sample_zlib_Message = CodecZlib" by (simp add: sample_zlib_Message_def)
  from zlib_record_blocks_segment [OF sample_segment_inv(1,3) wf' this lib w room, of 10 0 1000 4096 "''always''"] w
  show ?thesis by (simp add: sample_segment_inv next_after_def sample_entry_def e_off_def)
qed

end
