(* ===== verification/Partition_Log.thy ===== *)
theory Partition_Log
  imports Segment_Store "HOL-Library.Multiset"
begin

text \<open>
  The log of one topic partition, \<^verbatim>\<open>src/internal/storage/partition_log.go\<close>: an ordered list of
  segments of which the last one is written. Opening a directory, appending with roll-over,
  reading across segments, retention, raw transfer and the search by timestamp follow the source.
  The interface \<open>append_log\<close> states what clients rely on; a segment and a partition log are both
  instances of it.
\<close>

section \<open>State and operations\<close>

record PartitionLog =
  pl_segments :: "Segment list"
  pl_segMaxBytes :: int
  pl_indexEvery :: int
  pl_syncPolicy :: string
  pl_notify :: bool

text \<open>
  \<open>OpenPartitionLog\<close> on the directory's log files, given by base offset with the contents of the
  log and the index file.
\<close>

definition OpenPartitionLog ::
  "flate_lib \<Rightarrow> (int \<times> bytes \<times> bytes) list \<Rightarrow> int \<Rightarrow> int \<Rightarrow> string \<Rightarrow> PartitionLog" where
  "OpenPartitionLog lib entries segMaxBytes indexEvery syncPolicy =
     (let open = (\<lambda>(base, lf, idf). createSegment lib base segMaxBytes indexEvery syncPolicy lf idf);
          segs = sort_key s_baseOffset (map open entries)
      in \<lparr>pl_segments = (if segs = [] then [open (0, [], [])] else segs), pl_segMaxBytes = segMaxBytes,
          pl_indexEvery = indexEvery, pl_syncPolicy = syncPolicy, pl_notify = False\<rparr>)"

text \<open>The files a segment of that base offset finds in the directory when it is created.\<close>

definition segment_files :: "Segment list \<Rightarrow> int \<Rightarrow> bytes \<times> bytes" where
  "segment_files segs base =
     (case List.find (\<lambda>s. s_baseOffset s = base) segs of
        Some s \<Rightarrow> (s_logFile s, s_indexFile s) | None \<Rightarrow> ([], []))"

definition roll :: "flate_lib \<Rightarrow> PartitionLog \<Rightarrow> PartitionLog" where
  "roll lib pl =
     (let active = last (pl_segments pl)
      in if Segment_IsFull active then
           (let nextBase = s_nextOffset active; (lf, idf) = segment_files (pl_segments pl) nextBase
            in pl\<lparr>pl_segments := pl_segments pl @
                 [createSegment lib nextBase (pl_segMaxBytes pl) (pl_indexEvery pl) (pl_syncPolicy pl) lf idf]\<rparr>)
         else pl)"

definition PartitionLog_Append ::
  "flate_lib \<Rightarrow> int \<Rightarrow> disk_fault \<Rightarrow> PartitionLog \<Rightarrow> Message \<Rightarrow> PartitionLog \<times> (segment_error, int) result" where
  "PartitionLog_Append lib now flt pl msg =
     (let pl1 = roll lib pl;
          (s, r) = Segment_Write now flt (last (pl_segments pl1)) msg;
          pl2 = pl1\<lparr>pl_segments := butlast (pl_segments pl1) @ [s]\<rparr>
      in case r of
           Inl e \<Rightarrow> (pl2, Inl e)
         | Inr offset \<Rightarrow> (pl2\<lparr>pl_notify := True\<rparr>, Inr offset))"

fun read_segments ::
  "flate_lib \<Rightarrow> Segment list \<Rightarrow> int \<Rightarrow> int \<Rightarrow> Message list \<Rightarrow> (segment_error, Message list) result" where
  "read_segments lib [] startOffset maxCount msgs = Inr msgs"
| "read_segments lib (seg # segs) startOffset maxCount msgs =
     (if s_nextOffset seg \<le> startOffset then read_segments lib segs startOffset maxCount msgs
      else case Segment_Read lib seg startOffset (maxCount - int (length msgs)) of
        Inl e \<Rightarrow> Inl e
      | Inr batch \<Rightarrow>
          if int (length (msgs @ batch)) \<ge> maxCount then Inr (msgs @ batch)
          else read_segments lib segs startOffset maxCount (msgs @ batch))"

definition PartitionLog_Read ::
  "flate_lib \<Rightarrow> PartitionLog \<Rightarrow> int \<Rightarrow> int \<Rightarrow> (segment_error, Message list) result" where
  "PartitionLog_Read lib pl startOffset maxCount =
     read_segments lib (pl_segments pl) startOffset maxCount []"

definition PartitionLog_NextOffset :: "PartitionLog \<Rightarrow> int" where
  "PartitionLog_NextOffset pl =
     (if pl_segments pl = [] then 0 else s_nextOffset (last (pl_segments pl)))"

definition totalLogSize :: "Segment list \<Rightarrow> int" where
  "totalLogSize segs = sum_list (map s_logSize segs)"

definition SegmentCount :: "PartitionLog \<Rightarrow> nat" where
  "SegmentCount pl = length (pl_segments pl)"

definition ActiveSegmentBytes :: "PartitionLog \<Rightarrow> int" where
  "ActiveSegmentBytes pl = (if pl_segments pl = [] then 0 else s_logSize (last (pl_segments pl)))"

text \<open>
  \<open>Compact\<close>: every segment but the last is judged on its own, with the total size of the
  unchanged list. \<open>modTime\<close> is the modification time of a log file, or nothing when \<open>Stat\<close> fails. The two
  limits are computed in 64 bits.
  The files of the removed segments are deleted.
\<close>

definition evict :: "int \<Rightarrow> (Segment \<Rightarrow> int option) \<Rightarrow> int \<Rightarrow> int \<Rightarrow> Segment list \<Rightarrow> Segment \<Rightarrow> bool" where
  "evict now modTime maxAgeHours maxSizeMB segs seg =
     (case modTime seg of
        None \<Rightarrow> False
      | Some t \<Rightarrow>
          (maxAgeHours > 0 \<and> t < now + int64_of (- maxAgeHours * 3600000000000)) \<or>
          (int64_of (maxSizeMB * 1024 * 1024) > 0 \<and> totalLogSize segs > int64_of (maxSizeMB * 1024 * 1024)))"

definition PartitionLog_Compact ::
  "int \<Rightarrow> (Segment \<Rightarrow> int option) \<Rightarrow> PartitionLog \<Rightarrow> int \<Rightarrow> int \<Rightarrow> PartitionLog \<times> nat" where
  "PartitionLog_Compact now modTime pl maxAgeHours maxSizeMB =
     (let segs = pl_segments pl; gone = evict now modTime maxAgeHours maxSizeMB segs
      in if length segs \<le> 1 then (pl, 0)
         else (pl\<lparr>pl_segments := filter (\<lambda>s. \<not> gone s) (butlast segs) @ [last segs]\<rparr>,
               length (filter gone (butlast segs))))"

text \<open>The bytes \<open>sendfileSegment\<close> delivers on a healthy connection.\<close>

definition sendfileSegment :: "bytes \<Rightarrow> nat \<Rightarrow> nat \<Rightarrow> bytes" where
  "sendfileSegment f offset len = take len (drop offset f)"

fun send_loop :: "Segment list \<Rightarrow> int \<Rightarrow> int \<Rightarrow> bool \<Rightarrow> int \<Rightarrow> bytes option" where
  "send_loop [] startOffset maxBytes isFirst totalSent = Some []"
| "send_loop (seg # segs) startOffset maxBytes isFirst totalSent =
     (if s_nextOffset seg \<le> startOffset then send_loop segs startOffset maxBytes isFirst totalSent
      else if maxBytes > 0 \<and> totalSent \<ge> maxBytes then Some []
      else
        let fileOffset = (if isFirst then findExactPosition seg startOffset else int (s_dataStart seg));
            len = s_logSize seg - fileOffset
        in if len \<le> 0 then send_loop segs startOffset maxBytes False totalSent
           else if fileOffset < 0 then None
           else
             let len' = (if maxBytes > 0 \<and> totalSent + len > maxBytes then maxBytes - totalSent else len);
                 sent = sendfileSegment (s_logFile seg) (nat fileOffset) (nat len')
             in map_option ((@) sent)
                  (send_loop segs startOffset maxBytes False (totalSent + int (length sent))))"

definition SendTo :: "PartitionLog \<Rightarrow> int \<Rightarrow> int \<Rightarrow> bytes option" where
  "SendTo pl startOffset maxBytes = send_loop (pl_segments pl) startOffset maxBytes True 0"

function ts_loop :: "flate_lib \<Rightarrow> byte \<Rightarrow> int \<Rightarrow> bytes \<Rightarrow> int option" where
  "ts_loop lib ver ts r =
     (case decodeRecord lib ver r of
        Inl e \<Rightarrow> None
      | Inr (msg, off, r') \<Rightarrow> if m_Timestamp msg \<ge> ts then Some off else ts_loop lib ver ts r')"
  by pat_completeness auto
termination
  by (relation "measure (\<lambda>(lib, ver, ts, r). length r)") (auto dest: decodeRecord_shorter)

declare ts_loop.simps [simp del]

fun ts_segments :: "flate_lib \<Rightarrow> int \<Rightarrow> Segment list \<Rightarrow> int option" where
  "ts_segments lib ts [] = None"
| "ts_segments lib ts (seg # segs) =
     (case ts_loop lib (s_version seg) ts (drop (s_dataStart seg) (s_logFile seg)) of
        Some off \<Rightarrow> Some off
      | None \<Rightarrow> ts_segments lib ts segs)"

definition OffsetForTimestamp :: "flate_lib \<Rightarrow> PartitionLog \<Rightarrow> int \<Rightarrow> int" where
  "OffsetForTimestamp lib pl ts =
     (case ts_segments lib ts (pl_segments pl) of
        Some off \<Rightarrow> off | None \<Rightarrow> PartitionLog_NextOffset pl)"

section \<open>The interface of a log\<close>

text \<open>A batch of appends through any append operation, with the results in order.\<close>

fun append_all ::
  "(int \<Rightarrow> 'l \<Rightarrow> Message \<Rightarrow> 'l \<times> ('e, int) result) \<Rightarrow> 'l \<Rightarrow> (int \<times> Message) list \<Rightarrow>
   'l \<times> ('e, int) result list" where
  "append_all app l [] = (l, [])"
| "append_all app l ((now, m) # ms) =
     (let (l1, r) = app now l m; (l2, rs) = append_all app l1 ms in (l2, r # rs))"

fun room_all ::
  "(int \<Rightarrow> 'l \<Rightarrow> Message \<Rightarrow> bool) \<Rightarrow> (int \<Rightarrow> 'l \<Rightarrow> Message \<Rightarrow> 'l \<times> ('e, int) result) \<Rightarrow>
   'l \<Rightarrow> (int \<times> Message) list \<Rightarrow> bool" where
  "room_all room app l [] = True"
| "room_all room app l ((now, m) # ms) = (room now l m \<and> room_all room app (fst (app now l m)) ms)"

fun number_from :: "int \<Rightarrow> (int \<times> Message) list \<Rightarrow> entry list" where
  "number_from off [] = []"
| "number_from off ((now, m) # ms) = (now, off, m\<lparr>m_Offset := off\<rparr>) # number_from (off + 1) ms"

locale append_log =
  fixes inv :: "'l \<Rightarrow> entry list \<Rightarrow> bool"
    and app :: "int \<Rightarrow> 'l \<Rightarrow> Message \<Rightarrow> 'l \<times> (segment_error, int) result"
    and read :: "'l \<Rightarrow> int \<Rightarrow> int \<Rightarrow> (segment_error, Message list) result"
    and nxt :: "'l \<Rightarrow> int"
    and room :: "int \<Rightarrow> 'l \<Rightarrow> Message \<Rightarrow> bool"
  assumes append_law: "inv l es \<Longrightarrow> room now l m \<Longrightarrow>
      \<exists>l'. app now l m = (l', Inr (nxt l)) \<and> nxt l' = nxt l + 1 \<and>
        inv l' (es @ [(now, nxt l, m\<lparr>m_Offset := nxt l\<rparr>)])"
    and read_law: "inv l es \<Longrightarrow> read l start n = Inr (take (nat n) (entries_from start es))"
    and next_law: "inv l es \<Longrightarrow> list_all (\<lambda>e. e_off e < nxt l) es"
begin

lemma append_all_law:
  "inv l es \<Longrightarrow> room_all room app l ms \<Longrightarrow> append_all app l ms = (l', rs) \<Longrightarrow>
   inv l' (es @ number_from (nxt l) ms) \<and> nxt l' = nxt l + int (length ms) \<and>
   rs = map (\<lambda>e. Inr (e_off e)) (number_from (nxt l) ms)"
proof (induction ms arbitrary: l es rs)
  case Nil
  then show ?case by simp
next
  case (Cons x ms)
  obtain now m where x: "x = (now, m)" by (cases x)
  obtain l1 where l1: "app now l m = (l1, Inr (nxt l))" "nxt l1 = nxt l + 1"
    "inv l1 (es @ [(now, nxt l, m\<lparr>m_Offset := nxt l\<rparr>)])"
    using append_law [OF Cons.prems(1)] Cons.prems(2) x by fastforce
  obtain rs1 where rs1: "append_all app l1 ms = (l', rs1)" "rs = Inr (nxt l) # rs1"
    using Cons.prems(3) x l1(1) by (auto simp: Let_def split: prod.splits)
  have "room_all room app l1 ms" using Cons.prems(2) x l1(1) by simp
  from Cons.IH [OF l1(3) this rs1(1)] show ?case
    using l1(2) rs1(2) x by (simp add: e_off_def)
qed

lemma entries_from_next: "inv l es \<Longrightarrow> entries_from (nxt l) es = []"
  using next_law [of l es] by (auto simp: entries_from_def filter_empty_conv list_all_iff)

text \<open>What was appended is what is read back from the first of the new offsets.\<close>

lemma read_appended:
  assumes "inv l es" and "room_all room app l ms" and "append_all app l ms = (l', rs)"
    and "int (length ms) \<le> n"
  shows "read l' (nxt l) n = Inr (map e_msg (number_from (nxt l) ms))"
proof -
  have len: "length (number_from off xs) = length xs" for off xs
    by (induction off xs rule: number_from.induct) simp_all
  have ge: "off \<le> e_off e" if "e \<in> set (number_from off xs)" for off xs and e :: entry
    using that by (induction off xs rule: number_from.induct) (auto simp: e_off_def)
  have all: "filter (\<lambda>e. nxt l \<le> e_off e) (number_from (nxt l) ms) = number_from (nxt l) ms"
    using ge by (simp add: filter_id_conv)
  have "inv l' (es @ number_from (nxt l) ms)" using append_all_law [OF assms(1-3)] by simp
  then have "read l' (nxt l) n = Inr (take (nat n) (entries_from (nxt l) (es @ number_from (nxt l) ms)))"
    by (rule read_law)
  moreover have "entries_from (nxt l) (es @ number_from (nxt l) ms) = map e_msg (number_from (nxt l) ms)"
    using entries_from_next [OF assms(1)] all by (simp add: entries_from_def)
  ultimately show ?thesis using assms(4) len by simp
qed

text \<open>Appending leaves every earlier entry where it was.\<close>

lemma read_prefix_kept:
  assumes "inv l es" and "room_all room app l ms" and "append_all app l ms = (l', rs)"
    and "read l start n = Inr old"
  shows "\<exists>new. read l' start (int (length old)) = Inr old \<and> read l' start n = Inr (old @ new)"
proof -
  have i: "inv l' (es @ number_from (nxt l) ms)" using append_all_law [OF assms(1-3)] by simp
  have old: "old = take (nat n) (entries_from start es)"
    using read_law [OF assms(1), of start n] assms(4) by simp
  have app: "entries_from start (es @ fs) = entries_from start es @ entries_from start fs" for fs
    by (simp add: entries_from_def)
  show ?thesis
    using read_law [OF i, of start "int (length old)"] read_law [OF i, of start n] old app by (auto simp: min_def)
qed

end

interpretation seg_log: append_log seg_inv "\<lambda>now. Segment_Write now NoFault" "Segment_Read lib" s_nextOffset fits
  for lib
proof
  fix l es now m
  assume i: "seg_inv l es" "fits now l m"
  obtain s' r where w: "Segment_Write now NoFault l m = (s', r)" by (cases "Segment_Write now NoFault l m")
  show "\<exists>l'. Segment_Write now NoFault l m = (l', Inr (s_nextOffset l)) \<and>
      s_nextOffset l' = s_nextOffset l + 1 \<and>
      seg_inv l' (es @ [(now, s_nextOffset l, m\<lparr>m_Offset := s_nextOffset l\<rparr>)])"
    using Segment_Write_refines(1-3) [OF i w] w by auto
next
  show "Segment_Read lib l start n = Inr (take (nat n) (entries_from start es))" if "seg_inv l es" for l es start n
    using that by (rule Segment_Read_refines)
next
  show "list_all (\<lambda>e. e_off e < s_nextOffset l) es" if "seg_inv l es" for l es
    using that by (auto simp: seg_inv_def wf_entries_def list_all_iff)
qed

section \<open>The invariant of a partition log\<close>

definition seg_before :: "Segment \<Rightarrow> Segment \<Rightarrow> bool" where
  "seg_before s t \<longleftrightarrow> s_baseOffset s < s_baseOffset t \<and> s_nextOffset s \<le> s_baseOffset t"

definition pl_inv :: "PartitionLog \<Rightarrow> entry list list \<Rightarrow> bool" where
  "pl_inv pl ess \<longleftrightarrow>
     pl_segments pl \<noteq> [] \<and> list_all2 seg_inv (pl_segments pl) ess \<and>
     sorted_wrt seg_before (pl_segments pl) \<and>
     list_all (\<lambda>s. s_maxBytes s = pl_segMaxBytes pl) (pl_segments pl) \<and>
     int segFileHeaderSize < pl_segMaxBytes pl"

text \<open>The segment the next append goes to.\<close>

definition active_after_roll :: "flate_lib \<Rightarrow> PartitionLog \<Rightarrow> Segment" where
  "active_after_roll lib pl = last (pl_segments (roll lib pl))"

definition pl_fits :: "flate_lib \<Rightarrow> int \<Rightarrow> PartitionLog \<Rightarrow> Message \<Rightarrow> bool" where
  "pl_fits lib now pl msg \<longleftrightarrow> fits now (active_after_roll lib pl) msg"

lemma seg_inv_bounds:
  "seg_inv s es \<Longrightarrow> e \<in> set es \<Longrightarrow> s_baseOffset s \<le> e_off e \<and> e_off e < s_nextOffset s"
  by (auto simp: seg_inv_def wf_entries_def list_all_iff)

lemma seg_inv_le: "seg_inv s es \<Longrightarrow> s_baseOffset s \<le> s_nextOffset s"
  by (simp add: seg_inv_def)

lemma seg_inv_full_nonempty:
  assumes "seg_inv s es" and "Segment_IsFull s" and "int segFileHeaderSize < s_maxBytes s"
  shows "s_baseOffset s < s_nextOffset s"
proof -
  have "length (file_header (s_version s)) \<le> segFileHeaderSize"
    by (simp add: file_header_def)
  then have "es \<noteq> []" using assms by (auto simp: seg_inv_def Segment_IsFull_def)
  then obtain e where "e \<in> set es" by (cases es) auto
  then show ?thesis using seg_inv_bounds [OF assms(1)] by fastforce
qed

lemma entries_from_append [simp]:
  "entries_from start (es @ fs) = entries_from start es @ entries_from start fs"
  by (simp add: entries_from_def)

lemma entries_from_Nil [simp]: "entries_from start [] = []"
  by (simp add: entries_from_def)

lemma read_segments_refines:
  "list_all2 seg_inv segs ess \<Longrightarrow>
   read_segments lib segs start maxCount msgs =
     Inr (msgs @ take (nat (maxCount - int (length msgs))) (entries_from start (concat ess)))"
proof (induction segs ess arbitrary: msgs rule: list_all2_induct)
  case Nil
  then show ?case by simp
next
  case (Cons s segs es ess)
  show ?case
  proof (cases "s_nextOffset s \<le> start")
    case True
    then have "entries_from start es = []"
      using seg_inv_bounds [OF Cons.hyps(1)] by (fastforce simp: entries_from_def filter_empty_conv)
    then show ?thesis using True Cons.IH by simp
  next
    case False
    let ?k = "nat (maxCount - int (length msgs))" and ?E = "entries_from start es"
    have b: "Segment_Read lib s start (maxCount - int (length msgs)) = Inr (take ?k ?E)"
      by (rule Segment_Read_refines [OF Cons.hyps(1)])
    show ?thesis
    proof (cases "maxCount \<le> int (length (msgs @ take ?k ?E))")
      case True
      then have "?k \<le> length ?E" by (auto simp: min_def split: if_splits)
      then show ?thesis using False True b by simp
    next
      case False': False
      then have k: "length ?E < ?k" by (auto simp: min_def split: if_splits)
      then have "nat (maxCount - int (length (msgs @ take ?k ?E))) = ?k - length ?E" by simp
      then show ?thesis using False False' b k Cons.IH [of "msgs @ take ?k ?E"] by simp
    qed
  qed
qed

lemma list_all2_snoc: "list_all2 P (xs @ [x]) (ys @ [y]) \<longleftrightarrow> list_all2 P xs ys \<and> P x y"
proof (cases "length xs = length ys")
  case True
  then show ?thesis by (simp add: list_all2_append)
next
  case False
  then show ?thesis by (auto dest: list_all2_lengthD)
qed

lemma pl_inv_snoc:
  "pl_segments pl = init @ [act] \<Longrightarrow>
   pl_inv pl (ess @ [es]) \<longleftrightarrow>
     list_all2 seg_inv init ess \<and> seg_inv act es \<and> sorted_wrt seg_before init \<and>
     (\<forall>s\<in>set init. seg_before s act) \<and>
     list_all (\<lambda>s. s_maxBytes s = pl_segMaxBytes pl) init \<and> s_maxBytes act = pl_segMaxBytes pl \<and>
     int segFileHeaderSize < pl_segMaxBytes pl"
  by (auto simp: pl_inv_def sorted_wrt_append list_all2_snoc)

lemma pl_invE:
  assumes "pl_inv pl ess"
  obtains init act es0 es where "pl_segments pl = init @ [act]" "ess = es0 @ [es]"
proof -
  have "pl_segments pl \<noteq> []" "ess \<noteq> []" using assms by (auto simp: pl_inv_def)
  then show ?thesis using that by (metis append_butlast_last_id)
qed

lemma segment_files_fresh:
  "(\<And>s. s \<in> set segs \<Longrightarrow> s_baseOffset s \<noteq> base) \<Longrightarrow> segment_files segs base = ([], [])"
  by (simp add: segment_files_def find_None_iff [THEN iffD2])

lemma createSegment_fresh_fields [simp]:
  "s_nextOffset (createSegment lib base maxB idxE sync [] []) = base"
  "s_baseOffset (createSegment lib base maxB idxE sync [] []) = base"
  "s_maxBytes (createSegment lib base maxB idxE sync [] []) = maxB"
  by (simp_all add: createSegment_def)

text \<open>Rolling over adds an empty segment at the next offset and changes no entry.\<close>

lemma roll_inv:
  assumes "pl_inv pl ess"
  obtains ess' where "pl_inv (roll lib pl) ess'" "concat ess' = concat ess"
    "PartitionLog_NextOffset (roll lib pl) = PartitionLog_NextOffset pl"
proof -
  obtain init act es0 es where d: "pl_segments pl = init @ [act]" "ess = es0 @ [es]"
    using assms by (rule pl_invE)
  note i = pl_inv_snoc [OF d(1), of es0 es]
  have inv: "seg_inv act es" "s_maxBytes act = pl_segMaxBytes pl"
    "\<And>s. s \<in> set init \<Longrightarrow> seg_before s act" "int segFileHeaderSize < pl_segMaxBytes pl"
    using assms i d(2) by auto
  show ?thesis
  proof (cases "Segment_IsFull act")
    case False
    then show ?thesis using that [of ess] assms d(1) by (simp add: roll_def)
  next
    case True
    have lt: "s_baseOffset act < s_nextOffset act"
      using seg_inv_full_nonempty [OF inv(1) True] inv(2,4) by simp
    have before: "seg_before s t" if "s \<in> set (init @ [act])" "s_baseOffset t = s_nextOffset act" for s t
      using that lt inv(3) by (fastforce simp: seg_before_def)
    define new where "new = createSegment lib (s_nextOffset act) (pl_segMaxBytes pl) (pl_indexEvery pl)
        (pl_syncPolicy pl) [] []"
    have "segment_files (init @ [act]) (s_nextOffset act) = ([], [])"
      using lt inv(3) by (intro segment_files_fresh) (fastforce simp: seg_before_def)
    then have r: "roll lib pl = pl\<lparr>pl_segments := (init @ [act]) @ [new]\<rparr>"
      using True d(1) by (simp add: roll_def new_def)
    have seg: "pl_segments (roll lib pl) = (init @ [act]) @ [new]" by (simp add: r)
    have "seg_inv new []" "s_baseOffset new = s_nextOffset act" "s_maxBytes new = pl_segMaxBytes pl"
      "s_nextOffset new = s_nextOffset act"
      by (simp_all add: new_def createSegment_fresh)
    then have "pl_inv (roll lib pl) ((es0 @ [es]) @ [[]])"
      unfolding pl_inv_snoc [OF seg] using assms i d(2) before
      by (auto simp: r sorted_wrt_append list_all2_appendI)
    moreover have "PartitionLog_NextOffset (roll lib pl) = PartitionLog_NextOffset pl"
      by (simp add: PartitionLog_NextOffset_def seg d(1) \<open>s_nextOffset new = s_nextOffset act\<close>)
    ultimately show ?thesis using that d(2) by simp
  qed
qed

lemma PartitionLog_Append_refines:
  assumes "pl_inv pl ess" and "pl_fits lib now pl msg"
  obtains pl' ess' where
    "PartitionLog_Append lib now NoFault pl msg = (pl', Inr (PartitionLog_NextOffset pl))"
    "pl_inv pl' ess'" "PartitionLog_NextOffset pl' = PartitionLog_NextOffset pl + 1"
    "concat ess' = concat ess @ [(now, PartitionLog_NextOffset pl, msg\<lparr>m_Offset := PartitionLog_NextOffset pl\<rparr>)]"
proof -
  obtain ess1 where r: "pl_inv (roll lib pl) ess1" "concat ess1 = concat ess"
    "PartitionLog_NextOffset (roll lib pl) = PartitionLog_NextOffset pl"
    using assms(1) by (rule roll_inv)
  obtain init act es0 es where d: "pl_segments (roll lib pl) = init @ [act]" "ess1 = es0 @ [es]"
    using r(1) by (rule pl_invE)
  note i = pl_inv_snoc [OF d(1), of es0 es]
  have inv: "seg_inv act es" using r(1) i d(2) by simp
  have next_act: "s_nextOffset act = PartitionLog_NextOffset pl"
    using r(3) d(1) by (simp add: PartitionLog_NextOffset_def)
  have fit: "fits now act msg" using assms(2) d(1) by (simp add: pl_fits_def active_after_roll_def)
  obtain s' x where w: "Segment_Write now NoFault act msg = (s', x)" by (cases "Segment_Write now NoFault act msg")
  note w' = Segment_Write_refines [OF inv fit w]
  define pl' where "pl' = (roll lib pl)\<lparr>pl_segments := init @ [s'], pl_notify := True\<rparr>"
  have app: "PartitionLog_Append lib now NoFault pl msg = (pl', Inr (PartitionLog_NextOffset pl))"
    using w w'(1) d(1) next_act by (simp add: PartitionLog_Append_def pl'_def Let_def)
  have seg: "pl_segments pl' = init @ [s']" by (simp add: pl'_def)
  have "pl_inv pl' (es0 @ [es @ [(now, s_nextOffset act, msg\<lparr>m_Offset := s_nextOffset act\<rparr>)]])"
    unfolding pl_inv_snoc [OF seg] using r(1) i d(2) w' by (simp add: pl'_def seg_before_def)
  moreover have "PartitionLog_NextOffset pl' = PartitionLog_NextOffset pl + 1"
    using w'(3) next_act by (simp add: PartitionLog_NextOffset_def seg)
  ultimately show ?thesis
    using that [OF app] r(2) d(2) next_act by simp
qed

lemma PartitionLog_Read_refines:
  "pl_inv pl ess \<Longrightarrow>
   PartitionLog_Read lib pl start maxCount = Inr (take (nat maxCount) (entries_from start (concat ess)))"
  using read_segments_refines [of "pl_segments pl" ess lib start maxCount "[]"]
  by (simp add: PartitionLog_Read_def pl_inv_def)

definition pl_holds :: "PartitionLog \<Rightarrow> entry list \<Rightarrow> bool" where
  "pl_holds pl es \<longleftrightarrow> (\<exists>ess. pl_inv pl ess \<and> concat ess = es)"

lemma pl_holds_next: "pl_holds pl es \<Longrightarrow> list_all (\<lambda>e. e_off e < PartitionLog_NextOffset pl) es"
proof -
  assume "pl_holds pl es"
  then obtain ess where i: "pl_inv pl ess" "concat ess = es" by (auto simp: pl_holds_def)
  obtain init act es0 last where d: "pl_segments pl = init @ [act]" "ess = es0 @ [last]"
    using i(1) by (rule pl_invE)
  have inv: "list_all2 seg_inv init es0" "seg_inv act last" "\<And>s. s \<in> set init \<Longrightarrow> seg_before s act"
    using i(1) pl_inv_snoc [OF d(1), of es0 last] d(2) by auto
  have "e_off e < s_nextOffset act" if e: "e \<in> set (concat es0)" for e
  proof -
    obtain xs where "xs \<in> set es0" "e \<in> set xs" using e by auto
    then obtain k where k: "k < length es0" "e \<in> set (es0 ! k)" by (metis in_set_conv_nth)
    then have "seg_inv (init ! k) (es0 ! k)" "init ! k \<in> set init"
      using inv(1) by (simp_all add: list_all2_conv_all_nth)
    then show ?thesis
      using seg_inv_bounds k(2) inv(3) seg_inv_le [OF inv(2)] by (fastforce simp: seg_before_def)
  qed
  then have "list_all (\<lambda>e. e_off e < s_nextOffset act) (concat es0)"
    "list_all (\<lambda>e. e_off e < s_nextOffset act) last"
    using seg_inv_bounds [OF inv(2)] unfolding list_all_iff by blast+
  then show ?thesis
    using i(2) [symmetric] d by (simp add: PartitionLog_NextOffset_def)
qed

interpretation pl_log: append_log pl_holds "\<lambda>now. PartitionLog_Append lib now NoFault" "PartitionLog_Read lib"
  PartitionLog_NextOffset "pl_fits lib"
  for lib
proof
  fix l es now m
  assume a: "pl_holds l es" "pl_fits lib now l m"
  then obtain ess where i: "pl_inv l ess" "concat ess = es" by (auto simp: pl_holds_def)
  obtain pl' ess' where
    "PartitionLog_Append lib now NoFault l m = (pl', Inr (PartitionLog_NextOffset l))"
    "pl_inv pl' ess'" "PartitionLog_NextOffset pl' = PartitionLog_NextOffset l + 1"
    "concat ess' = concat ess @ [(now, PartitionLog_NextOffset l, m\<lparr>m_Offset := PartitionLog_NextOffset l\<rparr>)]"
    by (rule PartitionLog_Append_refines [OF i(1) a(2)])
  then show "\<exists>l'. PartitionLog_Append lib now NoFault l m = (l', Inr (PartitionLog_NextOffset l)) \<and>
      PartitionLog_NextOffset l' = PartitionLog_NextOffset l + 1 \<and>
      pl_holds l' (es @ [(now, PartitionLog_NextOffset l, m\<lparr>m_Offset := PartitionLog_NextOffset l\<rparr>)])"
    using i(2) by (auto simp: pl_holds_def)
next
  show "PartitionLog_Read lib l start n = Inr (take (nat n) (entries_from start es))"
    if "pl_holds l es" for l es start n
    using that PartitionLog_Read_refines by (auto simp: pl_holds_def)
next
  show "list_all (\<lambda>e. e_off e < PartitionLog_NextOffset l) es" if "pl_holds l es" for l es
    using that by (rule pl_holds_next)
qed

section \<open>Appending, reading and reopening\<close>

text \<open>C16. Appending a batch of uncompressed messages (codec 0, part of \<^const>\<open>pl_fits\<close>) to a partition log of such
  messages on a disk without faults, across any number of segment roll-overs, returns
  consecutive offsets starting at the next offset, and reading from that offset returns exactly
  the batch, in order and with those offsets.\<close>

theorem append_then_read:
  assumes "pl_holds pl es" and "room_all (pl_fits lib) (\<lambda>now. PartitionLog_Append lib now NoFault) pl ms"
    and "append_all (\<lambda>now. PartitionLog_Append lib now NoFault) pl ms = (pl', rs)"
    and "int (length ms) \<le> maxCount"
  shows "rs = map (\<lambda>e. Inr (e_off e)) (number_from (PartitionLog_NextOffset pl) ms) \<and>
    PartitionLog_Read lib pl' (PartitionLog_NextOffset pl) maxCount =
      Inr (map e_msg (number_from (PartitionLog_NextOffset pl) ms)) \<and>
    PartitionLog_NextOffset pl' = PartitionLog_NextOffset pl + int (length ms)"
  using pl_log.append_all_law [OF assms(1-3)] pl_log.read_appended [OF assms] by simp

text \<open>Appending never disturbs what was there: a read of the old log is a prefix of the same
  read of the new log.\<close>

theorem append_keeps_old:
  assumes "pl_holds pl es" and "room_all (pl_fits lib) (\<lambda>now. PartitionLog_Append lib now NoFault) pl ms"
    and "append_all (\<lambda>now. PartitionLog_Append lib now NoFault) pl ms = (pl', rs)"
    and "PartitionLog_Read lib pl start maxCount = Inr old"
  shows "\<exists>new. PartitionLog_Read lib pl' start (int (length old)) = Inr old \<and>
    PartitionLog_Read lib pl' start maxCount = Inr (old @ new)"
  by (rule pl_log.read_prefix_kept [OF assms])

definition seg_file :: "Segment \<Rightarrow> int \<times> bytes \<times> bytes" where
  "seg_file s = (s_baseOffset s, s_logFile s, s_indexFile s)"

lemma sort_key_unique:
  assumes "mset xs = mset ys" and "sorted_wrt (\<lambda>a b. f a < (f b :: int)) ys"
  shows "sort_key f xs = ys"
proof (rule sort_key_inj_key_eq [OF assms(1)])
  have s: "sorted_wrt (<) (map f ys)" using assms(2) by (simp add: sorted_wrt_map)
  then show "sorted (map f ys)" by (simp add: strict_sorted_iff)
  have "inj_on f (set ys)" using s by (simp add: strict_sorted_iff distinct_map)
  then show "inj_on f (set xs)" using assms(1) by (metis set_mset_mset)
qed

lemma createSegment_base [simp]:
  "s_baseOffset (createSegment lib base maxB idxE sync lf idf) = base"
  "s_maxBytes (createSegment lib base maxB idxE sync lf idf) = maxB"
  by (simp_all add: createSegment_def recoverNextOffset_def Let_def)

lemma next_after_le: "seg_inv s es \<Longrightarrow> next_after (s_baseOffset s) es \<le> s_nextOffset s"
  using seg_inv_le [of s es] seg_inv_bounds [of s es "last es"] by (auto simp: next_after_def)

lemma reopen_inv:
  assumes "pl_inv pl ess" and "list_all (\<lambda>s. s_version s = RecordVersion) (pl_segments pl)"
    and "mset files = mset (map seg_file (pl_segments pl))"
  shows "pl_inv (OpenPartitionLog lib files (pl_segMaxBytes pl) idxE sync) ess"
proof -
  let ?m = "pl_segMaxBytes pl"
  let ?open = "\<lambda>(base, lf, idf). createSegment lib base ?m idxE sync lf idf"
  let ?re = "\<lambda>s. createSegment lib (s_baseOffset s) ?m idxE sync (s_logFile s) (s_indexFile s)"
  let ?segs = "map ?re (pl_segments pl)"
  have comp: "map ?open (map seg_file (pl_segments pl)) = ?segs" by (simp add: seg_file_def)
  have ms: "mset (map ?open files) = mset ?segs"
    unfolding comp [symmetric] mset_map [of ?open] assms(3) by (rule refl)
  have before: "sorted_wrt seg_before (pl_segments pl)" using assms(1) by (simp add: pl_inv_def)
  have inv: "seg_inv (?re s) es" "s_nextOffset (?re s) \<le> s_nextOffset s"
    if "seg_inv s es" "s_version s = RecordVersion" for s es
    using createSegment_reopen [OF that] next_after_le [OF that(1)] by simp_all
  have l2: "list_all2 seg_inv ?segs ess"
  proof (unfold list_all2_map1, rule list_all2_all_nthI)
    have all: "list_all2 seg_inv (pl_segments pl) ess" using assms(1) by (simp add: pl_inv_def)
    then show "length (pl_segments pl) = length ess" by (rule list_all2_lengthD)
    show "seg_inv (?re (pl_segments pl ! n)) (ess ! n)" if "n < length (pl_segments pl)" for n
      using that assms(2) list_all2_nthD [OF all that] by (intro inv(1)) (simp_all add: list_all_length)
  qed
  have le: "s_nextOffset (?re s) \<le> s_nextOffset s" if s: "s \<in> set (pl_segments pl)" for s
  proof -
    obtain k where k: "k < length (pl_segments pl)" "s = pl_segments pl ! k" using s by (metis in_set_conv_nth)
    then have "seg_inv s (ess ! k)" using assms(1) by (simp add: pl_inv_def list_all2_conv_all_nth)
    moreover have "s_version s = RecordVersion" using assms(2) s by (simp add: list_all_iff)
    ultimately show ?thesis by (rule inv(2))
  qed
  have before': "sorted_wrt seg_before ?segs"
    unfolding sorted_wrt_map
  proof (rule sorted_wrt_mono_rel [OF _ before])
    fix s t
    assume "s \<in> set (pl_segments pl)" "seg_before s t"
    then show "seg_before (?re s) (?re t)" using le [of s] by (simp add: seg_before_def)
  qed
  have "sort_key s_baseOffset (map ?open files) = ?segs"
    by (rule sort_key_unique [OF ms]) (rule sorted_wrt_mono_rel [OF _ before'], simp add: seg_before_def)
  then show ?thesis
    using assms(1) l2 before'
    by (simp add: OpenPartitionLog_def pl_inv_def Let_def list_all_iff)
qed

text \<open>C17. Closing and reopening: for a partition whose segments have the current format and hold uncompressed records
  only (codec 0, part of \<^const>\<open>pl_holds\<close>), the log opened from its files, in whatever order the directory lists
  them, holds the same entries and answers every read alike. A compressed record would end the recovery of its
  segment instead.\<close>

theorem reopen_holds_same:
  assumes "pl_holds pl es" and "list_all (\<lambda>s. s_version s = RecordVersion) (pl_segments pl)"
    and "mset files = mset (map seg_file (pl_segments pl))"
    and "pl' = OpenPartitionLog lib files (pl_segMaxBytes pl) idxE sync"
  shows "pl_holds pl' es \<and>
    PartitionLog_Read lib pl' start maxCount = PartitionLog_Read lib pl start maxCount"
proof -
  obtain ess where ess: "pl_inv pl ess" "concat ess = es" using assms(1) by (auto simp: pl_holds_def)
  have h: "pl_holds pl' es"
    using reopen_inv [OF ess(1) assms(2,3), of lib idxE sync] ess(2) by (auto simp: pl_holds_def assms(4))
  show ?thesis using h pl_log.read_law [OF h] pl_log.read_law [OF assms(1)] by simp
qed

section \<open>Retention\<close>

text \<open>Size retention overshoots: the size limit is checked against the total of the untouched
  segment list, so as soon as the log is over its limit every segment but the active one is
  deleted, however small the excess.\<close>

theorem compact_size_deletes_all:
  assumes "length (pl_segments pl) > 1" and "maxSizeMB > 0" and "int64_range (maxSizeMB * 1024 * 1024)"
    and "totalLogSize (pl_segments pl) > maxSizeMB * 1024 * 1024"
    and "list_all (\<lambda>s. modTime s \<noteq> None) (butlast (pl_segments pl))"
  shows "PartitionLog_Compact now modTime pl maxAgeHours maxSizeMB =
    (pl\<lparr>pl_segments := [last (pl_segments pl)]\<rparr>, length (pl_segments pl) - 1)"
proof -
  have g: "evict now modTime maxAgeHours maxSizeMB (pl_segments pl) s" if "s \<in> set (butlast (pl_segments pl))" for s
    using assms(2-5) that by (auto simp: evict_def list_all_iff split: option.splits)
  have "filter (\<lambda>s. \<not> evict now modTime maxAgeHours maxSizeMB (pl_segments pl) s) (butlast (pl_segments pl)) = []"
    "filter (evict now modTime maxAgeHours maxSizeMB (pl_segments pl)) (butlast (pl_segments pl)) = butlast (pl_segments pl)"
    using g by (simp_all add: filter_empty_conv filter_id_conv)
  then show ?thesis using assms(1) by (simp add: PartitionLog_Compact_def Let_def)
qed

lemma list_all2_filter_fst:
  "list_all2 P xs ys \<Longrightarrow>
   list_all2 P (filter q xs) (map snd (filter (q \<circ> fst) (zip xs ys)))"
  by (induction xs ys rule: list_all2_induct) auto

lemma compact_inv:
  assumes "pl_inv pl ess"
  obtains ess0 where "pl_inv (fst (PartitionLog_Compact now modTime pl age mb)) (ess0 @ [last ess])"
    "set (concat ess0) \<subseteq> set (concat (butlast ess))"
proof -
  let ?gone = "evict now modTime age mb (pl_segments pl)"
  obtain init act es0 es where d: "pl_segments pl = init @ [act]" "ess = es0 @ [es]"
    using assms by (rule pl_invE)
  note i = pl_inv_snoc [OF d(1), of es0 es]
  have inv: "list_all2 seg_inv init es0" "sorted_wrt seg_before init" using assms i d(2) by auto
  show ?thesis
  proof (cases "init = []")
    case True
    then show ?thesis using that [of es0] assms d by (simp add: PartitionLog_Compact_def Let_def)
  next
    case False
    let ?pl' = "pl\<lparr>pl_segments := filter (\<lambda>s. \<not> ?gone s) init @ [act]\<rparr>"
    let ?es1 = "map snd (filter ((\<lambda>s. \<not> ?gone s) \<circ> fst) (zip init es0))"
    have c: "fst (PartitionLog_Compact now modTime pl age mb) = ?pl'"
      using False d(1) by (cases init) (simp_all add: PartitionLog_Compact_def Let_def)
    have seg: "pl_segments ?pl' = filter (\<lambda>s. \<not> ?gone s) init @ [act]" by simp
    have "pl_inv ?pl' (?es1 @ [es])"
      unfolding pl_inv_snoc [OF seg] using assms i d(2) list_all2_filter_fst [OF inv(1)]
      by (auto simp: list_all_iff intro: sorted_wrt_filter)
    moreover have "set (concat ?es1) \<subseteq> set (concat es0)"
      by (auto dest: set_zip_rightD)
    ultimately show ?thesis using that [of ?es1] c d(2) by simp
  qed
qed

text \<open>Retention is safe for everything recent: whatever it deletes, the next offset stays and
  every read that starts in the active segment gives the same messages as before.\<close>

theorem compact_keeps_active:
  assumes "pl_inv pl ess" and "pl' = fst (PartitionLog_Compact now modTime pl age mb)"
    and "s_baseOffset (last (pl_segments pl)) \<le> start"
  shows "PartitionLog_NextOffset pl' = PartitionLog_NextOffset pl \<and>
    PartitionLog_Read lib pl' start maxCount = PartitionLog_Read lib pl start maxCount"
proof -
  obtain init act es0 es where d: "pl_segments pl = init @ [act]" "ess = es0 @ [es]"
    using assms(1) by (rule pl_invE)
  note i = pl_inv_snoc [OF d(1), of es0 es]
  have inv: "list_all2 seg_inv init es0" "\<And>s. s \<in> set init \<Longrightarrow> seg_before s act"
    using assms(1) i d(2) by auto
  obtain ess0 where c: "pl_inv pl' (ess0 @ [last ess])" "set (concat ess0) \<subseteq> set (concat (butlast ess))"
    using compact_inv [OF assms(1), of now modTime age mb] assms(2) by metis
  have old: "e_off e < start" if e: "e \<in> set (concat es0)" for e
  proof -
    obtain xs where "xs \<in> set es0" "e \<in> set xs" using e by auto
    then obtain k where k: "k < length es0" "e \<in> set (es0 ! k)" by (metis in_set_conv_nth)
    then have "seg_inv (init ! k) (es0 ! k)" "init ! k \<in> set init"
      using inv(1) by (simp_all add: list_all2_conv_all_nth)
    then have "e_off e < s_baseOffset act"
      using seg_inv_bounds k(2) inv(2) by (fastforce simp: seg_before_def)
    then show ?thesis using assms(3) d(1) by simp
  qed
  have none: "entries_from start xs = []" if "set xs \<subseteq> set (concat es0)" for xs
  proof -
    have "\<forall>e\<in>set xs. \<not> start \<le> e_off e" using that old by (meson linorder_not_le subsetD)
    then show ?thesis by (simp add: entries_from_def filter_empty_conv)
  qed
  have "last (pl_segments pl') = act"
    using assms(2) d(1) by (cases init) (simp_all add: PartitionLog_Compact_def Let_def)
  moreover have "pl_segments pl' \<noteq> []" using c(1) by (simp add: pl_inv_def)
  ultimately have n: "PartitionLog_NextOffset pl' = PartitionLog_NextOffset pl"
    using d(1) by (simp add: PartitionLog_NextOffset_def)
  have "entries_from start (concat (ess0 @ [last ess])) = entries_from start (concat ess)"
    using none [of "concat ess0"] none [of "concat es0"] c(2) d(2) by simp
  then show ?thesis
    using n by (simp only: PartitionLog_Read_refines [OF c(1)] PartitionLog_Read_refines [OF assms(1)] simp_thms)
qed

section \<open>Search by timestamp\<close>

lemma ts_loop_log:
  "list_all wf_entry es \<Longrightarrow>
   ts_loop lib ver ts (log_bytes ver es) =
     map_option e_off (List.find (\<lambda>e. ts \<le> m_Timestamp (e_msg e)) es)"
proof (induction es)
  case Nil
  then show ?case by (simp add: ts_loop.simps [of lib ver ts "[]"])
next
  case (Cons e es)
  then show ?case
    by (simp add: ts_loop.simps [of lib ver ts "record_of ver e @ log_bytes ver es"] decode_record_of)
qed

lemma find_append: "List.find p (xs @ ys) = (case List.find p xs of None \<Rightarrow> List.find p ys | Some x \<Rightarrow> Some x)"
  by (induction xs) simp_all

lemma ts_segments_log:
  "list_all2 seg_inv segs ess \<Longrightarrow>
   ts_segments lib ts segs = map_option e_off (List.find (\<lambda>e. ts \<le> m_Timestamp (e_msg e)) (concat ess))"
proof (induction segs ess rule: list_all2_induct)
  case (Cons s segs es ess)
  have "list_all wf_entry es" "drop (s_dataStart s) (s_logFile s) = log_bytes (s_version s) es"
    using Cons.hyps(1) by (simp_all add: seg_inv_def wf_entries_def)
  then show ?case
    using Cons.IH by (simp add: ts_loop_log find_append split: option.splits)
qed simp

text \<open>C35. The search by timestamp, in a log of uncompressed records, returns the offset of the first entry still
  retained, in log order, whose message timestamp is not before the requested time, and the next offset when there
  is none. For a time before all records this is the first retained offset, not 0 as the comment on the function
  says.\<close>

theorem OffsetForTimestamp_first:
  assumes "pl_holds pl es"
  shows "OffsetForTimestamp lib pl ts =
    (case List.find (\<lambda>e. ts \<le> m_Timestamp (e_msg e)) es of
       Some e \<Rightarrow> e_off e | None \<Rightarrow> PartitionLog_NextOffset pl)"
proof -
  obtain ess where "list_all2 seg_inv (pl_segments pl) ess" "concat ess = es"
    using assms by (auto simp: pl_holds_def pl_inv_def)
  then show ?thesis
    by (simp add: OffsetForTimestamp_def ts_segments_log split: option.splits)
qed

section \<open>Raw transfer\<close>

definition tail_bytes :: "int \<Rightarrow> Segment list \<Rightarrow> entry list list \<Rightarrow> bytes" where
  "tail_bytes start segs ess =
     concat (map (\<lambda>(s, es). log_bytes (s_version s) (filter (\<lambda>e. start \<le> e_off e) es)) (zip segs ess))"

lemma filter_sorted_dropWhile:
  "sorted_wrt (<) (map e_off es) \<Longrightarrow>
   filter (\<lambda>e. start \<le> e_off e) es = dropWhile (\<lambda>e. e_off e < start) es"
proof (induction es)
  case (Cons e es)
  show ?case
  proof (cases "e_off e < start")
    case False
    then have "\<forall>x\<in>set es. start \<le> e_off x" using Cons.prems by fastforce
    then have "filter (\<lambda>e. start \<le> e_off e) es = es" by (simp add: filter_id_conv)
    then show ?thesis using False by simp
  qed (use Cons in simp)
qed simp

lemma send_first:
  assumes "seg_inv s es"
  shows "0 \<le> findExactPosition s start"
    "drop (nat (findExactPosition s start)) (s_logFile s) =
       log_bytes (s_version s) (filter (\<lambda>e. start \<le> e_off e) es)"
    "s_logSize s - findExactPosition s start =
       int (length (log_bytes (s_version s) (filter (\<lambda>e. start \<le> e_off e) es)))"
proof -
  let ?tw = "takeWhile (\<lambda>e. e_off e < start) es" and ?dw = "dropWhile (\<lambda>e. e_off e < start) es"
  obtain i where i: "findPosition s start = int (s_dataStart s + length (log_bytes (s_version s) (take i es)))"
    "i \<le> length es" "\<And>j. j < i \<Longrightarrow> e_off (es ! j) < start"
    by (rule findPosition_sound [OF assms]) blast
  have p: "findExactPosition s start = int (s_dataStart s + length (log_bytes (s_version s) ?tw))"
    by (rule exact_position [OF assms])
  have f: "filter (\<lambda>e. start \<le> e_off e) es = ?dw"
    using assms by (intro filter_sorted_dropWhile) (simp add: seg_inv_def wf_entries_def)
  have b: "log_bytes (s_version s) es = log_bytes (s_version s) ?tw @ log_bytes (s_version s) ?dw"
    by (metis log_bytes_simps(3) takeWhile_dropWhile_id)
  have s: "s_logFile s = file_header (s_version s) @ log_bytes (s_version s) es"
    "s_dataStart s = length (file_header (s_version s))" "s_logSize s = int (length (s_logFile s))"
    using assms by (simp_all add: seg_inv_def)
  show "0 \<le> findExactPosition s start" by (simp add: p)
  show "drop (nat (findExactPosition s start)) (s_logFile s) =
       log_bytes (s_version s) (filter (\<lambda>e. start \<le> e_off e) es)"
    by (simp add: p f s b nat_add_distrib)
  show "s_logSize s - findExactPosition s start =
       int (length (log_bytes (s_version s) (filter (\<lambda>e. start \<le> e_off e) es)))"
    by (simp add: p f s b)
qed

lemma send_rest:
  assumes "seg_inv s es" and "start \<le> s_baseOffset s"
  shows "drop (s_dataStart s) (s_logFile s) = log_bytes (s_version s) (filter (\<lambda>e. start \<le> e_off e) es)"
    "s_logSize s - int (s_dataStart s) =
       int (length (log_bytes (s_version s) (filter (\<lambda>e. start \<le> e_off e) es)))"
proof -
  have "\<forall>e\<in>set es. start \<le> e_off e" using seg_inv_bounds [OF assms(1)] assms(2) by fastforce
  then have "filter (\<lambda>e. start \<le> e_off e) es = es" by (simp add: filter_id_conv)
  then show "drop (s_dataStart s) (s_logFile s) = log_bytes (s_version s) (filter (\<lambda>e. start \<le> e_off e) es)"
    "s_logSize s - int (s_dataStart s) =
       int (length (log_bytes (s_version s) (filter (\<lambda>e. start \<le> e_off e) es)))"
    using assms(1) by (simp_all add: seg_inv_def)
qed

definition cap :: "int \<Rightarrow> int \<Rightarrow> bytes \<Rightarrow> bytes" where
  "cap maxBytes sent bs = (if maxBytes > 0 then take (nat (maxBytes - sent)) bs else bs)"

lemma cap_append:
  "0 \<le> sent \<Longrightarrow> cap m sent (xs @ ys) = cap m sent xs @ cap m (sent + int (length (cap m sent xs))) ys"
  by (simp add: cap_def min_def nat_diff_distrib' nat_add_distrib)

lemma send_loop_refines:
  "list_all2 seg_inv segs ess \<Longrightarrow> sorted_wrt seg_before segs \<Longrightarrow> 0 \<le> sent \<Longrightarrow>
   (\<not> isFirst \<Longrightarrow> \<forall>s\<in>set segs. start \<le> s_baseOffset s) \<Longrightarrow>
   send_loop segs start maxB isFirst sent = Some (cap maxB sent (tail_bytes start segs ess))"
proof (induction segs ess arbitrary: isFirst sent rule: list_all2_induct)
  case Nil
  then show ?case by (simp add: tail_bytes_def cap_def)
next
  case (Cons s segs es ess)
  let ?B = "log_bytes (s_version s) (filter (\<lambda>e. start \<le> e_off e) es)"
  have tb: "tail_bytes start (s # segs) (es # ess) = ?B @ tail_bytes start segs ess"
    by (simp add: tail_bytes_def)
  have sorted: "sorted_wrt seg_before segs" using Cons.prems(1) by simp
  show ?case
  proof (cases "s_nextOffset s \<le> start")
    case True
    have "?B = []"
      using seg_inv_bounds [OF Cons.hyps(1)] True by (fastforce simp: filter_empty_conv log_bytes_def)
    then show ?thesis
      using True Cons.IH [OF sorted Cons.prems(2), of isFirst] Cons.prems(3) tb by simp
  next
    case False
    let ?off = "if isFirst then findExactPosition s start else int (s_dataStart s)"
    have o: "0 \<le> ?off" "drop (nat ?off) (s_logFile s) = ?B" "s_logSize s - ?off = int (length ?B)"
      using send_first [OF Cons.hyps(1), of start] send_rest [OF Cons.hyps(1), of start] Cons.prems(3) by auto
    have base: "\<forall>t\<in>set segs. start \<le> s_baseOffset t"
      using Cons.prems(1) False by (fastforce simp: seg_before_def)
    have IH: "send_loop segs start maxB False k = Some (cap maxB k (tail_bytes start segs ess))" if "0 \<le> k" for k
      using Cons.IH [OF sorted that, of False] base by simp
    show ?thesis
    proof (cases "maxB > 0 \<and> sent \<ge> maxB")
      case True
      then show ?thesis using False by (simp add: cap_def)
    next
      case room: False
      show ?thesis
      proof (cases "?B = []")
        case True
        then have "s_logSize s - ?off \<le> 0" using o(3) by simp
        then show ?thesis
          using False room True IH [OF Cons.prems(2)] tb by (auto simp: Let_def)
      next
        case nonempty: False
        then have pos: "\<not> s_logSize s - ?off \<le> 0" "\<not> ?off < 0" using o by auto
        let ?len = "if maxB > 0 \<and> sent + (s_logSize s - ?off) > maxB then maxB - sent else s_logSize s - ?off"
        have sent: "sendfileSegment (s_logFile s) (nat ?off) (nat ?len) = cap maxB sent ?B"
          using o(2,3) room by (auto simp: sendfileSegment_def cap_def)
        have k: "0 \<le> sent + int (length (cap maxB sent ?B))" using Cons.prems(2) by simp
        have "send_loop (s # segs) start maxB isFirst sent =
            map_option ((@) (cap maxB sent ?B))
              (send_loop segs start maxB False (sent + int (length (cap maxB sent ?B))))"
          using False room pos sent by (simp only: send_loop.simps Let_def if_False)
        then show ?thesis
          using IH [OF k] cap_append [OF Cons.prems(2)] tb by simp
      qed
    qed
  qed
qed

text \<open>C34. A raw transfer sends exactly the stored bytes of the records at or after the requested
  offset, cut at the byte limit when one is given, and no other byte of the segment files.\<close>

theorem SendTo_exact:
  assumes "pl_inv pl ess"
  shows "SendTo pl start maxBytes =
    Some (if maxBytes > 0 then take (nat maxBytes) (tail_bytes start (pl_segments pl) ess)
          else tail_bytes start (pl_segments pl) ess)"
  using send_loop_refines [of "pl_segments pl" ess 0 True start maxBytes] assms
  by (simp add: SendTo_def pl_inv_def cap_def)

section \<open>Instances\<close>

text \<open>Two appends to a log whose segments are full after one record.\<close>

definition sample_pl0 :: PartitionLog where
  "sample_pl0 = OpenPartitionLog sample_lib [] 10 4096 ''always''"

definition sample_pl1 :: PartitionLog where
  "sample_pl1 = fst (PartitionLog_Append sample_lib 5 NoFault sample_pl0 sample_Message)"

definition sample_pl2 :: PartitionLog where
  "sample_pl2 = fst (PartitionLog_Append sample_lib 6 NoFault sample_pl1 sample_Message)"

definition sample_seg :: "int \<Rightarrow> Segment" where
  "sample_seg base = createSegment sample_lib base 10 4096 ''always'' [] []"

lemma fits_sample_at:
  assumes "s_nextOffset s \<in> {0, 1}" and "s_version s = RecordVersion" and "s_logSize s < 1000"
  shows "fits now s sample_Message"
proof -
  have c: "m_Codec sample_Message = 0" by (simp add: sample_Message_def zero_Message_def)
  consider "s_nextOffset s = 0" | "s_nextOffset s = 1" using assms(1) by auto
  then show ?thesis
  proof cases
    case 1
    then show ?thesis
      using assms(2,3) wf_record_sample
      by (simp add: fits_def c sample_offset0 length_encodeRecord length_sample key_sample
          recHeaderSize_def recV2HeaderSize_def)
  next
    case 2
    then show ?thesis
      using assms(2,3) wf_record_sample1
      by (simp add: fits_def c length_encodeRecord length_sample1 key_sample recHeaderSize_def
          recV2HeaderSize_def)
  qed
qed

lemma sample_seg_fields [simp]:
  "s_nextOffset (sample_seg b) = b" "s_baseOffset (sample_seg b) = b" "s_version (sample_seg b) = RecordVersion"
  "s_logSize (sample_seg b) = 5" "s_maxBytes (sample_seg b) = 10" "s_syncPolicy (sample_seg b) = ''always''"
  by (simp_all add: sample_seg_def createSegment_def segFileHeaderSize_def)

lemma sample_seg_inv: "seg_inv (sample_seg b) []"
  by (simp add: sample_seg_def createSegment_fresh)

lemma sample_pl0_segments: "pl_segments sample_pl0 = [sample_seg 0]" "pl_segMaxBytes sample_pl0 = 10"
  "pl_indexEvery sample_pl0 = 4096" "pl_syncPolicy sample_pl0 = ''always''"
  by (simp_all add: sample_pl0_def OpenPartitionLog_def sample_seg_def Let_def)

lemma sample_write:
  assumes "b \<in> {0, 1}"
  obtains s' where "Segment_Write now NoFault (sample_seg b) sample_Message = (s', Inr b)"
    "s_baseOffset s' = b" "s_nextOffset s' = b + 1" "s_maxBytes s' = 10" "s_version s' = RecordVersion"
    "seg_inv s' [(now, b, sample_Message\<lparr>m_Offset := b\<rparr>)]" "Segment_IsFull s'" "s_logSize s' < 1000"
proof -
  have f: "fits now (sample_seg b) sample_Message" using assms by (intro fits_sample_at) simp_all
  obtain s' r where w: "Segment_Write now NoFault (sample_seg b) sample_Message = (s', r)"
    by (cases "Segment_Write now NoFault (sample_seg b) sample_Message")
  note r = Segment_Write_refines [OF sample_seg_inv f w]
  have len: "length (encodeRecord now b (sample_Message\<lparr>m_Offset := b\<rparr>) RecordVersion) \<in> {93, 104}"
    using assms by (auto simp: length_encodeRecord length_sample length_sample1 key_sample sample_offset0
        recHeaderSize_def record_consts)
  have sz: "s_logSize s' = 5 + int (length (encodeRecord now b (sample_Message\<lparr>m_Offset := b\<rparr>) RecordVersion))"
    using w by (auto simp: Segment_Write_def Segment_index_def Let_def split: if_splits)
  show ?thesis
    using that [of s'] w r sz len by (auto simp: Segment_IsFull_def)
qed

lemma sample_pl1_segments:
  obtains s' where "pl_segments sample_pl1 = [s']" "pl_segMaxBytes sample_pl1 = 10"
    "PartitionLog_Append sample_lib 5 NoFault sample_pl0 sample_Message = (sample_pl1, Inr 0)"
    "s_baseOffset s' = 0" "s_nextOffset s' = 1" "s_maxBytes s' = 10" "s_version s' = RecordVersion"
    "seg_inv s' [sample_entry]" "Segment_IsFull s'" "s_logSize s' < 1000"
    "roll sample_lib sample_pl1 = sample_pl1\<lparr>pl_segments := [s', sample_seg 1]\<rparr>"
proof -
  obtain s' where s': "Segment_Write 5 NoFault (sample_seg 0) sample_Message = (s', Inr 0)"
    "s_baseOffset s' = 0" "s_nextOffset s' = 0 + 1" "s_maxBytes s' = 10" "s_version s' = RecordVersion"
    "seg_inv s' [(5, 0, sample_Message\<lparr>m_Offset := 0\<rparr>)]" "Segment_IsFull s'" "s_logSize s' < 1000"
    by (rule sample_write [of 0 5]) simp
  have r0: "roll sample_lib sample_pl0 = sample_pl0"
    by (simp add: roll_def sample_pl0_segments Segment_IsFull_def)
  have p1: "pl_segments sample_pl1 = [s']" "pl_segMaxBytes sample_pl1 = 10" "pl_indexEvery sample_pl1 = 4096"
    "pl_syncPolicy sample_pl1 = ''always''"
    "PartitionLog_Append sample_lib 5 NoFault sample_pl0 sample_Message = (sample_pl1, Inr 0)"
    using s'(1) by (simp_all add: sample_pl1_def PartitionLog_Append_def r0 sample_pl0_segments Let_def)
  have "segment_files [s'] 1 = ([], [])" using s'(2) by (simp add: segment_files_def)
  then have "roll sample_lib sample_pl1 = sample_pl1\<lparr>pl_segments := [s', sample_seg 1]\<rparr>"
    using s' p1 by (simp add: roll_def sample_seg_def)
  then show ?thesis using that [of s'] s' p1 by (simp add: sample_entry_def sample_offset0)
qed

lemma sample_pl2_segments:
  obtains s1 s2 where "pl_segments sample_pl2 = [s1, s2]" "pl_segMaxBytes sample_pl2 = 10"
    "PartitionLog_Append sample_lib 6 NoFault sample_pl1 sample_Message = (sample_pl2, Inr 1)"
    "seg_inv s1 [sample_entry]" "seg_inv s2 [sample_entry1]" "s_baseOffset s1 = 0" "s_nextOffset s1 = 1"
    "s_baseOffset s2 = 1" "s_nextOffset s2 = 2" "s_version s1 = RecordVersion" "s_version s2 = RecordVersion"
    "s_maxBytes s1 = 10" "s_maxBytes s2 = 10"
proof -
  obtain s1 where s1: "pl_segments sample_pl1 = [s1]" "pl_segMaxBytes sample_pl1 = 10"
    "s_baseOffset s1 = 0" "s_nextOffset s1 = 1" "s_maxBytes s1 = 10" "s_version s1 = RecordVersion"
    "seg_inv s1 [sample_entry]" "roll sample_lib sample_pl1 = sample_pl1\<lparr>pl_segments := [s1, sample_seg 1]\<rparr>"
    by (rule sample_pl1_segments)
  obtain s2 where s2: "Segment_Write 6 NoFault (sample_seg 1) sample_Message = (s2, Inr 1)"
    "s_baseOffset s2 = 1" "s_nextOffset s2 = 1 + 1" "s_maxBytes s2 = 10" "s_version s2 = RecordVersion"
    "seg_inv s2 [(6, 1, sample_Message\<lparr>m_Offset := 1\<rparr>)]"
    by (rule sample_write [of 1 6]) simp
  have "pl_segments sample_pl2 = [s1, s2]" "pl_segMaxBytes sample_pl2 = 10"
    "PartitionLog_Append sample_lib 6 NoFault sample_pl1 sample_Message = (sample_pl2, Inr 1)"
    using s2(1) s1 by (simp_all add: sample_pl2_def PartitionLog_Append_def Let_def)
  then show ?thesis using that [of s1 s2] s1 s2 by (simp add: sample_entry1_def)
qed

lemma sample_pl0_inv: "pl_inv sample_pl0 [[]]"
  using sample_seg_inv by (simp add: pl_inv_def sample_pl0_segments segFileHeaderSize_def)

lemma sample_pl2_inv: "pl_inv sample_pl2 [[sample_entry], [sample_entry1]]"
  by (rule sample_pl2_segments) (simp add: pl_inv_def seg_before_def segFileHeaderSize_def)

lemma sample_room:
  "room_all (pl_fits sample_lib) (\<lambda>now. PartitionLog_Append sample_lib now NoFault) sample_pl0
     [(5, sample_Message), (6, sample_Message)]"
proof -
  obtain s1 where s1: "PartitionLog_Append sample_lib 5 NoFault sample_pl0 sample_Message = (sample_pl1, Inr 0)"
    "roll sample_lib sample_pl1 = sample_pl1\<lparr>pl_segments := [s1, sample_seg 1]\<rparr>"
    by (rule sample_pl1_segments)
  have r0: "roll sample_lib sample_pl0 = sample_pl0"
    by (simp add: roll_def sample_pl0_segments Segment_IsFull_def)
  show ?thesis
    using s1 by (simp add: pl_fits_def active_after_roll_def r0 sample_pl0_segments fits_sample_at)
qed

lemma sample_append_all:
  "append_all (\<lambda>now. PartitionLog_Append sample_lib now NoFault) sample_pl0
     [(5, sample_Message), (6, sample_Message)] = (sample_pl2, [Inr 0, Inr 1])"
  by (rule sample_pl1_segments, rule sample_pl2_segments) simp

lemma sample_pl0_next: "PartitionLog_NextOffset sample_pl0 = 0"
  by (simp add: PartitionLog_NextOffset_def sample_pl0_segments)

theorem append_then_read_witness:
  "PartitionLog_Read sample_lib sample_pl2 0 10 =
     Inr [sample_Message, sample_Message\<lparr>m_Offset := 1\<rparr>] \<and> PartitionLog_NextOffset sample_pl2 = 2"
proof -
  have h: "pl_holds sample_pl0 []" using sample_pl0_inv by (auto simp: pl_holds_def)
  show ?thesis
    using append_then_read [OF h sample_room sample_append_all, of 10]
    by (simp add: sample_pl0_next e_msg_def sample_offset0)
qed

theorem append_keeps_old_witness:
  "\<exists>new. PartitionLog_Read sample_lib sample_pl2 0 0 = Inr [] \<and>
     PartitionLog_Read sample_lib sample_pl2 0 10 = Inr ([] @ new)"
proof -
  have h: "pl_holds sample_pl0 []" using sample_pl0_inv by (auto simp: pl_holds_def)
  have "PartitionLog_Read sample_lib sample_pl0 0 10 = Inr []"
    using pl_log.read_law [OF h] by simp
  from append_keeps_old [OF h sample_room sample_append_all this] show ?thesis by simp
qed

lemma sample_pl2_holds: "pl_holds sample_pl2 [sample_entry, sample_entry1]"
  using sample_pl2_inv by (auto simp: pl_holds_def)

theorem reopen_holds_same_witness:
  "pl_holds (OpenPartitionLog sample_lib (rev (map seg_file (pl_segments sample_pl2))) 10 4096 ''always'')
     [sample_entry, sample_entry1]"
proof -
  have v: "list_all (\<lambda>s. s_version s = RecordVersion) (pl_segments sample_pl2)" "pl_segMaxBytes sample_pl2 = 10"
    by (rule sample_pl2_segments, simp)+
  have "mset (rev (map seg_file (pl_segments sample_pl2))) = mset (map seg_file (pl_segments sample_pl2))"
    by simp
  from reopen_holds_same [OF sample_pl2_holds v(1) this refl, of sample_lib 4096 "''always''"] v(2)
  show ?thesis by simp
qed

definition sample_big :: PartitionLog where
  "sample_big = sample_pl2\<lparr>pl_segments := [(sample_seg 0)\<lparr>s_logSize := 1048570\<rparr>, sample_seg 1, sample_seg 2]\<rparr>"

theorem compact_size_deletes_all_witness:
  "PartitionLog_Compact 0 (\<lambda>_. Some 0) sample_big 0 1 = (sample_big\<lparr>pl_segments := [sample_seg 2]\<rparr>, 2)"
  using compact_size_deletes_all [of sample_big 1 "\<lambda>_. Some 0" 0 0]
  by (simp add: sample_big_def totalLogSize_def int64_range_def)

theorem compact_keeps_active_witness:
  "PartitionLog_Read sample_lib (fst (PartitionLog_Compact 3600000000001 (\<lambda>_. Some 0) sample_pl2 1 0)) 1 5 =
     PartitionLog_Read sample_lib sample_pl2 1 5 \<and>
   SegmentCount (fst (PartitionLog_Compact 3600000000001 (\<lambda>_. Some 0) sample_pl2 1 0)) = 1"
proof -
  obtain s1 s2 where s: "pl_segments sample_pl2 = [s1, s2]" "s_baseOffset s2 = 1" by (rule sample_pl2_segments)
  have "s_baseOffset (last (pl_segments sample_pl2)) \<le> 1" using s by simp
  from compact_keeps_active [OF sample_pl2_inv refl this]
  have "PartitionLog_Read sample_lib (fst (PartitionLog_Compact 3600000000001 (\<lambda>_. Some 0) sample_pl2 1 0)) 1 5 =
      PartitionLog_Read sample_lib sample_pl2 1 5" by (rule conjunct2)
  moreover have "SegmentCount (fst (PartitionLog_Compact 3600000000001 (\<lambda>_. Some 0) sample_pl2 1 0)) = 1"
    using s(1) by (simp add: PartitionLog_Compact_def SegmentCount_def evict_def int64_of_def Let_def)
  ultimately show ?thesis by (rule conjI)
qed

theorem OffsetForTimestamp_first_witness:
  "OffsetForTimestamp sample_lib sample_pl2 0 = 0 \<and> OffsetForTimestamp sample_lib sample_pl2 1 = 2"
proof -
  have n: "PartitionLog_NextOffset sample_pl2 = 2"
    by (rule sample_pl2_segments) (simp add: PartitionLog_NextOffset_def)
  show ?thesis
    using OffsetForTimestamp_first [OF sample_pl2_holds, of sample_lib 0]
      OffsetForTimestamp_first [OF sample_pl2_holds, of sample_lib 1] n
    by (simp add: sample_entry_def sample_entry1_def e_msg_def e_off_def sample_Message_def zero_Message_def)
qed

theorem SendTo_exact_witness:
  "SendTo sample_pl2 1 0 = Some (record_of RecordVersion sample_entry1)"
proof -
  obtain s1 s2 where s: "pl_segments sample_pl2 = [s1, s2]" "s_version s2 = RecordVersion" by (rule sample_pl2_segments)
  show ?thesis
    using SendTo_exact [OF sample_pl2_inv, of 1 0] s
    by (simp add: tail_bytes_def sample_entry_def sample_entry1_def e_off_def)
qed

end
