(* ===== verification/Key_Compactor.thy ===== *)
theory Key_Compactor
  imports Partition_Log
begin

text \<open>
  Key-based log compaction, \<^verbatim>\<open>src/internal/storage/compactor.go\<close>: scanning the closed segments
  record by record, choosing the records to keep, and rewriting the files of a segment. The
  background loop only calls \<open>CompactPartition\<close> on a timer; the timing state is \<open>KeyCompactor\<close>.
  The lemmas show that a sweep filters the entries of the closed segments, that it preserves the
  log invariant, and what it keeps per key.
\<close>

section \<open>State and operations\<close>

text \<open>Durations are nanoseconds.\<close>

record KeyCompactor =
  kc_interval :: int
  kc_tombstoneTTL :: int

definition defaultCompactionInterval :: int where
  "defaultCompactionInterval = 60 * 1000000000"

definition defaultTombstoneGrace :: int where
  "defaultTombstoneGrace = 24 * 3600 * 1000000000"

definition tombstoneHeaderKey :: string where
  "tombstoneHeaderKey = ''_compaction''"

definition tombstoneHeaderValue :: string where
  "tombstoneHeaderValue = ''delete''"

definition NewKeyCompactor :: "int \<Rightarrow> KeyCompactor" where
  "NewKeyCompactor interval =
     \<lparr>kc_interval = (if interval \<le> 0 then defaultCompactionInterval else interval),
      kc_tombstoneTTL = defaultTombstoneGrace\<rparr>"

definition UpdateConfig :: "KeyCompactor \<Rightarrow> int \<Rightarrow> int \<Rightarrow> KeyCompactor" where
  "UpdateConfig kc interval graceMs =
     kc\<lparr>kc_interval := (if interval \<le> 0 then defaultCompactionInterval else interval),
        kc_tombstoneTTL := int64_of ((if graceMs < 0 then 0 else graceMs) * 1000000)\<rparr>"

definition SetTombstoneGrace :: "KeyCompactor \<Rightarrow> int \<Rightarrow> KeyCompactor" where
  "SetTombstoneGrace kc d = kc\<lparr>kc_tombstoneTTL := (if d < 0 then 0 else d)\<rparr>"

record compactRecord =
  cr_offset :: int
  cr_key :: string
  cr_timestamp :: int
  cr_tombstone :: bool
  cr_raw :: bytes

definition is_tombstone :: "Message \<Rightarrow> bool" where
  "is_tombstone msg \<longleftrightarrow> map_of (m_Headers msg) tombstoneHeaderKey = Some tombstoneHeaderValue"

definition raw_payload ::
  "flate_lib \<Rightarrow> int \<Rightarrow> byte \<Rightarrow> bytes \<Rightarrow> (record_error, bool) result" where
  "raw_payload lib offset codec payload =
     (case (if codec \<noteq> 0 then Decompress lib codec payload else Inr payload) of
        Inl e \<Rightarrow> Inl (RecDecompress offset e)
      | Inr decoded \<Rightarrow>
          (case Unmarshal_Message decoded of
             None \<Rightarrow> Inl RecUnmarshal | Some msg \<Rightarrow> Inr (is_tombstone msg)))"

definition readRawRecord ::
  "flate_lib \<Rightarrow> byte \<Rightarrow> bytes \<Rightarrow> (record_error, compactRecord \<times> bytes) result" where
  "readRawRecord lib ver r =
     (case readFull (recHeaderSize ver) r of
        Inl e \<Rightarrow> Inl (RecEOF e)
      | Inr (hdr, r1) \<Rightarrow>
          (let offset = get_int64 (window 0 8 hdr);
               ts = get_int64 (window 8 16 hdr);
               keyLen = le_nat (window 16 18 hdr);
               payloadLen = le_nat (window 18 22 hdr);
               checksum = word_of_nat (le_nat (window 22 26 hdr));
               codec = (if RecordVersion \<le> ver then hdr ! 26 else 0)
           in case readFull (keyLen + payloadLen) r1 of
                Inl e \<Rightarrow> Inl (RecEOF e)
              | Inr (body, r2) \<Rightarrow>
                  (let payload = drop keyLen body
                   in if ChecksumIEEE payload \<noteq> checksum then Inl (ChecksumMismatch offset)
                      else map_result
                        (\<lambda>tomb. (\<lparr>cr_offset = offset, cr_key = string_of_bytes (take keyLen body),
                                  cr_timestamp = ts, cr_tombstone = tomb, cr_raw = hdr @ body\<rparr>, r2))
                        (raw_payload lib offset codec payload))))"

lemma readRawRecord_shorter: "readRawRecord lib ver r = Inr (c, r') \<Longrightarrow> length r' < length r"
  using recHeaderSize_pos [of ver]
  by (auto simp: readRawRecord_def Let_def dest!: readFull_Inr split: sum.splits if_splits prod.splits)

function scan_loop :: "flate_lib \<Rightarrow> byte \<Rightarrow> bytes \<Rightarrow> (record_error, compactRecord list) result" where
  "scan_loop lib ver r =
     (case readRawRecord lib ver r of
        Inl e \<Rightarrow> if eof_error e then Inr [] else Inl e
      | Inr (c, r') \<Rightarrow> map_result ((#) c) (scan_loop lib ver r'))"
  by pat_completeness auto
termination
  by (relation "measure (\<lambda>(lib, ver, r). length r)") (auto dest: readRawRecord_shorter)

declare scan_loop.simps [simp del]

definition scanSegment :: "flate_lib \<Rightarrow> Segment \<Rightarrow> (record_error, compactRecord list) result" where
  "scanSegment lib seg = scan_loop lib (s_version seg) (drop (s_dataStart seg) (s_logFile seg))"

fun scan_all :: "flate_lib \<Rightarrow> Segment list \<Rightarrow> (record_error, compactRecord list list) result" where
  "scan_all lib [] = Inr []"
| "scan_all lib (seg # segs) =
     (case scanSegment lib seg of
        Inl e \<Rightarrow> Inl e
      | Inr recs \<Rightarrow> map_result ((#) recs) (scan_all lib segs))"

text \<open>The highest-offset-per-key map of the first pass; the last record of a key wins.\<close>

definition key_latest :: "compactRecord list \<Rightarrow> (string \<rightharpoonup> int)" where
  "key_latest recs =
     foldl (\<lambda>m c. if cr_key c = [] then m else m(cr_key c \<mapsto> cr_offset c)) Map.empty recs"

text \<open>A Go map answers zero for a missing key.\<close>

definition keep_record :: "(string \<rightharpoonup> int) \<Rightarrow> int \<Rightarrow> int \<Rightarrow> compactRecord \<Rightarrow> bool" where
  "keep_record latest now graceNs c =
     (if cr_key c = [] then True
      else if cr_offset c \<noteq> (case latest (cr_key c) of Some off \<Rightarrow> off | None \<Rightarrow> 0) then False
      else if cr_tombstone c then int64_of (now - cr_timestamp c) < graceNs
      else True)"

text \<open>
  The new files of \<open>rewriteSegment\<close>: position, bytes since the last index entry, and the index
  written so far.
\<close>

fun rewrite_index :: "int \<Rightarrow> bytes list \<Rightarrow> int \<Rightarrow> int \<Rightarrow> bytes" where
  "rewrite_index indexEvery [] pos byteSinceIndex = []"
| "rewrite_index indexEvery (rec # recs) pos byteSinceIndex =
     (let b = byteSinceIndex + int (length rec); pos' = pos + int (length rec)
      in if b \<ge> indexEvery
         then index_entry (get_int64 (take 8 rec)) pos @ rewrite_index indexEvery recs pos' 0
         else rewrite_index indexEvery recs pos' b)"

text \<open>
  Where the file operations of a rewrite can fail: before the first rename, at the first or at the
  second rename. After a failed rename the files at the two paths are reopened (\<open>reopenOriginal\<close>).
  A file that cannot be reopened after both renames is left out.
\<close>

datatype rewrite_fault = RewriteOk | TempFileFault | RenameLogFault | RenameIndexFault

datatype compact_error = CompactScan record_error | CompactRewrite

definition rewriteSegment ::
  "rewrite_fault \<Rightarrow> Segment \<Rightarrow> bytes list \<Rightarrow> Segment \<times> (compact_error, unit) result" where
  "rewriteSegment flt seg keptRaw =
     (let hdr = (if RecordVersion \<le> s_version seg then segment_header else []);
          newLog = hdr @ concat keptRaw;
          newIdx = rewrite_index (s_indexEvery seg) keptRaw (int (length hdr)) 0
      in case flt of
           TempFileFault \<Rightarrow> (seg, Inl CompactRewrite)
         | RenameLogFault \<Rightarrow>
             (seg\<lparr>s_logSize := int (length (s_logFile seg)), s_byteSinceIndex := 0\<rparr>, Inl CompactRewrite)
         | RenameIndexFault \<Rightarrow>
             (seg\<lparr>s_logFile := newLog, s_logSize := int (length newLog), s_byteSinceIndex := 0\<rparr>,
              Inl CompactRewrite)
         | RewriteOk \<Rightarrow>
             (seg\<lparr>s_logFile := newLog, s_indexFile := newIdx, s_logSize := int (length newLog),
                  s_byteSinceIndex := 0\<rparr>, Inr ()))"

text \<open>The second pass over the closed segments; a segment that loses nothing is left alone.\<close>

fun rewrite_all ::
  "(Segment \<Rightarrow> rewrite_fault) \<Rightarrow> (compactRecord \<Rightarrow> bool) \<Rightarrow> Segment list \<Rightarrow> compactRecord list list \<Rightarrow>
   Segment list \<times> nat \<times> (compact_error, unit) result" where
  "rewrite_all flt keep (seg # segs) (recs # rest) =
     (let kept = filter keep recs; dropped = length recs - length kept
      in if dropped = 0 then
           (let (segs', n, r) = rewrite_all flt keep segs rest in (seg # segs', n, r))
         else
           (case rewriteSegment (flt seg) seg (map cr_raw kept) of
              (seg', Inl e) \<Rightarrow> (seg' # segs, 0, Inl e)
            | (seg', Inr _) \<Rightarrow>
                (let (segs', n, r) = rewrite_all flt keep segs rest in (seg' # segs', dropped + n, r))))"
| "rewrite_all flt keep segs _ = (segs, 0, Inr ())"

definition CompactPartition ::
  "flate_lib \<Rightarrow> KeyCompactor \<Rightarrow> int \<Rightarrow> (Segment \<Rightarrow> rewrite_fault) \<Rightarrow> PartitionLog \<Rightarrow>
   PartitionLog \<times> nat \<times> (compact_error, unit) result" where
  "CompactPartition lib kc now flt pl =
     (if length (pl_segments pl) \<le> 1 then (pl, 0, Inr ())
      else
        let targets = butlast (pl_segments pl);
            graceNs = (if kc_tombstoneTTL kc < 0 then 0 else kc_tombstoneTTL kc)
        in case scan_all lib targets of
             Inl e \<Rightarrow> (pl, 0, Inl (CompactScan e))
           | Inr allRecords \<Rightarrow>
               (let latest = key_latest (concat allRecords);
                    (segs', n, r) = rewrite_all flt (keep_record latest now graceNs) targets allRecords
                in (pl\<lparr>pl_segments := segs' @ [last (pl_segments pl)]\<rparr>, n, r)))"

section \<open>Scanning\<close>

definition rec_of :: "byte \<Rightarrow> entry \<Rightarrow> compactRecord" where
  "rec_of ver e = \<lparr>cr_offset = e_off e, cr_key = m_Key (e_msg e), cr_timestamp = fst e,
     cr_tombstone = is_tombstone (e_msg e), cr_raw = record_of ver e\<rparr>"

definition scannable :: "entry \<Rightarrow> bool" where
  "scannable e \<longleftrightarrow> wf_entry e \<and> int64_range (fst e)"

lemma readRawRecord_record:
  assumes "scannable e"
  shows "readRawRecord lib ver (record_of ver e @ r) = Inr (rec_of ver e, r)"
proof -
  let ?m = "e_msg e"
  let ?pl = "Marshal_Message ?m" and ?key = "bytes_of_string (m_Key ?m)"
  let ?h = "record_header ver (e_off e) (fst e) (m_Key ?m) ?pl (m_Codec ?m)"
  have rec: "record_of ver e = ?h @ ?key @ ?pl" by (simp add: record_of_def encodeRecord_def Let_def)
  have w: "wf_record (e_off e) ?m" "m_Codec ?m = 0" "int64_range (fst e)"
    using assms by (simp_all add: scannable_def wf_entry_def)
  note f = record_header_fields [of ?h, OF refl]
  have ts: "window 8 16 ?h = put_int64 (fst e)" by (simp add: record_header_def)
  have vals: "get_int64 (window 0 8 ?h) = e_off e" "get_int64 (window 8 16 ?h) = fst e"
    "le_nat (window 16 18 ?h) = length (m_Key ?m)" "le_nat (window 18 22 ?h) = length ?pl"
    unfolding f ts using w by (simp_all add: get_put_int64 le_nat_le_bytes wf_record_def)
  have "unat (ChecksumIEEE ?pl) < 256 ^ 4"
    using unsigned_less [of "ChecksumIEEE ?pl", where ?'a = nat] by simp
  then have c: "word_of_nat (le_nat (window 22 26 ?h)) = ChecksumIEEE ?pl"
    by (simp only: f le_nat_le_bytes_id) simp
  have body: "readFull (length (m_Key ?m) + length ?pl) (?key @ ?pl @ r) = Inr (?key @ ?pl, r)"
    using readFull_append [of "?key @ ?pl" "length (m_Key ?m) + length ?pl" r] by simp
  have codec: "(if RecordVersion \<le> ver then ?h ! 26 else 0) = 0" using f(5) w(2) by simp
  have pay: "raw_payload lib (e_off e) 0 ?pl = Inr (is_tombstone ?m)"
    using w(1) by (simp add: raw_payload_def message_codec.dec_enc wf_record_def)
  have "readRawRecord lib ver (?h @ ?key @ ?pl @ r) =
      Inr (\<lparr>cr_offset = e_off e, cr_key = m_Key ?m, cr_timestamp = fst e,
            cr_tombstone = is_tombstone ?m, cr_raw = ?h @ ?key @ ?pl\<rparr>, r)"
    by (simp add: readRawRecord_def vals c body codec pay Let_def del: if_split)
  then show ?thesis by (simp add: rec rec_of_def)
qed

lemma readRawRecord_empty: "readRawRecord lib ver [] = Inl (RecEOF EOF)"
proof -
  have "readFull (recHeaderSize ver) [] = Inl EOF"
    by (simp add: readFull_def recHeaderSize_def record_consts)
  then show ?thesis by (simp add: readRawRecord_def)
qed

lemma scan_loop_log: "list_all scannable es \<Longrightarrow> scan_loop lib ver (log_bytes ver es) = Inr (map (rec_of ver) es)"
proof (induction es)
  case Nil
  then show ?case by (simp add: scan_loop.simps [of lib ver "[]"] readRawRecord_empty eof_error_def)
next
  case (Cons e es)
  then show ?case
    by (simp add: scan_loop.simps [of lib ver "record_of ver e @ log_bytes ver es"] readRawRecord_record)
qed

text \<open>The times of the records, and their ages, fit into 64 bits.\<close>

definition clocks_ok :: "int \<Rightarrow> entry list \<Rightarrow> bool" where
  "clocks_ok now es \<longleftrightarrow> list_all (\<lambda>e. int64_range (fst e) \<and> int64_range (now - fst e)) es"

lemma scanSegment_refines:
  assumes "seg_inv s es" and "clocks_ok now es"
  shows "scanSegment lib s = Inr (map (rec_of (s_version s)) es)"
proof -
  have "list_all scannable es" "drop (s_dataStart s) (s_logFile s) = log_bytes (s_version s) es"
    using assms by (auto simp: seg_inv_def wf_entries_def clocks_ok_def scannable_def list_all_iff)
  then show ?thesis by (simp add: scanSegment_def scan_loop_log)
qed

definition recs_of :: "Segment list \<Rightarrow> entry list list \<Rightarrow> compactRecord list list" where
  "recs_of segs ess = map (\<lambda>(s, es). map (rec_of (s_version s)) es) (zip segs ess)"

lemma scan_all_refines:
  "list_all2 seg_inv segs ess \<Longrightarrow> list_all (clocks_ok now) ess \<Longrightarrow> scan_all lib segs = Inr (recs_of segs ess)"
  by (induction segs ess rule: list_all2_induct) (simp_all add: recs_of_def scanSegment_refines [where now = now])

section \<open>Rewriting\<close>

lemma take8_record: "wf_entry e \<Longrightarrow> get_int64 (take 8 (record_of ver e)) = e_off e"
proof -
  assume "wf_entry e"
  moreover have "take 8 (record_of ver e) = put_int64 (e_off e)"
    by (simp add: record_of_def encodeRecord_def record_header_def Let_def)
  ultimately show ?thesis by (simp add: get_put_int64 wf_entry_def wf_record_def)
qed

lemma rewrite_index_points:
  "list_all wf_entry es \<Longrightarrow>
   \<exists>ps. rewrite_index idxE (map (record_of ver) es) (int st) b = index_bytes ps \<and>
     list_all (index_point ver st es) ps"
proof (induction es arbitrary: st b)
  case Nil
  then show ?case by (intro exI [of _ "[]"]) simp
next
  case (Cons e es)
  let ?n = "length (record_of ver e)"
  have shift: "index_point ver st (e # es) p" if pt: "index_point ver (st + ?n) es p" for p
  proof -
    obtain i where "i < length es" "fst p = e_off (es ! i)"
      "snd p = int (st + ?n + length (log_bytes ver (take i es)))"
      using pt by (auto simp: index_point_def)
    then show ?thesis unfolding index_point_def by (intro exI [of _ "Suc i"]) simp
  qed
  have here: "index_point ver st (e # es) (e_off e, int st)"
    unfolding index_point_def by (intro exI [of _ 0]) simp
  have pos: "int st + int ?n = int (st + ?n)" by simp
  obtain ps where ps: "rewrite_index idxE (map (record_of ver) es) (int (st + ?n)) 0 = index_bytes ps"
    "list_all (index_point ver (st + ?n) es) ps"
    using Cons.IH [of "st + ?n" 0] Cons.prems by auto
  obtain qs where qs: "rewrite_index idxE (map (record_of ver) es) (int (st + ?n)) (b + int ?n) = index_bytes qs"
    "list_all (index_point ver (st + ?n) es) qs"
    using Cons.IH [of "st + ?n" "b + int ?n"] Cons.prems by auto
  show ?case
  proof (cases "b + int ?n \<ge> idxE")
    case True
    then have "rewrite_index idxE (map (record_of ver) (e # es)) (int st) b = index_bytes ((e_off e, int st) # ps)"
      using ps(1) Cons.prems by (simp add: Let_def take8_record pos del: of_nat_add)
    moreover have "list_all (index_point ver st (e # es)) ((e_off e, int st) # ps)"
      using here shift ps(2) by (auto simp: list_all_iff)
    ultimately show ?thesis by blast
  next
    case False
    then have "rewrite_index idxE (map (record_of ver) (e # es)) (int st) b = index_bytes qs"
      using qs(1) by (simp add: Let_def pos del: of_nat_add)
    moreover have "list_all (index_point ver st (e # es)) qs"
      using shift qs(2) by (auto simp: list_all_iff)
    ultimately show ?thesis by blast
  qed
qed

lemma length_log_filter: "length (log_bytes ver (filter q es)) \<le> length (log_bytes ver es)"
  by (induction es) auto

lemma wf_entries_filter: "wf_entries lo hi es \<Longrightarrow> wf_entries lo hi (filter q es)"
  by (auto simp: wf_entries_def list_all_iff sorted_wrt_map intro: sorted_wrt_filter)

lemma rewriteSegment_refines:
  assumes "seg_inv s es" and "rewriteSegment RewriteOk s (map (record_of (s_version s)) (filter q es)) = (s', r)"
  shows "r = Inr ()" "seg_inv s' (filter q es)" "s_baseOffset s' = s_baseOffset s"
    "s_nextOffset s' = s_nextOffset s" "s_maxBytes s' = s_maxBytes s"
proof -
  let ?es = "filter q es"
  have wf: "wf_entries (s_baseOffset s) (s_nextOffset s) ?es"
    using assms(1) by (intro wf_entries_filter) (simp add: seg_inv_def)
  have hdr: "(if RecordVersion \<le> s_version s then segment_header else []) = file_header (s_version s)"
    using assms(1) by (auto simp: seg_inv_def file_header_def RecordVersion_def word_le_nat_alt)
  obtain ps where ps: "rewrite_index (s_indexEvery s) (map (record_of (s_version s)) ?es)
        (int (length (file_header (s_version s)))) 0 = index_bytes ps"
      "list_all (index_point (s_version s) (length (file_header (s_version s))) ?es) ps"
    using rewrite_index_points [of ?es "s_indexEvery s" "s_version s" "length (file_header (s_version s))" 0] wf
    unfolding wf_entries_def by blast
  have log: "concat (map (record_of (s_version s)) ?es) = log_bytes (s_version s) ?es"
    by (simp add: log_bytes_def)
  have s': "s' = s\<lparr>s_logFile := file_header (s_version s) @ log_bytes (s_version s) ?es,
      s_indexFile := index_bytes ps,
      s_logSize := int (length (file_header (s_version s) @ log_bytes (s_version s) ?es)),
      s_byteSinceIndex := 0\<rparr>" "r = Inr ()"
    using assms(2) by (simp_all add: rewriteSegment_def Let_def hdr ps(1) log)
  show "r = Inr ()" "s_baseOffset s' = s_baseOffset s" "s_nextOffset s' = s_nextOffset s"
    "s_maxBytes s' = s_maxBytes s"
    by (simp_all add: s')
  have "int (length (file_header (s_version s)) + length (log_bytes (s_version s) ?es)) < 2 ^ 63"
    using assms(1) length_log_filter [of "s_version s" q es] by (auto simp: seg_inv_def)
  then show "seg_inv s' ?es"
    using assms(1) wf ps(2) by (auto simp: seg_inv_def s')
qed

section \<open>What a sweep keeps\<close>

lemma raw_rec_of [simp]: "cr_raw \<circ> rec_of ver = record_of ver"
  by (simp add: rec_of_def fun_eq_iff)

lemma rewrite_all_refines:
  assumes "list_all2 seg_inv segs ess"
    and "\<And>ver e. e \<in> set (concat ess) \<Longrightarrow> keep (rec_of ver e) = q e"
    and "rewrite_all (\<lambda>_. RewriteOk) keep segs (recs_of segs ess) = (segs', n, r)"
  shows "r = Inr () \<and> list_all2 seg_inv segs' (map (filter q) ess) \<and>
    list_all2 (\<lambda>s s'. s_baseOffset s' = s_baseOffset s \<and> s_nextOffset s' = s_nextOffset s \<and>
      s_maxBytes s' = s_maxBytes s) segs segs' \<and>
    n + length (filter q (concat ess)) = length (concat ess)"
  using assms
proof (induction segs ess arbitrary: segs' n r rule: list_all2_induct)
  case Nil
  then show ?case by (simp add: recs_of_def)
next
  case (Cons s segs es ess)
  let ?recs = "map (rec_of (s_version s)) es"
  have split: "recs_of (s # segs) (es # ess) = ?recs # recs_of segs ess" by (simp add: recs_of_def)
  have kept: "filter keep ?recs = map (rec_of (s_version s)) (filter q es)"
    using Cons.prems(1) by (auto simp: filter_map comp_def cong: filter_cong)
  have raws: "map cr_raw (filter keep ?recs) = map (record_of (s_version s)) (filter q es)"
    by (simp add: kept)
  obtain segs1 n1 r1 where rest: "rewrite_all (\<lambda>_. RewriteOk) keep segs (recs_of segs ess) = (segs1, n1, r1)"
    by (cases "rewrite_all (\<lambda>_. RewriteOk) keep segs (recs_of segs ess)")
  have keep: "keep (rec_of ver e) = q e" if "e \<in> set (concat ess)" for ver e
    using Cons.prems(1) that by simp
  note IH = Cons.IH [OF keep rest]
  have le: "length (filter q es) \<le> length es" by simp
  show ?case
  proof (cases "length es - length (filter q es) = 0")
    case True
    then have "length (filter q es) = length es" using le by simp
    then have same: "filter q es = es" by (metis filter_id_conv length_filter_less less_irrefl)
    then have "segs' = s # segs1" "n = n1" "r = r1"
      using Cons.prems split kept rest True by (simp_all add: Let_def)
    then show ?thesis using IH Cons.hyps(1) same by simp
  next
    case False
    obtain s' x where w: "rewriteSegment RewriteOk s (map (record_of (s_version s)) (filter q es)) = (s', x)"
      by (cases "rewriteSegment RewriteOk s (map (record_of (s_version s)) (filter q es))")
    note rw = rewriteSegment_refines [OF Cons.hyps(1) w]
    have "segs' = s' # segs1" "n = length es - length (filter q es) + n1" "r = r1"
      using Cons.prems split kept raws rest False w rw(1) by (simp_all add: Let_def)
    moreover have "length es - length (filter q es) + n1 + length (filter q (concat (es # ess))) = length (concat (es # ess))"
    proof -
      have "n1 + length (filter q (concat ess)) = length (concat ess)" using IH by simp
      then show ?thesis using le by (simp only: concat.simps filter_append length_append)
    qed
    ultimately show ?thesis using IH rw by simp
  qed
qed

lemma key_latest_find:
  "key_latest recs k =
     (if k = [] then None else map_option cr_offset (List.find (\<lambda>c. cr_key c = k) (rev recs)))"
proof (induction recs rule: rev_induct)
  case Nil
  then show ?case by (simp add: key_latest_def)
next
  case (snoc c recs)
  then show ?case by (auto simp: key_latest_def)
qed

lemma log_sorted:
  "list_all2 seg_inv segs ess \<Longrightarrow> sorted_wrt seg_before segs \<Longrightarrow> sorted_wrt (<) (map e_off (concat ess))"
proof (induction segs ess rule: list_all2_induct)
  case (Cons s segs es ess)
  have lt: "e_off a < e_off b" if a: "a \<in> set es" and b: "b \<in> set (concat ess)" for a b
  proof -
    obtain xs where "xs \<in> set ess" "b \<in> set xs" using b by auto
    then obtain k where k: "k < length ess" "b \<in> set (ess ! k)" by (metis in_set_conv_nth)
    then have "seg_inv (segs ! k) (ess ! k)" "segs ! k \<in> set segs"
      using Cons.hyps(2) by (simp_all add: list_all2_conv_all_nth)
    then have "s_nextOffset s \<le> e_off b"
      using seg_inv_bounds k(2) Cons.prems by (fastforce simp: seg_before_def)
    then show ?thesis using seg_inv_bounds [OF Cons.hyps(1) a] by simp
  qed
  have "sorted_wrt (<) (map e_off es)" using Cons.hyps(1) by (simp add: seg_inv_def wf_entries_def)
  then show ?case using Cons.IH Cons.prems lt by (fastforce simp: sorted_wrt_append)
qed simp

text \<open>
  The rule compaction promises for the closed segments: messages without a key stay; of each key
  the newest record stays, unless it is a tombstone whose grace period is over.
\<close>

definition newest :: "entry list \<Rightarrow> entry \<Rightarrow> bool" where
  "newest es e \<longleftrightarrow> (\<forall>x\<in>set es. m_Key (e_msg x) = m_Key (e_msg e) \<longrightarrow> e_off x \<le> e_off e)"

definition retained :: "int \<Rightarrow> int \<Rightarrow> entry list \<Rightarrow> entry \<Rightarrow> bool" where
  "retained now grace es e \<longleftrightarrow>
     m_Key (e_msg e) = [] \<or>
     (newest es e \<and> (is_tombstone (e_msg e) \<longrightarrow> now - fst e < grace))"

lemma find_rev_newest:
  assumes "sorted_wrt (<) (map e_off es)" and "e \<in> set es"
  shows "map_option e_off (List.find (\<lambda>x. m_Key (e_msg x) = m_Key (e_msg e)) (rev es)) = Some (e_off e) \<longleftrightarrow>
    newest es e"
  using assms
proof (induction es rule: rev_induct)
  case (snoc x es)
  have lt: "\<forall>y\<in>set es. e_off y < e_off x" using snoc.prems(1) by (auto simp: sorted_wrt_append)
  show ?case
  proof (cases "m_Key (e_msg x) = m_Key (e_msg e)")
    case True
    have "e_off x = e_off e \<longleftrightarrow> newest (es @ [x]) e"
      using lt snoc.prems(2) True by (fastforce simp: newest_def)
    then show ?thesis using True by simp
  next
    case False
    then have "e \<in> set es" using snoc.prems(2) by auto
    then show ?thesis using snoc False by (auto simp: sorted_wrt_append newest_def)
  qed
qed simp

lemma find_map: "List.find p (map f xs) = map_option f (List.find (p \<circ> f) xs)"
  by (induction xs) simp_all

lemma map_option_find_append:
  "map_option f (List.find p (xs @ ys)) =
     (case map_option f (List.find p xs) of None \<Rightarrow> map_option f (List.find p ys) | Some x \<Rightarrow> Some x)"
  by (simp add: find_append split: option.splits)

lemma find_recs:
  "length segs = length ess \<Longrightarrow>
   map_option cr_offset (List.find (\<lambda>c. cr_key c = k) (rev (concat (recs_of segs ess)))) =
   map_option e_off (List.find (\<lambda>x. m_Key (e_msg x) = k) (rev (concat ess)))"
proof (induction segs ess rule: list_induct2)
  case (Cons s segs es ess)
  have one: "map_option cr_offset (List.find (\<lambda>c. cr_key c = k) (rev (map (rec_of (s_version s)) es))) =
      map_option e_off (List.find (\<lambda>x. m_Key (e_msg x) = k) (rev es))"
    by (simp add: rev_map find_map option.map_comp comp_def rec_of_def)
  show ?case
    using Cons.IH one by (simp add: recs_of_def map_option_find_append split: option.split)
qed (simp add: recs_of_def)

lemma keep_retained:
  assumes "list_all2 seg_inv segs ess" and "sorted_wrt seg_before segs" and "e \<in> set (concat ess)"
    and "int64_range (now - fst e)"
  shows "keep_record (key_latest (concat (recs_of segs ess))) now g (rec_of ver e) = retained now g (concat ess) e"
proof -
  let ?k = "m_Key (e_msg e)"
  let ?f = "map_option e_off (List.find (\<lambda>x. m_Key (e_msg x) = ?k) (rev (concat ess)))"
  have l: "key_latest (concat (recs_of segs ess)) ?k = (if ?k = [] then None else ?f)"
    using find_recs [OF list_all2_lengthD [OF assms(1)]] by (simp add: key_latest_find)
  have "?f = Some (e_off e) \<longleftrightarrow> newest (concat ess) e"
    by (rule find_rev_newest [OF log_sorted [OF assms(1,2)] assms(3)])
  moreover have "\<exists>off. ?f = Some off"
  proof -
    have "List.find (\<lambda>x. m_Key (e_msg x) = ?k) (rev (concat ess)) \<noteq> None"
      unfolding find_None_iff set_rev using assms(3) by blast
    then show ?thesis by auto
  qed
  ultimately show ?thesis
    using l assms(4) by (auto simp: keep_record_def retained_def rec_of_def)
qed

lemma seg_before_same:
  assumes "list_all2 (\<lambda>s s'. s_baseOffset s' = s_baseOffset s \<and> s_nextOffset s' = s_nextOffset s \<and>
      s_maxBytes s' = s_maxBytes s) segs segs'"
  shows "sorted_wrt seg_before segs' = sorted_wrt seg_before segs"
    "list_all (\<lambda>s. s_maxBytes s = m) segs' = list_all (\<lambda>s. s_maxBytes s = m) segs"
    "(\<forall>s\<in>set segs'. seg_before s act) = (\<forall>s\<in>set segs. seg_before s act)"
  using assms
  by (auto simp: sorted_wrt_iff_nth_less list_all2_conv_all_nth seg_before_def list_all_length
      all_set_conv_all_nth)

lemma CompactPartition_refines:
  assumes "pl_inv pl (es0 @ [es])" and "list_all (clocks_ok now) es0"
    and "CompactPartition lib kc now (\<lambda>_. RewriteOk) pl = (pl', n, r)"
  defines "q \<equiv> retained now (max 0 (kc_tombstoneTTL kc)) (concat es0)"
  shows "r = Inr () \<and> pl_inv pl' (map (filter q) es0 @ [es]) \<and>
    PartitionLog_NextOffset pl' = PartitionLog_NextOffset pl \<and>
    n + length (filter q (concat es0)) = length (concat es0)"
proof -
  obtain init act ess0 es1 where d: "pl_segments pl = init @ [act]" "es0 @ [es] = ess0 @ [es1]"
    using assms(1) by (rule pl_invE)
  have inv: "list_all2 seg_inv init es0" "sorted_wrt seg_before init"
    using assms(1) pl_inv_snoc [OF d(1), of es0 es] by auto
  show ?thesis
  proof (cases "init = []")
    case True
    then show ?thesis using assms(1,3) d(1) inv by (auto simp: CompactPartition_def)
  next
    case False
    let ?keep = "keep_record (key_latest (concat (recs_of init es0))) now (max 0 (kc_tombstoneTTL kc))"
    obtain segs' n' r' where w: "rewrite_all (\<lambda>_. RewriteOk) ?keep init (recs_of init es0) = (segs', n', r')"
      by (cases "rewrite_all (\<lambda>_. RewriteOk) ?keep init (recs_of init es0)")
    have keep: "?keep (rec_of ver e) = q e" if "e \<in> set (concat es0)" for ver e
      unfolding q_def using assms(2) that by (intro keep_retained [OF inv that]) (auto simp: clocks_ok_def list_all_iff)
    note rw = rewrite_all_refines [OF inv(1) keep w]
    have pl': "pl' = pl\<lparr>pl_segments := segs' @ [act]\<rparr>" "n = n'" "r = r'"
      using assms(3) False w scan_all_refines [OF inv(1) assms(2)]
      by (auto simp: CompactPartition_def d(1) Let_def max_def not_le split: if_splits)
    have same: "list_all2 (\<lambda>s s'. s_baseOffset s' = s_baseOffset s \<and> s_nextOffset s' = s_nextOffset s \<and>
      s_maxBytes s' = s_maxBytes s) init segs'" using rw by simp
    have "pl_inv pl' (map (filter q) es0 @ [es])"
      using assms(1) rw seg_before_same [OF same] pl_inv_snoc [OF d(1), of es0 es]
        pl_inv_snoc [of pl' segs' act "map (filter q) es0" es] by (simp add: pl')
    then show ?thesis using rw by (simp add: pl' PartitionLog_NextOffset_def d(1))
  qed
qed

text \<open>C1. Key compaction is correct, for logs of uncompressed records (codec 0, part of the log invariant): a sweep
  without disk errors removes from the closed segments exactly the records of a key that a later record of the
  closed segments supersedes, and the tombstones whose grace period is over, at once when the period is zero or
  less; it counts them, keeps the order and offsets of everything else, and leaves the active segment and the next
  offset alone. Later reads return the retained messages of the closed segments followed by all messages of the
  active one, which may hold further records of the same keys.\<close>

theorem CompactPartition_correct:
  assumes "pl_inv pl (es0 @ [es])" and "list_all (clocks_ok now) es0"
    and "CompactPartition lib kc now (\<lambda>_. RewriteOk) pl = (pl', n, r)"
    and "kept = filter (retained now (max 0 (kc_tombstoneTTL kc)) (concat es0)) (concat es0)"
  shows "r = Inr () \<and> n = length (concat es0) - length kept \<and>
    PartitionLog_NextOffset pl' = PartitionLog_NextOffset pl \<and>
    PartitionLog_Read lib pl' start maxCount = Inr (take (nat maxCount) (entries_from start (kept @ es)))"
proof -
  note c = CompactPartition_refines [OF assms(1-3)]
  then have "pl_holds pl' (kept @ es)"
    unfolding pl_holds_def assms(4) by (auto simp: filter_concat)
  then show ?thesis using c pl_log.read_law assms(4) by force
qed

section \<open>Witness\<close>

definition keyed_entry :: "int \<Rightarrow> entry" where
  "keyed_entry off = (5, off, sample_Message\<lparr>m_Key := ''k'', m_Offset := off\<rparr>)"

lemma keyed_length:
  "off \<in> {0, 1} \<Longrightarrow> length (Marshal_Message (sample_Message\<lparr>m_Key := ''k'', m_Offset := off\<rparr>)) < 900"
proof -
  have "length (Marshal_Message (sample_Message\<lparr>m_Key := ''k'', m_Offset := 0\<rparr>)) < 900"
    by (simp add: sample_Message_def marshal_eval)
  moreover have "length (Marshal_Message (sample_Message\<lparr>m_Key := ''k'', m_Offset := 1\<rparr>)) < 900"
    by (simp add: sample_Message_def marshal_eval show_nat.simps digit_def)
  ultimately show "off \<in> {0, 1} \<Longrightarrow> ?thesis" by auto
qed

lemma wf_keyed: "off \<in> {0, 1} \<Longrightarrow> wf_entry (keyed_entry off)"
proof -
  assume off: "off \<in> {0, 1}"
  have "length (Marshal_Message (sample_Message\<lparr>m_Key := ''k'', m_Offset := off\<rparr>)) < 2 ^ 32"
    using keyed_length [OF off] by simp
  then show ?thesis
    using off wf_Message_sample
    by (auto simp: wf_entry_def wf_record_def keyed_entry_def e_off_def e_msg_def int64_range_def
        wf_Message_def ascii_valid_utf8 sample_Message_def zero_Message_def)
qed

definition keyed_log :: PartitionLog where
  "keyed_log = sample_pl0\<lparr>pl_segments :=
     [(sample_seg 0)\<lparr>s_nextOffset := 2, s_logFile := segment_header @ log_bytes RecordVersion [keyed_entry 0, keyed_entry 1],
        s_logSize := int (length (segment_header @ log_bytes RecordVersion [keyed_entry 0, keyed_entry 1]))\<rparr>,
      sample_seg 2]\<rparr>"

lemma keyed_record_length: "off \<in> {0, 1} \<Longrightarrow> length (record_of RecordVersion (keyed_entry off)) < 1000"
proof -
  assume off: "off \<in> {0, 1}"
  show ?thesis using keyed_length [OF off]
    by (simp add: record_of_def length_encodeRecord keyed_entry_def e_off_def e_msg_def recHeaderSize_def record_consts)
qed

lemma keyed_log_inv: "pl_inv keyed_log [[keyed_entry 0, keyed_entry 1], []]"
proof -
  let ?s = "hd (pl_segments keyed_log)"
  have files: "s_dataStart (sample_seg 0) = length (file_header RecordVersion)"
    "s_indexFile (sample_seg 0) = index_bytes []"
    using sample_seg_inv [of 0] by (simp_all add: seg_inv_def sample_seg_def createSegment_def)
  have wf: "wf_entries 0 2 [keyed_entry 0, keyed_entry 1]"
    using wf_keyed [of 0] wf_keyed [of 1] by (simp add: wf_entries_def keyed_entry_def e_off_def)
  have "length (file_header RecordVersion) = 5" by (simp add: file_header_def segment_header_def segMagic_def record_consts)
  then have len: "int (length (file_header RecordVersion @ log_bytes RecordVersion [keyed_entry 0, keyed_entry 1])) < 2 ^ 63"
    using keyed_record_length [of 0] keyed_record_length [of 1] by simp
  have "seg_inv ?s [keyed_entry 0, keyed_entry 1]"
    unfolding seg_inv_def
  proof (intro conjI exI [of _ "[]"])
    show "s_logSize ?s < 2 ^ 63" using len by (simp add: keyed_log_def)
  qed (simp_all add: keyed_log_def files wf)
  then show ?thesis
    using sample_seg_inv [of 2] sample_pl0_segments(2)
    by (simp add: pl_inv_def keyed_log_def seg_before_def record_consts)
qed

theorem CompactPartition_correct_witness:
  "\<exists>pl'. CompactPartition sample_lib (NewKeyCompactor 0) 10 (\<lambda>_. RewriteOk) keyed_log = (pl', 1, Inr ()) \<and>
     PartitionLog_Read sample_lib pl' 0 5 = Inr [e_msg (keyed_entry 1)]"
proof -
  let ?es = "[keyed_entry 0, keyed_entry 1]"
  obtain pl' n r where c: "CompactPartition sample_lib (NewKeyCompactor 0) 10 (\<lambda>_. RewriteOk) keyed_log = (pl', n, r)"
    by (cases "CompactPartition sample_lib (NewKeyCompactor 0) 10 (\<lambda>_. RewriteOk) keyed_log")
  have inv: "pl_inv keyed_log ([?es] @ [[]])" using keyed_log_inv by simp
  have clk: "list_all (clocks_ok 10) [?es]" by (simp add: clocks_ok_def keyed_entry_def int64_range_def)
  have q: "[keyed_entry 1] = filter (retained 10 (max 0 (kc_tombstoneTTL (NewKeyCompactor 0))) (concat [?es])) (concat [?es])"
    by (simp add: retained_def newest_def is_tombstone_def keyed_entry_def e_off_def e_msg_def
        sample_Message_def zero_Message_def)
  show ?thesis
    using CompactPartition_correct [OF inv clk c q, of 0 5] c
    by (simp add: entries_from_def keyed_entry_def e_off_def)
qed

end
