(* ===== verification/Dead_Letters.thy ===== *)
theory Dead_Letters
  imports Broker_Types "HOL-Library.Multiset"
begin

text \<open>
  The dead-letter queue of \<open>internal/consumer/consumer.go\<close>: a bounded queue of messages that exhausted
  their deliveries, with filtered listing, lookup, removal and replay. The clock is an argument, and
  the callback that republishes a message is a parameter with a state of its own.
\<close>

section \<open>The queue\<close>

record DLQEntry =
  de_Original :: "Message option"
  de_Group :: string
  de_Reason :: string
  de_Attempts :: int
  de_ArrivedAt :: int

record DeadLetterQueue =
  q_entries :: "DLQEntry list"
  q_maxSize :: int

definition NewDLQ :: "int \<Rightarrow> DeadLetterQueue" where
  "NewDLQ maxSize = \<lparr>q_entries = [], q_maxSize = (if maxSize \<le> 0 then 10000 else maxSize)\<rparr>"

definition DLQ_Push :: "int \<Rightarrow> DeadLetterQueue \<Rightarrow> DLQEntry \<Rightarrow> DeadLetterQueue" where
  "DLQ_Push now q e =
     (let es = (if int (length (q_entries q)) \<ge> q_maxSize q then tl (q_entries q) else q_entries q)
      in q\<lparr>q_entries := es @ [e\<lparr>de_ArrivedAt := now\<rparr>]\<rparr>)"

definition DLQ_Drain :: "DeadLetterQueue \<Rightarrow> DeadLetterQueue \<times> DLQEntry list" where
  "DLQ_Drain q = (q\<lparr>q_entries := []\<rparr>, q_entries q)"

definition DLQ_Len :: "DeadLetterQueue \<Rightarrow> nat" where
  "DLQ_Len q = length (q_entries q)"

text \<open>The filters: an empty string matches everything, and a topic or id filter lets a nil message pass.\<close>

definition match_group :: "string \<Rightarrow> DLQEntry \<Rightarrow> bool" where
  "match_group grp e \<longleftrightarrow> \<not> (grp \<noteq> [] \<and> de_Group e \<noteq> grp)"

definition match_topic :: "string \<Rightarrow> DLQEntry \<Rightarrow> bool" where
  "match_topic topic e \<longleftrightarrow>
     \<not> (topic \<noteq> [] \<and> (case de_Original e of None \<Rightarrow> False | Some m \<Rightarrow> m_Topic m \<noteq> topic))"

definition match_id :: "string \<Rightarrow> DLQEntry \<Rightarrow> bool" where
  "match_id i e \<longleftrightarrow> \<not> (i \<noteq> [] \<and> (case de_Original e of None \<Rightarrow> False | Some m \<Rightarrow> m_ID m \<noteq> i))"

text \<open>The loop of \<open>Entries\<close>, over the queue from the newest entry to the oldest.\<close>

fun entries_loop :: "string \<Rightarrow> string \<Rightarrow> nat \<Rightarrow> DLQEntry list \<Rightarrow> DLQEntry list \<Rightarrow> DLQEntry list" where
  "entries_loop grp topic limit [] out = out"
| "entries_loop grp topic limit (e # es) out =
     (if length out < limit
      then if \<not> match_group grp e then entries_loop grp topic limit es out
           else if \<not> match_topic topic e then entries_loop grp topic limit es out
           else entries_loop grp topic limit es (out @ [e])
      else out)"

definition DLQ_Entries :: "DeadLetterQueue \<Rightarrow> string \<Rightarrow> string \<Rightarrow> int \<Rightarrow> DLQEntry list" where
  "DLQ_Entries q grp topic limit =
     entries_loop grp topic (nat (if limit \<le> 0 then 100 else limit)) (rev (q_entries q)) []"

fun replay_loop ::
  "string \<Rightarrow> string \<Rightarrow> nat \<Rightarrow> DLQEntry list \<Rightarrow> DLQEntry list \<times> DLQEntry list \<Rightarrow> DLQEntry list \<times> DLQEntry list" where
  "replay_loop grp topic limit [] acc = acc"
| "replay_loop grp topic limit (e # es) (removed, remaining) =
     (let matched = length removed < limit \<and> match_group grp e \<and> match_topic topic e
      in replay_loop grp topic limit es
           (if matched then (removed @ [e], remaining) else (removed, remaining @ [e])))"

definition DLQ_Replay :: "DeadLetterQueue \<Rightarrow> string \<Rightarrow> string \<Rightarrow> int \<Rightarrow> DeadLetterQueue \<times> DLQEntry list" where
  "DLQ_Replay q grp topic limit =
     (let (removed, remaining) =
        replay_loop grp topic (nat (if limit \<le> 0 then 10 else limit)) (q_entries q) ([], [])
      in (q\<lparr>q_entries := remaining\<rparr>, removed))"

fun purge_loop :: "string \<Rightarrow> string \<Rightarrow> DLQEntry list \<Rightarrow> nat \<times> DLQEntry list \<Rightarrow> nat \<times> DLQEntry list" where
  "purge_loop grp topic [] acc = acc"
| "purge_loop grp topic (e # es) (purged, remaining) =
     purge_loop grp topic es
       (if match_group grp e \<and> match_topic topic e then (purged + 1, remaining) else (purged, remaining @ [e]))"

definition DLQ_Purge :: "DeadLetterQueue \<Rightarrow> string \<Rightarrow> string \<Rightarrow> DeadLetterQueue \<times> nat" where
  "DLQ_Purge q grp topic =
     (let (purged, remaining) = purge_loop grp topic (q_entries q) (0, []) in (q\<lparr>q_entries := remaining\<rparr>, purged))"

definition match_entry :: "string \<Rightarrow> string \<Rightarrow> string \<Rightarrow> DLQEntry \<Rightarrow> bool" where
  "match_entry grp topic i e \<longleftrightarrow> match_id i e \<and> match_group grp e \<and> match_topic topic e"

text \<open>\<open>Get\<close> and \<open>Delete\<close> search from the newest entry to the oldest.\<close>

definition DLQ_Get :: "DeadLetterQueue \<Rightarrow> string \<Rightarrow> string \<Rightarrow> string \<Rightarrow> DLQEntry option" where
  "DLQ_Get q grp topic i = find (match_entry grp topic i) (rev (q_entries q))"

definition DLQ_Delete :: "DeadLetterQueue \<Rightarrow> string \<Rightarrow> string \<Rightarrow> string \<Rightarrow> DeadLetterQueue \<times> bool" where
  "DLQ_Delete q grp topic i =
     (let newer = takeWhile (\<lambda>e. \<not> match_entry grp topic i e) (rev (q_entries q));
          rest = dropWhile (\<lambda>e. \<not> match_entry grp topic i e) (rev (q_entries q))
      in case rest of
           [] \<Rightarrow> (q, False)
         | e # older \<Rightarrow> (q\<lparr>q_entries := rev older @ rev newer\<rparr>, True))"

text \<open>
  The loop of \<open>Manager.DLQReplay\<close>: republish one removed entry after the other and stop at the first
  error. \<open>republish\<close> is the caller's function, with its effect on the state \<open>'s\<close>.
\<close>

fun republish_loop ::
  "('s \<Rightarrow> Message option \<Rightarrow> 's \<times> ('e, unit) result) \<Rightarrow> 's \<Rightarrow> DLQEntry list \<Rightarrow> nat \<Rightarrow>
   's \<times> nat \<times> 'e option" where
  "republish_loop republish s [] replayed = (s, replayed, None)"
| "republish_loop republish s (e # es) replayed =
     (case republish s (de_Original e) of
        (s', Inl err) \<Rightarrow> (s', replayed, Some err)
      | (s', Inr _) \<Rightarrow> republish_loop republish s' es (replayed + 1))"

definition DLQReplay ::
  "('s \<Rightarrow> Message option \<Rightarrow> 's \<times> ('e, unit) result) \<Rightarrow> 's \<Rightarrow> DeadLetterQueue \<Rightarrow> string \<Rightarrow> string \<Rightarrow> int \<Rightarrow>
   DeadLetterQueue \<times> 's \<times> nat \<times> 'e option" where
  "DLQReplay republish s q grp topic limit =
     (let (q', entries) = DLQ_Replay q grp topic limit in (q', republish_loop republish s entries 0))"

section \<open>Bounded size\<close>

definition dlq_inv :: "DeadLetterQueue \<Rightarrow> bool" where
  "dlq_inv q \<longleftrightarrow> 0 < q_maxSize q \<and> int (length (q_entries q)) \<le> q_maxSize q"

fun push_all :: "DeadLetterQueue \<Rightarrow> (int \<times> DLQEntry) list \<Rightarrow> DeadLetterQueue" where
  "push_all q [] = q"
| "push_all q ((now, e) # es) = push_all (DLQ_Push now q e) es"

lemma dlq_inv_new: "dlq_inv (NewDLQ n)"
  by (simp add: dlq_inv_def NewDLQ_def)

lemma dlq_inv_push: "dlq_inv q \<Longrightarrow> dlq_inv (DLQ_Push now q e)"
  by (auto simp: dlq_inv_def DLQ_Push_def Let_def)

lemma DLQ_Push_window:
  assumes "dlq_inv q"
  shows "q_entries (DLQ_Push now q e) =
    drop (length (q_entries q) + 1 - nat (q_maxSize q)) (q_entries q @ [e\<lparr>de_ArrivedAt := now\<rparr>])"
proof (cases "int (length (q_entries q)) = q_maxSize q")
  case True
  then have "nat (q_maxSize q) = length (q_entries q)" "q_entries q \<noteq> []" using assms by (auto simp: dlq_inv_def)
  then show ?thesis using True by (cases "q_entries q") (simp_all add: DLQ_Push_def)
next
  case False
  then have "length (q_entries q) + 1 - nat (q_maxSize q) = 0" using assms by (auto simp: dlq_inv_def)
  moreover have "q_entries (DLQ_Push now q e) = q_entries q @ [e\<lparr>de_ArrivedAt := now\<rparr>]"
    using False assms by (auto simp: DLQ_Push_def dlq_inv_def Let_def)
  ultimately show ?thesis by simp
qed

lemma push_all_window:
  "dlq_inv q \<Longrightarrow> q_entries (push_all q es) =
     drop (length (q_entries q) + length es - nat (q_maxSize q))
       (q_entries q @ map (\<lambda>(now, e). e\<lparr>de_ArrivedAt := now\<rparr>) es)"
proof (induction q es rule: push_all.induct)
  case (1 q)
  then have "length (q_entries q) - nat (q_maxSize q) = 0" by (auto simp: dlq_inv_def)
  then show ?case by simp
next
  case (2 q now e es)
  let ?n = "nat (q_maxSize q)"
  have m: "q_maxSize (DLQ_Push now q e) = q_maxSize q" by (simp add: DLQ_Push_def)
  have n: "0 < ?n" "length (q_entries q) \<le> ?n" using 2(2) by (auto simp: dlq_inv_def)
  note IH = 2(1) [OF dlq_inv_push [OF 2(2)], unfolded m DLQ_Push_window [OF 2(2)]]
  moreover have "Suc (length (q_entries q)) - ?n = (if length (q_entries q) = ?n then 1 else 0)" using n by simp
  ultimately show ?case using n by (simp split: if_splits)
qed

section \<open>Replay\<close>

lemma replay_loop_spec:
  "replay_loop grp topic limit es (removed, remaining) = (removed', remaining') \<Longrightarrow>
   removed' = removed @ take (limit - length removed) (filter (\<lambda>e. match_group grp e \<and> match_topic topic e) es) \<and>
   mset removed' + mset remaining' = mset removed + mset remaining + mset es"
proof (induction es arbitrary: removed remaining)
  case (Cons e es)
  show ?case
  proof (cases "length removed < limit \<and> match_group grp e \<and> match_topic topic e")
    case True
    then obtain k where k: "limit - length removed = Suc k" by (metis Suc_diff_Suc)
    then have "limit - length (removed @ [e]) = k" by simp
    then show ?thesis using Cons.IH [of "removed @ [e]" remaining] Cons.prems True k by force
  next
    case False
    then have c: "replay_loop grp topic limit es (removed, remaining @ [e]) = (removed', remaining')"
      using Cons.prems by (auto simp: Let_def split: if_splits)
    have t: "take (limit - length removed) (filter (\<lambda>e. match_group grp e \<and> match_topic topic e) (e # es)) =
        take (limit - length removed) (filter (\<lambda>e. match_group grp e \<and> match_topic topic e) es)"
      using False by auto
    show ?thesis using Cons.IH [OF c] unfolding t by force
  qed
qed auto

lemma DLQ_Replay_spec:
  assumes "DLQ_Replay q grp topic limit = (q', out)"
  shows "out = take (nat (if limit \<le> 0 then 10 else limit))
      (filter (\<lambda>e. match_group grp e \<and> match_topic topic e) (q_entries q))"
    and "mset out + mset (q_entries q') = mset (q_entries q)" and "q_maxSize q' = q_maxSize q"
  using assms replay_loop_spec [of grp topic "nat (if limit \<le> 0 then 10 else limit)" "q_entries q" "[]" "[]"]
  by (auto simp: DLQ_Replay_def Let_def split: prod.splits if_splits)

lemma republish_loop_count:
  "republish_loop republish s es n = (s', m, None) \<Longrightarrow> m = n + length es"
  "republish_loop republish s es n = (s', m, Some err) \<Longrightarrow> n \<le> m \<and> m < n + length es"
  by (induction es arbitrary: s n)
    (force split: prod.splits sum.splits)+

text \<open>A replay of dead letters accounts for every entry it takes only if all are republished:
  when the republication of one entry fails, that entry and the selected ones after it have already been
  removed from the queue and are reported nowhere. The number of lost entries is the number selected
  minus the number replayed.\<close>

theorem DLQReplay_failure_loses:
  assumes "DLQReplay republish s q grp topic limit = (q', s', replayed, err)"
  shows "(case err of
      None \<Rightarrow> length (q_entries q') + replayed = length (q_entries q)
    | Some _ \<Rightarrow> length (q_entries q') + replayed < length (q_entries q)) \<and>
    (\<exists>taken. mset (q_entries q) = mset (q_entries q') + mset taken \<and>
       list_all (\<lambda>e. match_group grp e \<and> match_topic topic e) taken \<and>
       (s', replayed, err) = republish_loop republish s taken 0)"
proof -
  obtain taken where t: "DLQ_Replay q grp topic limit = (q', taken)" "republish_loop republish s taken 0 = (s', replayed, err)"
    using assms by (auto simp: DLQReplay_def split: prod.splits)
  note sp = DLQ_Replay_spec [OF t(1)]
  have m: "mset (q_entries q) = mset (q_entries q') + mset taken" using sp(2) by (simp add: add.commute)
  then have len: "length (q_entries q) = length (q_entries q') + length taken"
    by (metis mset_append size_mset length_append)
  have "list_all (\<lambda>e. match_group grp e \<and> match_topic topic e) taken"
    using sp(1) by (auto simp: list_all_iff dest: in_set_takeD)
  moreover have "case err of None \<Rightarrow> length (q_entries q') + replayed = length (q_entries q)
    | Some _ \<Rightarrow> length (q_entries q') + replayed < length (q_entries q)"
    using republish_loop_count [of republish s taken 0 s' replayed] t(2) len by (cases err) auto
  ultimately show ?thesis using m t(2) by auto
qed

section \<open>Listing and removal\<close>

lemma entries_loop_spec:
  "entries_loop grp topic limit es out =
     out @ take (limit - length out) (filter (\<lambda>e. match_group grp e \<and> match_topic topic e) es)"
proof (induction es arbitrary: out)
  case (Cons e es)
  show ?case
  proof (cases "length out < limit")
    case True
    then obtain k where k: "limit - length out = Suc k" by (metis Suc_diff_Suc)
    then have "limit - length (out @ [e]) = k" by simp
    then show ?thesis using Cons True k by simp
  qed simp
qed simp

lemma DLQ_Entries_spec:
  "DLQ_Entries q grp topic limit = take (nat (if limit \<le> 0 then 100 else limit))
     (filter (\<lambda>e. match_group grp e \<and> match_topic topic e) (rev (q_entries q)))"
  by (simp add: DLQ_Entries_def entries_loop_spec)

lemma purge_loop_spec:
  "purge_loop grp topic es (n, out) =
     (n + length (filter (\<lambda>e. match_group grp e \<and> match_topic topic e) es),
      out @ filter (\<lambda>e. \<not> (match_group grp e \<and> match_topic topic e)) es)"
  by (induction es arbitrary: n out) auto

lemma DLQ_Purge_spec:
  "DLQ_Purge q grp topic =
     (q\<lparr>q_entries := filter (\<lambda>e. \<not> (match_group grp e \<and> match_topic topic e)) (q_entries q)\<rparr>,
      length (filter (\<lambda>e. match_group grp e \<and> match_topic topic e) (q_entries q)))"
  by (simp add: DLQ_Purge_def purge_loop_spec)

lemma DLQ_Delete_Get:
  assumes "DLQ_Delete q grp topic i = (q', found)"
  shows "found \<longleftrightarrow> DLQ_Get q grp topic i \<noteq> None"
    and "DLQ_Get q grp topic i = Some e \<Longrightarrow> mset (q_entries q) = add_mset e (mset (q_entries q'))"
proof -
  let ?P = "\<lambda>e. \<not> match_entry grp topic i e"
  have r: "q_entries q = rev (dropWhile ?P (rev (q_entries q))) @ rev (takeWhile ?P (rev (q_entries q)))"
    by (metis rev_append rev_rev_ident takeWhile_dropWhile_id)
  have f: "find (match_entry grp topic i) xs = (case dropWhile ?P xs of [] \<Rightarrow> None | x # _ \<Rightarrow> Some x)" for xs
    by (induction xs) simp_all
  show "found \<longleftrightarrow> DLQ_Get q grp topic i \<noteq> None"
    using assms by (cases "dropWhile ?P (rev (q_entries q))") (simp_all add: DLQ_Delete_def DLQ_Get_def f del: dropWhile_eq_Nil_conv find_None_iff)
  assume g: "DLQ_Get q grp topic i = Some e"
  then obtain older where o: "dropWhile ?P (rev (q_entries q)) = e # older"
    by (auto simp: DLQ_Get_def f split: list.splits)
  have "mset (q_entries q') = mset older + mset (takeWhile ?P (rev (q_entries q)))"
    using assms o by (auto simp: DLQ_Delete_def Let_def)
  moreover have "mset (q_entries q) = mset (e # older) + mset (takeWhile ?P (rev (q_entries q)))"
    using arg_cong [OF r, of mset] o by simp
  ultimately show "mset (q_entries q) = add_mset e (mset (q_entries q'))" by simp
qed

section \<open>Witnesses\<close>

definition sample_dead :: "string \<Rightarrow> DLQEntry" where
  "sample_dead i = \<lparr>de_Original = Some (zero_Message\<lparr>m_ID := i, m_Topic := ''t''\<rparr>), de_Group = ''g'',
     de_Reason = [], de_Attempts = 0, de_ArrivedAt = 0\<rparr>"

definition sample_dlq :: DeadLetterQueue where
  "sample_dlq = push_all (NewDLQ 2) [(0, sample_dead ''a''), (0, sample_dead ''b''), (0, sample_dead ''c'')]"

text \<open>Two letters selected, the second republication fails: one letter is lost.\<close>

theorem DLQReplay_failure_loses_witness:
  "\<exists>q' s' err. DLQReplay (\<lambda>n m. (n + 1, if n = 0 then Inr () else Inl ())) (0 :: nat) sample_dlq ''g'' ''t'' 5 =
     (q', s', 1, Some err) \<and> length (q_entries q') + 1 < length (q_entries sample_dlq)"
proof -
  let ?f = "\<lambda>(n :: nat) (m :: Message option). (n + 1, if n = 0 then Inr () else Inl ()) :: nat \<times> (unit, unit) result"
  have e: "q_entries sample_dlq = [sample_dead ''b'', sample_dead ''c'']"
    by (simp add: sample_dlq_def NewDLQ_def DLQ_Push_def sample_dead_def)
  obtain q' s' k err where r: "DLQReplay ?f 0 sample_dlq ''g'' ''t'' 5 = (q', s', k, err)"
    by (cases "DLQReplay ?f 0 sample_dlq ''g'' ''t'' 5") auto
  then have "k = 1" "err = Some ()"
    by (simp_all add: DLQReplay_def DLQ_Replay_def e match_group_def match_topic_def sample_dead_def split: prod.splits)
  then show ?thesis using DLQReplay_failure_loses [OF r] r by auto
qed

end
