(* ===== verification/Consumer_Groups.thy ===== *)
theory Consumer_Groups
  imports Dead_Letters "HOL-Library.List_Lexorder" "HOL-Library.Char_ord"
begin

text \<open>
  Consumers and consumer groups (\<open>Consumer\<close> and \<open>Group\<close> of \<open>internal/consumer/consumer.go\<close>). Consumers
  are objects that outlive their membership, so a group carries the store of all consumers it created, and
  its member map holds their addresses in it. Channels are bounded queues with a closed flag; a send on a
  closed channel panics. What other goroutines do while a dispatcher sleeps between two delivery attempts
  is an explicit list of operations.
\<close>

section \<open>Consumers\<close>

record Consumer =
  c_ID :: string
  c_Group :: string
  c_Topic :: string
  c_ClientID :: string
  c_assignments :: "int list"
  c_msgCh :: "Message list"
  c_cap :: nat
  c_closed :: bool
  c_sink :: bool
  c_pushCh :: "Message list option"

text \<open>\<open>close\<close> cancels the context and closes \<open>msgCh\<close>; \<open>pushCh\<close> is never closed.\<close>

definition close_consumer :: "Consumer \<Rightarrow> Consumer" where
  "close_consumer c = c\<lparr>c_closed := True\<rparr>"

definition SetSink :: "bool \<Rightarrow> Consumer \<Rightarrow> Consumer" where
  "SetSink s c =
     (let c1 = c\<lparr>c_sink := s\<rparr>
      in if s \<and> c_pushCh c1 = None then c1\<lparr>c_pushCh := Some []\<rparr> else c1)"

definition push_cap :: nat where
  "push_cap = 512"

datatype delivery = Delivered | Full | SendOnClosed

definition deliver :: "Message \<Rightarrow> Consumer \<Rightarrow> Consumer \<times> delivery" where
  "deliver msg c =
     (case c_pushCh c of
        Some q \<Rightarrow>
          if length q < push_cap then (c\<lparr>c_pushCh := Some (q @ [msg])\<rparr>, Delivered) else (c, Full)
      | None \<Rightarrow>
          if c_closed c then (c, SendOnClosed)
          else if length (c_msgCh c) < c_cap c then (c\<lparr>c_msgCh := c_msgCh c @ [msg]\<rparr>, Delivered)
          else (c, Full))"

definition assign_partitions :: "int list \<Rightarrow> Consumer \<Rightarrow> Consumer" where
  "assign_partitions ps c = c\<lparr>c_assignments := ps\<rparr>"

section \<open>Groups\<close>

record Group =
  g_id :: string
  g_topic :: string
  g_consumers :: "(string \<times> nat) list"
  g_heap :: "Consumer list"
  g_partCount :: int
  g_maxRetries :: int
  g_LastRebalanceAt :: int

definition NewGroup :: "string \<Rightarrow> string \<Rightarrow> int \<Rightarrow> int \<Rightarrow> Group" where
  "NewGroup grp topic partCount maxRetries =
     \<lparr>g_id = grp, g_topic = topic, g_consumers = [], g_heap = [], g_partCount = partCount,
      g_maxRetries = maxRetries, g_LastRebalanceAt = 0\<rparr>"

definition assign_round_robin :: "string list \<Rightarrow> int \<Rightarrow> string \<Rightarrow> int list" where
  "assign_round_robin ids partCount =
     foldl (\<lambda>m p. let cid = ids ! (nat p mod length ids) in m(cid := m cid @ [p])) (\<lambda>_. []) [0..partCount - 1]"

definition rebalance :: "int \<Rightarrow> Group \<Rightarrow> Group" where
  "rebalance now g =
     (if g_consumers g = [] then g\<lparr>g_LastRebalanceAt := now\<rparr>
      else let ids = sort (map fst (g_consumers g));
               assignments = assign_round_robin ids (g_partCount g)
           in g\<lparr>g_heap := foldl (\<lambda>h (cid, ptr). h[ptr := assign_partitions (assignments cid) (h ! ptr)])
                  (g_heap g) (g_consumers g), g_LastRebalanceAt := now\<rparr>)"

datatype group_error = AlreadyInGroup | NotInGroup

definition Join :: "int \<Rightarrow> Group \<Rightarrow> string \<Rightarrow> string \<Rightarrow> nat \<Rightarrow> Group \<times> (group_error, nat) result" where
  "Join now g consumerID clientID bufferSize =
     (case map_of (g_consumers g) consumerID of
        Some _ \<Rightarrow> (g, Inl AlreadyInGroup)
      | None \<Rightarrow>
          let c = \<lparr>c_ID = consumerID, c_Group = g_id g, c_Topic = g_topic g, c_ClientID = clientID,
                   c_assignments = [], c_msgCh = [], c_cap = bufferSize, c_closed = False, c_sink = False,
                   c_pushCh = None\<rparr>;
              ptr = length (g_heap g)
          in (rebalance now (g\<lparr>g_heap := g_heap g @ [c], g_consumers := g_consumers g @ [(consumerID, ptr)]\<rparr>),
              Inr ptr))"

definition Leave :: "int \<Rightarrow> Group \<Rightarrow> string \<Rightarrow> Group" where
  "Leave now g consumerID =
     (case map_of (g_consumers g) consumerID of
        None \<Rightarrow> g
      | Some ptr \<Rightarrow>
          rebalance now
            (g\<lparr>g_heap := (g_heap g)[ptr := close_consumer (g_heap g ! ptr)],
               g_consumers := filter (\<lambda>(cid, _). cid \<noteq> consumerID) (g_consumers g)\<rparr>))"

text \<open>Delivery to the consumer at an address.\<close>

definition deliver_at :: "nat \<Rightarrow> Message \<Rightarrow> Group \<Rightarrow> Group \<times> delivery" where
  "deliver_at ptr msg g =
     (let (c, r) = deliver msg (g_heap g ! ptr) in (g\<lparr>g_heap := (g_heap g)[ptr := c]\<rparr>, r))"

text \<open>What other goroutines may do to a group.\<close>

datatype group_op =
    JoinOp int string string nat
  | LeaveOp int string
  | SinkOp nat bool
  | ReceiveOp nat
  | DeliverOp nat Message

definition receive :: "Consumer \<Rightarrow> Consumer" where
  "receive c =
     (case c_pushCh c of
        Some q \<Rightarrow> c\<lparr>c_pushCh := Some (tl q)\<rparr>
      | None \<Rightarrow> c\<lparr>c_msgCh := tl (c_msgCh c)\<rparr>)"

definition at_ptr :: "nat \<Rightarrow> (Consumer \<Rightarrow> Consumer) \<Rightarrow> Group \<Rightarrow> Group" where
  "at_ptr ptr f g = g\<lparr>g_heap := (g_heap g)[ptr := f (g_heap g ! ptr)]\<rparr>"

definition group_step :: "Group \<Rightarrow> group_op \<Rightarrow> Group" where
  "group_step g op =
     (case op of
        JoinOp now cid clientID buf \<Rightarrow> fst (Join now g cid clientID buf)
      | LeaveOp now cid \<Rightarrow> Leave now g cid
      | SinkOp ptr s \<Rightarrow> at_ptr ptr (SetSink s) g
      | ReceiveOp ptr \<Rightarrow> at_ptr ptr receive g
      | DeliverOp ptr msg \<Rightarrow> fst (deliver_at ptr msg g))"

definition group_run :: "Group \<Rightarrow> group_op list \<Rightarrow> Group" where
  "group_run g ops = foldl group_step g ops"

text \<open>
  The retry loop: \<open>env k\<close> is what happens during the sleep before attempt \<open>k\<close>; \<open>n\<close> attempts are left.
\<close>

fun retry_loop :: "(nat \<Rightarrow> group_op list) \<Rightarrow> nat \<Rightarrow> nat \<Rightarrow> nat \<Rightarrow> Message \<Rightarrow> Group \<Rightarrow> Group \<times> delivery" where
  "retry_loop env attempt 0 ptr msg g = (g, Full)"
| "retry_loop env attempt (Suc n) ptr msg g =
     (case deliver_at ptr msg (group_run g (env attempt)) of
        (g', Full) \<Rightarrow> retry_loop env (attempt + 1) n ptr msg g'
      | (g', r) \<Rightarrow> (g', r))"

definition handleSlowConsumer ::
  "int \<Rightarrow> (nat \<Rightarrow> group_op list) \<Rightarrow> Group \<Rightarrow> DeadLetterQueue option \<Rightarrow> nat \<Rightarrow> Message \<Rightarrow>
   Group \<times> DeadLetterQueue option \<times> delivery" where
  "handleSlowConsumer now env g dlq ptr msg =
     (case retry_loop env 1 (nat (g_maxRetries g)) ptr msg g of
        (g', Full) \<Rightarrow>
          (g', map_option (\<lambda>q. DLQ_Push now q
              \<lparr>de_Original = Some msg, de_Group = g_id g, de_Reason = ''consumer channel full after retries'',
               de_Attempts = g_maxRetries g, de_ArrivedAt = 0\<rparr>) dlq, Full)
      | (g', r) \<Rightarrow> (g', dlq, r))"

text \<open>The scan of \<open>Dispatch\<close> under the group lock: it stops at the first slow consumer.\<close>

fun dispatch_scan :: "(string \<times> nat) list \<Rightarrow> Message \<Rightarrow> Group \<Rightarrow> Group \<times> nat option \<times> delivery" where
  "dispatch_scan [] msg g = (g, None, Delivered)"
| "dispatch_scan ((cid, ptr) # cs) msg g =
     (if m_Partition msg \<in> set (c_assignments (g_heap g ! ptr))
      then case deliver_at ptr msg g of
             (g', Delivered) \<Rightarrow> dispatch_scan cs msg g'
           | (g', Full) \<Rightarrow> (g', Some ptr, Full)
           | (g', SendOnClosed) \<Rightarrow> (g', Some ptr, SendOnClosed)
      else dispatch_scan cs msg g)"

definition Group_Dispatch ::
  "int \<Rightarrow> (nat \<Rightarrow> group_op list) \<Rightarrow> Group \<Rightarrow> DeadLetterQueue option \<Rightarrow> Message \<Rightarrow>
   Group \<times> DeadLetterQueue option \<times> delivery" where
  "Group_Dispatch now env g dlq msg =
     (case dispatch_scan (g_consumers g) msg g of
        (g', Some ptr, Full) \<Rightarrow> handleSlowConsumer now env g' dlq ptr msg
      | (g', _, r) \<Rightarrow> (g', dlq, r))"

definition ConsumerCount :: "Group \<Rightarrow> nat" where
  "ConsumerCount g = length (g_consumers g)"

definition Assignments :: "Group \<Rightarrow> string \<Rightarrow> int list" where
  "Assignments g cid =
     (case map_of (g_consumers g) cid of None \<Rightarrow> [] | Some ptr \<Rightarrow> c_assignments (g_heap g ! ptr))"

section \<open>Partition assignment\<close>

lemma assign_fold:
  "foldl (\<lambda>m p. let cid = ids ! (nat p mod length ids) in m(cid := m cid @ [p])) m0 ps cid =
     m0 cid @ filter (\<lambda>p. ids ! (nat p mod length ids) = cid) ps"
  by (induction ps arbitrary: m0) (simp_all add: Let_def)

lemma assign_round_robin_filter:
  "assign_round_robin ids n cid = filter (\<lambda>p. ids ! (nat p mod length ids) = cid) [0..n - 1]"
  by (simp add: assign_round_robin_def assign_fold)

text \<open>The partitions dealt to the consumer at position \<open>i\<close> of \<open>k\<close>.\<close>

lemma residue_count:
  "i < k \<Longrightarrow> length (filter (\<lambda>p. p mod k = i) [0..<n]) = (n + k - Suc i) div k"
proof (induction n)
  case 0
  then show ?case by simp
next
  case (Suc n)
  have e: "Suc n + k - Suc i = Suc (n + k - Suc i)" using Suc.prems by simp
  have s: "Suc (n + k - Suc i) = n + (k - i)" using Suc.prems by simp
  have "Suc (n + k - Suc i) mod k = 0 \<longleftrightarrow> n mod k = i"
  proof -
    have "(n + (k - i)) mod k = (n mod k + (k - i)) mod k" by (simp add: mod_add_left_eq)
    moreover have "(n mod k + (k - i)) mod k = 0 \<longleftrightarrow> n mod k = i"
    proof (cases "n mod k < i")
      case True
      then have "0 < n mod k + (k - i)" "n mod k + (k - i) < k" using Suc.prems by auto
      then show ?thesis using True Suc.prems by simp
    next
      case False
      then have "n mod k + (k - i) = (n mod k - i) + k" using Suc.prems by simp
      moreover have "n mod k < k" using Suc.prems by simp
      then have "n mod k - i < k" by simp
      ultimately have "(n mod k + (k - i)) mod k = n mod k - i" by (simp only: mod_add_self2 mod_less)
      then show ?thesis using False by auto
    qed
    ultimately show ?thesis by (simp add: s)
  qed
  then show ?case unfolding e using Suc by (simp add: div_Suc)
qed

lemma upto_int_nat: "[0..n - 1] = map int [0..<nat n]"
proof (induction "nat n" arbitrary: n)
  case (Suc m)
  then have n: "n = int m + 1" by linarith
  have "[0..n - 1] = [0..n - 1 - 1] @ [n - 1]" using Suc n by (simp add: upto_rec2)
  also have "[0..n - 1 - 1] = map int [0..<m]" using Suc(1) [of "n - 1"] n by simp
  finally show ?case using n by (simp add: nat_add_distrib)
qed simp

lemma filter_position:
  assumes "distinct ids" and "i < length ids"
  shows "filter (\<lambda>p. ids ! (nat p mod length ids) = ids ! i) [0..n - 1] =
    map int (filter (\<lambda>p. p mod length ids = i) [0..<nat n])"
proof -
  have "ids ! (p mod length ids) = ids ! i \<longleftrightarrow> p mod length ids = i" for p
  proof -
    have "p mod length ids < length ids" using assms(2) by (intro mod_less_divisor) auto
    then show ?thesis using assms by (simp add: nth_eq_iff_index_eq)
  qed
  then show ?thesis by (simp add: upto_int_nat filter_map comp_def)
qed

lemma assignment_size:
  assumes "distinct ids" and "i < length ids"
  shows "length (assign_round_robin ids n (ids ! i)) = (nat n + length ids - Suc i) div length ids"
  using assms by (simp add: assign_round_robin_filter filter_position residue_count)

lemma assignment_balanced:
  assumes "distinct ids" and "c \<in> set ids" and "d \<in> set ids"
  shows "length (assign_round_robin ids n c) \<le> length (assign_round_robin ids n d) + 1"
proof -
  obtain i j where ij: "i < length ids" "c = ids ! i" "j < length ids" "d = ids ! j"
    using assms(2,3) by (metis in_set_conv_nth)
  have "nat n + length ids - Suc i \<le> (nat n + length ids - Suc j) + length ids" using ij by simp
  then have "(nat n + length ids - Suc i) div length ids \<le> ((nat n + length ids - Suc j) + length ids) div length ids"
    by (rule div_le_mono)
  also have "\<dots> = (nat n + length ids - Suc j) div length ids + 1" using ij(1) by (intro div_add_self2) auto
  finally show ?thesis using assms(1) ij by (simp only: assignment_size)
qed

section \<open>The group invariant\<close>

definition members_ok :: "Group \<Rightarrow> bool" where
  "members_ok g \<longleftrightarrow>
     distinct (map fst (g_consumers g)) \<and> distinct (map snd (g_consumers g)) \<and>
     (\<forall>(cid, ptr) \<in> set (g_consumers g). ptr < length (g_heap g) \<and> c_ID (g_heap g ! ptr) = cid \<and>
        \<not> c_closed (g_heap g ! ptr))"

definition assigned_ok :: "Group \<Rightarrow> bool" where
  "assigned_ok g \<longleftrightarrow>
     (\<forall>(cid, ptr) \<in> set (g_consumers g).
        c_assignments (g_heap g ! ptr) = assign_round_robin (sort (map fst (g_consumers g))) (g_partCount g) cid)"

definition group_inv :: "Group \<Rightarrow> bool" where
  "group_inv g \<longleftrightarrow> members_ok g \<and> assigned_ok g"

text \<open>The part of a consumer that delivery and receipt leave alone.\<close>

definition ident :: "Consumer \<Rightarrow> string \<times> int list \<times> bool" where
  "ident c = (c_ID c, c_assignments c, c_closed c)"

lemma foldl_assign_length:
  "length (foldl (\<lambda>h (cid, ptr). h[ptr := assign_partitions (a cid) (h ! ptr)]) h cs) = length h"
  by (induction cs arbitrary: h) (simp_all split: prod.splits)

lemma foldl_assign_other:
  "k \<notin> snd ` set cs \<Longrightarrow>
   foldl (\<lambda>h (cid, ptr). h[ptr := assign_partitions (a cid) (h ! ptr)]) h cs ! k = h ! k"
  by (induction cs arbitrary: h) (auto split: prod.splits)

lemma foldl_assign_nth:
  "(cid, ptr) \<in> set cs \<Longrightarrow> distinct (map snd cs) \<Longrightarrow> ptr < length h \<Longrightarrow>
   foldl (\<lambda>h (cid, ptr). h[ptr := assign_partitions (a cid) (h ! ptr)]) h cs ! ptr =
     assign_partitions (a cid) (h ! ptr)"
proof (induction cs arbitrary: h)
  case (Cons x cs)
  obtain c p where x: "x = (c, p)" by (cases x)
  show ?case
  proof (cases "(cid, ptr) = (c, p)")
    case True
    then have "ptr \<notin> snd ` set cs" using Cons.prems(2) x by simp
    then show ?thesis using True Cons.prems x by (simp add: foldl_assign_other)
  next
    case False
    then have "(cid, ptr) \<in> set cs" using Cons.prems(1) x by auto
    moreover have "ptr \<noteq> p" using Cons.prems(2) x calculation by force
    ultimately show ?thesis using Cons.IH Cons.prems x by simp
  qed
qed simp

lemma rebalance_fields [simp]:
  "g_consumers (rebalance now g) = g_consumers g" "g_partCount (rebalance now g) = g_partCount g"
  "g_maxRetries (rebalance now g) = g_maxRetries g" "g_id (rebalance now g) = g_id g"
  "g_topic (rebalance now g) = g_topic g" "length (g_heap (rebalance now g)) = length (g_heap g)"
  by (simp_all add: rebalance_def Let_def foldl_assign_length)

lemma rebalance_nth:
  assumes "members_ok g" and "(cid, ptr) \<in> set (g_consumers g)"
  shows "g_heap (rebalance now g) ! ptr =
    assign_partitions (assign_round_robin (sort (map fst (g_consumers g))) (g_partCount g) cid) (g_heap g ! ptr)"
  using assms foldl_assign_nth [OF assms(2)] by (auto simp: rebalance_def Let_def members_ok_def)

lemma rebalance_inv:
  assumes "members_ok g"
  shows "group_inv (rebalance now g)"
  unfolding group_inv_def assigned_ok_def members_ok_def
  using assms by (auto simp: rebalance_nth assign_partitions_def members_ok_def)

lemma group_inv_new: "group_inv (NewGroup grp topic n r)"
  by (simp add: group_inv_def members_ok_def assigned_ok_def NewGroup_def)

lemma group_inv_Join: "group_inv g \<Longrightarrow> group_inv (fst (Join now g cid cl buf))"
  by (auto simp: Join_def Let_def group_inv_def [of g] members_ok_def nth_append map_of_eq_None_iff
      dest: map_of_SomeD intro!: rebalance_inv split: option.splits)
     force+

lemma group_inv_Leave:
  assumes "group_inv g"
  shows "group_inv (Leave now g cid)"
proof (cases "map_of (g_consumers g) cid")
  case None
  then show ?thesis using assms by (simp add: Leave_def)
next
  case (Some ptr)
  let ?g = "g\<lparr>g_heap := (g_heap g)[ptr := close_consumer (g_heap g ! ptr)],
    g_consumers := filter (\<lambda>(c, _). c \<noteq> cid) (g_consumers g)\<rparr>"
  have m: "members_ok g" using assms by (simp add: group_inv_def)
  have d: "distinct (map snd (g_consumers g))" "(cid, ptr) \<in> set (g_consumers g)"
    using m Some by (auto simp: members_ok_def dest: map_of_SomeD)
  have ne: "(g_heap g)[ptr := c'] ! p = g_heap g ! p" if "(c, p) \<in> set (g_consumers g)" "c \<noteq> cid" for c c' p
  proof -
    have "p \<noteq> ptr" using that d by (metis distinct_map inj_on_def snd_conv prod.inject)
    then show ?thesis by simp
  qed
  have "members_ok ?g"
    using m by (auto simp: members_ok_def distinct_map_filter ne)
  then show ?thesis using Some by (simp add: Leave_def rebalance_inv)
qed

lemma group_inv_at_ptr:
  assumes "group_inv g" and "\<And>c. ident (f c) = ident c"
  shows "group_inv (at_ptr ptr f g)"
proof -
  have "ident ((g_heap g)[ptr := f (g_heap g ! ptr)] ! k) = ident (g_heap g ! k)" for k
    using assms(2) by (cases "k = ptr"; cases "ptr < length (g_heap g)") (simp_all add: list_update_beyond)
  then have "c_ID ((g_heap g)[ptr := f (g_heap g ! ptr)] ! k) = c_ID (g_heap g ! k)"
    "c_assignments ((g_heap g)[ptr := f (g_heap g ! ptr)] ! k) = c_assignments (g_heap g ! k)"
    "c_closed ((g_heap g)[ptr := f (g_heap g ! ptr)] ! k) = c_closed (g_heap g ! k)" for k
    by (simp_all add: ident_def)
  then show ?thesis using assms(1) by (simp add: group_inv_def members_ok_def assigned_ok_def at_ptr_def)
qed

lemma deliver_at_at_ptr: "fst (deliver_at ptr msg g) = at_ptr ptr (\<lambda>c. fst (deliver msg c)) g"
  by (simp add: deliver_at_def at_ptr_def split: prod.splits)

lemma ident_deliver [simp]: "ident (fst (deliver msg c)) = ident c"
  by (simp add: deliver_def ident_def split: option.splits)

lemma ident_receive [simp]: "ident (receive c) = ident c"
  by (simp add: receive_def ident_def split: option.splits)

lemma ident_SetSink [simp]: "ident (SetSink s c) = ident c"
  by (simp add: SetSink_def ident_def Let_def)

lemma group_inv_step: "group_inv g \<Longrightarrow> group_inv (group_step g op)"
  by (cases op) (simp_all add: group_step_def group_inv_Join group_inv_Leave group_inv_at_ptr deliver_at_at_ptr)

lemma group_inv_run: "group_inv g \<Longrightarrow> group_inv (group_run g ops)"
  unfolding group_run_def by (induction ops arbitrary: g) (simp_all add: group_inv_step)

lemma at_ptr_fields [simp]:
  "g_consumers (at_ptr ptr f g) = g_consumers g" "g_partCount (at_ptr ptr f g) = g_partCount g"
  "g_maxRetries (at_ptr ptr f g) = g_maxRetries g" "g_id (at_ptr ptr f g) = g_id g"
  "length (g_heap (at_ptr ptr f g)) = length (g_heap g)"
  by (simp_all add: at_ptr_def)

lemma group_step_partCount [simp]: "g_partCount (group_step g op) = g_partCount g"
  by (cases op) (simp_all add: group_step_def deliver_at_at_ptr Join_def Leave_def Let_def split: option.splits)

lemma group_run_partCount [simp]: "g_partCount (group_run g ops) = g_partCount g"
  unfolding group_run_def by (induction ops arbitrary: g) simp_all

lemma Assignments_inv:
  assumes "group_inv g" and "cid \<in> set (map fst (g_consumers g))"
  shows "Assignments g cid = assign_round_robin (sort (map fst (g_consumers g))) (g_partCount g) cid"
proof -
  obtain ptr where p: "map_of (g_consumers g) cid = Some ptr" "(cid, ptr) \<in> set (g_consumers g)"
    using assms by (metis map_of_SomeD map_of_eq_None_iff not_None_eq set_map)
  then show ?thesis using assms(1) by (auto simp: Assignments_def group_inv_def assigned_ok_def)
qed

lemma unique_owner:
  assumes "group_inv g" and "g_consumers g \<noteq> []" and "0 \<le> p" and "p < g_partCount g"
  shows "\<exists>!cid. cid \<in> set (map fst (g_consumers g)) \<and> p \<in> set (Assignments g cid)"
proof -
  let ?ids = "sort (map fst (g_consumers g))"
  let ?o = "?ids ! (nat p mod length ?ids)"
  have "0 < length ?ids" using assms(2) by simp
  then have "?o \<in> set ?ids" by (rule nth_mem [OF mod_less_divisor])
  then have o: "?o \<in> set (map fst (g_consumers g))" by (simp only: set_sort)
  have own: "p \<in> set (Assignments g cid) \<longleftrightarrow> cid = ?o" if "cid \<in> set (map fst (g_consumers g))" for cid
    using Assignments_inv [OF assms(1) that] assms(3,4) by (auto simp: assign_round_robin_filter)
  show ?thesis using own o by (intro ex1I [of _ ?o]) blast+
qed

text \<open>C11. Rebalancing is exact and balanced: after any joins, leaves, deliveries and receipts, every
  partition of the topic is assigned to exactly one member, members own only partitions of the topic,
  each once, and the numbers of partitions of two members differ by at most one.\<close>

theorem rebalance_exact_balanced:
  assumes "g = group_run (NewGroup grp topic n r) ops"
  shows "(g_consumers g = [] \<or> (\<forall>p. 0 \<le> p \<and> p < n \<longleftrightarrow>
      (\<exists>!cid. cid \<in> set (map fst (g_consumers g)) \<and> p \<in> set (Assignments g cid)))) \<and>
    (\<forall>c d. c \<in> set (map fst (g_consumers g)) \<and> d \<in> set (map fst (g_consumers g)) \<longrightarrow>
      distinct (Assignments g c) \<and> length (Assignments g c) \<le> length (Assignments g d) + 1)"
proof -
  have i: "group_inv g" by (simp add: assms group_inv_run group_inv_new)
  have n: "g_partCount g = n" by (simp add: assms NewGroup_def)
  have d: "distinct (sort (map fst (g_consumers g)))" using i by (simp add: group_inv_def members_ok_def)
  have own: "0 \<le> p \<and> p < n" if "c \<in> set (map fst (g_consumers g))" "p \<in> set (Assignments g c)" for c p
    using that Assignments_inv [OF i that(1)] by (auto simp: assign_round_robin_filter n)
  have "distinct (Assignments g c)" if "c \<in> set (map fst (g_consumers g))" for c
    using Assignments_inv [OF i that] by (simp add: assign_round_robin_filter)
  moreover have "length (Assignments g c) \<le> length (Assignments g e) + 1"
    if "c \<in> set (map fst (g_consumers g))" "e \<in> set (map fst (g_consumers g))" for c e
    using assignment_balanced [OF d, of c e] that Assignments_inv [OF i] by simp
  moreover have "0 \<le> p \<and> p < n \<longleftrightarrow>
      (\<exists>!cid. cid \<in> set (map fst (g_consumers g)) \<and> p \<in> set (Assignments g cid))"
    if "g_consumers g \<noteq> []" for p
    using unique_owner [OF i that, of p] own [of _ p] n by blast
  ultimately show ?thesis by blast
qed

section \<open>Dispatch\<close>

definition inbox :: "Consumer \<Rightarrow> Message list" where
  "inbox c = (case c_pushCh c of Some q \<Rightarrow> q | None \<Rightarrow> c_msgCh c)"

text \<open>Operations of other goroutines that do not remove the member \<open>cid\<close>.\<close>

definition stays :: "string \<Rightarrow> group_op \<Rightarrow> bool" where
  "stays cid op = (case op of LeaveOp _ c \<Rightarrow> c \<noteq> cid | _ \<Rightarrow> True)"

lemma deliver_at_inbox:
  "deliver_at ptr msg g = (g', Delivered) \<Longrightarrow> ptr < length (g_heap g) \<Longrightarrow>
   inbox (g_heap g' ! ptr) = inbox (g_heap g ! ptr) @ [msg]"
  by (auto simp: deliver_at_def deliver_def inbox_def Let_def split: option.splits if_splits prod.splits)

lemma deliver_at_open:
  "deliver_at ptr msg g = (g', r) \<Longrightarrow> \<not> c_closed (g_heap g ! ptr) \<Longrightarrow> r \<noteq> SendOnClosed"
  by (auto simp: deliver_at_def deliver_def split: option.splits if_splits prod.splits)

lemma deliver_at_inv:
  assumes "deliver_at ptr msg g = (g', r)"
  shows "group_inv g \<Longrightarrow> group_inv g'" "g_consumers g' = g_consumers g" "g_id g' = g_id g"
    "g_maxRetries g' = g_maxRetries g" "c_assignments (g_heap g' ! k) = c_assignments (g_heap g ! k)"
proof -
  have g': "g' = at_ptr ptr (\<lambda>c. fst (deliver msg c)) g" using assms deliver_at_at_ptr [of ptr msg g] by simp
  show "group_inv g \<Longrightarrow> group_inv g'" unfolding g' by (rule group_inv_at_ptr) simp_all
  show "g_consumers g' = g_consumers g" "g_id g' = g_id g" "g_maxRetries g' = g_maxRetries g" by (simp_all add: g')
  have "c_assignments (fst (deliver msg c)) = c_assignments c" for c
    using ident_deliver [of msg c] by (simp add: ident_def)
  then show "c_assignments (g_heap g' ! k) = c_assignments (g_heap g ! k)"
    by (cases "k = ptr"; cases "ptr < length (g_heap g)") (simp_all add: g' at_ptr_def list_update_beyond)
qed

lemma deliver_at_full: "deliver_at ptr msg g = (g', Full) \<Longrightarrow> g' = g"
  by (auto simp: deliver_at_def deliver_def split: option.splits if_splits prod.splits)

lemma member_open:
  "group_inv g \<Longrightarrow> (cid, ptr) \<in> set (g_consumers g) \<Longrightarrow>
   \<not> c_closed (g_heap g ! ptr) \<and> ptr < length (g_heap g)"
  by (auto simp: group_inv_def members_ok_def)

lemma member_step:
  "(cid, ptr) \<in> set (g_consumers g) \<Longrightarrow> stays cid op \<Longrightarrow> (cid, ptr) \<in> set (g_consumers (group_step g op))"
  by (cases op)
    (auto simp: group_step_def stays_def deliver_at_at_ptr Join_def Leave_def Let_def split: option.splits)

lemma member_run:
  "(cid, ptr) \<in> set (g_consumers g) \<Longrightarrow> list_all (stays cid) ops \<Longrightarrow>
   (cid, ptr) \<in> set (g_consumers (group_run g ops))"
  unfolding group_run_def by (induction ops arbitrary: g) (simp_all add: member_step)

lemma retry_loop_member:
  assumes "group_inv g" and "(cid, ptr) \<in> set (g_consumers g)" and "\<forall>k. list_all (stays cid) (env k)"
    and "retry_loop env a n ptr msg g = (g', r)"
  shows "r = Delivered \<and> (\<exists>rest. inbox (g_heap g' ! ptr) = rest @ [msg]) \<or> r = Full"
  using assms
proof (induction env a n ptr msg g arbitrary: cid rule: retry_loop.induct)
  case (2 env a n ptr msg g)
  let ?g = "group_run g (env a)"
  have i: "group_inv ?g" using 2(2) by (rule group_inv_run)
  have m: "(cid, ptr) \<in> set (g_consumers ?g)" using 2(3,4) by (simp add: member_run)
  obtain g1 r1 where d: "deliver_at ptr msg ?g = (g1, r1)" by (cases "deliver_at ptr msg ?g")
  have "r1 \<noteq> SendOnClosed" using deliver_at_open [OF d] member_open [OF i m] by simp
  then consider (sent) "r1 = Delivered" | (full) "r1 = Full" by (cases r1) auto
  then show ?case
  proof cases
    case sent
    then show ?thesis using 2(5) d deliver_at_inbox [of ptr msg ?g g1] member_open [OF i m] by auto
  next
    case full
    show ?thesis
      using 2(1) [OF d [symmetric] full, of cid] deliver_at_inv(1,2) [OF d] i m 2(4,5) d full by simp
  qed
qed simp

lemma scan_none:
  "\<forall>(cid, ptr) \<in> set cs. m_Partition msg \<notin> set (c_assignments (g_heap g ! ptr)) \<Longrightarrow>
   dispatch_scan cs msg g = (g, None, Delivered)"
  by (induction cs) auto

lemma scan_owner:
  assumes "cs = pre @ (cid, ptr) # post" and "m_Partition msg \<in> set (c_assignments (g_heap g ! ptr))"
    and "\<forall>(c, p) \<in> set pre \<union> set post. m_Partition msg \<notin> set (c_assignments (g_heap g ! p))"
    and "deliver_at ptr msg g = (g', r)"
  shows "dispatch_scan cs msg g = (g', if r = Delivered then None else Some ptr, r)"
  using assms(1,3)
proof (induction pre arbitrary: cs)
  case Nil
  have "dispatch_scan post msg g' = (g', None, Delivered)"
    using Nil deliver_at_inv(5) [OF assms(4)] by (intro scan_none) auto
  then show ?case using Nil assms(2,4) by (cases r) auto
qed auto

lemma dispatch_scan_owner:
  assumes "group_inv g" and "(cid, ptr) \<in> set (g_consumers g)"
    and "m_Partition msg \<in> set (c_assignments (g_heap g ! ptr))" and "deliver_at ptr msg g = (g', r)"
  shows "dispatch_scan (g_consumers g) msg g = (g', if r = Delivered then None else Some ptr, r)"
proof -
  let ?ids = "sort (map fst (g_consumers g))"
  have a: "c = ?ids ! (nat (m_Partition msg) mod length ?ids)"
    if "(c, p) \<in> set (g_consumers g)" "m_Partition msg \<in> set (c_assignments (g_heap g ! p))" for c p
  proof -
    have "c_assignments (g_heap g ! p) = assign_round_robin ?ids (g_partCount g) c"
      using assms(1) that(1) by (auto simp: group_inv_def assigned_ok_def)
    then show ?thesis using that(2) by (simp add: assign_round_robin_filter)
  qed
  obtain pre post where s: "g_consumers g = pre @ (cid, ptr) # post" using assms(2) by (meson split_list)
  have d: "distinct (map fst (g_consumers g))" using assms(1) by (simp add: group_inv_def members_ok_def)
  have "m_Partition msg \<notin> set (c_assignments (g_heap g ! p))" if "(c, p) \<in> set pre \<union> set post" for c p
  proof
    assume m: "m_Partition msg \<in> set (c_assignments (g_heap g ! p))"
    have "(c, p) \<in> set (g_consumers g)" using that s by auto
    then have "c = cid" using a [OF _ m] a [OF assms(2,3)] by simp
    then have "cid \<in> fst ` (set pre \<union> set post)" using that by force
    then show False using d s by auto
  qed
  then show ?thesis by (intro scan_owner [OF s assms(3) _ assms(4)]) blast
qed

lemma Assignments_member:
  assumes "group_inv g" and "(cid, ptr) \<in> set (g_consumers g)"
  shows "Assignments g cid = c_assignments (g_heap g ! ptr)"
  using assms by (auto simp: Assignments_def group_inv_def members_ok_def)

lemma group_run_fields:
  "g_id (group_run g ops) = g_id g \<and> g_maxRetries (group_run g ops) = g_maxRetries g"
proof -
  have "g_id (group_step g op) = g_id g \<and> g_maxRetries (group_step g op) = g_maxRetries g" for g op
    by (cases op) (simp_all add: group_step_def deliver_at_at_ptr Join_def Leave_def Let_def split: option.splits)
  then show ?thesis unfolding group_run_def by (induction ops arbitrary: g) simp_all
qed

text \<open>C19. No message of a subscribed partition disappears: while the owner of the partition stays in the
  group, and whatever else happens to the group between the delivery attempts, a dispatched message ends
  either as the newest message in the owner's channel or, after all retries, in the dead-letter queue,
  and the broker does not panic.\<close>

theorem dispatch_delivers_or_dead_letters:
  assumes "g = group_run (NewGroup grp topic n r) ops"
    and "(cid, ptr) \<in> set (g_consumers g)" and "m_Partition msg \<in> set (Assignments g cid)"
    and "\<forall>k. list_all (stays cid) (env k)"
    and "Group_Dispatch now env g (Some q) msg = (g', dlq', res)"
  shows "res = Delivered \<and> dlq' = Some q \<and> (\<exists>rest. inbox (g_heap g' ! ptr) = rest @ [msg]) \<or>
    res = Full \<and> (\<exists>e. dlq' = Some (DLQ_Push now q e) \<and>
      de_Original e = Some msg \<and> de_Group e = grp \<and> de_Attempts e = r)"
proof -
  have i: "group_inv g" by (simp add: assms(1) group_inv_run group_inv_new)
  have f: "g_id g = grp" "g_maxRetries g = r" using group_run_fields assms(1) by (simp_all add: NewGroup_def)
  have p: "m_Partition msg \<in> set (c_assignments (g_heap g ! ptr))"
    using assms(3) Assignments_member [OF i assms(2)] by simp
  obtain g1 r1 where d: "deliver_at ptr msg g = (g1, r1)" by (cases "deliver_at ptr msg g")
  note s = dispatch_scan_owner [OF i assms(2) p d]
  have "r1 \<noteq> SendOnClosed" using deliver_at_open [OF d] member_open [OF i assms(2)] by simp
  then consider "r1 = Delivered" | "r1 = Full" by (cases r1) auto
  then show ?thesis
  proof cases
    case 1
    then show ?thesis
      using assms(5) s d deliver_at_inbox [of ptr msg g g1] member_open [OF i assms(2)]
      by (auto simp: Group_Dispatch_def)
  next
    case 2
    obtain g2 r2 where t: "retry_loop env 1 (nat r) ptr msg g1 = (g2, r2)"
      by (cases "retry_loop env 1 (nat r) ptr msg g1")
    have g1: "g1 = g" using d 2 deliver_at_full by simp
    have "r2 = Delivered \<and> (\<exists>rest. inbox (g_heap g2 ! ptr) = rest @ [msg]) \<or> r2 = Full"
      by (rule retry_loop_member [OF i assms(2,4) t [unfolded g1]])
    then show ?thesis
      using assms(5) s 2 t f g1 by (auto simp: Group_Dispatch_def handleSlowConsumer_def)
  qed
qed

text \<open>
  A member leaving while a dispatcher sleeps: its \<open>msgCh\<close> is closed, and the next delivery attempt sends on it.
\<close>

lemma Leave_closed:
  assumes "group_inv g" and "(cid, ptr) \<in> set (g_consumers g)"
  shows "g_heap (Leave now g cid) ! ptr = close_consumer (g_heap g ! ptr)"
    and "ptr \<notin> snd ` set (g_consumers (Leave now g cid))"
proof -
  have m: "map_of (g_consumers g) cid = Some ptr" "ptr < length (g_heap g)"
    "distinct (map snd (g_consumers g))"
    using assms by (auto simp: group_inv_def members_ok_def)
  show n: "ptr \<notin> snd ` set (g_consumers (Leave now g cid))"
    using m assms(2) by (fastforce simp: Leave_def distinct_map inj_on_def)
  then show "g_heap (Leave now g cid) ! ptr = close_consumer (g_heap g ! ptr)"
    using m by (auto simp: Leave_def rebalance_def Let_def foldl_assign_other)
qed

text \<open>C40. A member that leaves during a retry crashes the broker: if the channel of the owner is full at
  the first attempt and the owner, in pull mode, leaves during the first retry sleep, the retry sends on
  the closed channel, which panics, and the message is not dead-lettered.\<close>

theorem leave_during_retry_panics:
  assumes "g = group_run (NewGroup grp topic n r) ops"
    and "(cid, ptr) \<in> set (g_consumers g)" and "m_Partition msg \<in> set (Assignments g cid)"
    and "c_pushCh (g_heap g ! ptr) = None" and "length (c_msgCh (g_heap g ! ptr)) \<ge> c_cap (g_heap g ! ptr)"
    and "0 < r" and "env 1 = [LeaveOp t cid]"
  shows "\<exists>g'. Group_Dispatch now env g (Some q) msg = (g', Some q, SendOnClosed)"
proof -
  have i: "group_inv g" by (simp add: assms(1) group_inv_run group_inv_new)
  have f: "g_maxRetries g = r" using group_run_fields assms(1) by (simp add: NewGroup_def)
  have p: "m_Partition msg \<in> set (c_assignments (g_heap g ! ptr))"
    using assms(3) Assignments_member [OF i assms(2)] by simp
  have "deliver_at ptr msg g = (g, Full)"
    using assms(4,5) member_open [OF i assms(2)] by (simp add: deliver_at_def deliver_def)
  note s = dispatch_scan_owner [OF i assms(2) p this]
  obtain k where k: "nat r = Suc k" using assms(6) by (cases "nat r") simp_all
  have "snd (deliver_at ptr msg (group_run g (env 1))) = SendOnClosed"
    using assms(4,7) Leave_closed(1) [OF i assms(2), of t]
    by (simp add: group_run_def group_step_def deliver_at_def deliver_def close_consumer_def split: prod.splits)
  then obtain g' where "retry_loop env 1 (nat r) ptr msg g = (g', SendOnClosed)"
    unfolding k by (cases "deliver_at ptr msg (group_run g (env 1))") auto
  then show ?thesis using s f by (simp add: Group_Dispatch_def handleSlowConsumer_def)
qed

section \<open>Witnesses\<close>

definition sample_group :: Group where
  "sample_group = group_run (NewGroup ''g'' ''t'' 3 2)
     [JoinOp 0 ''b'' ''x'' 1, JoinOp 0 ''a'' ''y'' 1, DeliverOp 0 zero_Message]"

lemma sample_group_eval:
  "g_consumers sample_group = [(''b'', 0), (''a'', 1)]"
  "Assignments sample_group ''a'' = [0, 2]" "Assignments sample_group ''b'' = [1]"
  "c_pushCh (g_heap sample_group ! 0) = None" "c_msgCh (g_heap sample_group ! 0) = [zero_Message]"
  "c_cap (g_heap sample_group ! 0) = 1"
  by (simp_all add: sample_group_def group_run_def group_step_def Join_def NewGroup_def rebalance_def Let_def
      assign_round_robin_def assign_partitions_def upto_rec1 deliver_at_def deliver_def numeral_2_eq_2 [symmetric] Assignments_def)

theorem rebalance_exact_balanced_witness:
  "(\<exists>!cid. cid \<in> {''b'', ''a''} \<and> 2 \<in> set (Assignments sample_group cid)) \<and>
   length (Assignments sample_group ''a'') \<le> length (Assignments sample_group ''b'') + 1"
proof -
  have m: "set (map fst (g_consumers sample_group)) = {''b'', ''a''}" "g_consumers sample_group \<noteq> []"
    by (simp_all add: sample_group_eval(1))
  note r = rebalance_exact_balanced [OF sample_group_def, unfolded m(1)]
  have "\<exists>!cid. cid \<in> {''b'', ''a''} \<and> 2 \<in> set (Assignments sample_group cid)"
  proof -
    have "\<forall>p. 0 \<le> p \<and> p < 3 \<longleftrightarrow> (\<exists>!cid. cid \<in> {''b'', ''a''} \<and> p \<in> set (Assignments sample_group cid))"
      using conjunct1 [OF r] m(2) by (simp only: simp_thms)
    note two = this [THEN spec, of 2, THEN iffD1]
    show ?thesis by (rule two) simp
  qed
  moreover have "length (Assignments sample_group ''a'') \<le> length (Assignments sample_group ''b'') + 1"
    using conjunct2 [OF r] by blast
  ultimately show ?thesis ..
qed

theorem dispatch_delivers_or_dead_letters_witness:
  "\<exists>g' e. Group_Dispatch 7 (\<lambda>_. []) sample_group (Some (NewDLQ 5)) (zero_Message\<lparr>m_Partition := 1\<rparr>) =
     (g', Some (DLQ_Push 7 (NewDLQ 5) e), Full) \<and> de_Original e = Some (zero_Message\<lparr>m_Partition := 1\<rparr>) \<and>
     de_Attempts e = 2"
proof -
  let ?m = "zero_Message\<lparr>m_Partition := 1\<rparr>"
  obtain g' dlq' res where d: "Group_Dispatch 7 (\<lambda>_. []) sample_group (Some (NewDLQ 5)) ?m = (g', dlq', res)"
    by (cases "Group_Dispatch 7 (\<lambda>_. []) sample_group (Some (NewDLQ 5)) ?m") auto
  have h: "c_assignments (g_heap sample_group ! 0) = [1]" "c_assignments (g_heap sample_group ! 1) = [0, 2]"
    "\<not> c_closed (g_heap sample_group ! 0)" "g_maxRetries sample_group = 2"
    by (simp_all add: sample_group_def group_run_def group_step_def Join_def NewGroup_def rebalance_def Let_def
      assign_round_robin_def assign_partitions_def upto_rec1 deliver_at_def deliver_def numeral_2_eq_2 [symmetric])
  have "res = Full"
    using d sample_group_eval h
    by (simp add: Group_Dispatch_def handleSlowConsumer_def deliver_at_def deliver_def group_run_def eval_nat_numeral)
  then show ?thesis
    using dispatch_delivers_or_dead_letters [OF sample_group_def, of "''b''" 0 ?m "\<lambda>_. []" 7 "NewDLQ 5" g' dlq' res]
      d sample_group_eval by auto
qed

theorem leave_during_retry_panics_witness:
  "\<exists>g'. Group_Dispatch 7 (\<lambda>_. [LeaveOp 0 ''b'']) sample_group (Some (NewDLQ 5)) (zero_Message\<lparr>m_Partition := 1\<rparr>) =
     (g', Some (NewDLQ 5), SendOnClosed)"
  using leave_during_retry_panics [OF sample_group_def, of "''b''" 0 "zero_Message\<lparr>m_Partition := 1\<rparr>"
      "\<lambda>_. [LeaveOp 0 ''b'']" 0] sample_group_eval
  by simp

end
