(* ===== verification/Wal.thy ===== *)
theory Wal
  imports Record_Codec
begin

text \<open>
  The write-ahead logs of \<^verbatim>\<open>src/internal/wal\<close>: the generic log (\<^verbatim>\<open>wal.go\<close>), the log of committed
  consumer offsets (\<^verbatim>\<open>wal_offset.go\<close>) and the log of topic operations (\<^verbatim>\<open>wal_topic.go\<close>). A log is
  the content of its file and the next offset; a disk failure during a write is an argument that
  says how much of the entry reached the file. The theory shows that recovery returns exactly the
  acknowledged entries after a crash in the middle of a write, what happens when the process
  goes on after a failed write, and that replaying the two typed logs gives the state that the
  logged operations produce, before and after a checkpoint.
\<close>

section \<open>The generic log\<close>

record Entry =
  en_Offset :: int
  en_Data :: bytes

record WAL =
  w_file :: bytes
  w_nextOffset :: int

definition headerSize :: nat where
  "headerSize = 16"

definition crc32sum :: "bytes \<Rightarrow> 32 word" where
  "crc32sum b = ChecksumIEEE b"

definition entry_header :: "int \<Rightarrow> bytes \<Rightarrow> bytes" where
  "entry_header offset data =
     put_int64 offset @ le_bytes 4 (length data) @ le_bytes 4 (unat (crc32sum data))"

text \<open>
  \<open>Short n\<close>: a write fails after \<open>n\<close> bytes of header and data are in the file. \<open>NoSync\<close>: all of
  them are, and the sync fails.
\<close>

datatype wal_fault = WalOk | Short nat | NoSync

datatype wal_error = WalWrite | WalSync

definition writeEntry :: "wal_fault \<Rightarrow> bytes \<Rightarrow> int \<Rightarrow> bytes \<Rightarrow> bytes \<times> (wal_error, unit) result" where
  "writeEntry flt file offset data =
     (let hdr = entry_header offset data
      in case flt of
           WalOk \<Rightarrow> (file @ hdr @ data, Inr ())
         | Short n \<Rightarrow> (file @ take n (hdr @ data), Inl WalWrite)
         | NoSync \<Rightarrow> (file @ hdr @ data, Inl WalSync))"

definition WAL_Append :: "wal_fault \<Rightarrow> WAL \<Rightarrow> bytes \<Rightarrow> WAL \<times> (wal_error, int) result" where
  "WAL_Append flt w data =
     (let offset = w_nextOffset w
      in case writeEntry flt (w_file w) offset data of
           (f, Inl e) \<Rightarrow> (w\<lparr>w_file := f\<rparr>, Inl e)
         | (f, Inr _) \<Rightarrow> (w\<lparr>w_file := f, w_nextOffset := offset + 1\<rparr>, Inr offset))"

text \<open>
  The loop of \<open>recover\<close> over the unread bytes: the valid entries and the length of the file up to
  the last validated boundary.
\<close>

function recover_loop :: "bytes \<Rightarrow> Entry list \<times> nat" where
  "recover_loop r =
     (case readFull headerSize r of
        Inl _ \<Rightarrow> ([], 0)
      | Inr (hdr, r1) \<Rightarrow>
          (let offset = get_int64 (window 0 8 hdr);
               len = le_nat (window 8 12 hdr);
               checksum = word_of_nat (le_nat (window 12 16 hdr))
           in case readFull len r1 of
                Inl _ \<Rightarrow> ([], 0)
              | Inr (data, r2) \<Rightarrow>
                  if crc32sum data \<noteq> checksum then ([], 0)
                  else (let (entries, n) = recover_loop r2
                        in (\<lparr>en_Offset = offset, en_Data = data\<rparr> # entries, headerSize + len + n))))"
  by pat_completeness auto
termination
  by (relation "measure length") (auto dest!: readFull_Inr simp: headerSize_def)

declare recover_loop.simps [simp del]

definition maxOffset :: "Entry list \<Rightarrow> int" where
  "maxOffset entries = foldl (\<lambda>m e. if en_Offset e > m then en_Offset e else m) (- 1) entries"

definition WAL_Open :: "bytes \<Rightarrow> WAL \<times> Entry list" where
  "WAL_Open file =
     (let (entries, truncateTo) = recover_loop file; m = maxOffset entries
      in (\<lparr>w_file = take truncateTo file, w_nextOffset = (if m \<ge> 0 then m + 1 else 0)\<rparr>, entries))"

fun rewrite_entries :: "(nat \<Rightarrow> wal_fault) \<Rightarrow> bytes list \<Rightarrow> WAL \<Rightarrow> WAL \<times> (wal_error, unit) result" where
  "rewrite_entries flt [] w = (w, Inr ())"
| "rewrite_entries flt (data # rest) w =
     (case writeEntry (flt (nat (w_nextOffset w))) (w_file w) (w_nextOffset w) data of
        (f, Inl e) \<Rightarrow> (w\<lparr>w_file := f\<rparr>, Inl e)
      | (f, Inr _) \<Rightarrow>
          rewrite_entries flt rest (w\<lparr>w_file := f, w_nextOffset := w_nextOffset w + 1\<rparr>))"

definition WAL_Truncate :: "(nat \<Rightarrow> wal_fault) \<Rightarrow> WAL \<Rightarrow> bytes list \<Rightarrow> WAL \<times> (wal_error, unit) result" where
  "WAL_Truncate flt w newEntries = rewrite_entries flt newEntries (w\<lparr>w_file := [], w_nextOffset := 0\<rparr>)"

section \<open>Recovery\<close>

definition wal_entry :: "int \<Rightarrow> bytes \<Rightarrow> bytes" where
  "wal_entry off data = entry_header off data @ data"

fun wal_bytes :: "int \<Rightarrow> bytes list \<Rightarrow> bytes" where
  "wal_bytes k [] = []"
| "wal_bytes k (d # ds) = wal_entry k d @ wal_bytes (k + 1) ds"

fun entries_at :: "int \<Rightarrow> bytes list \<Rightarrow> Entry list" where
  "entries_at k [] = []"
| "entries_at k (d # ds) = \<lparr>en_Offset = k, en_Data = d\<rparr> # entries_at (k + 1) ds"

definition fits_entry :: "bytes \<Rightarrow> bool" where
  "fits_entry d \<longleftrightarrow> length d < 2 ^ 32"

text \<open>A log that holds the data items \<open>ds\<close>, numbered from zero.\<close>

definition wal_inv :: "WAL \<Rightarrow> bytes list \<Rightarrow> bool" where
  "wal_inv w ds \<longleftrightarrow>
     w_file w = wal_bytes 0 ds \<and> w_nextOffset w = int (length ds) \<and>
     list_all fits_entry ds \<and> int (length ds) < 2 ^ 63"

lemma length_entry_header [simp]: "length (entry_header off d) = headerSize"
  by (simp add: entry_header_def headerSize_def)

lemma length_wal_entry [simp]: "length (wal_entry off d) = headerSize + length d"
  by (simp add: wal_entry_def)

lemma wal_bytes_append: "wal_bytes k (ds @ es) = wal_bytes k ds @ wal_bytes (k + int (length ds)) es"
  by (induction ds arbitrary: k) (simp_all add: algebra_simps)

lemma entries_at_append:
  "entries_at k (ds @ es) = entries_at k ds @ entries_at (k + int (length ds)) es"
  by (induction ds arbitrary: k) (simp_all add: algebra_simps)

lemma entries_at_data [simp]: "map en_Data (entries_at k ds) = ds"
  by (induction ds arbitrary: k) simp_all

lemma wal_header_fields:
  assumes "fits_entry d" and "int64_range off"
  shows "get_int64 (window 0 8 (entry_header off d)) = off"
    "le_nat (window 8 12 (entry_header off d)) = length d"
    "word_of_nat (le_nat (window 12 16 (entry_header off d))) = crc32sum d"
proof -
  let ?h = "entry_header off d"
  have w: "window 0 8 ?h = put_int64 off" "window 8 12 ?h = le_bytes 4 (length d)"
    "window 12 16 ?h = le_bytes 4 (unat (crc32sum d))"
    by (simp_all add: entry_header_def)
  show "get_int64 (window 0 8 ?h) = off" using assms(2) by (simp only: w get_put_int64)
  show "le_nat (window 8 12 ?h) = length d"
    using assms(1) by (simp add: w le_nat_le_bytes fits_entry_def)
  have "unat (crc32sum d) < 256 ^ 4"
    using unsigned_less [of "crc32sum d", where ?'a = nat] by simp
  then show "word_of_nat (le_nat (window 12 16 ?h)) = crc32sum d"
    by (simp only: w le_nat_le_bytes_id) simp
qed

lemma recover_entry:
  assumes "fits_entry d" and "int64_range off"
  shows "recover_loop (wal_entry off d @ r) =
    (let (es, n) = recover_loop r in (\<lparr>en_Offset = off, en_Data = d\<rparr> # es, headerSize + length d + n))"
  unfolding recover_loop.simps [of "wal_entry off d @ r"]
  by (simp add: wal_entry_def wal_header_fields [OF assms] Let_def)

lemma recover_short:
  assumes "fits_entry d" and "int64_range off" and "length r < headerSize + length d"
    and "r = take (length r) (entry_header off d @ x)"
  shows "recover_loop r = ([], 0)"
proof (cases "length r < headerSize")
  case True
  then obtain e where "readFull headerSize r = Inl e" by (rule readFull_short)
  then show ?thesis by (simp add: recover_loop.simps [of r])
next
  case False
  define t where "t = drop headerSize r"
  have "take headerSize r = entry_header off d"
    using False by (subst assms(4)) (simp add: min_def)
  then have r: "r = entry_header off d @ t" unfolding t_def by (metis append_take_drop_id)
  then have "length t < length d" using assms(3) by simp
  then obtain e where "readFull (length d) t = Inl e" by (rule readFull_short)
  then show ?thesis
    unfolding r recover_loop.simps [of "entry_header off d @ t"]
    by (simp add: wal_header_fields [OF assms(1,2)] Let_def)
qed

lemma recover_bytes:
  assumes "list_all fits_entry ds" and "0 \<le> k" and "k + int (length ds) < 2 ^ 63"
  shows "recover_loop (wal_bytes k ds @ r) =
    (let (es, n) = recover_loop r in (entries_at k ds @ es, length (wal_bytes k ds) + n))"
  using assms
proof (induction ds arbitrary: k)
  case (Cons d ds)
  have "recover_loop (wal_bytes (k + 1) ds @ r) =
      (let (es, n) = recover_loop r in (entries_at (k + 1) ds @ es, length (wal_bytes (k + 1) ds) + n))"
    using Cons by simp
  moreover have "int64_range k" using Cons.prems by (simp add: int64_range_def)
  ultimately show ?case
    using Cons.prems by (simp add: recover_entry Let_def split: prod.split)
qed (simp split: prod.split)

lemma recover_empty: "recover_loop [] = ([], 0)"
  by (simp add: recover_loop.simps [of "[]"] readFull_def headerSize_def)

lemma maxOffset_at: "maxOffset (entries_at 0 ds) = int (length ds) - 1"
proof (induction ds rule: rev_induct)
  case (snoc d ds)
  then show ?case by (simp add: maxOffset_def entries_at_append)
qed (simp add: maxOffset_def)

lemma open_tail:
  assumes "wal_inv w ds" and "recover_loop r = ([], 0)"
  shows "WAL_Open (w_file w @ r) = (w, entries_at 0 ds)"
proof -
  have "recover_loop (wal_bytes 0 ds @ r) = (entries_at 0 ds, length (wal_bytes 0 ds))"
    using recover_bytes [of ds 0 r] assms by (simp add: wal_inv_def)
  then show ?thesis
    using assms(1) by (cases w) (auto simp: WAL_Open_def wal_inv_def maxOffset_at Let_def)
qed

lemma open_inv: "wal_inv w ds \<Longrightarrow> WAL_Open (w_file w) = (w, entries_at 0 ds)"
  using open_tail [of w ds "[]"] recover_empty by simp

lemma append_inv:
  assumes "wal_inv w ds" and "fits_entry d" and "int (length ds) + 1 < 2 ^ 63"
  shows "\<exists>w'. WAL_Append WalOk w d = (w', Inr (int (length ds))) \<and> wal_inv w' (ds @ [d])"
  using assms by (auto simp: wal_inv_def WAL_Append_def writeEntry_def Let_def wal_bytes_append wal_entry_def)

fun wal_append_all :: "WAL \<Rightarrow> bytes list \<Rightarrow> WAL" where
  "wal_append_all w [] = w"
| "wal_append_all w (d # ds) = wal_append_all (fst (WAL_Append WalOk w d)) ds"

lemma append_all_inv:
  assumes "wal_inv w ds" and "list_all fits_entry es" and "int (length ds + length es) < 2 ^ 63"
  shows "wal_inv (wal_append_all w es) (ds @ es)"
  using assms
proof (induction es arbitrary: w ds)
  case (Cons e es)
  then obtain w' where w': "WAL_Append WalOk w e = (w', Inr (int (length ds)))" "wal_inv w' (ds @ [e])"
    using append_inv [of w ds e] by auto
  then show ?case using Cons.IH [of w' "ds @ [e]"] Cons.prems by simp
qed simp

lemma truncate_inv:
  assumes "list_all fits_entry es" and "int (length es) < 2 ^ 63"
  shows "\<exists>w'. WAL_Truncate (\<lambda>_. WalOk) w es = (w', Inr ()) \<and> wal_inv w' es"
proof -
  have "\<exists>w'. rewrite_entries (\<lambda>_. WalOk) fs w = (w', Inr ()) \<and> wal_inv w' (ds @ fs)"
    if "wal_inv w ds" "list_all fits_entry fs" "int (length ds + length fs) < 2 ^ 63" for w ds fs
    using that
  proof (induction fs arbitrary: w ds)
    case (Cons f fs)
    let ?w = "w\<lparr>w_file := w_file w @ wal_entry (w_nextOffset w) f, w_nextOffset := w_nextOffset w + 1\<rparr>"
    have "wal_inv ?w (ds @ [f])"
      using Cons.prems by (simp add: wal_inv_def wal_bytes_append)
    then show ?case
      using Cons.IH [of ?w "ds @ [f]"] Cons.prems by (simp add: writeEntry_def Let_def wal_entry_def)
  qed simp
  from this [of "w\<lparr>w_file := [], w_nextOffset := 0\<rparr>" "[]" es] show ?thesis
    using assms by (simp add: WAL_Truncate_def wal_inv_def)
qed

lemma crash_open:
  assumes "wal_inv w ds" and "fits_entry d" and "n < headerSize + length d"
    and "WAL_Append (Short n) w d = (w', r)"
  shows "r = Inl WalWrite \<and> WAL_Open (w_file w') = (w, entries_at 0 ds)"
proof -
  let ?off = "w_nextOffset w" and ?t = "take n (wal_entry (w_nextOffset w) d)"
  have "int64_range ?off" using assms(1) by (simp add: wal_inv_def int64_range_def)
  moreover have len: "length ?t = n" using assms(3) by simp
  moreover have "?t = take (length ?t) (entry_header ?off d @ d)" unfolding len by (simp only: wal_entry_def)
  ultimately have "recover_loop ?t = ([], 0)"
    using assms(2,3) recover_short [of d ?off ?t d] by metis
  then show ?thesis
    using open_tail [OF assms(1)] assms(4) by (auto simp: WAL_Append_def writeEntry_def Let_def wal_entry_def)
qed

text \<open>C3. Crash safety of the write-ahead log: if the process dies while an entry is being written,
  at any byte, reopening the file returns exactly the acknowledged entries in order, removes the
  partial entry from the file, and restores the next offset.\<close>

theorem wal_crash_recovery:
  assumes "wal_inv w ds" and "fits_entry d" and "n < headerSize + length d"
    and "WAL_Append (Short n) w d = (w', r)"
  shows "r = Inl WalWrite \<and> WAL_Open (w_file w') = (w, entries_at 0 ds)"
  by (rule crash_open [OF assms])

text \<open>Durability: whatever was appended successfully is returned by a later open of the file, in
  order and with consecutive offsets, and the log continues where it stopped.\<close>

theorem wal_durable:
  assumes "list_all fits_entry ds" and "int (length ds) < 2 ^ 63" and "w = wal_append_all (fst (WAL_Open [])) ds"
  shows "WAL_Open (w_file w) = (w, entries_at 0 ds) \<and> w_nextOffset w = int (length ds)"
proof -
  have "wal_inv (fst (WAL_Open [])) []"
    by (simp add: WAL_Open_def recover_empty maxOffset_def wal_inv_def)
  then have "wal_inv w ds" using append_all_inv [of _ "[]" ds] assms by simp
  then show ?thesis using open_inv by (simp add: wal_inv_def)
qed

text \<open>Going on after a failed write loses data: when an append fails after its header and part
  of its data are in the file, the bytes stay there; a following append is acknowledged, but if the
  broken entry announces more data than what follows, recovery discards both.\<close>

theorem append_after_failed_append_lost:
  assumes "wal_inv w ds" and "fits_entry d1"
    and "headerSize \<le> n" and "n + headerSize + length d2 < headerSize + length d1"
    and "WAL_Append (Short n) w d1 = (w1, r1)" and "WAL_Append WalOk w1 d2 = (w2, r2)"
  shows "r2 = Inr (int (length ds)) \<and> WAL_Open (w_file w2) = (w, entries_at 0 ds)"
proof -
  let ?off = "w_nextOffset w"
  let ?t = "take n (wal_entry ?off d1) @ wal_entry ?off d2"
  have off: "int64_range ?off" using assms(1) by (simp add: wal_inv_def int64_range_def)
  have n: "take n (wal_entry ?off d1) = entry_header ?off d1 @ take (n - headerSize) d1"
    using assms(3) by (simp add: wal_entry_def)
  have "length ?t < headerSize + length d1" using assms(3,4) by simp
  then have "recover_loop ?t = ([], 0)"
    by (intro recover_short [OF assms(2) off, of _ "take (n - headerSize) d1 @ wal_entry ?off d2"])
      (simp_all add: n min_def)
  moreover have "w_file w2 = w_file w @ ?t" "r2 = Inr ?off"
    using assms(5,6) by (auto simp: WAL_Append_def writeEntry_def Let_def wal_entry_def)
  ultimately show ?thesis using open_tail [OF assms(1)] assms(1) by (simp add: wal_inv_def)
qed

section \<open>Committed offsets\<close>

record offsetRecord =
  or_Group :: string
  or_Topic :: string
  or_Partition :: int
  or_Offset :: int

definition zero_offsetRecord :: offsetRecord where
  "zero_offsetRecord = \<lparr>or_Group = [], or_Topic = [], or_Partition = 0, or_Offset = 0\<rparr>"

definition offsetRecord_json :: "offsetRecord \<Rightarrow> json" where
  "offsetRecord_json r = JObj
     [(''group'', JStr (or_Group r)), (''topic'', JStr (or_Topic r)),
      (''partition'', int_json (or_Partition r)), (''offset'', int_json (or_Offset r))]"

definition offsetRecord_fields :: "(string \<times> offsetRecord setter) list" where
  "offsetRecord_fields =
     [(''group'', as_string (\<lambda>s. or_Group_update (\<lambda>_. s))),
      (''topic'', as_string (\<lambda>s. or_Topic_update (\<lambda>_. s))),
      (''partition'', as_int32 (\<lambda>i. or_Partition_update (\<lambda>_. i))),
      (''offset'', as_int64 (\<lambda>i. or_Offset_update (\<lambda>_. i)))]"

definition Marshal_offsetRecord :: "offsetRecord \<Rightarrow> bytes" where
  "Marshal_offsetRecord r = Marshal (offsetRecord_json r)"

definition Unmarshal_offsetRecord :: "bytes \<Rightarrow> offsetRecord option" where
  "Unmarshal_offsetRecord bs = Unmarshal (assign_struct offsetRecord_fields) bs zero_offsetRecord"

definition offsetKey :: "string \<Rightarrow> string \<Rightarrow> int \<Rightarrow> string" where
  "offsetKey grp topic part = grp @ ''/'' @ topic @ ''/'' @ show_int part"

text \<open>
  \<open>strings.Index\<close> and \<open>strings.LastIndex\<close> of a slash, as the split they are used for: the text before
  and after that slash.
\<close>

definition split_first :: "string \<Rightarrow> (string \<times> string) option" where
  "split_first s =
     (if CHR ''/'' \<in> set s
      then Some (takeWhile (\<lambda>c. c \<noteq> CHR ''/'') s, tl (dropWhile (\<lambda>c. c \<noteq> CHR ''/'') s))
      else None)"

definition split_last :: "string \<Rightarrow> (string \<times> string) option" where
  "split_last s = map_option (\<lambda>(a, b). (rev b, rev a)) (split_first (rev s))"

text \<open>
  \<open>fmt.Sscanf\<close> with a single decimal verb into a 32-bit integer: leading blanks, an optional sign and
  at least one digit; the rest of the text is ignored. Blanks outside ASCII are left out.
\<close>

definition scan_blank :: "char \<Rightarrow> bool" where
  "scan_blank c \<longleftrightarrow> c \<in> {CHR 0x09, CHR 0x0B, CHR 0x0C, CHR 0x0D, CHR '' ''}"

definition Sscanf_d :: "string \<Rightarrow> int option" where
  "Sscanf_d s =
     (let s1 = dropWhile scan_blank s;
          (neg, s2) = (case s1 of
             [] \<Rightarrow> (False, [])
           | c # t \<Rightarrow> if c = CHR ''-'' then (True, t) else if c = CHR ''+'' then (False, t) else (False, s1));
          ds = takeWhile is_digit s2;
          i = (if neg then - int (read_nat ds) else int (read_nat ds))
      in if ds = [] then None
         else if - (2 ^ 31) \<le> i \<and> i < 2 ^ 31 then Some i else None)"

datatype key_error = NoSlash | SingleSlash | BadPartition

definition parseOffsetKey :: "string \<Rightarrow> int \<Rightarrow> (key_error, offsetRecord) result" where
  "parseOffsetKey key offset =
     (case split_last key of
        None \<Rightarrow> Inl NoSlash
      | Some (groupTopic, partStr) \<Rightarrow>
          (case split_first groupTopic of
             None \<Rightarrow> Inl SingleSlash
           | Some (grp, topic) \<Rightarrow>
               (case Sscanf_d partStr of
                  None \<Rightarrow> Inl BadPartition
                | Some part \<Rightarrow>
                    Inr \<lparr>or_Group = grp, or_Topic = topic, or_Partition = part, or_Offset = offset\<rparr>)))"

record OffsetWAL =
  ow_wal :: WAL
  ow_commitCount :: int

definition OpenOffsetWAL :: "bytes \<Rightarrow> OffsetWAL" where
  "OpenOffsetWAL file = \<lparr>ow_wal = fst (WAL_Open file), ow_commitCount = 0\<rparr>"

definition OffsetWAL_Commit ::
  "wal_fault \<Rightarrow> OffsetWAL \<Rightarrow> string \<Rightarrow> string \<Rightarrow> int \<Rightarrow> int \<Rightarrow> OffsetWAL \<times> (wal_error, unit) result" where
  "OffsetWAL_Commit flt ow grp topic part offset =
     (let rec = \<lparr>or_Group = grp, or_Topic = topic, or_Partition = part, or_Offset = offset\<rparr>
      in case WAL_Append flt (ow_wal ow) (Marshal_offsetRecord rec) of
           (w, Inl e) \<Rightarrow> (ow\<lparr>ow_wal := w\<rparr>, Inl e)
         | (w, Inr _) \<Rightarrow> (ow\<lparr>ow_wal := w, ow_commitCount := ow_commitCount ow + 1\<rparr>, Inr ()))"

definition replay_offset :: "(string \<rightharpoonup> int) \<Rightarrow> Entry \<Rightarrow> (string \<rightharpoonup> int)" where
  "replay_offset result e =
     (case Unmarshal_offsetRecord (en_Data e) of
        None \<Rightarrow> result
      | Some rec \<Rightarrow> result(offsetKey (or_Group rec) (or_Topic rec) (or_Partition rec) \<mapsto> or_Offset rec))"

text \<open>\<open>Replay\<close> opens the file a second time, so it also cuts off a partial tail.\<close>

definition OffsetWAL_Replay :: "OffsetWAL \<Rightarrow> OffsetWAL \<times> (string \<rightharpoonup> int)" where
  "OffsetWAL_Replay ow =
     (let (w, entries) = WAL_Open (w_file (ow_wal ow))
      in (ow\<lparr>ow_wal := (ow_wal ow)\<lparr>w_file := w_file w\<rparr>\<rparr>, foldl replay_offset Map.empty entries))"

fun snapshot_entries :: "(string \<times> int) list \<Rightarrow> (key_error, bytes list) result" where
  "snapshot_entries [] = Inr []"
| "snapshot_entries ((key, offset) # rest) =
     (case parseOffsetKey key offset of
        Inl e \<Rightarrow> Inl e
      | Inr rec \<Rightarrow> map_result ((#) (Marshal_offsetRecord rec)) (snapshot_entries rest))"

text \<open>The snapshot is given in the order in which Go happens to visit the map.\<close>

definition OffsetWAL_Checkpoint ::
  "(nat \<Rightarrow> wal_fault) \<Rightarrow> OffsetWAL \<Rightarrow> (string \<times> int) list \<Rightarrow>
   OffsetWAL \<times> (key_error + wal_error, unit) result" where
  "OffsetWAL_Checkpoint flt ow snapshot =
     (case snapshot_entries snapshot of
        Inl e \<Rightarrow> (ow, Inl (Inl e))
      | Inr newEntries \<Rightarrow>
          (case WAL_Truncate flt (ow_wal ow) newEntries of
             (w, Inl e) \<Rightarrow> (ow\<lparr>ow_wal := w\<rparr>, Inl (Inr e))
           | (w, Inr _) \<Rightarrow> (ow\<lparr>ow_wal := w, ow_commitCount := 0\<rparr>, Inr ())))"

definition wf_offsetRecord :: "offsetRecord \<Rightarrow> bool" where
  "wf_offsetRecord r \<longleftrightarrow>
     valid_utf8 (or_Group r) \<and> valid_utf8 (or_Topic r) \<and> int32_range (or_Partition r) \<and>
     int64_range (or_Offset r)"

lemma offsetRecord_eta [simp]:
  "\<lparr>or_Group = or_Group c, or_Topic = or_Topic c, or_Partition = or_Partition c, or_Offset = or_Offset c\<rparr> = c"
  by simp

lemma fold_group [simp]: "fold_name ''group'' = ''group''"
  by (simp add: fold_name.simps lower_def in_range_def)

lemma offsetRecord_lookup [simp]:
  "map_of offsetRecord_fields ''group'' = Some (as_string (\<lambda>s. or_Group_update (\<lambda>_. s)))"
  "map_of offsetRecord_fields ''topic'' = Some (as_string (\<lambda>s. or_Topic_update (\<lambda>_. s)))"
  "map_of offsetRecord_fields ''partition'' = Some (as_int32 (\<lambda>i. or_Partition_update (\<lambda>_. i)))"
  "map_of offsetRecord_fields ''offset'' = Some (as_int64 (\<lambda>i. or_Offset_update (\<lambda>_. i)))"
  by (simp_all add: offsetRecord_fields_def)

lemma assign_offsetRecord:
  "wf_offsetRecord r \<Longrightarrow> assign_struct offsetRecord_fields (offsetRecord_json r) zero_offsetRecord = Some r"
  by (cases r)
    (simp add: assign_struct_def offsetRecord_json_def zero_offsetRecord_def wf_offsetRecord_def
      int64_range_def int32_range_def)

lemma offsetRecord_json_valid: "wf_offsetRecord r \<Longrightarrow> valid_json (offsetRecord_json r)"
  by (simp add: offsetRecord_json_def wf_offsetRecord_def ascii_valid_utf8)

interpretation offset_codec: byte_codec Marshal_offsetRecord Unmarshal_offsetRecord wf_offsetRecord
  by unfold_locales
    (simp add: Unmarshal_offsetRecord_def Marshal_offsetRecord_def offsetRecord_json_valid assign_offsetRecord)

subsection \<open>Keys\<close>

lemma split_first_slash: "CHR ''/'' \<notin> set a \<Longrightarrow> split_first (a @ CHR ''/'' # b) = Some (a, b)"
  by (simp add: split_first_def takeWhile_append dropWhile_append)

lemma split_last_slash: "CHR ''/'' \<notin> set b \<Longrightarrow> split_last (a @ CHR ''/'' # b) = Some (a, b)"
  using split_first_slash [of "rev b" "rev a"] by (simp add: split_last_def)

lemma show_int_chars: "c \<in> set (show_int i) \<Longrightarrow> is_digit c \<or> c = CHR ''-''"
  using show_nat_digits by (auto simp: show_int_def list_all_iff split: if_splits)

lemma no_slash_show_int: "CHR ''/'' \<notin> set (show_int i)"
  using show_int_chars [of "CHR ''/''" i] by (auto simp: is_digit_def)

lemma digit_not_blank: "is_digit c \<Longrightarrow> \<not> scan_blank c \<and> c \<noteq> CHR ''-'' \<and> c \<noteq> CHR ''+''"
  by (auto simp: is_digit_def scan_blank_def)

lemma takeWhile_show_nat: "takeWhile is_digit (show_nat n) = show_nat n"
  using show_nat_digits [of n] by (simp add: list_all_iff)

lemma Sscanf_show: "int32_range i \<Longrightarrow> Sscanf_d (show_int i) = Some i"
proof -
  assume r: "int32_range i"
  show ?thesis
  proof (cases "i < 0")
    case True
    then have s: "show_int i = CHR ''-'' # show_nat (nat (- i))" by (simp add: show_int_def)
    have "\<not> scan_blank (CHR ''-'')" by (simp add: scan_blank_def)
    then show ?thesis
      using r True by (simp add: s Sscanf_d_def takeWhile_show_nat int32_range_def Let_def)
  next
    case False
    obtain c t where c: "show_nat (nat i) = c # t" "is_digit c" by (rule show_nat_Cons)
    have "takeWhile is_digit (c # t) = c # t" using takeWhile_show_nat [of "nat i"] c by simp
    moreover have "read_nat (c # t) = nat i" using read_show_nat [of "nat i"] c by simp
    moreover have "show_int i = c # t" using False c by (simp add: show_int_def)
    ultimately show ?thesis
      using r False digit_not_blank [OF c(2)] by (simp add: Sscanf_d_def int32_range_def Let_def)
  qed
qed

lemma parse_offsetKey:
  assumes "CHR ''/'' \<notin> set g" and "int32_range p"
  shows "parseOffsetKey (offsetKey g t p) off =
    Inr \<lparr>or_Group = g, or_Topic = t, or_Partition = p, or_Offset = off\<rparr>"
proof -
  have "split_last (offsetKey g t p) = Some (g @ CHR ''/'' # t, show_int p)"
    using split_last_slash [OF no_slash_show_int, of "g @ CHR ''/'' # t" p] by (simp add: offsetKey_def)
  then show ?thesis
    by (simp add: parseOffsetKey_def split_first_slash [OF assms(1)] Sscanf_show [OF assms(2)])
qed

subsection \<open>Replay\<close>

abbreviation rec_key :: "offsetRecord \<Rightarrow> string" where
  "rec_key r \<equiv> offsetKey (or_Group r) (or_Topic r) (or_Partition r)"

text \<open>The specification: the last commit of each key wins.\<close>

definition offset_map :: "offsetRecord list \<Rightarrow> (string \<rightharpoonup> int)" where
  "offset_map cs = foldl (\<lambda>m c. m(rec_key c \<mapsto> or_Offset c)) Map.empty cs"

definition ow_holds :: "OffsetWAL \<Rightarrow> offsetRecord list \<Rightarrow> bool" where
  "ow_holds ow cs \<longleftrightarrow> wal_inv (ow_wal ow) (map Marshal_offsetRecord cs) \<and> list_all wf_offsetRecord cs"

lemma replay_entries:
  "list_all wf_offsetRecord cs \<Longrightarrow>
   foldl replay_offset m (entries_at k (map Marshal_offsetRecord cs)) =
     foldl (\<lambda>m c. m(rec_key c \<mapsto> or_Offset c)) m cs"
  by (induction cs arbitrary: m k) (simp_all add: replay_offset_def offset_codec.dec_enc)

lemma replay_holds:
  assumes "ow_holds ow cs"
  shows "OffsetWAL_Replay ow = (ow, offset_map cs)"
proof -
  have "WAL_Open (w_file (ow_wal ow)) = (ow_wal ow, entries_at 0 (map Marshal_offsetRecord cs))"
    using assms by (intro open_inv) (simp add: ow_holds_def)
  then show ?thesis
    using assms by (simp add: ow_holds_def OffsetWAL_Replay_def replay_entries offset_map_def)
qed

lemma offset_map_snoc: "offset_map (cs @ [c]) = (offset_map cs)(rec_key c \<mapsto> or_Offset c)"
  by (simp add: offset_map_def)

lemma offset_map_in: "offset_map cs k = Some off \<Longrightarrow> \<exists>c\<in>set cs. rec_key c = k \<and> or_Offset c = off"
proof (induction cs rule: rev_induct)
  case (snoc c cs)
  then show ?case by (auto simp: offset_map_snoc split: if_splits)
qed (simp add: offset_map_def)

lemma offset_map_distinct:
  "distinct (map rec_key rs) \<Longrightarrow> offset_map rs = map_of (map (\<lambda>r. (rec_key r, or_Offset r)) rs)"
proof (induction rs rule: rev_induct)
  case (snoc r rs)
  then have "rec_key r \<notin> rec_key ` set rs" by simp
  then have "rec_key r \<notin> dom (map_of (map (\<lambda>r. (rec_key r, or_Offset r)) rs))"
    by (auto simp: dom_map_of_conv_image_fst)
  then show ?case using snoc by (simp add: offset_map_snoc map_add_upd_left map_of_append) 
qed (simp add: offset_map_def)

lemma commit_holds:
  assumes "ow_holds ow cs" and "wf_offsetRecord c" and "fits_entry (Marshal_offsetRecord c)"
    and "int (length cs) + 1 < 2 ^ 63"
    and "OffsetWAL_Commit WalOk ow (or_Group c) (or_Topic c) (or_Partition c) (or_Offset c) = (ow', r)"
  shows "r = Inr ()" "ow_holds ow' (cs @ [c])" "ow_commitCount ow' = ow_commitCount ow + 1"
proof -
  obtain w' where w': "WAL_Append WalOk (ow_wal ow) (Marshal_offsetRecord c) = (w', Inr (int (length cs)))"
    "wal_inv w' (map Marshal_offsetRecord cs @ [Marshal_offsetRecord c])"
    using append_inv [of "ow_wal ow" "map Marshal_offsetRecord cs" "Marshal_offsetRecord c"] assms(1,3,4)
    by (auto simp: ow_holds_def)
  have "ow' = ow\<lparr>ow_wal := w', ow_commitCount := ow_commitCount ow + 1\<rparr>" "r = Inr ()"
    using assms(5) w'(1) by (simp_all add: OffsetWAL_Commit_def Let_def)
  then show "r = Inr ()" "ow_holds ow' (cs @ [c])" "ow_commitCount ow' = ow_commitCount ow + 1"
    using w'(2) assms(1,2) by (simp_all add: ow_holds_def)
qed

lemma commit_crash_holds:
  assumes "ow_holds ow cs" and "fits_entry (Marshal_offsetRecord c)"
    and "n < headerSize + length (Marshal_offsetRecord c)"
    and "OffsetWAL_Commit (Short n) ow (or_Group c) (or_Topic c) (or_Partition c) (or_Offset c) = (ow1, r)"
  shows "r = Inl WalWrite" "ow_holds (OpenOffsetWAL (w_file (ow_wal ow1))) cs"
proof -
  obtain w1 r1 where w1: "WAL_Append (Short n) (ow_wal ow) (Marshal_offsetRecord c) = (w1, r1)"
    by (cases "WAL_Append (Short n) (ow_wal ow) (Marshal_offsetRecord c)")
  have inv: "wal_inv (ow_wal ow) (map Marshal_offsetRecord cs)" using assms(1) by (simp add: ow_holds_def)
  have rec: "r1 = Inl WalWrite" using w1 by (auto simp: WAL_Append_def writeEntry_def Let_def)
  have "ow_wal ow1 = w1" and r: "r = Inl WalWrite" using assms(4) w1 rec by (auto simp: OffsetWAL_Commit_def Let_def)
  moreover have "WAL_Open (w_file w1) = (ow_wal ow, entries_at 0 (map Marshal_offsetRecord cs))"
    using crash_open [OF inv assms(2,3) w1] by simp
  ultimately show "ow_holds (OpenOffsetWAL (w_file (ow_wal ow1))) cs"
    using assms(1) by (simp add: OpenOffsetWAL_def ow_holds_def)
  show "r = Inl WalWrite" by (rule r)
qed

text \<open>C24. Committed offsets survive a crash: after any commits, a crash at any byte of a further
  commit, and a restart, \<open>Replay\<close> returns for each key the offset of the last acknowledged commit,
  and nothing of the interrupted one.\<close>

theorem offset_replay_after_crash:
  assumes "ow_holds ow cs" and "fits_entry (Marshal_offsetRecord c)"
    and "n < headerSize + length (Marshal_offsetRecord c)"
    and "OffsetWAL_Commit (Short n) ow (or_Group c) (or_Topic c) (or_Partition c) (or_Offset c) = (ow1, r)"
  shows "r = Inl WalWrite \<and>
    snd (OffsetWAL_Replay (OpenOffsetWAL (w_file (ow_wal ow1)))) = offset_map cs \<and>
    ow_holds (OpenOffsetWAL (w_file (ow_wal ow1))) cs"
  using commit_crash_holds [OF assms] replay_holds [of "OpenOffsetWAL (w_file (ow_wal ow1))" cs] by simp

lemma snapshot_entries_refines:
  assumes "list_all (\<lambda>c. CHR ''/'' \<notin> set (or_Group c) \<and> int32_range (or_Partition c)) cs"
    and "list_all (\<lambda>(k, off). offset_map cs k = Some off) snap"
  shows "\<exists>rs. snapshot_entries snap = Inr (map Marshal_offsetRecord rs) \<and> set rs \<subseteq> set cs \<and>
    map (\<lambda>r. (rec_key r, or_Offset r)) rs = snap"
  using assms(2)
proof (induction snap)
  case (Cons p snap)
  obtain k off where p: "p = (k, off)" by (cases p)
  obtain rs where rs: "snapshot_entries snap = Inr (map Marshal_offsetRecord rs)" "set rs \<subseteq> set cs"
    "map (\<lambda>r. (rec_key r, or_Offset r)) rs = snap"
    using Cons by auto
  obtain c where c: "c \<in> set cs" "rec_key c = k" "or_Offset c = off"
    using Cons.prems p offset_map_in [of cs k off] by auto
  have "parseOffsetKey k off = Inr c"
    using parse_offsetKey [of "or_Group c" "or_Partition c" "or_Topic c" off] c assms(1)
    by (auto simp: list_all_iff)
  then show ?case using rs c by (intro exI [of _ "c # rs"]) (simp add: p)
qed simp

text \<open>C25. Checkpointing is transparent: rewriting the log from a snapshot of the committed offsets,
  visited in any order, leaves one entry per key and does not change what \<open>Replay\<close> returns.\<close>

theorem checkpoint_preserves_replay:
  assumes "ow_holds ow cs"
    and "list_all (\<lambda>c. CHR ''/'' \<notin> set (or_Group c) \<and> fits_entry (Marshal_offsetRecord c)) cs"
    and "distinct (map fst snap)" and "map_of snap = offset_map cs"
    and "OffsetWAL_Checkpoint (\<lambda>_. WalOk) ow snap = (ow', r)"
  shows "r = Inr () \<and> snd (OffsetWAL_Replay ow') = snd (OffsetWAL_Replay ow) \<and>
    length (snd (WAL_Open (w_file (ow_wal ow')))) = length snap \<and> ow_commitCount ow' = 0"
proof -
  have wf: "list_all wf_offsetRecord cs" and len: "int (length cs) < 2 ^ 63"
    using assms(1) by (simp_all add: ow_holds_def wal_inv_def)
  have "list_all (\<lambda>(k, off). offset_map cs k = Some off) snap"
    using assms(3,4) by (auto simp: list_all_iff simp flip: assms(4) intro: map_of_is_SomeI)
  then obtain rs where rs: "snapshot_entries snap = Inr (map Marshal_offsetRecord rs)" "set rs \<subseteq> set cs"
    "map (\<lambda>r. (rec_key r, or_Offset r)) rs = snap"
    using snapshot_entries_refines [of cs snap] assms(2) wf
    by (auto simp: list_all_iff wf_offsetRecord_def)
  have dist: "distinct (map rec_key rs)" using assms(3) by (simp add: comp_def flip: rs(3))
  have "length rs = card (set rs)" using dist by (metis distinct_card distinct_map)
  also have "\<dots> \<le> length cs" using rs(2) by (meson List.finite_set card_length card_mono order_trans)
  finally have "int (length (map Marshal_offsetRecord rs)) < 2 ^ 63" using len by simp
  moreover have "list_all fits_entry (map Marshal_offsetRecord rs)"
    using rs(2) assms(2) by (auto simp: list_all_iff)
  ultimately obtain w' where w': "WAL_Truncate (\<lambda>_. WalOk) (ow_wal ow) (map Marshal_offsetRecord rs) = (w', Inr ())"
    "wal_inv w' (map Marshal_offsetRecord rs)"
    using truncate_inv [of "map Marshal_offsetRecord rs" "ow_wal ow"] by auto
  have ow': "ow' = ow\<lparr>ow_wal := w', ow_commitCount := 0\<rparr>" "r = Inr ()"
    using assms(5) w'(1) rs(1) by (simp_all add: OffsetWAL_Checkpoint_def)
  have h: "ow_holds ow' rs" using w'(2) wf rs(2) by (auto simp: ow_holds_def ow' list_all_iff)
  have "offset_map rs = offset_map cs" using offset_map_distinct [OF dist] rs(3) assms(4) by simp
  moreover have "length (entries_at 0 (map Marshal_offsetRecord rs)) = length snap"
    by (metis entries_at_data length_map rs(3))
  ultimately show ?thesis
    using replay_holds [OF h] replay_holds [OF assms(1)] open_inv [OF w'(2)] ow' by simp
qed

text \<open>
  \<open>Truncate\<close> is not atomic: it empties the file first. A crash before the first entry of the
  snapshot is complete leaves no committed offset at all.
\<close>

lemma checkpoint_crash_loses_all:
  assumes "snapshot_entries snap = Inr (d # ds)" and "fits_entry d" and "n < headerSize + length d"
    and "OffsetWAL_Checkpoint (\<lambda>_. Short n) ow snap = (ow', r)"
  shows "r = Inl (Inr WalWrite) \<and> snd (OffsetWAL_Replay (OpenOffsetWAL (w_file (ow_wal ow')))) = Map.empty"
proof -
  let ?w = "(ow_wal ow)\<lparr>w_file := [], w_nextOffset := 0\<rparr>"
  have inv: "wal_inv ?w []" by (simp add: wal_inv_def)
  obtain w' r' where w': "WAL_Append (Short n) ?w d = (w', r')" by (cases "WAL_Append (Short n) ?w d")
  have "WAL_Open (w_file w') = (?w, [])" using crash_open [OF inv assms(2,3) w'] by simp
  moreover have "w_file (ow_wal ow') = w_file w'" "r = Inl (Inr WalWrite)"
    using assms(1,4) w'
    by (auto simp: OffsetWAL_Checkpoint_def WAL_Truncate_def WAL_Append_def writeEntry_def Let_def)
  moreover have "WAL_Open [] = (?w, [])" using open_inv [OF inv] by simp
  ultimately show ?thesis by (simp add: OffsetWAL_Replay_def OpenOffsetWAL_def)
qed

section \<open>Topic operations\<close>

record topicOp =
  to_Op :: string
  to_Config :: TopicConfig

definition topicOp_json :: "topicOp \<Rightarrow> json" where
  "topicOp_json t = JObj [(''op'', JStr (to_Op t)), (''config'', TopicConfig_json (to_Config t))]"

definition zero_topicOp :: topicOp where
  "zero_topicOp = \<lparr>to_Op = [], to_Config = zero_TopicConfig\<rparr>"

definition topicOp_fields :: "(string \<times> topicOp setter) list" where
  "topicOp_fields =
     [(''op'', as_string (\<lambda>s. to_Op_update (\<lambda>_. s))),
      (''config'', \<lambda>j t. map_option (\<lambda>c. t\<lparr>to_Config := c\<rparr>) (assign_struct TopicConfig_fields j (to_Config t)))]"

definition Marshal_topicOp :: "topicOp \<Rightarrow> bytes" where
  "Marshal_topicOp t = Marshal (topicOp_json t)"

definition Unmarshal_topicOp :: "bytes \<Rightarrow> topicOp option" where
  "Unmarshal_topicOp bs = Unmarshal (assign_struct topicOp_fields) bs zero_topicOp"

definition TopicWAL_Append :: "wal_fault \<Rightarrow> WAL \<Rightarrow> TopicConfig \<Rightarrow> WAL \<times> (wal_error, int) result" where
  "TopicWAL_Append flt tw cfg = WAL_Append flt tw (Marshal_topicOp \<lparr>to_Op = ''create'', to_Config = cfg\<rparr>)"

definition TopicWAL_Delete :: "wal_fault \<Rightarrow> WAL \<Rightarrow> string \<Rightarrow> WAL \<times> (wal_error, int) result" where
  "TopicWAL_Delete flt tw name =
     WAL_Append flt tw (Marshal_topicOp \<lparr>to_Op = ''delete'', to_Config = zero_TopicConfig\<lparr>tc_Name := name\<rparr>\<rparr>)"

definition map_del :: "'k \<Rightarrow> ('k \<times> 'v) list \<Rightarrow> ('k \<times> 'v) list" where
  "map_del k m = filter (\<lambda>(a, _). a \<noteq> k) m"

definition apply_topicOp ::
  "(string \<times> TopicConfig) list \<times> string list \<Rightarrow> topicOp \<Rightarrow> (string \<times> TopicConfig) list \<times> string list" where
  "apply_topicOp st op =
     (let cfg = to_Config op
      in if to_Op op = ''create'' then (map_put (tc_Name cfg) cfg (fst st), snd st)
         else if to_Op op = ''delete'' then (map_del (tc_Name cfg) (fst st), snd st @ [tc_Name cfg])
         else st)"

definition replay_topic ::
  "(string \<times> TopicConfig) list \<times> string list \<Rightarrow> Entry \<Rightarrow> (string \<times> TopicConfig) list \<times> string list" where
  "replay_topic st e =
     (case Unmarshal_topicOp (en_Data e) of None \<Rightarrow> st | Some op \<Rightarrow> apply_topicOp st op)"

text \<open>
  \<open>Replay\<close> lists the surviving configurations in the order of their names, one of the orders in
  which Go may visit the map.
\<close>

definition TopicWAL_Replay :: "WAL \<Rightarrow> WAL \<times> TopicConfig list \<times> string list" where
  "TopicWAL_Replay tw =
     (let (w, entries) = WAL_Open (w_file tw); (state, deletes) = foldl replay_topic ([], []) entries
      in (tw\<lparr>w_file := w_file w\<rparr>, map snd state, deletes))"

definition wf_topicOp :: "topicOp \<Rightarrow> bool" where
  "wf_topicOp t \<longleftrightarrow> valid_utf8 (to_Op t) \<and> wf_TopicConfig (to_Config t)"

lemma fold_op [simp]: "fold_name ''op'' = ''op''" "fold_name ''config'' = ''config''"
  by (simp_all add: fold_name.simps lower_def in_range_def)

lemma topicOp_lookup [simp]:
  "map_of topicOp_fields ''op'' = Some (as_string (\<lambda>s. to_Op_update (\<lambda>_. s)))"
  "map_of topicOp_fields ''config'' = Some (\<lambda>j t. map_option (\<lambda>c. t\<lparr>to_Config := c\<rparr>)
     (assign_struct TopicConfig_fields j (to_Config t)))"
  by (simp_all add: topicOp_fields_def)

lemma assign_topicOp:
  assumes "wf_topicOp t"
  shows "assign_struct topicOp_fields (topicOp_json t) zero_topicOp = Some t"
proof -
  have "assign_struct TopicConfig_fields (TopicConfig_json (to_Config t)) zero_TopicConfig = Some (to_Config t)"
    using assms by (intro assign_TopicConfig) (simp add: wf_topicOp_def)
  then show ?thesis
    by (cases t) (simp add: assign_struct_def [of topicOp_fields] topicOp_json_def zero_topicOp_def)
qed

interpretation topic_codec: byte_codec Marshal_topicOp Unmarshal_topicOp wf_topicOp
proof
  fix t
  assume t: "wf_topicOp t"
  then have "valid_json (topicOp_json t)"
    by (simp add: topicOp_json_def wf_topicOp_def TopicConfig_json_valid ascii_valid_utf8)
  then show "Unmarshal_topicOp (Marshal_topicOp t) = Some t"
    using assign_topicOp [OF t] by (simp add: Unmarshal_topicOp_def Marshal_topicOp_def)
qed

text \<open>The specification: a topic exists with the configuration of its last operation if that was a
  create, and not at all if it was a delete.\<close>

definition last_op :: "string \<Rightarrow> topicOp list \<Rightarrow> topicOp option" where
  "last_op name ops = List.find (\<lambda>op. tc_Name (to_Config op) = name) (rev ops)"

definition live_config :: "topicOp list \<Rightarrow> string \<Rightarrow> TopicConfig option" where
  "live_config ops name =
     (case last_op name ops of
        None \<Rightarrow> None
      | Some op \<Rightarrow> if to_Op op = ''create'' then Some (to_Config op) else None)"

definition topic_log :: "WAL \<Rightarrow> topicOp list \<Rightarrow> bool" where
  "topic_log tw ops \<longleftrightarrow>
     wal_inv tw (map Marshal_topicOp ops) \<and>
     list_all (\<lambda>op. wf_topicOp op \<and> (to_Op op = ''create'' \<or> to_Op op = ''delete'')) ops"

lemma map_del_sorted: "map_sorted m \<Longrightarrow> map_sorted (map_del k m)"
  by (auto simp: map_sorted_def map_del_def sorted_wrt_map sorted_wrt_filter)

lemma map_of_map_del: "map_of (map_del k m) = (map_of m)(k := None)"
  by (induction m) (auto simp: map_del_def)

lemma last_op_snoc:
  "last_op name (ops @ [op]) = (if tc_Name (to_Config op) = name then Some op else last_op name ops)"
  by (simp add: last_op_def)

lemma apply_ops:
  assumes "list_all (\<lambda>op. to_Op op = ''create'' \<or> to_Op op = ''delete'') ops"
  shows "map_sorted (fst (foldl apply_topicOp ([], []) ops)) \<and>
    map_of (fst (foldl apply_topicOp ([], []) ops)) = live_config ops"
  using assms
proof (induction ops rule: rev_induct)
  case Nil
  then show ?case by (simp add: map_sorted_def live_config_def last_op_def fun_eq_iff)
next
  case (snoc op ops)
  then show ?case
    by (auto simp: apply_topicOp_def Let_def map_sorted_put map_del_sorted map_of_map_put map_of_map_del
        live_config_def last_op_snoc fun_eq_iff)
qed

lemma replay_topic_entries:
  "list_all wf_topicOp ops \<Longrightarrow>
   foldl replay_topic st (entries_at k (map Marshal_topicOp ops)) = foldl apply_topicOp st ops"
  by (induction ops arbitrary: st k) (simp_all add: replay_topic_def topic_codec.dec_enc)

lemma map_sorted_set_snd: "map_sorted m \<Longrightarrow> set (map snd m) = ran (map_of m)"
  by (metis (no_types, lifting) map_sorted_def ran_distinct set_map strict_sorted_iff)

text \<open>C26. Topic metadata survives restarts: replaying the topic log returns the configuration of
  every topic whose last logged operation is a create, each topic once, and no other topic.\<close>

theorem topic_replay_live:
  assumes "topic_log tw ops" and "TopicWAL_Replay tw = (tw', creates, deletes)"
  shows "tw' = tw \<and> set creates = ran (live_config ops) \<and> length creates = card (dom (live_config ops))"
proof -
  let ?st = "foldl apply_topicOp ([], []) ops"
  have wf: "list_all wf_topicOp ops" "list_all (\<lambda>op. to_Op op = ''create'' \<or> to_Op op = ''delete'') ops"
    using assms(1) by (auto simp: topic_log_def list_all_iff)
  have "WAL_Open (w_file tw) = (tw, entries_at 0 (map Marshal_topicOp ops))"
    using assms(1) by (intro open_inv) (simp add: topic_log_def)
  then have r: "tw' = tw" "creates = map snd (fst ?st)"
    using assms(2) by (auto simp: TopicWAL_Replay_def replay_topic_entries [OF wf(1)] split: prod.splits)
  have st: "map_sorted (fst ?st)" "map_of (fst ?st) = live_config ops" using apply_ops [OF wf(2)] by auto
  have "distinct (map fst (fst ?st))" using st(1) by (simp add: map_sorted_def strict_sorted_iff)
  then have "length (fst ?st) = card (dom (map_of (fst ?st)))"
    by (metis distinct_card dom_map_of_conv_image_fst length_map set_map)
  then show ?thesis using r st map_sorted_set_snd [OF st(1)] by simp
qed

text \<open>
  The second result of \<open>Replay\<close> is documented as the names that were deleted and not created again;
  the code lists every deleted name, also one that exists again.
\<close>

lemma replay_deletes_recreated:
  assumes "wf_TopicConfig c" and "wf_TopicConfig (zero_TopicConfig\<lparr>tc_Name := tc_Name c\<rparr>)"
    and "topic_log tw [\<lparr>to_Op = ''delete'', to_Config = zero_TopicConfig\<lparr>tc_Name := tc_Name c\<rparr>\<rparr>,
      \<lparr>to_Op = ''create'', to_Config = c\<rparr>]"
  shows "TopicWAL_Replay tw = (tw, [c], [tc_Name c])"
proof -
  let ?ops = "[\<lparr>to_Op = ''delete'', to_Config = zero_TopicConfig\<lparr>tc_Name := tc_Name c\<rparr>\<rparr>,
      \<lparr>to_Op = ''create'', to_Config = c\<rparr>]"
  have wf: "list_all wf_topicOp ?ops" using assms(3) by (simp add: topic_log_def)
  have "WAL_Open (w_file tw) = (tw, entries_at 0 (map Marshal_topicOp ?ops))"
    using assms(3) by (intro open_inv) (simp only: topic_log_def)
  then show ?thesis
    using replay_topic_entries [OF wf, of "([], [])" 0]
    by (simp add: TopicWAL_Replay_def apply_topicOp_def map_del_def Let_def)
qed

section \<open>Witnesses\<close>

definition sample_wal :: WAL where
  "sample_wal = wal_append_all (fst (WAL_Open [])) [[1, 2], [3]]"

lemma open_empty: "WAL_Open [] = (\<lparr>w_file = [], w_nextOffset = 0\<rparr>, [])"
  by (simp add: WAL_Open_def recover_empty maxOffset_def)

lemma empty_wal_inv: "wal_inv (fst (WAL_Open [])) []"
  by (simp add: open_empty wal_inv_def)

lemma sample_wal_inv: "wal_inv sample_wal [[1, 2], [3]]"
  unfolding sample_wal_def
  using append_all_inv [OF empty_wal_inv, of "[[1, 2], [3]]"] by (simp add: fits_entry_def)

theorem wal_crash_recovery_witness:
  "WAL_Open (w_file (fst (WAL_Append (Short 17) sample_wal [7, 7]))) = (sample_wal, entries_at 0 [[1, 2], [3]])"
proof -
  obtain w' r where w: "WAL_Append (Short 17) sample_wal [7, 7] = (w', r)"
    by (cases "WAL_Append (Short 17) sample_wal [7, 7]")
  show ?thesis
    using wal_crash_recovery [OF sample_wal_inv _ _ w] w by (simp add: fits_entry_def headerSize_def)
qed

theorem wal_durable_witness:
  "WAL_Open (w_file sample_wal) = (sample_wal, entries_at 0 [[1, 2], [3]]) \<and> w_nextOffset sample_wal = 2"
  using wal_durable [of "[[1, 2], [3]]" sample_wal] by (simp add: fits_entry_def sample_wal_def)

theorem append_after_failed_append_lost_witness:
  "\<exists>w1 r1 w2. WAL_Append (Short 16) sample_wal (replicate 20 0) = (w1, r1) \<and>
     WAL_Append WalOk w1 [9] = (w2, Inr 2) \<and> WAL_Open (w_file w2) = (sample_wal, entries_at 0 [[1, 2], [3]])"
proof -
  obtain w1 r1 where w1: "WAL_Append (Short 16) sample_wal (replicate 20 0) = (w1, r1)"
    by (cases "WAL_Append (Short 16) sample_wal (replicate 20 0)")
  obtain w2 r2 where w2: "WAL_Append WalOk w1 [9] = (w2, r2)" by (cases "WAL_Append WalOk w1 [9]")
  have "fits_entry (replicate 20 0)" by (simp add: fits_entry_def)
  from append_after_failed_append_lost [OF sample_wal_inv this _ _ w1 w2] w1 w2
  show ?thesis by (simp add: headerSize_def)
qed

definition sample_commit :: "int \<Rightarrow> offsetRecord" where
  "sample_commit off = \<lparr>or_Group = ''g'', or_Topic = ''t'', or_Partition = 0, or_Offset = off\<rparr>"

lemma sample_commit_ok:
  "wf_offsetRecord (sample_commit 0)" "length (Marshal_offsetRecord (sample_commit 0)) = 50"
  by (simp_all add: wf_offsetRecord_def sample_commit_def ascii_valid_utf8 int32_range_def int64_range_def
      Marshal_offsetRecord_def offsetRecord_json_def marshal_eval)

definition sample_ow :: OffsetWAL where
  "sample_ow = fst (OffsetWAL_Commit WalOk (OpenOffsetWAL []) ''g'' ''t'' 0 0)"

lemma sample_ow_holds: "ow_holds sample_ow [sample_commit 0]"
proof -
  have h: "ow_holds (OpenOffsetWAL []) []" by (simp add: ow_holds_def OpenOffsetWAL_def empty_wal_inv)
  obtain ow r where c: "OffsetWAL_Commit WalOk (OpenOffsetWAL []) ''g'' ''t'' 0 0 = (ow, r)"
    by (cases "OffsetWAL_Commit WalOk (OpenOffsetWAL []) ''g'' ''t'' 0 0")
  have "ow_holds ow [sample_commit 0]"
    using commit_holds(2) [OF h sample_commit_ok(1), of ow r] c sample_commit_ok(2)
    by (simp add: fits_entry_def sample_commit_def)
  then show ?thesis by (simp add: sample_ow_def c)
qed

theorem offset_replay_after_crash_witness:
  "snd (OffsetWAL_Replay (OpenOffsetWAL (w_file (ow_wal (fst (OffsetWAL_Commit (Short 20) sample_ow ''g'' ''t'' 0 0)))))) =
     [''g/t/0'' \<mapsto> 0]"
proof -
  obtain ow r where c: "OffsetWAL_Commit (Short 20) sample_ow ''g'' ''t'' 0 0 = (ow, r)"
    by (cases "OffsetWAL_Commit (Short 20) sample_ow ''g'' ''t'' 0 0")
  have "offset_map [sample_commit 0] = [''g/t/0'' \<mapsto> 0]"
    by (simp add: offset_map_def sample_commit_def offsetKey_def show_int_def)
  then show ?thesis
    using offset_replay_after_crash [OF sample_ow_holds, of "sample_commit 0" 20 ow r] c sample_commit_ok(2)
    by (simp add: fits_entry_def sample_commit_def headerSize_def)
qed

theorem checkpoint_preserves_replay_witness:
  "\<exists>ow'. OffsetWAL_Checkpoint (\<lambda>_. WalOk) sample_ow [(''g/t/0'', 0)] = (ow', Inr ()) \<and>
     snd (OffsetWAL_Replay ow') = snd (OffsetWAL_Replay sample_ow)"
proof -
  obtain ow r where c: "OffsetWAL_Checkpoint (\<lambda>_. WalOk) sample_ow [(''g/t/0'', 0)] = (ow, r)"
    by (cases "OffsetWAL_Checkpoint (\<lambda>_. WalOk) sample_ow [(''g/t/0'', 0)]")
  have m: "map_of [(''g/t/0'', 0)] = offset_map [sample_commit 0]"
    by (simp add: offset_map_def sample_commit_def offsetKey_def show_int_def)
  have l: "list_all (\<lambda>c. CHR ''/'' \<notin> set (or_Group c) \<and> fits_entry (Marshal_offsetRecord c)) [sample_commit 0]"
    using sample_commit_ok(2) by (simp add: fits_entry_def) (simp add: sample_commit_def)
  show ?thesis using checkpoint_preserves_replay [OF sample_ow_holds l _ m c] c by simp
qed

definition sample_topic :: TopicConfig where
  "sample_topic = zero_TopicConfig\<lparr>tc_Name := ''t''\<rparr>"

lemma sample_topic_ok:
  "wf_topicOp \<lparr>to_Op = ''create'', to_Config = sample_topic\<rparr>"
  "fits_entry (Marshal_topicOp \<lparr>to_Op = ''create'', to_Config = sample_topic\<rparr>)"
  by (simp_all add: wf_topicOp_def wf_TopicConfig_def sample_topic_def zero_TopicConfig_def ascii_valid_utf8
      int64_range_def fits_entry_def Marshal_topicOp_def topicOp_json_def TopicConfig_json_def marshal_eval)

theorem topic_replay_live_witness:
  "\<exists>tw. topic_log tw [\<lparr>to_Op = ''create'', to_Config = sample_topic\<rparr>] \<and>
     fst (snd (TopicWAL_Replay tw)) = [sample_topic]"
proof -
  let ?op = "\<lparr>to_Op = ''create'', to_Config = sample_topic\<rparr>"
  obtain tw where "wal_inv tw [Marshal_topicOp ?op]"
    using append_inv [OF empty_wal_inv sample_topic_ok(2)] by auto
  then have log: "topic_log tw [?op]" using sample_topic_ok(1) by (simp add: topic_log_def)
  obtain tw' cr del where r: "TopicWAL_Replay tw = (tw', cr, del)" by (cases "TopicWAL_Replay tw")
  have live: "live_config [?op] = [''t'' \<mapsto> sample_topic]"
    by (simp add: live_config_def last_op_def sample_topic_def fun_eq_iff)
  have "set cr = {sample_topic} \<and> length cr = 1"
    using topic_replay_live [OF log r] unfolding live by simp
  then have "cr = [sample_topic]" by (cases cr) auto
  then show ?thesis using log r by auto
qed

end
