(* ===== verification/Partitioning.thy ===== *)
theory Partitioning
  imports Wal "HOL-Library.Signed_Division" "HOL-Library.Multiset"
begin

text \<open>
  The router of \<open>internal/partition/partition.go\<close>: keyed messages go to the partition given by the
  FNV-1a hash of the key, keyless messages are dealt out in turn by a 64-bit counter per topic; and the
  store of committed consumer offsets that lives in the same package.
\<close>

section \<open>Names\<close>

text \<open>
  The pattern \<open>^[a-zA-Z0-9][a-zA-Z0-9._-]{0,248}$\<close> that both topic names and group names must match.
\<close>

definition name_head :: "char \<Rightarrow> bool" where
  "name_head c \<longleftrightarrow>
     (let n = of_char c :: nat in 97 \<le> n \<and> n \<le> 122 \<or> 65 \<le> n \<and> n \<le> 90 \<or> 48 \<le> n \<and> n \<le> 57)"

definition name_pattern :: "string \<Rightarrow> bool" where
  "name_pattern s =
     (case s of
        [] \<Rightarrow> False
      | c # t \<Rightarrow>
          name_head c \<and> list_all (\<lambda>d. name_head d \<or> d \<in> {CHR ''.'', CHR ''_'', CHR ''-''}) t \<and> length t \<le> 248)"

lemma name_pattern_no_slash: "name_pattern s \<Longrightarrow> CHR ''/'' \<notin> set s"
  by (cases s) (auto simp: name_pattern_def name_head_def list_all_iff)

section \<open>Routing\<close>

record HashPartitioner =
  hp_topics :: "string \<rightharpoonup> int"
  hp_rrCur :: "string \<rightharpoonup> 64 word"

definition NewHashPartitioner :: HashPartitioner where
  "NewHashPartitioner = \<lparr>hp_topics = Map.empty, hp_rrCur = Map.empty\<rparr>"

datatype partition_error = NegativeCount | NotRegistered

definition Register :: "HashPartitioner \<Rightarrow> string \<Rightarrow> int \<Rightarrow> HashPartitioner \<times> (partition_error, unit) result" where
  "Register p topic cnt =
     (if cnt < 0 then (p, Inl NegativeCount)
      else if cnt = 0
      then (p\<lparr>hp_topics := (hp_topics p)(topic := None), hp_rrCur := (hp_rrCur p)(topic := None)\<rparr>, Inr ())
      else let p1 = p\<lparr>hp_topics := (hp_topics p)(topic \<mapsto> cnt)\<rparr>
           in (case hp_rrCur p1 topic of
                 Some _ \<Rightarrow> (p1, Inr ())
               | None \<Rightarrow> (p1\<lparr>hp_rrCur := (hp_rrCur p1)(topic \<mapsto> 0)\<rparr>, Inr ())))"

text \<open>\<open>hash/fnv\<close>: the 32-bit FNV-1a hash, exclusive-or first and multiply second.\<close>

definition fnv32a :: "bytes \<Rightarrow> 32 word" where
  "fnv32a bs = foldl (\<lambda>h b. (h XOR ucast b) * 16777619) 2166136261 bs"

definition hashPartition :: "string \<Rightarrow> int \<Rightarrow> int" where
  "hashPartition key n = sint (ucast (fnv32a (bytes_of_string key) mod word_of_int n) :: 32 word)"

text \<open>
  \<open>atomic.AddInt64(ctr, 1) - 1\<close> is the old counter; the remainder has the sign of the dividend, as in Go.
\<close>

definition Assign :: "HashPartitioner \<Rightarrow> string \<Rightarrow> string \<Rightarrow> HashPartitioner \<times> (partition_error, int) result" where
  "Assign p topic key =
     (case hp_topics p topic of
        None \<Rightarrow> (p, Inl NotRegistered)
      | Some cnt \<Rightarrow>
          if key \<noteq> [] then (p, Inr (hashPartition key cnt))
          else let ctr = the (hp_rrCur p topic); ctr' = ctr + 1; idx = sint (ctr' - 1)
               in (p\<lparr>hp_rrCur := (hp_rrCur p)(topic \<mapsto> ctr')\<rparr>, Inr (idx smod cnt)))"

definition TopicPartitionCount :: "HashPartitioner \<Rightarrow> string \<Rightarrow> int" where
  "TopicPartitionCount p topic = (case hp_topics p topic of Some c \<Rightarrow> c | None \<Rightarrow> 0)"

section \<open>Committed offsets\<close>

record OffsetStore =
  os_offsets :: "string \<rightharpoonup> int"

definition NewOffsetStore :: OffsetStore where
  "NewOffsetStore = \<lparr>os_offsets = Map.empty\<rparr>"

definition store_offsetKey :: "string \<Rightarrow> string \<Rightarrow> int \<Rightarrow> string" where
  "store_offsetKey grp topic part = grp @ ''/'' @ topic @ ''/'' @ show_int part"

definition OffsetStore_Commit :: "OffsetStore \<Rightarrow> string \<Rightarrow> string \<Rightarrow> int \<Rightarrow> int \<Rightarrow> OffsetStore" where
  "OffsetStore_Commit s grp topic part offset =
     s\<lparr>os_offsets := (os_offsets s)(store_offsetKey grp topic part \<mapsto> offset)\<rparr>"

definition OffsetStore_Load :: "OffsetStore \<Rightarrow> string \<Rightarrow> string \<Rightarrow> int \<Rightarrow> int" where
  "OffsetStore_Load s grp topic part =
     (case os_offsets s (store_offsetKey grp topic part) of None \<Rightarrow> -1 | Some v \<Rightarrow> v)"

definition OffsetStore_Snapshot :: "OffsetStore \<Rightarrow> (string \<rightharpoonup> int)" where
  "OffsetStore_Snapshot s = os_offsets s"

definition OffsetStore_Restore :: "OffsetStore \<Rightarrow> (string \<rightharpoonup> int) \<Rightarrow> OffsetStore" where
  "OffsetStore_Restore s snapshot = s\<lparr>os_offsets := os_offsets s ++ snapshot\<rparr>"

section \<open>Reachable routers\<close>

datatype router_op = RegisterOp string int | AssignOp string string

definition router_step :: "HashPartitioner \<Rightarrow> router_op \<Rightarrow> HashPartitioner" where
  "router_step p op =
     (case op of
        RegisterOp topic cnt \<Rightarrow> fst (Register p topic cnt)
      | AssignOp topic key \<Rightarrow> fst (Assign p topic key))"

definition router_run :: "router_op list \<Rightarrow> HashPartitioner" where
  "router_run ops = foldl router_step NewHashPartitioner ops"

text \<open>The partition counts an \<open>int32\<close> argument can carry.\<close>

definition int32_op :: "router_op \<Rightarrow> bool" where
  "int32_op op = (case op of RegisterOp _ cnt \<Rightarrow> int32_range cnt | AssignOp _ _ \<Rightarrow> True)"

definition router_inv :: "nat \<Rightarrow> HashPartitioner \<Rightarrow> bool" where
  "router_inv n p \<longleftrightarrow>
     dom (hp_rrCur p) = dom (hp_topics p) \<and>
     (\<forall>t c. hp_topics p t = Some c \<longrightarrow> 0 < c \<and> c < 2 ^ 31) \<and>
     (\<forall>t w. hp_rrCur p t = Some w \<longrightarrow> unat w \<le> n)"

lemma router_inv_new: "router_inv 0 NewHashPartitioner"
  by (simp add: router_inv_def NewHashPartitioner_def)

lemma unat_succ_le: "unat (w :: 64 word) \<le> n \<Longrightarrow> unat (w + 1) \<le> Suc n"
  by (metis Suc_le_mono Suc_eq_plus1 le_trans unat_plus_if' unat_word_ariths(1) mod_less_eq_dividend unat_1 len_num1 one_neq_zero unsigned_1)

lemma router_inv_step:
  assumes "router_inv n p" and "int32_op op"
  shows "router_inv (Suc n) (router_step p op)"
proof (cases op)
  case (RegisterOp topic cnt)
  then show ?thesis
    using assms by (auto simp: router_step_def Register_def router_inv_def Let_def int32_op_def int32_range_def
        split: option.splits if_splits) (auto intro: le_SucI)
next
  case (AssignOp topic key)
  show ?thesis
  proof (cases "hp_topics p topic = None \<or> key \<noteq> []")
    case True
    then show ?thesis
      using assms(1) AssignOp
      by (auto simp: router_step_def Assign_def router_inv_def split: option.splits) (auto intro: le_SucI)
  next
    case False
    then have d: "topic \<in> dom (hp_topics p)" by auto
    then have "topic \<in> dom (hp_rrCur p)" using assms(1) by (simp add: router_inv_def)
    then obtain w where w: "hp_rrCur p topic = Some w" by auto
    then have "unat (w + 1) \<le> Suc n" using assms(1) unat_succ_le by (auto simp: router_inv_def)
    moreover have "router_step p op = p\<lparr>hp_rrCur := (hp_rrCur p)(topic \<mapsto> w + 1)\<rparr>"
      using AssignOp False w d by (auto simp: router_step_def Assign_def Let_def)
    moreover have "unat v \<le> Suc n" if "hp_rrCur p t = Some v" for t v
      using assms(1) that by (auto simp: router_inv_def intro: le_SucI)
    ultimately show ?thesis
      using assms(1) d by (simp add: router_inv_def insert_absorb)
  qed
qed

lemma router_inv_run: "list_all int32_op ops \<Longrightarrow> router_inv (length ops) (router_run ops)"
proof (induction ops rule: rev_induct)
  case Nil
  then show ?case by (simp add: router_run_def router_inv_new)
next
  case (snoc op ops)
  then show ?case using router_inv_step [of "length ops" "router_run ops" op] by (simp add: router_run_def)
qed

lemma hashPartition_range:
  assumes "0 < n" and "n < 2 ^ 31"
  shows "0 \<le> hashPartition key n \<and> hashPartition key n < n"
proof -
  let ?w = "fnv32a (bytes_of_string key) mod word_of_int n"
  have n: "uint (word_of_int n :: 32 word) = n"
    using assms by (simp add: uint_word_of_int take_bit_int_eq_self)
  then have u: "uint ?w = uint (fnv32a (bytes_of_string key)) mod n" by (simp add: uint_mod)
  then have b: "0 \<le> uint ?w" "uint ?w < n" using assms by simp_all
  then have "- (2 ^ 31) \<le> uint ?w" "uint ?w < 2 ^ 31" using assms by linarith+
  then have "sint ?w = uint ?w" unfolding sint_uint by (intro signed_take_bit_int_eq_self) simp_all
  then show ?thesis using b by (simp add: hashPartition_def)
qed

lemma smod_nonneg: "0 \<le> a \<Longrightarrow> 0 < (b :: int) \<Longrightarrow> a smod b = a mod b"
  by (cases "a = 0") (simp_all add: signed_modulo_int_def)

lemma sint_small: "unat (w :: 64 word) < 2 ^ 63 \<Longrightarrow> sint w = int (unat w)"
proof -
  assume "unat w < 2 ^ 63"
  then have "int (unat w) < int (2 ^ 63)" by (simp only: of_nat_less_iff)
  then have u: "uint w < 2 ^ 63" by simp
  moreover have "0 \<le> uint w" by simp
  then have "- (2 ^ 63) \<le> uint w" by (rule order_trans [rotated]) simp
  ultimately have "signed_take_bit 63 (uint w) = uint w" by (intro signed_take_bit_int_eq_self) simp_all
  then show ?thesis by (simp add: sint_uint)
qed

lemma rrCur_registered:
  assumes "router_inv n p" and "hp_topics p topic = Some cnt"
  obtains c where "hp_rrCur p topic = Some c"
proof -
  have "topic \<in> dom (hp_rrCur p)" using assms by (simp add: router_inv_def domI)
  then show ?thesis using that by auto
qed

lemma Assign_keyless:
  assumes "router_inv n p" and "n < 2 ^ 63" and "hp_topics p topic = Some cnt"
  obtains c where "hp_rrCur p topic = Some c" "unat c \<le> n"
    "Assign p topic [] = (p\<lparr>hp_rrCur := (hp_rrCur p)(topic \<mapsto> c + 1)\<rparr>, Inr (int (unat c) mod cnt))"
proof -
  obtain c where c: "hp_rrCur p topic = Some c" using assms(1,3) by (rule rrCur_registered)
  have "unat c \<le> n" "0 < cnt" using assms c by (auto simp: router_inv_def)
  then show ?thesis
    using that [OF c] assms(2,3) c by (simp add: Assign_def sint_small smod_nonneg)
qed

text \<open>C37. Whatever registrations and assignments came before, fewer than \<open>2 ^ 63\<close> of them, the
  router answers for exactly the registered topics, and with a partition that exists.\<close>

theorem Assign_in_range:
  assumes "list_all int32_op ops" and "length ops < 2 ^ 63"
  shows "case snd (Assign (router_run ops) topic key) of
      Inl e \<Rightarrow> TopicPartitionCount (router_run ops) topic = 0
    | Inr part \<Rightarrow> 0 \<le> part \<and> part < TopicPartitionCount (router_run ops) topic"
proof -
  note inv = router_inv_run [OF assms(1)]
  show ?thesis
  proof (cases "hp_topics (router_run ops) topic")
    case None
    then show ?thesis by (simp add: Assign_def TopicPartitionCount_def)
  next
    case (Some cnt)
    then have c: "0 < cnt" "cnt < 2 ^ 31" using inv by (auto simp: router_inv_def)
    show ?thesis
    proof (cases "key = []")
      case True
      obtain w where "Assign (router_run ops) topic [] =
          ((router_run ops)\<lparr>hp_rrCur := (hp_rrCur (router_run ops))(topic \<mapsto> w + 1)\<rparr>, Inr (int (unat w) mod cnt))"
        using Assign_keyless [OF inv assms(2) Some] by metis
      then show ?thesis using True Some c by (simp add: TopicPartitionCount_def)
    next
      case False
      then show ?thesis using Some hashPartition_range [OF c, of key] by (simp add: Assign_def TopicPartitionCount_def)
    qed
  qed
qed

section \<open>Round robin\<close>

fun assign_keyless :: "nat \<Rightarrow> HashPartitioner \<Rightarrow> string \<Rightarrow> int list" where
  "assign_keyless 0 p topic = []"
| "assign_keyless (Suc k) p topic =
     (case Assign p topic [] of (p', Inr part) \<Rightarrow> part # assign_keyless k p' topic | (p', Inl e) \<Rightarrow> [])"

lemma assign_keyless_seq:
  assumes "router_inv n p" and "n + k < 2 ^ 63" and "hp_topics p topic = Some cnt"
    and "hp_rrCur p topic = Some c"
  shows "assign_keyless k p topic = map (\<lambda>i. int (unat c + i) mod cnt) [0..<k]"
  using assms
proof (induction k arbitrary: n p c)
  case (Suc k)
  have c: "unat c \<le> n" using Suc.prems by (auto simp: router_inv_def)
  have a: "Assign p topic [] = (p\<lparr>hp_rrCur := (hp_rrCur p)(topic \<mapsto> c + 1)\<rparr>, Inr (int (unat c) mod cnt))"
    using Assign_keyless [OF Suc.prems(1) _ Suc.prems(3)] Suc.prems(2,4) by auto
  let ?p = "p\<lparr>hp_rrCur := (hp_rrCur p)(topic \<mapsto> c + 1)\<rparr>"
  have i: "router_inv (Suc n) ?p"
    using router_inv_step [OF Suc.prems(1), of "AssignOp topic []"] a by (simp add: router_step_def int32_op_def)
  have "unat (c + 1) = unat c + 1" using c Suc.prems(2) by (simp add: unat_word_ariths)
  then have "assign_keyless k ?p topic = map (\<lambda>i. int (unat c + Suc i) mod cnt) [0..<k]"
    using Suc.IH [OF i, of "c + 1"] Suc.prems by simp
  then show ?case using a by (simp add: upt_conv_Cons map_Suc_upt [symmetric] comp_def add_ac del: upt_Suc)
qed simp

lemma residues_once:
  assumes "0 < m"
  shows "mset (map (\<lambda>i. int (c + i) mod int m) [0..<m]) = mset (map int [0..<m])"
proof -
  have inj: "inj_on (\<lambda>i. int (c + i) mod int m) {0..<m}"
  proof (rule inj_onI)
    fix i j assume ij: "i \<in> {0..<m}" "j \<in> {0..<m}" "int (c + i) mod int m = int (c + j) mod int m"
    then have "int m dvd int i - int j" by (simp add: mod_eq_dvd_iff)
    then show "i = j" using ij(1,2) zdvd_imp_le [of "int m" "int i - int j"] zdvd_imp_le [of "int m" "int j - int i"]
      by (cases i j rule: linorder_cases) (auto simp: dvd_diff_commute)
  qed
  have "set (map (\<lambda>i. int (c + i) mod int m) [0..<m]) \<subseteq> set (map int [0..<m])"
  proof
    fix x assume "x \<in> set (map (\<lambda>i. int (c + i) mod int m) [0..<m])"
    then obtain i where "x = int ((c + i) mod m)" by (auto simp: of_nat_mod)
    then show "x \<in> set (map int [0..<m])" using assms by simp
  qed
  moreover have "card (set (map (\<lambda>i. int (c + i) mod int m) [0..<m])) = card (set (map int [0..<m]))"
    using inj by (simp add: card_image)
  ultimately have "set (map (\<lambda>i. int (c + i) mod int m) [0..<m]) = set (map int [0..<m])"
    by (intro card_subset_eq) simp_all
  then show ?thesis using inj by (intro set_eq_iff_mset_eq_distinct [THEN iffD1]) (simp_all add: distinct_map)
qed

lemma residues_fair:
  assumes "p < m"
  shows "count_list (map (\<lambda>i. int (c + i) mod int m) [0..<k * m]) (int p) = k"
proof (induction k arbitrary: c)
  case (Suc k)
  have "[0..<Suc k * m] = [0..<m] @ map (\<lambda>i. i + m) [0..<k * m]"
    by (metis add.commute map_add_upt mult_Suc upt_add_eq_append zero_le)
  then have "count_list (map (\<lambda>i. int (c + i) mod int m) [0..<Suc k * m]) (int p) =
      count_list (map (\<lambda>i. int (c + i) mod int m) [0..<m]) (int p) +
      count_list (map (\<lambda>i. int ((c + m) + i) mod int m) [0..<k * m]) (int p)"
    by (simp add: comp_def add_ac del: upt_Suc)
  moreover have "count_list (map (\<lambda>i. int (c + i) mod int m) [0..<m]) (int p) = 1"
  proof -
    have "count (mset (map int [0..<m])) (int p) = 1"
      using assms by (intro distinct_count_atmost_1 [THEN iffD1, rule_format, THEN trans]) (simp_all add: distinct_map)
    then have "count (mset (map (\<lambda>i. int (c + i) mod int m) [0..<m])) (int p) = 1"
      using residues_once [of m c] assms by (simp only:)
    then show ?thesis by (simp only: count_mset)
  qed
  ultimately show ?case using Suc [of "c + m"] by simp
qed simp

text \<open>C33. Keyless messages are spread evenly: of any \<open>k * count\<close> keyless messages of a topic sent one
  after the other, every partition of the topic receives exactly \<open>k\<close>.\<close>

theorem round_robin_fair:
  assumes "list_all int32_op ops" and "length ops + k * nat cnt < 2 ^ 63"
    and "TopicPartitionCount (router_run ops) topic = cnt" and "0 \<le> part" and "part < cnt"
  shows "count_list (assign_keyless (k * nat cnt) (router_run ops) topic) part = k"
proof -
  note inv = router_inv_run [OF assms(1)]
  have t: "hp_topics (router_run ops) topic = Some cnt"
    using assms(3-5) by (auto simp: TopicPartitionCount_def split: option.splits)
  obtain c where c: "hp_rrCur (router_run ops) topic = Some c" using inv t by (rule rrCur_registered)
  show ?thesis
    using assign_keyless_seq [OF inv assms(2) t c] residues_fair [of "nat part" "nat cnt" "unat c" k] assms(4,5)
    by simp
qed

lemma Assign_keyed_stable:
  assumes "key \<noteq> []" and "TopicPartitionCount p topic = TopicPartitionCount q topic"
    and "router_inv n p" and "router_inv m q"
  shows "snd (Assign p topic key) = snd (Assign q topic key)"
  using assms by (auto simp: Assign_def TopicPartitionCount_def router_inv_def split: option.splits)

section \<open>Offset store\<close>

lemma store_key_eq: "store_offsetKey = offsetKey"
  by (simp add: store_offsetKey_def offsetKey_def fun_eq_iff)

lemma Load_Commit_same [simp]: "OffsetStore_Load (OffsetStore_Commit s g t p off) g t p = off"
  by (simp add: OffsetStore_Load_def OffsetStore_Commit_def)

lemma Load_Restore_new: "OffsetStore_Load (OffsetStore_Restore NewOffsetStore snap) g t p =
    (case snap (offsetKey g t p) of None \<Rightarrow> -1 | Some v \<Rightarrow> v)"
  by (simp add: OffsetStore_Load_def OffsetStore_Restore_def NewOffsetStore_def store_key_eq)

lemma Restore_Snapshot: "OffsetStore_Restore NewOffsetStore (OffsetStore_Snapshot s) = s"
  by (simp add: OffsetStore_Restore_def NewOffsetStore_def OffsetStore_Snapshot_def)

section \<open>Witnesses\<close>

definition sample_router_ops :: "router_op list" where
  "sample_router_ops = [RegisterOp ''t'' 3, AssignOp ''t'' [], AssignOp ''t'' ''k'', RegisterOp ''u'' 2]"

lemma sample_router_ok: "list_all int32_op sample_router_ops" "length sample_router_ops = 4"
  "TopicPartitionCount (router_run sample_router_ops) ''t'' = 3"
  by (simp_all add: sample_router_ops_def int32_op_def int32_range_def router_run_def router_step_def
      Register_def Assign_def NewHashPartitioner_def TopicPartitionCount_def)

theorem Assign_in_range_witness:
  "case snd (Assign (router_run sample_router_ops) ''t'' ''order-1'') of
     Inl e \<Rightarrow> False | Inr part \<Rightarrow> 0 \<le> part \<and> part < 3"
  using Assign_in_range [OF sample_router_ok(1), of "''t''" "''order-1''"] sample_router_ok(2,3)
  by (auto split: sum.splits)

theorem round_robin_fair_witness:
  "count_list (assign_keyless 6 (router_run sample_router_ops) ''t'') 2 = 2"
  using round_robin_fair [OF sample_router_ok(1) _ sample_router_ok(3), of 2 2] sample_router_ok(2) by simp

end
