(* ===== verification/Group_Manager.thy ===== *)
theory Group_Manager
  imports Consumer_Groups Partitioning Partition_Log
begin

text \<open>
  The registry of consumer groups (\<open>Manager\<close> of \<open>internal/consumer/consumer.go\<close>): subscription,
  dispatch to every group of a topic, offset commits, and the long poll that hands a group the messages
  after its committed offset. The committed offsets and the dead-letter queue are shared by all groups.
\<close>

section \<open>The registry\<close>

record GroupManager =
  gm_groups :: "(string \<times> Group) list"
  gm_offsets :: OffsetStore
  gm_dlq :: DeadLetterQueue
  gm_maxRetries :: int
  gm_bufferSize :: nat

definition NewManager :: "OffsetStore \<Rightarrow> DeadLetterQueue \<Rightarrow> int \<Rightarrow> nat \<Rightarrow> GroupManager" where
  "NewManager offsets dlq maxRetries bufferSize =
     \<lparr>gm_groups = [], gm_offsets = offsets, gm_dlq = dlq, gm_maxRetries = maxRetries, gm_bufferSize = bufferSize\<rparr>"

definition validGroupName :: "string \<Rightarrow> bool" where
  "validGroupName s = name_pattern s"

definition groupKey :: "string \<Rightarrow> string \<Rightarrow> string" where
  "groupKey grp topic = grp @ ''/'' @ topic"

text \<open>\<open>groupTopic\<close> scans from the end for a slash.\<close>

definition groupTopic :: "string \<Rightarrow> string" where
  "groupTopic key = rev (takeWhile (\<lambda>c. c \<noteq> CHR ''/'') (rev key))"

definition set_group :: "string \<Rightarrow> Group \<Rightarrow> (string \<times> Group) list \<Rightarrow> (string \<times> Group) list" where
  "set_group key g gs =
     (if key \<in> fst ` set gs then map (\<lambda>(k, h). if k = key then (k, g) else (k, h)) gs else gs @ [(key, g)])"

datatype subscribe_error = InvalidGroupName | JoinFailed group_error

definition Subscribe ::
  "int \<Rightarrow> GroupManager \<Rightarrow> string \<Rightarrow> string \<Rightarrow> string \<Rightarrow> string \<Rightarrow> int \<Rightarrow>
   GroupManager \<times> (subscribe_error, nat) result" where
  "Subscribe now m groupID consumerID clientID topic partCount =
     (if \<not> validGroupName groupID then (m, Inl InvalidGroupName)
      else let key = groupKey groupID topic;
               g = (case map_of (gm_groups m) key of
                      Some g \<Rightarrow> g | None \<Rightarrow> NewGroup groupID topic partCount (gm_maxRetries m))
           in case Join now g consumerID clientID (gm_bufferSize m) of
                (g', Inl e) \<Rightarrow> (m\<lparr>gm_groups := set_group key g' (gm_groups m)\<rparr>, Inl (JoinFailed e))
              | (g', Inr ptr) \<Rightarrow> (m\<lparr>gm_groups := set_group key g' (gm_groups m)\<rparr>, Inr ptr))"

definition Unsubscribe :: "int \<Rightarrow> GroupManager \<Rightarrow> string \<Rightarrow> string \<Rightarrow> string \<Rightarrow> GroupManager" where
  "Unsubscribe now m groupID consumerID topic =
     (let key = groupKey groupID topic
      in case map_of (gm_groups m) key of
           None \<Rightarrow> m
         | Some g \<Rightarrow> m\<lparr>gm_groups := set_group key (Leave now g consumerID) (gm_groups m)\<rparr>)"

text \<open>
  \<open>Dispatch\<close> goes through the groups one after the other; \<open>env key\<close> is what happens to the group under
  that key while its dispatch sleeps. A panic ends the loop.
\<close>

fun dispatch_groups ::
  "int \<Rightarrow> (string \<Rightarrow> nat \<Rightarrow> group_op list) \<Rightarrow> Message \<Rightarrow> (string \<times> Group) list \<Rightarrow> DeadLetterQueue \<Rightarrow>
   (string \<times> Group) list \<times> DeadLetterQueue \<times> bool" where
  "dispatch_groups now env msg [] dlq = ([], dlq, True)"
| "dispatch_groups now env msg ((key, g) # gs) dlq =
     (if groupTopic key = m_Topic msg
      then case Group_Dispatch now (env key) g (Some dlq) msg of
             (g', dlq', SendOnClosed) \<Rightarrow> ((key, g') # gs, the dlq', False)
           | (g', dlq', _) \<Rightarrow>
               (let (gs', dlq'', ok) = dispatch_groups now env msg gs (the dlq') in ((key, g') # gs', dlq'', ok))
      else let (gs', dlq', ok) = dispatch_groups now env msg gs dlq in ((key, g) # gs', dlq', ok))"

definition Manager_Dispatch ::
  "int \<Rightarrow> (string \<Rightarrow> nat \<Rightarrow> group_op list) \<Rightarrow> GroupManager \<Rightarrow> Message \<Rightarrow> GroupManager \<times> bool" where
  "Manager_Dispatch now env m msg =
     (let (gs, dlq, ok) = dispatch_groups now env msg (gm_groups m) (gm_dlq m)
      in (m\<lparr>gm_groups := gs, gm_dlq := dlq\<rparr>, ok))"

definition DispatchToGroup ::
  "int \<Rightarrow> (nat \<Rightarrow> group_op list) \<Rightarrow> GroupManager \<Rightarrow> string \<Rightarrow> string \<Rightarrow> int \<Rightarrow> Message option \<Rightarrow>
   GroupManager \<times> bool" where
  "DispatchToGroup now env m groupID topic part msg =
     (case msg of
        None \<Rightarrow> (m, True)
      | Some mg \<Rightarrow>
          let mg' = mg\<lparr>m_Partition := part\<rparr>; key = groupKey groupID topic
          in case map_of (gm_groups m) key of
               None \<Rightarrow> (m, True)
             | Some g \<Rightarrow>
                 let (g', dlq', r) = Group_Dispatch now env g (Some (gm_dlq m)) mg'
                 in (m\<lparr>gm_groups := set_group key g' (gm_groups m), gm_dlq := the dlq'\<rparr>, r \<noteq> SendOnClosed))"

datatype commit_error = GroupNotFound | ConsumerNotInGroup

definition Group_CommitOffset ::
  "OffsetStore \<Rightarrow> Group \<Rightarrow> string \<Rightarrow> int \<Rightarrow> int \<Rightarrow> OffsetStore \<times> (commit_error, unit) result" where
  "Group_CommitOffset s g consumerID part offset =
     (case map_of (g_consumers g) consumerID of
        None \<Rightarrow> (s, Inl ConsumerNotInGroup)
      | Some _ \<Rightarrow> (OffsetStore_Commit s (g_id g) (g_topic g) part offset, Inr ()))"

definition Manager_CommitOffset ::
  "GroupManager \<Rightarrow> string \<Rightarrow> string \<Rightarrow> string \<Rightarrow> int \<Rightarrow> int \<Rightarrow> GroupManager \<times> (commit_error, unit) result" where
  "Manager_CommitOffset m groupID consumerID topic part offset =
     (case map_of (gm_groups m) (groupKey groupID topic) of
        None \<Rightarrow> (m, Inl GroupNotFound)
      | Some g \<Rightarrow>
          let (s, r) = Group_CommitOffset (gm_offsets m) g consumerID part offset
          in (m\<lparr>gm_offsets := s\<rparr>, r))"

definition Group_Offset :: "OffsetStore \<Rightarrow> Group \<Rightarrow> int \<Rightarrow> int" where
  "Group_Offset s g part = OffsetStore_Load s (g_id g) (g_topic g) part"

definition HasCommittedOffset :: "GroupManager \<Rightarrow> string \<Rightarrow> string \<Rightarrow> int \<Rightarrow> bool" where
  "HasCommittedOffset m groupID topic part \<longleftrightarrow> OffsetStore_Load (gm_offsets m) groupID topic part \<ge> 0"

definition GroupOffset :: "GroupManager \<Rightarrow> string \<Rightarrow> string \<Rightarrow> int \<Rightarrow> int" where
  "GroupOffset m groupID topic part = OffsetStore_Load (gm_offsets m) groupID topic part"

definition SeekGroupOffset :: "GroupManager \<Rightarrow> string \<Rightarrow> string \<Rightarrow> int \<Rightarrow> int \<Rightarrow> GroupManager" where
  "SeekGroupOffset m groupID topic part offset =
     m\<lparr>gm_offsets := OffsetStore_Commit (gm_offsets m) groupID topic part offset\<rparr>"

text \<open>The first unread offset, as both \<open>ReplayGroup\<close> and \<open>PollPartitionLog\<close> compute it, in 64 bits.\<close>

definition start_offset :: "GroupManager \<Rightarrow> string \<Rightarrow> string \<Rightarrow> int \<Rightarrow> int" where
  "start_offset m groupID topic part =
     (case map_of (gm_groups m) (groupKey groupID topic) of
        Some g \<Rightarrow> let off = Group_Offset (gm_offsets m) g part in if off < 0 then 0 else int64_of (off + 1)
      | None \<Rightarrow> let committed = OffsetStore_Load (gm_offsets m) groupID topic part
                in if committed \<ge> 0 then int64_of (committed + 1) else 0)"

definition ReplayGroup ::
  "flate_lib \<Rightarrow> GroupManager \<Rightarrow> string \<Rightarrow> string \<Rightarrow> int \<Rightarrow> PartitionLog \<Rightarrow> int \<Rightarrow> (segment_error, Message list) result" where
  "ReplayGroup lib m groupID topic part pl batchSize =
     PartitionLog_Read lib pl (start_offset m groupID topic part) batchSize"

datatype poll_error = ReadError segment_error | ContextDone

text \<open>
  The polling loop may run forever. \<open>logs k\<close> is the partition log at the \<open>k\<close>-th read and \<open>cancelled k\<close>
  says that the \<open>k\<close>-th wait ends by the context rather than by an append or the timer.
\<close>

partial_function (option) poll_loop ::
  "flate_lib \<Rightarrow> (nat \<Rightarrow> PartitionLog) \<Rightarrow> (nat \<Rightarrow> bool) \<Rightarrow> int \<Rightarrow> int \<Rightarrow> nat \<Rightarrow> (poll_error, Message list) result option" where
  "poll_loop lib logs cancelled startOff batchSize k =
     (case PartitionLog_Read lib (logs k) startOff batchSize of
        Inl e \<Rightarrow> Some (Inl (ReadError e))
      | Inr msgs \<Rightarrow>
          if msgs \<noteq> [] then Some (Inr msgs)
          else if cancelled k then Some (Inl ContextDone)
          else poll_loop lib logs cancelled startOff batchSize (k + 1))"

definition PollPartitionLog ::
  "flate_lib \<Rightarrow> (nat \<Rightarrow> PartitionLog) \<Rightarrow> (nat \<Rightarrow> bool) \<Rightarrow> GroupManager \<Rightarrow> string \<Rightarrow> string \<Rightarrow> int \<Rightarrow> int \<Rightarrow>
   (poll_error, Message list) result option" where
  "PollPartitionLog lib logs cancelled m groupID topic part batchSize =
     poll_loop lib logs cancelled (start_offset m groupID topic part) batchSize 0"

section \<open>Reports\<close>

record ConsumerMember =
  cm_ConsumerID :: string
  cm_Partitions :: "int list"
  cm_PushMode :: bool

record GroupPartitionDetail =
  pd_Partition :: int
  pd_CommittedOffset :: int
  pd_CurrentOffset :: int
  pd_Lag :: int

record GroupDetail =
  gd_Group :: string
  gd_Topic :: string
  gd_Members :: "ConsumerMember list"
  gd_LastRebalanceAt :: int
  gd_MaxRetries :: int
  gd_FailedMessageCount :: int
  gd_Partitions :: "GroupPartitionDetail list"

definition partition_detail ::
  "GroupManager \<Rightarrow> string \<Rightarrow> string \<Rightarrow> (string \<Rightarrow> int \<Rightarrow> int) \<Rightarrow> int \<Rightarrow> GroupPartitionDetail" where
  "partition_detail m groupID topic logHead i =
     (let committed = OffsetStore_Load (gm_offsets m) groupID topic i;
          current = logHead topic i;
          lag = current - committed
      in \<lparr>pd_Partition = i, pd_CommittedOffset = committed, pd_CurrentOffset = current,
          pd_Lag = (if lag < 0 then 0 else lag)\<rparr>)"

definition GetGroupDetail ::
  "GroupManager \<Rightarrow> string \<Rightarrow> string \<Rightarrow> (string \<Rightarrow> int \<Rightarrow> int) \<Rightarrow> GroupDetail option" where
  "GetGroupDetail m groupID topic logHead =
     (case map_of (gm_groups m) (groupKey groupID topic) of
        None \<Rightarrow> None
      | Some g \<Rightarrow> Some
          \<lparr>gd_Group = groupID, gd_Topic = topic,
           gd_Members = map (\<lambda>(_, ptr). let c = g_heap g ! ptr in
             \<lparr>cm_ConsumerID = c_ID c, cm_Partitions = c_assignments c, cm_PushMode = c_sink c\<rparr>) (g_consumers g),
           gd_LastRebalanceAt = g_LastRebalanceAt g, gd_MaxRetries = g_maxRetries g,
           gd_FailedMessageCount = int (length (DLQ_Entries (gm_dlq m) groupID topic 0)),
           gd_Partitions = map (partition_detail m groupID topic logHead) [0..g_partCount g - 1]\<rparr>)"

record GroupSummary =
  gs_Group :: string
  gs_Topic :: string
  gs_ActiveConsumers :: nat
  gs_CommittedOffsets :: "(int \<times> int) list"
  gs_LastRebalanceAt :: int

definition ListGroups :: "GroupManager \<Rightarrow> GroupSummary list" where
  "ListGroups m = map (\<lambda>(_, g).
     \<lparr>gs_Group = g_id g, gs_Topic = g_topic g, gs_ActiveConsumers = length (g_consumers g),
      gs_CommittedOffsets =
        map (\<lambda>i. (i, OffsetStore_Load (gm_offsets m) (g_id g) (g_topic g) i)) [0..g_partCount g - 1],
      gs_LastRebalanceAt = g_LastRebalanceAt g\<rparr>) (gm_groups m)"

section \<open>Keys\<close>

lemma groupKey_inj:
  assumes "CHR ''/'' \<notin> set g" and "CHR ''/'' \<notin> set g'" and "groupKey g t = groupKey g' t'"
  shows "g = g' \<and> t = t'"
proof -
  have e: "g @ CHR ''/'' # t = g' @ CHR ''/'' # t'" using assms(3) by (simp add: groupKey_def)
  have "takeWhile (\<lambda>c. c \<noteq> CHR ''/'') (g @ CHR ''/'' # t) = g"
    "takeWhile (\<lambda>c. c \<noteq> CHR ''/'') (g' @ CHR ''/'' # t') = g'"
    using assms(1,2) by (auto simp: takeWhile_append)
  then have "g = g'" using e by simp
  then show ?thesis using e by simp
qed

lemma groupTopic_groupKey: "CHR ''/'' \<notin> set t \<Longrightarrow> groupTopic (groupKey g t) = t"
  by (simp add: groupTopic_def groupKey_def takeWhile_append)

section \<open>The registry invariant\<close>

definition manager_inv :: "GroupManager \<Rightarrow> bool" where
  "manager_inv m \<longleftrightarrow>
     distinct (map fst (gm_groups m)) \<and>
     (\<forall>(key, g) \<in> set (gm_groups m). key = groupKey (g_id g) (g_topic g) \<and> CHR ''/'' \<notin> set (g_id g) \<and> group_inv g) \<and>
     dlq_inv (gm_dlq m)"

lemma set_group_keys: "set (map fst (set_group key g gs)) = insert key (set (map fst gs))"
  by (force simp: set_group_def)

lemma set_group_distinct: "distinct (map fst gs) \<Longrightarrow> distinct (map fst (set_group key g gs))"
proof -
  have "fst \<circ> (\<lambda>(k, h). if k = key then (k, g) else (k, h)) = fst" by (simp add: fun_eq_iff)
  then have "map fst (map (\<lambda>(k, h). if k = key then (k, g) else (k, h)) gs) = map fst gs" by (simp only: map_map)
  then show "distinct (map fst gs) \<Longrightarrow> distinct (map fst (set_group key g gs))"
    by (cases "key \<in> fst ` set gs") (simp_all only: set_group_def if_True if_False, simp)
qed

lemma set_group_mem: "(k, h) \<in> set (set_group key g gs) \<Longrightarrow> (k, h) = (key, g) \<or> (k, h) \<in> set gs"
  by (auto simp: set_group_def split: if_splits)

lemma manager_inv_set_group:
  assumes "manager_inv m" and "group_inv g" and "key = groupKey (g_id g) (g_topic g)" and "CHR ''/'' \<notin> set (g_id g)"
  shows "manager_inv (m\<lparr>gm_groups := set_group key g (gm_groups m)\<rparr>)"
  using assms by (auto simp: manager_inv_def set_group_distinct dest!: set_group_mem)

lemma manager_inv_new: "dlq_inv q \<Longrightarrow> manager_inv (NewManager s q r b)"
  by (simp add: manager_inv_def NewManager_def)

lemma group_step_names: "g_id (group_step g op) = g_id g \<and> g_topic (group_step g op) = g_topic g"
  by (cases op)
    (simp_all add: group_step_def deliver_at_at_ptr at_ptr_def Join_def Leave_def Let_def split: option.splits)

lemma Join_names: "g_id (fst (Join now g c l b)) = g_id g \<and> g_topic (fst (Join now g c l b)) = g_topic g"
  using group_step_names [of g "JoinOp now c l b"] by (simp add: group_step_def)

lemma Leave_names: "g_id (Leave now g c) = g_id g \<and> g_topic (Leave now g c) = g_topic g"
  using group_step_names [of g "LeaveOp now c"] by (simp add: group_step_def)

lemma manager_inv_Subscribe:
  assumes "manager_inv m"
  shows "manager_inv (fst (Subscribe now m grp cid cl topic n))"
proof (cases "validGroupName grp")
  case True
  let ?g = "case map_of (gm_groups m) (groupKey grp topic) of
    Some g \<Rightarrow> g | None \<Rightarrow> NewGroup grp topic n (gm_maxRetries m)"
  have slash: "CHR ''/'' \<notin> set grp" using True name_pattern_no_slash by (simp add: validGroupName_def)
  have g: "group_inv ?g" "groupKey grp topic = groupKey (g_id ?g) (g_topic ?g)" "CHR ''/'' \<notin> set (g_id ?g)"
    using assms slash
    by (auto simp: manager_inv_def group_inv_new dest!: map_of_SomeD split: option.split)
      (simp_all add: NewGroup_def)
  have "manager_inv (m\<lparr>gm_groups := set_group (groupKey grp topic) (fst (Join now ?g cid cl (gm_bufferSize m))) (gm_groups m)\<rparr>)"
    using g Join_names [of now ?g] group_inv_Join [OF g(1)] by (intro manager_inv_set_group [OF assms]) simp_all
  moreover obtain g' r where "Join now ?g cid cl (gm_bufferSize m) = (g', r)"
    by (cases "Join now ?g cid cl (gm_bufferSize m)")
  ultimately show ?thesis using True by (cases r) (simp_all add: Subscribe_def Let_def)
qed (simp add: Subscribe_def assms)

lemma manager_inv_Unsubscribe:
  assumes "manager_inv m"
  shows "manager_inv (Unsubscribe now m grp cid topic)"
proof (cases "map_of (gm_groups m) (groupKey grp topic)")
  case (Some g)
  then have g: "group_inv g" "groupKey grp topic = groupKey (g_id g) (g_topic g)" "CHR ''/'' \<notin> set (g_id g)"
    using assms by (auto simp: manager_inv_def dest!: map_of_SomeD)
  then have "manager_inv (m\<lparr>gm_groups := set_group (groupKey grp topic) (Leave now g cid) (gm_groups m)\<rparr>)"
    using Leave_names [of now g] by (intro manager_inv_set_group [OF assms] group_inv_Leave) simp_all
  then show ?thesis using Some by (simp add: Unsubscribe_def)
qed (simp add: Unsubscribe_def assms)

lemma found_group:
  assumes "manager_inv m" and "CHR ''/'' \<notin> set grp" and "map_of (gm_groups m) (groupKey grp topic) = Some g"
  shows "g_id g = grp \<and> g_topic g = topic"
proof -
  have "groupKey grp topic = groupKey (g_id g) (g_topic g)" "CHR ''/'' \<notin> set (g_id g)"
    using assms(1) map_of_SomeD [OF assms(3)] by (auto simp: manager_inv_def)
  from groupKey_inj [OF assms(2) this(2,1)] show ?thesis by simp
qed

lemma start_offset_eq:
  assumes "manager_inv m" and "CHR ''/'' \<notin> set grp"
  shows "start_offset m grp topic part =
    (if HasCommittedOffset m grp topic part then int64_of (GroupOffset m grp topic part + 1) else 0)"
proof (cases "map_of (gm_groups m) (groupKey grp topic)")
  case None
  then show ?thesis by (simp add: start_offset_def HasCommittedOffset_def GroupOffset_def)
next
  case (Some g)
  then show ?thesis
    using found_group [OF assms Some]
    by (simp add: start_offset_def Group_Offset_def HasCommittedOffset_def GroupOffset_def)
qed

text \<open>A committed offset of the largest 64-bit value makes the group start over.\<close>

lemma max_offset_starts_over:
  assumes "manager_inv m" and "CHR ''/'' \<notin> set grp" and "GroupOffset m grp topic part = 2 ^ 63 - 1"
    and "pl_holds pl es" and "list_all (\<lambda>e. 0 \<le> e_off e) es"
  shows "ReplayGroup lib m grp topic part pl batch = Inr (take (nat batch) (map e_msg es))"
proof -
  have "HasCommittedOffset m grp topic part" using assms(3) by (simp add: HasCommittedOffset_def GroupOffset_def)
  then have "start_offset m grp topic part = - (2 ^ 63)"
    using start_offset_eq [OF assms(1,2)] assms(3) int64_of_max by simp
  moreover have "entries_from (- (2 ^ 63)) es = map e_msg es"
    using assms(5) by (auto simp: entries_from_def list_all_iff intro!: arg_cong [of _ _ "map e_msg"] filter_True)
  ultimately show ?thesis using pl_log.read_law [OF assms(4)] by (simp add: ReplayGroup_def)
qed

section \<open>Polling\<close>

lemma poll_loop_first:
  assumes "\<And>i. k \<le> i \<Longrightarrow> i < n \<Longrightarrow> PartitionLog_Read lib (logs i) start batch = Inr [] \<and> \<not> cancelled i"
    and "k \<le> n" and "PartitionLog_Read lib (logs n) start batch = Inr msgs" and "msgs \<noteq> []"
  shows "poll_loop lib logs cancelled start batch k = Some (Inr msgs)"
  using assms
proof (induction "n - k" arbitrary: k)
  case 0
  then show ?case by (subst poll_loop.simps) simp
next
  case (Suc d)
  then have k: "k < n" by simp
  have "poll_loop lib logs cancelled start batch k = poll_loop lib logs cancelled start batch (k + 1)"
    using Suc.prems(1) [of k] k by (subst poll_loop.simps) simp
  also have "\<dots> = Some (Inr msgs)" using Suc.hyps(1) [of "k + 1"] Suc k by simp
  finally show ?case .
qed

lemma poll_loop_cancel:
  assumes "\<And>i. k \<le> i \<Longrightarrow> i \<le> n \<Longrightarrow> PartitionLog_Read lib (logs i) start batch = Inr []"
    and "\<And>i. k \<le> i \<Longrightarrow> i < n \<Longrightarrow> \<not> cancelled i" and "k \<le> n" and "cancelled n"
  shows "poll_loop lib logs cancelled start batch k = Some (Inl ContextDone)"
  using assms
proof (induction "n - k" arbitrary: k)
  case 0
  then show ?case by (subst poll_loop.simps) simp
next
  case (Suc d)
  then have k: "k < n" by simp
  have "poll_loop lib logs cancelled start batch k = poll_loop lib logs cancelled start batch (k + 1)"
    using Suc.prems(1) [of k] Suc.prems(2) [of k] k by (subst poll_loop.simps) simp
  also have "\<dots> = Some (Inl ContextDone)" using Suc.hyps(1) [of "k + 1"] Suc k by simp
  finally show ?case .
qed

text \<open>C20. The long poll on logs of uncompressed messages ends: let its start be the offset after the committed one, in
  64-bit arithmetic, or 0 without a commit. If at some read the log holds a message from the start on, or the
  context is cancelled at some wait, the poll returns. It returns at the first such moment, with the first
  messages from the start on, as many as the batch size allows, or with the context error. After a committed
  offset of \<open>2 ^ 63 - 1\<close> the start wraps to \<open>- (2 ^ 63)\<close>, and the poll delivers from the beginning of the log.\<close>

theorem poll_terminates:
  assumes "manager_inv m" and "CHR ''/'' \<notin> set grp" and "\<forall>k. pl_holds (logs k) (es k)" and "0 < batch"
    and "start = (if HasCommittedOffset m grp topic part then int64_of (GroupOffset m grp topic part + 1) else 0)"
    and "\<exists>k. entries_from start (es k) \<noteq> [] \<or> cancelled k"
  shows "\<exists>k. (\<forall>i<k. entries_from start (es i) = [] \<and> \<not> cancelled i) \<and>
    (entries_from start (es k) \<noteq> [] \<or> cancelled k) \<and>
    PollPartitionLog lib logs cancelled m grp topic part batch = Some
      (if entries_from start (es k) \<noteq> [] then Inr (take (nat batch) (entries_from start (es k))) else Inl ContextDone)"
proof -
  define k where "k = (LEAST k. entries_from start (es k) \<noteq> [] \<or> cancelled k)"
  have k: "entries_from start (es k) \<noteq> [] \<or> cancelled k" unfolding k_def using assms(6) by (rule LeastI_ex)
  have before: "entries_from start (es i) = [] \<and> \<not> cancelled i" if "i < k" for i
    using not_less_Least [OF that [unfolded k_def]] by simp
  have read: "PartitionLog_Read lib (logs i) start batch = Inr (take (nat batch) (entries_from start (es i)))" for i
    using pl_log.read_law assms(3) by blast
  have poll: "PollPartitionLog lib logs cancelled m grp topic part batch = poll_loop lib logs cancelled start batch 0"
    using start_offset_eq [OF assms(1,2)] assms(5) by (simp add: PollPartitionLog_def)
  have "poll_loop lib logs cancelled start batch 0 = Some
      (if entries_from start (es k) \<noteq> [] then Inr (take (nat batch) (entries_from start (es k))) else Inl ContextDone)"
  proof (cases "entries_from start (es k) = []")
    case True
    have "poll_loop lib logs cancelled start batch 0 = Some (Inl ContextDone)"
    proof (rule poll_loop_cancel)
      show "PartitionLog_Read lib (logs i) start batch = Inr []" if "i \<le> k" for i
        using read [of i] before [of i] True that by (cases "i = k") simp_all
    qed (use before k True in auto)
    then show ?thesis using True by simp
  next
    case False
    have "poll_loop lib logs cancelled start batch 0 = Some (Inr (take (nat batch) (entries_from start (es k))))"
      using read before False assms(4) by (intro poll_loop_first [of 0 k]) simp_all
    then show ?thesis using False by simp
  qed
  then show ?thesis using before poll k by metis
qed

section \<open>Witnesses\<close>

definition sample_manager :: GroupManager where
  "sample_manager = SeekGroupOffset (NewManager NewOffsetStore (NewDLQ 5) 2 1) ''g'' ''t'' 0 0"

lemma sample_manager_ok: "manager_inv sample_manager" "GroupOffset sample_manager ''g'' ''t'' 0 = 0"
  "HasCommittedOffset sample_manager ''g'' ''t'' 0"
  by (simp_all add: sample_manager_def SeekGroupOffset_def NewManager_def manager_inv_def dlq_inv_new
      GroupOffset_def HasCommittedOffset_def)

text \<open>The first read sees one message, which is committed; the second sees the next one and returns it.\<close>

theorem poll_terminates_witness:
  "PollPartitionLog sample_lib (\<lambda>k. if k = 0 then sample_pl0 else sample_pl2) (\<lambda>_. False) sample_manager ''g'' ''t'' 0 10 =
     Some (Inr [sample_Message\<lparr>m_Offset := 1\<rparr>])"
proof -
  let ?es = "\<lambda>k :: nat. if k = 0 then [] else [sample_entry, sample_entry1]"
  have h: "\<forall>k. pl_holds (if k = 0 then sample_pl0 else sample_pl2) (?es k)"
    using sample_pl0_inv sample_pl2_holds by (auto simp: pl_holds_def)
  have s: "1 = (if HasCommittedOffset sample_manager ''g'' ''t'' 0 then int64_of (GroupOffset sample_manager ''g'' ''t'' 0 + 1) else 0)"
    by (simp add: sample_manager_ok int64_of_def)
  have e: "entries_from 1 (?es k) = (if k = 0 then [] else [sample_Message\<lparr>m_Offset := 1\<rparr>])" for k
    by (simp add: entries_from_def sample_entry_def sample_entry1_def e_off_def e_msg_def)
  have ex: "\<exists>k. entries_from 1 (?es k) \<noteq> [] \<or> False" unfolding e by auto
  obtain k where k: "entries_from 1 (?es k) \<noteq> [] \<or> False"
    "PollPartitionLog sample_lib (\<lambda>k. if k = 0 then sample_pl0 else sample_pl2) (\<lambda>_. False) sample_manager ''g'' ''t'' 0 10 =
      Some (if entries_from 1 (?es k) \<noteq> [] then Inr (take (nat 10) (entries_from 1 (?es k))) else Inl ContextDone)"
    using poll_terminates [OF sample_manager_ok(1) _ h _ s ex, of 10 sample_lib] by auto
  then have "k \<noteq> 0" unfolding e by (auto split: if_splits)
  then have "entries_from 1 (?es k) = [sample_Message\<lparr>m_Offset := 1\<rparr>]" unfolding e by simp
  then show ?thesis using k(2) by simp
qed

end
