(* ===== verification/Topics.thy ===== *)
theory Topics
  imports Partition_Log Partitioning
begin

text \<open>
  Topics and their manager, \<^verbatim>\<open>src/internal/topic/manager.go\<close>: creation with one partition log per
  partition, deletion, lookup, retention over all topics, and the registration of every topic with the
  partitioner. The data directory is part of the state: what a closed log leaves on disk is what the next
  creation of the topic opens.
\<close>

section \<open>State\<close>

record Topic =
  t_cfg :: TopicConfig
  t_createdAt :: int
  t_partitions :: "PartitionLog list"
  t_closed :: bool

type_synonym log_files = "(int \<times> bytes \<times> bytes) list"

record TopicManager =
  tm_topics :: "(string \<times> Topic) list"
  tm_partitioner :: HashPartitioner
  tm_segMax :: int
  tm_idxEvery :: int
  tm_syncPolicy :: string
  tm_retention :: "(int \<times> int) option"
  tm_disk :: "string \<Rightarrow> nat \<Rightarrow> log_files"

definition NewTopicManager :: "int \<Rightarrow> int \<Rightarrow> string \<Rightarrow> (string \<Rightarrow> nat \<Rightarrow> log_files) \<Rightarrow> HashPartitioner \<Rightarrow> TopicManager" where
  "NewTopicManager segMax idxEvery syncPolicy disk p =
     \<lparr>tm_topics = [], tm_partitioner = p, tm_segMax = segMax, tm_idxEvery = idxEvery,
      tm_syncPolicy = (if syncPolicy = [] then ''interval'' else syncPolicy), tm_retention = None, tm_disk = disk\<rparr>"

definition validTopicName :: "string \<Rightarrow> bool" where
  "validTopicName s = name_pattern s"

datatype topic_error = InvalidTopicName | TopicExists | TopicNotFound | StorageFailed nat | PartitionOutOfRange

definition Topic_PartitionLog :: "Topic \<Rightarrow> int \<Rightarrow> (topic_error, PartitionLog) result" where
  "Topic_PartitionLog t i =
     (if i < 0 \<or> i \<ge> int (length (t_partitions t)) then Inl PartitionOutOfRange
      else Inr (t_partitions t ! nat i))"

definition Topic_Close :: "Topic \<Rightarrow> Topic" where
  "Topic_Close t = t\<lparr>t_closed := True\<rparr>"

section \<open>Operations\<close>

text \<open>
  The loop that opens the partition logs one after the other; \<open>fails i\<close> says that opening the \<open>i\<close>-th
  directory fails.
\<close>

fun open_partitions ::
  "flate_lib \<Rightarrow> (nat \<Rightarrow> bool) \<Rightarrow> TopicManager \<Rightarrow> string \<Rightarrow> nat \<Rightarrow> nat \<Rightarrow> PartitionLog list \<Rightarrow>
   (topic_error, PartitionLog list) result" where
  "open_partitions lib fails m name i 0 pls = Inr pls"
| "open_partitions lib fails m name i (Suc n) pls =
     (if fails i then Inl (StorageFailed i)
      else open_partitions lib fails m name (Suc i) n
        (pls @ [OpenPartitionLog lib (tm_disk m name i) (tm_segMax m) (tm_idxEvery m) (tm_syncPolicy m)]))"

definition int32_of :: "int \<Rightarrow> int" where
  "int32_of i = sint (word_of_int i :: 32 word)"

definition default_config :: "TopicConfig \<Rightarrow> TopicConfig" where
  "default_config cfg =
     (let c1 = (if tc_Partitions cfg \<le> 0 then cfg\<lparr>tc_Partitions := 1\<rparr> else cfg)
      in if tc_ReplicationFactor c1 \<le> 0 then c1\<lparr>tc_ReplicationFactor := 1\<rparr> else c1)"

definition Create ::
  "flate_lib \<Rightarrow> int \<Rightarrow> (nat \<Rightarrow> bool) \<Rightarrow> TopicManager \<Rightarrow> TopicConfig \<Rightarrow> TopicManager \<times> (topic_error, unit) result" where
  "Create lib now fails m cfg0 =
     (let cfg = default_config cfg0; name = tc_Name cfg
      in if \<not> validTopicName name then (m, Inl InvalidTopicName)
         else case map_of (tm_topics m) name of
           Some _ \<Rightarrow> (m, Inl TopicExists)
         | None \<Rightarrow>
             (case open_partitions lib fails m name 0 (nat (tc_Partitions cfg)) [] of
                Inl e \<Rightarrow> (m, Inl e)
              | Inr pls \<Rightarrow>
                  (m\<lparr>tm_topics := map_put name \<lparr>t_cfg = cfg, t_createdAt = now, t_partitions = pls, t_closed = False\<rparr> (tm_topics m),
                     tm_partitioner := fst (Register (tm_partitioner m) name (int32_of (tc_Partitions cfg)))\<rparr>, Inr ())))"

text \<open>Closing the logs leaves their files in the data directory; nothing removes them.\<close>

definition disk_after_close :: "string \<Rightarrow> Topic \<Rightarrow> (string \<Rightarrow> nat \<Rightarrow> log_files) \<Rightarrow> (string \<Rightarrow> nat \<Rightarrow> log_files)" where
  "disk_after_close name t disk =
     (\<lambda>n i. if n = name \<and> i < length (t_partitions t) then map seg_file (pl_segments (t_partitions t ! i)) else disk n i)"

definition Delete :: "TopicManager \<Rightarrow> string \<Rightarrow> TopicManager \<times> (topic_error, unit) result" where
  "Delete m name =
     (case map_of (tm_topics m) name of
        None \<Rightarrow> (m, Inl TopicNotFound)
      | Some t \<Rightarrow>
          (m\<lparr>tm_disk := disk_after_close name t (tm_disk m),
             tm_topics := map_del name (tm_topics m),
             tm_partitioner := fst (Register (tm_partitioner m) name 0)\<rparr>, Inr ()))"

definition Get :: "TopicManager \<Rightarrow> string \<Rightarrow> (topic_error, Topic) result" where
  "Get m name = (case map_of (tm_topics m) name of None \<Rightarrow> Inl TopicNotFound | Some t \<Rightarrow> Inr t)"

definition TopicList :: "TopicManager \<Rightarrow> (TopicConfig \<times> int) list" where
  "TopicList m = map (\<lambda>(_, t). (t_cfg t, t_createdAt t)) (tm_topics m)"

definition Exists :: "TopicManager \<Rightarrow> string \<Rightarrow> bool" where
  "Exists m name \<longleftrightarrow> map_of (tm_topics m) name \<noteq> None"

definition CloseAll :: "TopicManager \<Rightarrow> TopicManager" where
  "CloseAll m = m\<lparr>tm_topics := map (\<lambda>(n, t). (n, Topic_Close t)) (tm_topics m)\<rparr>"

text \<open>Broker errors are existing and missing topics; everything else is taken for a name error.\<close>

definition IsNameError :: "topic_error option \<Rightarrow> bool" where
  "IsNameError err =
     (case err of None \<Rightarrow> False | Some e \<Rightarrow> \<not> (e = TopicExists \<or> e = TopicNotFound))"

definition UpdateRetentionConfig :: "TopicManager \<Rightarrow> int \<Rightarrow> int \<Rightarrow> TopicManager" where
  "UpdateRetentionConfig m maxAgeHours maxSizeMB = m\<lparr>tm_retention := Some (maxAgeHours, maxSizeMB)\<rparr>"

definition compact_topic :: "int \<Rightarrow> (Segment \<Rightarrow> int option) \<Rightarrow> int \<Rightarrow> int \<Rightarrow> Topic \<Rightarrow> Topic" where
  "compact_topic now modTime maxAgeHours maxSizeMB t =
     (if tc_CompactionMode (t_cfg t) = ''compact'' then t
      else t\<lparr>t_partitions := map (\<lambda>pl. fst (PartitionLog_Compact now modTime pl maxAgeHours maxSizeMB)) (t_partitions t)\<rparr>)"

definition compactAll :: "int \<Rightarrow> (Segment \<Rightarrow> int option) \<Rightarrow> TopicManager \<Rightarrow> int \<Rightarrow> int \<Rightarrow> TopicManager" where
  "compactAll now modTime m maxAgeHours maxSizeMB =
     m\<lparr>tm_topics := map (\<lambda>(n, t). (n, compact_topic now modTime maxAgeHours maxSizeMB t)) (tm_topics m)\<rparr>"

definition CompactablePartitions :: "TopicManager \<Rightarrow> PartitionLog list" where
  "CompactablePartitions m =
     concat (map (\<lambda>(_, t). if tc_CompactionMode (t_cfg t) = ''compact'' then t_partitions t else []) (tm_topics m))"

section \<open>Consistency with the partitioner\<close>

definition topic_ok :: "string \<Rightarrow> Topic \<Rightarrow> bool" where
  "topic_ok name t \<longleftrightarrow>
     tc_Name (t_cfg t) = name \<and> validTopicName name \<and> 0 < tc_Partitions (t_cfg t) \<and>
     tc_Partitions (t_cfg t) < 2 ^ 31 \<and> int (length (t_partitions t)) = tc_Partitions (t_cfg t)"

definition topics_inv :: "nat \<Rightarrow> TopicManager \<Rightarrow> bool" where
  "topics_inv n m \<longleftrightarrow>
     map_sorted (tm_topics m) \<and> (\<forall>(name, t) \<in> set (tm_topics m). topic_ok name t) \<and>
     router_inv n (tm_partitioner m) \<and>
     (\<forall>name. hp_topics (tm_partitioner m) name = map_option (\<lambda>t. tc_Partitions (t_cfg t)) (map_of (tm_topics m) name))"

text \<open>What clients and the broker do with topics, routing included.\<close>

datatype topic_op =
    CreateOp int "nat \<Rightarrow> bool" TopicConfig
  | DeleteOp string
  | RouteOp string string
  | RetainOp int "Segment \<Rightarrow> int option" int int

definition topic_step :: "flate_lib \<Rightarrow> TopicManager \<Rightarrow> topic_op \<Rightarrow> TopicManager" where
  "topic_step lib m op =
     (case op of
        CreateOp now fails cfg \<Rightarrow> fst (Create lib now fails m cfg)
      | DeleteOp name \<Rightarrow> fst (Delete m name)
      | RouteOp name key \<Rightarrow> m\<lparr>tm_partitioner := fst (Assign (tm_partitioner m) name key)\<rparr>
      | RetainOp now modTime age maxMB \<Rightarrow> compactAll now modTime m age maxMB)"

definition int32_topic_op :: "topic_op \<Rightarrow> bool" where
  "int32_topic_op op = (case op of CreateOp _ _ cfg \<Rightarrow> tc_Partitions cfg < 2 ^ 31 | _ \<Rightarrow> True)"

lemma open_partitions_length:
  "open_partitions lib fails m name i n pls = Inr pls' \<Longrightarrow> length pls' = length pls + n"
  by (induction lib fails m name i n pls rule: open_partitions.induct) (auto split: if_splits)

lemma default_config_facts:
  "tc_Name (default_config cfg) = tc_Name cfg" "0 < tc_Partitions (default_config cfg)"
  "tc_Partitions cfg < 2 ^ 31 \<Longrightarrow> tc_Partitions (default_config cfg) < 2 ^ 31"
  by (simp_all add: default_config_def Let_def)

lemma int32_of_small: "0 \<le> i \<Longrightarrow> i < 2 ^ 31 \<Longrightarrow> int32_of i = i"
  by (simp add: int32_of_def signed_of_int signed_take_bit_int_eq_self)

lemma map_del_map_of: "map_of (map_del k xs) j = (if j = k then None else map_of xs j)"
  by (induction xs) (auto simp: map_del_def)

lemma map_put_map_of: "map_of (map_put k v xs) j = (if j = k then Some v else map_of xs j)"
  by (induction k v xs rule: map_put.induct) auto

lemma map_put_mem: "(a, b) \<in> set (map_put k v xs) \<Longrightarrow> (a, b) = (k, v) \<or> (a, b) \<in> set xs"
  by (induction k v xs rule: map_put.induct) (auto split: if_splits)

lemma map_sorted_del: "map_sorted xs \<Longrightarrow> map_sorted (map_del k xs)"
  by (induction xs) (auto simp: map_sorted_def map_del_def)

lemma Register_topics:
  "0 \<le> c \<Longrightarrow> hp_topics (fst (Register p name c)) = (hp_topics p)(name := if c = 0 then None else Some c)"
  by (auto simp: Register_def Let_def split: option.splits)

lemma Register_inv:
  "router_inv n p \<Longrightarrow> 0 \<le> c \<Longrightarrow> c < 2 ^ 31 \<Longrightarrow> router_inv (Suc n) (fst (Register p name c))"
  using router_inv_step [of n p "RegisterOp name c"] by (simp add: router_step_def int32_op_def int32_range_def)

lemma router_inv_mono: "router_inv n p \<Longrightarrow> router_inv (Suc n) p"
  by (auto simp: router_inv_def intro: le_SucI)

lemma topics_inv_new: "topics_inv 0 (NewTopicManager a b c d NewHashPartitioner)"
  by (simp add: topics_inv_def NewTopicManager_def router_inv_new map_sorted_def) (simp add: NewHashPartitioner_def)

lemma topics_inv_mono: "topics_inv n m \<Longrightarrow> topics_inv (Suc n) m"
  by (simp add: topics_inv_def router_inv_mono)

lemma topics_inv_Create:
  assumes "topics_inv n m" and "tc_Partitions cfg < 2 ^ 31"
  shows "topics_inv (Suc n) (fst (Create lib now fails m cfg))"
proof (cases "validTopicName (tc_Name cfg) \<and> map_of (tm_topics m) (tc_Name cfg) = None")
  case False
  then show ?thesis
    using topics_inv_mono [OF assms(1)]
    by (auto simp: Create_def Let_def default_config_facts split: option.splits)
next
  case True
  let ?c = "default_config cfg"
  note d = default_config_facts [of cfg] default_config_facts(3) [OF assms(2)]
  show ?thesis
  proof (cases "open_partitions lib fails m (tc_Name cfg) 0 (nat (tc_Partitions ?c)) []")
    case (Inl e)
    then show ?thesis using True d topics_inv_mono [OF assms(1)] by (simp add: Create_def Let_def)
  next
    case (Inr pls)
    let ?t = "\<lparr>t_cfg = ?c, t_createdAt = now, t_partitions = pls, t_closed = False\<rparr>"
    let ?m = "m\<lparr>tm_topics := map_put (tc_Name cfg) ?t (tm_topics m),
      tm_partitioner := fst (Register (tm_partitioner m) (tc_Name cfg) (tc_Partitions ?c))\<rparr>"
    have e: "fst (Create lib now fails m cfg) = ?m"
      using True Inr d by (simp add: Create_def Let_def int32_of_small)
    have "topic_ok (tc_Name cfg) ?t"
      using open_partitions_length [OF Inr] True d by (simp add: topic_ok_def)
    then have "\<forall>(name, t) \<in> set (tm_topics ?m). topic_ok name t"
      using assms(1) by (auto simp: topics_inv_def dest!: map_put_mem)
    moreover have "router_inv (Suc n) (tm_partitioner ?m)"
      using assms(1) d by (simp add: topics_inv_def Register_inv)
    ultimately show ?thesis
      unfolding e using assms(1) d by (simp add: topics_inv_def map_sorted_put map_put_map_of Register_topics)
  qed
qed

lemma topics_inv_Delete:
  assumes "topics_inv n m"
  shows "topics_inv (Suc n) (fst (Delete m name))"
proof (cases "map_of (tm_topics m) name")
  case None
  then show ?thesis using topics_inv_mono [OF assms] by (simp add: Delete_def)
next
  case (Some t)
  have "\<forall>(nm, t) \<in> set (map_del name (tm_topics m)). topic_ok nm t"
    using assms by (auto simp: topics_inv_def map_del_def)
  then show ?thesis
    using assms Some Register_inv [of n "tm_partitioner m" 0 name]
    by (simp add: Delete_def topics_inv_def map_sorted_del map_del_map_of Register_topics)
qed

lemma topics_inv_route:
  assumes "topics_inv n m"
  shows "topics_inv (Suc n) (m\<lparr>tm_partitioner := fst (Assign (tm_partitioner m) name key)\<rparr>)"
proof -
  have "router_inv (Suc n) (fst (Assign (tm_partitioner m) name key))"
    using assms router_inv_step [of n "tm_partitioner m" "AssignOp name key"]
    by (simp add: topics_inv_def router_step_def int32_op_def)
  moreover have "hp_topics (fst (Assign p name key)) = hp_topics p" for p
    by (simp add: Assign_def Let_def split: option.splits)
  ultimately show ?thesis using assms by (simp add: topics_inv_def)
qed

lemma topics_inv_compactAll:
  assumes "topics_inv n m"
  shows "topics_inv n (compactAll now modTime m age maxMB)"
proof -
  let ?f = "compact_topic now modTime age maxMB"
  have f: "t_cfg (?f t) = t_cfg t" "topic_ok name t \<Longrightarrow> topic_ok name (?f t)" for name t
    by (simp_all add: topic_ok_def compact_topic_def)
  have "map fst (map (\<lambda>(n, t). (n, ?f t)) (tm_topics m)) = map fst (tm_topics m)"
    by (simp add: comp_def case_prod_unfold)
  then have s: "map_sorted (map (\<lambda>(n, t). (n, ?f t)) (tm_topics m))"
    using assms by (simp only: topics_inv_def map_sorted_def)
  have "map_of (map (\<lambda>(n, t). (n, ?f t)) (tm_topics m)) = map_option ?f \<circ> map_of (tm_topics m)"
    by (rule map_of_map)
  then show ?thesis
    using assms s f by (auto simp: topics_inv_def compactAll_def option.map_comp comp_def)
qed

lemma topics_inv_step: "topics_inv n m \<Longrightarrow> int32_topic_op op \<Longrightarrow> topics_inv (Suc n) (topic_step lib m op)"
  by (cases op)
    (simp_all add: topic_step_def int32_topic_op_def topics_inv_Create topics_inv_Delete topics_inv_route
      topics_inv_compactAll topics_inv_mono)

definition topic_run :: "flate_lib \<Rightarrow> TopicManager \<Rightarrow> topic_op list \<Rightarrow> TopicManager" where
  "topic_run lib m ops = foldl (topic_step lib) m ops"

lemma topics_inv_run:
  "topics_inv n m \<Longrightarrow> list_all int32_topic_op ops \<Longrightarrow> topics_inv (n + length ops) (topic_run lib m ops)"
  unfolding topic_run_def by (induction ops arbitrary: n m) (force dest: topics_inv_step)+

text \<open>C22. Routing and topics agree: after any creations (successful or failing), deletions, retention sweeps and routings,
  a topic that can be looked up is routed to a partition whose log exists, and a topic that cannot be
  looked up is not routed at all.\<close>

theorem routed_partition_exists:
  assumes "m = topic_run lib (NewTopicManager segMax idxEvery sync disk NewHashPartitioner) ops"
    and "list_all int32_topic_op ops" and "length ops < 2 ^ 63"
  shows "case Get m name of
      Inl e \<Rightarrow> e = TopicNotFound \<and> snd (Assign (tm_partitioner m) name key) = Inl NotRegistered
    | Inr t \<Rightarrow> (\<exists>part pl. snd (Assign (tm_partitioner m) name key) = Inr part \<and> Topic_PartitionLog t part = Inr pl)"
proof -
  have i: "topics_inv (length ops) m"
    using topics_inv_run [OF topics_inv_new assms(2), of lib segMax idxEvery sync disk] assms(1) by simp
  show ?thesis
  proof (cases "map_of (tm_topics m) name")
    case None
    then have "hp_topics (tm_partitioner m) name = None" using i by (simp add: topics_inv_def)
    then show ?thesis using None by (simp add: Get_def Assign_def)
  next
    case (Some t)
    let ?c = "tc_Partitions (t_cfg t)"
    have t: "topic_ok name t" using i map_of_SomeD [OF Some] by (auto simp: topics_inv_def)
    then have c: "0 < ?c" "?c < 2 ^ 31" "int (length (t_partitions t)) = ?c" by (simp_all add: topic_ok_def)
    have r: "hp_topics (tm_partitioner m) name = Some ?c" "router_inv (length ops) (tm_partitioner m)"
      using i Some by (simp_all add: topics_inv_def)
    obtain part where p: "snd (Assign (tm_partitioner m) name key) = Inr part" "0 \<le> part" "part < ?c"
    proof (cases "key = []")
      case True
      obtain w where "Assign (tm_partitioner m) name [] =
          ((tm_partitioner m)\<lparr>hp_rrCur := (hp_rrCur (tm_partitioner m))(name \<mapsto> w + 1)\<rparr>, Inr (int (unat w) mod ?c))"
        using Assign_keyless [OF r(2) assms(3) r(1)] by metis
      then show ?thesis using that [of "int (unat w) mod ?c"] True c by simp
    next
      case False
      then show ?thesis using that [of "hashPartition key ?c"] hashPartition_range [OF c(1,2)] r(1) by (simp add: Assign_def)
    qed
    then show ?thesis using Some c(3) by (simp add: Get_def Topic_PartitionLog_def)
  qed
qed

section \<open>Deletion\<close>

text \<open>C39. Deleting a topic does not delete its messages: a topic that is deleted and created again under
  the same name serves the messages of the deleted one.\<close>

theorem recreated_topic_has_old_messages:
  assumes "map_of (tm_topics m) name = Some t" and "part < length (t_partitions t)"
    and "pl_holds (t_partitions t ! part) es" and "list_all (\<lambda>s. s_version s = RecordVersion) (pl_segments (t_partitions t ! part))"
    and "pl_segMaxBytes (t_partitions t ! part) = tm_segMax m" and "validTopicName name"
    and "tc_Name cfg = name" and "tc_Partitions cfg = int (length (t_partitions t))"
    and "Delete m name = (m1, r1)" and "Create lib now (\<lambda>_. False) m1 cfg = (m2, r2)"
  shows "r1 = Inr () \<and> r2 = Inr () \<and>
    (\<exists>t' pl'. Get m2 name = Inr t' \<and> Topic_PartitionLog t' (int part) = Inr pl' \<and> pl_holds pl' es)"
proof -
  let ?n = "length (t_partitions t)"
  have m1: "m1 = m\<lparr>tm_disk := disk_after_close name t (tm_disk m), tm_topics := map_del name (tm_topics m),
      tm_partitioner := fst (Register (tm_partitioner m) name 0)\<rparr>" "r1 = Inr ()"
    using assms(1,9) by (simp_all add: Delete_def)
  have open_nth: "\<exists>pls'. open_partitions lib (\<lambda>_. False) m1 name i n pls = Inr (pls @ pls') \<and> length pls' = n \<and>
      (\<forall>k<n. pls' ! k = OpenPartitionLog lib (tm_disk m1 name (i + k)) (tm_segMax m1) (tm_idxEvery m1) (tm_syncPolicy m1))"
    for i n pls
  proof (induction n arbitrary: i pls)
    case (Suc n)
    let ?o = "\<lambda>i. OpenPartitionLog lib (tm_disk m1 name i) (tm_segMax m1) (tm_idxEvery m1) (tm_syncPolicy m1)"
    obtain pls' where p: "open_partitions lib (\<lambda>_. False) m1 name (Suc i) n (pls @ [?o i]) = Inr ((pls @ [?o i]) @ pls')"
      "length pls' = n" "\<forall>k<n. pls' ! k = ?o (Suc i + k)"
      using Suc by blast
    then have "\<forall>k<Suc n. (?o i # pls') ! k = ?o (i + k)" by (auto simp: less_Suc_eq_0_disj)
    then show ?case using p by (intro exI [of _ "?o i # pls'"]) simp
  qed simp
  have part: "0 < ?n" using assms(2) by linarith
  have cfg: "tc_Name (default_config cfg) = name" "nat (tc_Partitions (default_config cfg)) = ?n"
    using assms(7,8) part by (simp_all add: default_config_def Let_def)
  obtain pls where p: "open_partitions lib (\<lambda>_. False) m1 name 0 ?n [] = Inr pls" "length pls = ?n"
    "\<forall>k<?n. pls ! k = OpenPartitionLog lib (tm_disk m1 name k) (tm_segMax m1) (tm_idxEvery m1) (tm_syncPolicy m1)"
    using open_nth [of 0 ?n "[]"] by auto
  have none: "map_of (tm_topics m1) name = None" by (simp add: m1 map_del_map_of)
  have c: "r2 = Inr ()" "Get m2 name = Inr \<lparr>t_cfg = default_config cfg, t_createdAt = now, t_partitions = pls, t_closed = False\<rparr>"
    using assms(6,10) p(1) none cfg by (auto simp: Create_def Let_def Get_def map_put_map_of)
  obtain ess where ess: "pl_inv (t_partitions t ! part) ess" "concat ess = es" using assms(3) by (auto simp: pl_holds_def)
  have "tm_disk m1 name part = map seg_file (pl_segments (t_partitions t ! part))"
    using assms(2) by (simp add: m1 disk_after_close_def)
  then have "pl_inv (pls ! part) ess"
    using reopen_inv [OF ess(1) assms(4) refl, of lib "tm_idxEvery m1" "tm_syncPolicy m1"] p(3) assms(2,5) m1 by simp
  then have "pl_holds (pls ! part) es" using ess(2) by (auto simp: pl_holds_def)
  then show ?thesis using c m1(2) p(2) assms(2) by (simp add: Topic_PartitionLog_def)
qed

section \<open>Witnesses\<close>

definition sample_topics :: TopicManager where
  "sample_topics = topic_run sample_lib (NewTopicManager 10 4096 ''always'' (\<lambda>_ _. []) NewHashPartitioner)
     [CreateOp 0 (\<lambda>_. False) (zero_TopicConfig\<lparr>tc_Name := ''t'', tc_Partitions := 2\<rparr>), RouteOp ''t'' []]"

lemma name_t: "validTopicName ''t''"
  by (simp add: validTopicName_def name_pattern_def name_head_def)

theorem routed_partition_exists_witness:
  "\<exists>t part pl. Get sample_topics ''t'' = Inr t \<and> snd (Assign (tm_partitioner sample_topics) ''t'' ''key'') = Inr part \<and>
     Topic_PartitionLog t part = Inr pl"
proof -
  have ok: "list_all int32_topic_op [CreateOp 0 (\<lambda>_. False) (zero_TopicConfig\<lparr>tc_Name := ''t'', tc_Partitions := 2\<rparr>), RouteOp ''t'' []]"
    by (simp add: int32_topic_op_def)
  have "\<exists>t. Get sample_topics ''t'' = Inr t"
    by (simp add: sample_topics_def topic_run_def topic_step_def Create_def default_config_def zero_TopicConfig_def
        name_t NewTopicManager_def Get_def Let_def map_put_map_of eval_nat_numeral)
  then show ?thesis
    using routed_partition_exists [OF sample_topics_def ok, of "''t''" "''key''"] by auto
qed

definition sample_used_topics :: TopicManager where
  "sample_used_topics = (NewTopicManager 10 4096 ''always'' (\<lambda>_ _. []) NewHashPartitioner)
     \<lparr>tm_topics := [(''t'', \<lparr>t_cfg = zero_TopicConfig\<lparr>tc_Name := ''t'', tc_Partitions := 1\<rparr>, t_createdAt = 0,
        t_partitions = [sample_pl2], t_closed = False\<rparr>)]\<rparr>"

theorem recreated_topic_has_old_messages_witness:
  "\<exists>t pl. Get (fst (Create sample_lib 9 (\<lambda>_. False) (fst (Delete sample_used_topics ''t''))
        (zero_TopicConfig\<lparr>tc_Name := ''t'', tc_Partitions := 1\<rparr>))) ''t'' = Inr t \<and>
     Topic_PartitionLog t 0 = Inr pl \<and> pl_holds pl [sample_entry, sample_entry1]"
proof -
  let ?cfg = "zero_TopicConfig\<lparr>tc_Name := ''t'', tc_Partitions := 1\<rparr>"
  let ?t = "\<lparr>t_cfg = ?cfg, t_createdAt = 0, t_partitions = [sample_pl2], t_closed = False\<rparr>"
  have t: "map_of (tm_topics sample_used_topics) ''t'' = Some ?t" "tm_segMax sample_used_topics = 10"
    by (simp_all add: sample_used_topics_def NewTopicManager_def)
  obtain m1 r1 where d: "Delete sample_used_topics ''t'' = (m1, r1)" by (cases "Delete sample_used_topics ''t''")
  obtain m2 r2 where c: "Create sample_lib 9 (\<lambda>_. False) m1 ?cfg = (m2, r2)" by (cases "Create sample_lib 9 (\<lambda>_. False) m1 ?cfg")
  have v: "list_all (\<lambda>s. s_version s = RecordVersion) (pl_segments sample_pl2)" "pl_segMaxBytes sample_pl2 = 10"
    by (rule sample_pl2_segments, simp)+
  show ?thesis
    using recreated_topic_has_old_messages [OF t(1) _ _ _ _ name_t _ _ d c, of 0 "[sample_entry, sample_entry1]"]
      sample_pl2_holds v t(2) d c by simp
qed

end
