(* ===== verification/Dedup.thy ===== *)
theory Dedup
  imports Prelude
begin

text \<open>
  The deduplication window of exactly-once producers, \<^verbatim>\<open>src/internal/producer/dedup.go\<close>: one ring buffer
  of sequence numbers and offsets per client. The abstract view of a ring is the list of the last marks, and
  the interface \<open>dedup_store\<close> states what a producer relies on.
\<close>

section \<open>Ring buffers\<close>

record seqEntry =
  se_seqNum :: "64 word"
  se_offset :: int
  se_valid :: bool

record clientWindow =
  cw_ring :: "seqEntry list"
  cw_head :: nat
  cw_size :: nat

definition newClientWindow :: "nat \<Rightarrow> clientWindow" where
  "newClientWindow n =
     \<lparr>cw_ring = replicate n \<lparr>se_seqNum = 0, se_offset = 0, se_valid = False\<rparr>, cw_head = 0, cw_size = n\<rparr>"

fun lookup_ring :: "seqEntry list \<Rightarrow> 64 word \<Rightarrow> int option" where
  "lookup_ring [] seqNum = None"
| "lookup_ring (e # es) seqNum =
     (if se_valid e \<and> se_seqNum e = seqNum then Some (se_offset e) else lookup_ring es seqNum)"

definition window_lookup :: "clientWindow \<Rightarrow> 64 word \<Rightarrow> int option" where
  "window_lookup cw seqNum = lookup_ring (take (cw_size cw) (cw_ring cw)) seqNum"

definition window_mark :: "clientWindow \<Rightarrow> 64 word \<Rightarrow> int \<Rightarrow> clientWindow" where
  "window_mark cw seqNum offset =
     cw\<lparr>cw_ring := (cw_ring cw)[cw_head cw := \<lparr>se_seqNum = seqNum, se_offset = offset, se_valid = True\<rparr>],
        cw_head := (cw_head cw + 1) mod cw_size cw\<rparr>"

section \<open>Windows of all clients\<close>

record DedupWindow =
  dw_perClient :: "string \<rightharpoonup> clientWindow"
  dw_size :: nat

definition NewDedupWindow :: "int \<Rightarrow> DedupWindow" where
  "NewDedupWindow n = \<lparr>dw_perClient = Map.empty, dw_size = nat (if n \<le> 0 then 10000 else n)\<rparr>"

definition LookupOffset :: "DedupWindow \<Rightarrow> string \<Rightarrow> 64 word \<Rightarrow> int option" where
  "LookupOffset d clientID seqNum =
     (case dw_perClient d clientID of None \<Rightarrow> None | Some cw \<Rightarrow> window_lookup cw seqNum)"

definition IsDuplicate :: "DedupWindow \<Rightarrow> string \<Rightarrow> 64 word \<Rightarrow> bool" where
  "IsDuplicate d clientID seqNum =
     (case dw_perClient d clientID of None \<Rightarrow> False | Some cw \<Rightarrow> window_lookup cw seqNum \<noteq> None)"

definition Mark :: "DedupWindow \<Rightarrow> string \<Rightarrow> 64 word \<Rightarrow> int \<Rightarrow> DedupWindow" where
  "Mark d clientID seqNum offset =
     (let cw = (case dw_perClient d clientID of Some cw \<Rightarrow> cw | None \<Rightarrow> newClientWindow (dw_size d))
      in d\<lparr>dw_perClient := (dw_perClient d)(clientID \<mapsto> window_mark cw seqNum offset)\<rparr>)"

section \<open>A ring holds the last marks\<close>

text \<open>The last \<open>n\<close> elements of a list.\<close>

definition last_n :: "nat \<Rightarrow> 'a list \<Rightarrow> 'a list" where
  "last_n n xs = drop (length xs - n) xs"

definition mark_entry :: "64 word \<times> int \<Rightarrow> seqEntry" where
  "mark_entry m = \<lparr>se_seqNum = fst m, se_offset = snd m, se_valid = True\<rparr>"

text \<open>
  The slot of the \<open>k\<close>-th mark is \<open>k mod size\<close>; a slot that no mark has reached is invalid.
\<close>

definition ring_holds :: "nat \<Rightarrow> clientWindow \<Rightarrow> (64 word \<times> int) list \<Rightarrow> bool" where
  "ring_holds n cw ms \<longleftrightarrow>
     cw_size cw = n \<and> length (cw_ring cw) = n \<and> cw_head cw = length ms mod n \<and>
     (\<forall>k < length ms. length ms \<le> k + n \<longrightarrow> cw_ring cw ! (k mod n) = mark_entry (ms ! k)) \<and>
     (\<forall>j < n. length ms \<le> j \<longrightarrow> \<not> se_valid (cw_ring cw ! j))"

lemma ring_holds_new: "ring_holds n (newClientWindow n) []"
  by (simp add: ring_holds_def newClientWindow_def)

lemma mod_window_eq:
  assumes "(k :: nat) < l" and "l < k + n" and "k mod n = l mod n"
  shows False
proof -
  have "n dvd l - k" using assms(1,3) by (metis less_imp_le_nat mod_eq_dvd_iff_nat)
  then show False using assms(1,2) dvd_imp_le [of n "l - k"] by auto
qed

lemma ring_holds_mark:
  assumes "ring_holds n cw ms" and "0 < n"
  shows "ring_holds n (window_mark cw s off) (ms @ [(s, off)])"
proof -
  let ?l = "length ms"
  let ?r = "(cw_ring cw)[?l mod n := mark_entry (s, off)]"
  note h = assms(1) [unfolded ring_holds_def]
  have m: "window_mark cw s off = cw\<lparr>cw_ring := ?r, cw_head := (?l + 1) mod n\<rparr>"
    using h by (simp add: window_mark_def mark_entry_def mod_Suc_eq)
  have lt: "?l mod n < length (cw_ring cw)" using h assms(2) by simp
  have "?r ! (k mod n) = mark_entry ((ms @ [(s, off)]) ! k)" if "k < Suc ?l" "Suc ?l \<le> k + n" for k
  proof (cases "k = ?l")
    case True
    then show ?thesis using lt by simp
  next
    case False
    then have k: "k < ?l" "?l \<le> k + n" "?l < k + n" using that by auto
    then have "k mod n \<noteq> ?l mod n" using mod_window_eq [of k ?l n] by blast
    then show ?thesis using h k by (simp add: nth_append)
  qed
  moreover have "\<not> se_valid (?r ! j)" if "j < n" "Suc ?l \<le> j" for j
  proof -
    have "?l mod n = ?l" using that by simp
    then show ?thesis using h that by simp
  qed
  ultimately show ?thesis using h by (simp add: ring_holds_def m)
qed

lemma ring_entries:
  assumes "ring_holds n cw ms" and "0 < n"
  shows "{e \<in> set (cw_ring cw). se_valid e} = mark_entry ` set (last_n n ms)"
proof
  note h = assms(1) [unfolded ring_holds_def]
  let ?l = "length ms"
  show "mark_entry ` set (last_n n ms) \<subseteq> {e \<in> set (cw_ring cw). se_valid e}"
  proof
    fix e assume "e \<in> mark_entry ` set (last_n n ms)"
    then obtain i where i: "i < length (drop (?l - n) ms)" "e = mark_entry (drop (?l - n) ms ! i)"
      by (auto simp: last_n_def in_set_conv_nth)
    let ?k = "?l - n + i"
    have k: "?k < ?l" "?l \<le> ?k + n" "e = mark_entry (ms ! ?k)" using i by auto
    then have "cw_ring cw ! (?k mod n) = e" using h by auto
    moreover have "?k mod n < length (cw_ring cw)" using h assms(2) by simp
    ultimately show "e \<in> {e \<in> set (cw_ring cw). se_valid e}"
      using k(3) nth_mem by (fastforce simp: mark_entry_def)
  qed
  show "{e \<in> set (cw_ring cw). se_valid e} \<subseteq> mark_entry ` set (last_n n ms)"
  proof
    fix e assume "e \<in> {e \<in> set (cw_ring cw). se_valid e}"
    then obtain j where j: "j < n" "cw_ring cw ! j = e" "se_valid e" using h by (auto simp: in_set_conv_nth)
    then have jl: "j < ?l" using h by (meson not_le)
    define k where "k = (?l - 1 - (?l - 1 - j) mod n)"
    have b: "(?l - 1 - j) mod n \<le> ?l - 1 - j" "(?l - 1 - j) mod n < n" using assms(2) by simp_all
    have k: "k < ?l" "?l \<le> k + n" "j \<le> k" using b jl unfolding k_def by linarith+
    have "k - j = (?l - 1 - j) - (?l - 1 - j) mod n" using b jl unfolding k_def by linarith
    then have "n dvd k - j" by (simp only: dvd_minus_mod)
    then have "k mod n = j mod n" using k(3) by (simp add: mod_eq_dvd_iff_nat)
    then have "k mod n = j" using j(1) by simp
    then have "e = mark_entry (ms ! k)" using h k j by auto
    moreover have "ms ! k \<in> set (last_n n ms)"
    proof -
      have a: "?l - n + (k - (?l - n)) = k" "k - (?l - n) < ?l - (?l - n)" using k(1,2) by arith+
      then have "drop (?l - n) ms ! (k - (?l - n)) = ms ! k" by simp
      moreover have "drop (?l - n) ms ! (k - (?l - n)) \<in> set (drop (?l - n) ms)" using a(2) by (intro nth_mem) simp
      ultimately show ?thesis by (simp add: last_n_def)
    qed
    ultimately show "e \<in> mark_entry ` set (last_n n ms)" by simp
  qed
qed

lemma lookup_ring_iff:
  assumes "\<And>a b. a \<in> set es \<Longrightarrow> b \<in> set es \<Longrightarrow> se_valid a \<Longrightarrow> se_valid b \<Longrightarrow> se_seqNum a = se_seqNum b \<Longrightarrow>
      se_offset a = se_offset b"
  shows "lookup_ring es s = Some off \<longleftrightarrow> (\<exists>e \<in> set es. se_valid e \<and> se_seqNum e = s \<and> se_offset e = off)"
  using assms
proof (induction es)
  case (Cons e es)
  have "lookup_ring es s = Some off \<longleftrightarrow> (\<exists>e \<in> set es. se_valid e \<and> se_seqNum e = s \<and> se_offset e = off)"
    by (rule Cons.IH, rule Cons.prems) simp_all
  moreover have "se_offset x = se_offset e" if "se_valid e" "x \<in> set es" "se_valid x" "se_seqNum x = se_seqNum e" for x
    using that by (intro Cons.prems) simp_all
  ultimately show ?case by (cases "se_valid e \<and> se_seqNum e = s") auto
qed simp

fun mark_all :: "DedupWindow \<Rightarrow> (string \<times> 64 word \<times> int) list \<Rightarrow> DedupWindow" where
  "mark_all d [] = d"
| "mark_all d ((c, s, off) # ms) = mark_all (Mark d c s off) ms"

text \<open>The marks of one client.\<close>

definition marks_of :: "string \<Rightarrow> (string \<times> 64 word \<times> int) list \<Rightarrow> (64 word \<times> int) list" where
  "marks_of c ms = map snd (filter (\<lambda>m. fst m = c) ms)"

definition window_holds :: "DedupWindow \<Rightarrow> (string \<times> 64 word \<times> int) list \<Rightarrow> bool" where
  "window_holds d ms \<longleftrightarrow>
     0 < dw_size d \<and>
     (\<forall>c. case dw_perClient d c of
        None \<Rightarrow> marks_of c ms = [] | Some cw \<Rightarrow> ring_holds (dw_size d) cw (marks_of c ms))"

lemma window_holds_new: "window_holds (NewDedupWindow n) []"
  by (simp add: window_holds_def NewDedupWindow_def marks_of_def)

lemma window_holds_Mark:
  assumes "window_holds d ms"
  shows "window_holds (Mark d c s off) (ms @ [(c, s, off)])"
proof -
  let ?cw = "case dw_perClient d c of Some cw \<Rightarrow> cw | None \<Rightarrow> newClientWindow (dw_size d)"
  have n: "0 < dw_size d" using assms by (simp add: window_holds_def)
  have c: "case dw_perClient d c' of None \<Rightarrow> marks_of c' ms = [] | Some cw \<Rightarrow> ring_holds (dw_size d) cw (marks_of c' ms)" for c'
    using assms by (simp add: window_holds_def)
  have "ring_holds (dw_size d) ?cw (marks_of c ms)"
    using c [of c] ring_holds_new by (auto split: option.splits)
  then have r: "ring_holds (dw_size d) (window_mark ?cw s off) (marks_of c ms @ [(s, off)])"
    using n by (rule ring_holds_mark)
  have mk: "marks_of c' (ms @ [(c, s, off)]) = marks_of c' ms @ (if c' = c then [(s, off)] else [])" for c'
    by (simp add: marks_of_def)
  show ?thesis
    unfolding window_holds_def
  proof (intro conjI allI)
    show "0 < dw_size (Mark d c s off)" using n by (simp add: Mark_def)
    show "case dw_perClient (Mark d c s off) c' of None \<Rightarrow> marks_of c' (ms @ [(c, s, off)]) = []
        | Some cw \<Rightarrow> ring_holds (dw_size (Mark d c s off)) cw (marks_of c' (ms @ [(c, s, off)]))" for c'
      using r c [of c'] by (cases "c' = c") (simp_all add: Mark_def mk Let_def split: option.splits)
  qed
qed

lemma window_holds_all: "window_holds d ms \<Longrightarrow> window_holds (mark_all d ms') (ms @ ms')"
proof (induction d ms' arbitrary: ms rule: mark_all.induct)
  case (2 d c s off ms')
  then show ?case using window_holds_Mark [of d ms c s off] by fastforce
qed simp

lemma window_holds_at:
  "window_holds d ms \<Longrightarrow> case dw_perClient d c of
     None \<Rightarrow> marks_of c ms = [] | Some cw \<Rightarrow> ring_holds (dw_size d) cw (marks_of c ms)"
  by (simp add: window_holds_def)

lemma window_holds_size: "window_holds d ms \<Longrightarrow> 0 < dw_size d"
  by (simp add: window_holds_def)

text \<open>C23. The deduplication window refines a finite memory: after any marks in which no client reused a
  sequence number, looking up a sequence number of a client gives the offset it was marked with if it is
  among the client's last \<open>size\<close> marks, and nothing otherwise.\<close>

theorem dedup_window_spec:
  assumes "d = mark_all (NewDedupWindow n) ms" and "distinct (map fst (marks_of c ms))"
  shows "LookupOffset d c s = map_of (last_n (dw_size d) (marks_of c ms)) s"
proof -
  have w: "window_holds d ms" using window_holds_all [OF window_holds_new] assms(1) by (metis append_Nil)
  let ?ms = "marks_of c ms"
  let ?L = "last_n (dw_size d) ?ms"
  have dl: "distinct (map fst ?L)"
    using assms(2) distinct_drop [of "map fst ?ms"] by (simp add: last_n_def drop_map)
  show ?thesis
  proof (cases "dw_perClient d c")
    case None
    then have "?ms = []" using window_holds_at [OF w, of c] by simp
    then show ?thesis using None by (simp add: LookupOffset_def last_n_def)
  next
    case (Some cw)
    then have r: "ring_holds (dw_size d) cw ?ms" and n: "0 < dw_size d"
      using window_holds_at [OF w, of c] window_holds_size [OF w] by simp_all
    note e = ring_entries [OF r n]
    have val: "a \<in> set (cw_ring cw) \<Longrightarrow> se_valid a \<Longrightarrow> \<exists>m \<in> set ?L. a = mark_entry m" for a using e by blast
    have uniq: "se_offset a = se_offset b"
      if ab: "a \<in> set (cw_ring cw)" "b \<in> set (cw_ring cw)" "se_valid a" "se_valid b" "se_seqNum a = se_seqNum b" for a b
    proof -
      obtain x y where xy: "x \<in> set ?L" "a = mark_entry x" "y \<in> set ?L" "b = mark_entry y"
        using val ab by blast
      have "fst x = fst y" using ab(5) xy by (simp add: mark_entry_def)
      then have "x = y" using dl xy(1,3) by (meson distinct_map inj_onD)
      then show ?thesis using xy by simp
    qed
    have iff: "lookup_ring (cw_ring cw) s = Some off \<longleftrightarrow> (s, off) \<in> set ?L" for off
    proof -
      have "lookup_ring (cw_ring cw) s = Some off \<longleftrightarrow>
          (\<exists>e \<in> {e \<in> set (cw_ring cw). se_valid e}. se_seqNum e = s \<and> se_offset e = off)"
        using lookup_ring_iff [of "cw_ring cw" s off] uniq by blast
      also have "\<dots> \<longleftrightarrow> (\<exists>m \<in> set ?L. fst m = s \<and> snd m = off)" unfolding e by (auto simp: mark_entry_def)
      also have "\<dots> \<longleftrightarrow> (s, off) \<in> set ?L" by force
      finally show ?thesis .
    qed
    have "LookupOffset d c s = lookup_ring (cw_ring cw) s"
      using Some r by (simp add: LookupOffset_def window_lookup_def ring_holds_def)
    moreover have "lookup_ring (cw_ring cw) s = Some off \<longleftrightarrow> map_of ?L s = Some off" for off
      using iff map_of_eq_Some_iff [OF dl] by simp
    ultimately show ?thesis by (metis not_None_eq)
  qed
qed

section \<open>The interface of a deduplication store\<close>

text \<open>
  What an exactly-once producer relies on: a mark is found again, and a mark never changes what is
  known about another client.
\<close>

locale dedup_store =
  fixes look :: "'d \<Rightarrow> string \<Rightarrow> 64 word \<Rightarrow> int option"
    and mark :: "'d \<Rightarrow> string \<Rightarrow> 64 word \<Rightarrow> int \<Rightarrow> 'd"
    and ok :: "'d \<Rightarrow> bool"
  assumes mark_ok: "ok d \<Longrightarrow> ok (mark d c s off)"
    and look_mark: "ok d \<Longrightarrow> look (mark d c s off) c s \<noteq> None"
    and look_other: "ok d \<Longrightarrow> c' \<noteq> c \<Longrightarrow> look (mark d c s off) c' s' = look d c' s'"
begin

lemma look_marks_other:
  assumes "ok d" and "c \<notin> fst ` set ms"
  shows "ok (foldl (\<lambda>d (c, s, off). mark d c s off) d ms) \<and>
    look (foldl (\<lambda>d (c, s, off). mark d c s off) d ms) c s' = look d c s'"
  using assms
proof (induction ms arbitrary: d)
  case (Cons m ms)
  obtain a s off where m: "m = (a, s, off)" by (cases m)
  have "ok (mark d a s off)" "look (mark d a s off) c s' = look d c s'"
    using Cons.prems m mark_ok [of d a s off] look_other [of d c a s off s'] by auto
  then show ?case using Cons.IH [of "mark d a s off"] Cons.prems m by simp
qed simp

end

definition window_ok :: "DedupWindow \<Rightarrow> bool" where
  "window_ok d \<longleftrightarrow> (\<exists>ms. window_holds d ms)"

lemma lookup_ring_found: "e \<in> set es \<Longrightarrow> se_valid e \<Longrightarrow> lookup_ring es (se_seqNum e) \<noteq> None"
  by (induction es) auto

interpretation dedup: dedup_store LookupOffset Mark window_ok
proof
  show "window_ok (Mark d c s off)" if "window_ok d" for d c s off
    using that window_holds_Mark unfolding window_ok_def by blast
next
  fix d c s off
  assume "window_ok d"
  then obtain ms where "window_holds (Mark d c s off) (ms @ [(c, s, off)])"
    using window_holds_Mark unfolding window_ok_def by blast
  moreover obtain cw where cw: "dw_perClient (Mark d c s off) c = Some cw" by (simp add: Mark_def)
  ultimately have r: "ring_holds (dw_size (Mark d c s off)) cw (marks_of c ms @ [(s, off)])"
    and n: "0 < dw_size (Mark d c s off)"
    using window_holds_at [of _ _ c] window_holds_size by (force simp: marks_of_def)+
  have "(s, off) \<in> set (last_n (dw_size (Mark d c s off)) (marks_of c ms @ [(s, off)]))"
    using n by (simp add: last_n_def)
  then have "mark_entry (s, off) \<in> set (cw_ring cw)" using ring_entries [OF r n] by blast
  then have "lookup_ring (cw_ring cw) s \<noteq> None"
    using lookup_ring_found [of "mark_entry (s, off)" "cw_ring cw"] by (simp add: mark_entry_def)
  then show "LookupOffset (Mark d c s off) c s \<noteq> None"
    using cw r by (simp add: LookupOffset_def window_lookup_def ring_holds_def)
next
  show "LookupOffset (Mark d c s off) c' s' = LookupOffset d c' s'" if "c' \<noteq> c" for d c c' s s' off
    using that by (simp add: LookupOffset_def Mark_def)
qed

section \<open>Witness\<close>

text \<open>A window of two slots after three marks.\<close>

theorem dedup_window_spec_witness:
  "LookupOffset (mark_all (NewDedupWindow 2) [(''c'', 1, 10), (''c'', 2, 11), (''c'', 3, 12)]) ''c'' 1 = None \<and>
   LookupOffset (mark_all (NewDedupWindow 2) [(''c'', 1, 10), (''c'', 2, 11), (''c'', 3, 12)]) ''c'' 2 = Some 11"
proof -
  let ?ms = "[(''c'', 1, 10), (''c'', 2, 11), (''c'', 3, 12)] :: (string \<times> 64 word \<times> int) list"
  have m: "marks_of ''c'' ?ms = [(1, 10), (2, 11), (3, 12)]" by (simp add: marks_of_def)
  have z: "dw_size (mark_all (NewDedupWindow 2) ?ms) = 2" by (simp add: NewDedupWindow_def Mark_def)
  show ?thesis
    using dedup_window_spec [OF refl, of "''c''" ?ms 2 1] dedup_window_spec [OF refl, of "''c''" ?ms 2 2]
    unfolding m z by (simp add: last_n_def)
qed

end
