(* ===== verification/Producer.thy ===== *)
theory Producer
  imports Topics Dedup
begin

text \<open>
  The producer, \<^verbatim>\<open>src/internal/producer/producer.go\<close>: routing, compression and the three delivery modes of
  \<open>Publish\<close>, with bounded retries on disk errors and deduplication by sequence number. Disk faults and the
  clock are given per append attempt; \<open>cancelled k\<close> says that the context ends during the sleep after
  attempt \<open>k\<close>. Metrics, logging and tracing are left out.
\<close>

section \<open>State\<close>

record PublishResult =
  res_MessageID :: string
  res_Partition :: int
  res_Offset :: int

type_synonym seqKey = "string \<times> 64 word"

record Producer =
  p_ProducerID :: string
  p_idempotencyStore :: "seqKey \<rightharpoonup> PublishResult"
  p_dedup :: DedupWindow
  p_maxRetries :: int
  p_retryDelay :: int

definition NewProducer :: "string \<Rightarrow> int \<Rightarrow> int \<Rightarrow> Producer" where
  "NewProducer uuid maxRetries retryDelay =
     \<lparr>p_ProducerID = ''producer-'' @ uuid, p_idempotencyStore = Map.empty, p_dedup = NewDedupWindow 10000,
      p_maxRetries = maxRetries, p_retryDelay = retryDelay\<rparr>"

datatype publish_error =
    TopicFailed topic_error
  | RouteFailed partition_error
  | CompressFailed compress_error
  | AppendFailed segment_error
  | RetriesExhausted "segment_error option"
  | ContextCancelled
  | SeqNumRequired
  | UnsupportedMode

section \<open>Retries\<close>

definition next_delay :: "int \<Rightarrow> int" where
  "next_delay delay = (if delay * 2 > 30000000000 then 30000000000 else delay * 2)"

text \<open>
  One attempt after the other, \<open>n\<close> of them left; after every failure but the last the caller sleeps. The
  last component lists the sleeps.
\<close>

fun retry_append ::
  "flate_lib \<Rightarrow> (nat \<Rightarrow> int) \<Rightarrow> (nat \<Rightarrow> disk_fault) \<Rightarrow> (nat \<Rightarrow> bool) \<Rightarrow> nat \<Rightarrow> nat \<Rightarrow> int \<Rightarrow> segment_error option \<Rightarrow>
   PartitionLog \<Rightarrow> Message \<Rightarrow> PartitionLog \<times> (publish_error, int) result \<times> int list" where
  "retry_append lib clock flt cancelled attempt 0 delay lastErr pl msg = (pl, Inl (RetriesExhausted lastErr), [])"
| "retry_append lib clock flt cancelled attempt (Suc n) delay lastErr pl msg =
     (case PartitionLog_Append lib (clock attempt) (flt attempt) pl msg of
        (pl', Inr offset) \<Rightarrow> (pl', Inr offset, [])
      | (pl', Inl e) \<Rightarrow>
          if n = 0 then (pl', Inl (RetriesExhausted (Some e)), [])
          else if cancelled attempt then (pl', Inl ContextCancelled, [delay])
          else let (pl'', r, ds) =
                 retry_append lib clock flt cancelled (Suc attempt) n (next_delay delay) (Some e) pl' msg
               in (pl'', r, delay # ds))"

definition publishWithRetry ::
  "flate_lib \<Rightarrow> (nat \<Rightarrow> int) \<Rightarrow> (nat \<Rightarrow> disk_fault) \<Rightarrow> (nat \<Rightarrow> bool) \<Rightarrow> Producer \<Rightarrow> PartitionLog \<Rightarrow> Message \<Rightarrow>
   PartitionLog \<times> (publish_error, int) result" where
  "publishWithRetry lib clock flt cancelled p pl msg =
     (let (pl', r, _) = retry_append lib clock flt cancelled 0 (nat (p_maxRetries p + 1)) (p_retryDelay p) None pl msg
      in (pl', r))"

section \<open>Publishing\<close>

definition set_partition :: "TopicManager \<Rightarrow> string \<Rightarrow> int \<Rightarrow> PartitionLog \<Rightarrow> TopicManager" where
  "set_partition m name part pl =
     m\<lparr>tm_topics := map (\<lambda>(n, t). (n, if n = name then t\<lparr>t_partitions := (t_partitions t)[nat part := pl]\<rparr> else t))
        (tm_topics m)\<rparr>"

definition compress_message ::
  "flate_lib \<Rightarrow> byte \<Rightarrow> byte \<Rightarrow> bytes option \<Rightarrow> Message \<Rightarrow> (compress_error, Message) result" where
  "compress_message lib topicCodec codecOverride payload msg =
     (let codecToUse = (if codecOverride > 0 then codecOverride else topicCodec)
      in if codecToUse \<noteq> CodecNone
         then map_result (\<lambda>compressed. msg\<lparr>m_Payload := Some compressed, m_Codec := codecToUse\<rparr>)
                (Compress lib codecToUse (case payload of None \<Rightarrow> [] | Some b \<Rightarrow> b))
         else Inr msg)"

definition publish_exactly_once ::
  "flate_lib \<Rightarrow> (nat \<Rightarrow> int) \<Rightarrow> (nat \<Rightarrow> disk_fault) \<Rightarrow> (nat \<Rightarrow> bool) \<Rightarrow> Producer \<Rightarrow> PartitionLog \<Rightarrow> Message \<Rightarrow>
   int \<Rightarrow> 64 word \<Rightarrow> string \<Rightarrow> Producer \<times> PartitionLog \<times> (publish_error, PublishResult) result" where
  "publish_exactly_once lib clock flt cancelled p pl msg partID seqNum clientID =
     (if seqNum = 0 then (p, pl, Inl SeqNumRequired)
      else let cid = (if clientID \<noteq> [] then clientID else p_ProducerID p); legacyKey = (cid, seqNum)
           in case LookupOffset (p_dedup p) cid seqNum of
                Some off \<Rightarrow>
                  (case p_idempotencyStore p legacyKey of
                     Some cached \<Rightarrow> (p, pl, Inr cached)
                   | None \<Rightarrow> (p, pl, Inr \<lparr>res_MessageID = [], res_Partition = partID, res_Offset = off\<rparr>))
              | None \<Rightarrow>
                  (case p_idempotencyStore p legacyKey of
                     Some cached \<Rightarrow> (p, pl, Inr cached)
                   | None \<Rightarrow>
                       (case publishWithRetry lib clock flt cancelled p pl msg of
                          (pl', Inl e) \<Rightarrow> (p, pl', Inl e)
                        | (pl', Inr offset) \<Rightarrow>
                            let result = \<lparr>res_MessageID = m_ID msg, res_Partition = partID, res_Offset = offset\<rparr>
                            in (p\<lparr>p_dedup := Mark (p_dedup p) cid seqNum offset,
                                  p_idempotencyStore := (p_idempotencyStore p)(legacyKey \<mapsto> result)\<rparr>, pl', Inr result))))"

definition Publish ::
  "flate_lib \<Rightarrow> string \<Rightarrow> (nat \<Rightarrow> int) \<Rightarrow> (nat \<Rightarrow> disk_fault) \<Rightarrow> (nat \<Rightarrow> bool) \<Rightarrow> Producer \<Rightarrow> TopicManager \<Rightarrow>
   string \<Rightarrow> string \<Rightarrow> bytes option \<Rightarrow> (string \<times> string) list \<Rightarrow> DeliveryMode \<Rightarrow> 64 word \<Rightarrow> byte \<Rightarrow> string \<Rightarrow>
   Producer \<times> TopicManager \<times> (publish_error, PublishResult) result" where
  "Publish lib uuid clock flt cancelled p m topicName key payload headers mode seqNum codecOverride clientID =
     (case Get m topicName of
        Inl e \<Rightarrow> (p, m, Inl (TopicFailed e))
      | Inr tp \<Rightarrow>
          (let (router, assigned) = Assign (tm_partitioner m) topicName key; m1 = m\<lparr>tm_partitioner := router\<rparr>
           in case assigned of
                Inl e \<Rightarrow> (p, m1, Inl (RouteFailed e))
              | Inr partID \<Rightarrow>
                  (case Topic_PartitionLog tp partID of
                     Inl e \<Rightarrow> (p, m1, Inl (TopicFailed e))
                   | Inr pl \<Rightarrow>
                       (let msg0 = (NewMessage uuid (clock 0) topicName payload key headers)\<lparr>m_Partition := partID\<rparr>
                        in case compress_message lib (tc_CompressionCodec (t_cfg tp)) codecOverride payload msg0 of
                             Inl e \<Rightarrow> (p, m1, Inl (CompressFailed e))
                           | Inr msg \<Rightarrow>
                               if mode = AtMostOnce then
                                 (case PartitionLog_Append lib (clock 0) (flt 0) pl msg of
                                    (pl', Inl e) \<Rightarrow> (p, set_partition m1 topicName partID pl', Inl (AppendFailed e))
                                  | (pl', Inr offset) \<Rightarrow> (p, set_partition m1 topicName partID pl',
                                      Inr \<lparr>res_MessageID = m_ID msg, res_Partition = partID, res_Offset = offset\<rparr>))
                               else if mode = AtLeastOnce then
                                 (case publishWithRetry lib clock flt cancelled p pl msg of
                                    (pl', Inl e) \<Rightarrow> (p, set_partition m1 topicName partID pl', Inl e)
                                  | (pl', Inr offset) \<Rightarrow> (p, set_partition m1 topicName partID pl',
                                      Inr \<lparr>res_MessageID = m_ID msg, res_Partition = partID, res_Offset = offset\<rparr>))
                               else if mode = ExactlyOnce then
                                 (let (p', pl', r) =
                                    publish_exactly_once lib clock flt cancelled p pl msg partID seqNum clientID
                                  in (p', set_partition m1 topicName partID pl', r))
                               else (p, m1, Inl UnsupportedMode)))))"

definition PurgeIdempotencyStore :: "Producer \<Rightarrow> 64 word \<Rightarrow> Producer" where
  "PurgeIdempotencyStore p olderThanSeq =
     p\<lparr>p_idempotencyStore := (\<lambda>k. if snd k < olderThanSeq then None else p_idempotencyStore p k)\<rparr>"

record BatchItem =
  bi_Key :: string
  bi_Payload :: "bytes option"
  bi_Headers :: "(string \<times> string) list"
  bi_Mode :: DeliveryMode
  bi_SeqNum :: "64 word"
  bi_Codec :: byte

text \<open>Every item of a batch comes with its own message id, clock, faults and cancellations.\<close>

fun PublishBatch ::
  "flate_lib \<Rightarrow> Producer \<Rightarrow> TopicManager \<Rightarrow> string \<Rightarrow>
   (BatchItem \<times> string \<times> (nat \<Rightarrow> int) \<times> (nat \<Rightarrow> disk_fault) \<times> (nat \<Rightarrow> bool)) list \<Rightarrow>
   Producer \<times> TopicManager \<times> (publish_error, PublishResult) result list" where
  "PublishBatch lib p m topicName [] = (p, m, [])"
| "PublishBatch lib p m topicName ((req, uuid, clock, flt, cancelled) # reqs) =
     (let (p1, m1, r) = Publish lib uuid clock flt cancelled p m topicName (bi_Key req) (bi_Payload req)
            (bi_Headers req) (bi_Mode req) (bi_SeqNum req) (bi_Codec req) [];
          (p2, m2, rs) = PublishBatch lib p1 m1 topicName reqs
      in (p2, m2, r # rs))"

section \<open>Retries are bounded\<close>

lemma next_delay_le: "next_delay d \<le> 30000000000"
  by (simp add: next_delay_def)

lemma retry_append_sleeps:
  assumes "retry_append lib clock flt cancelled a n d e pl msg = (pl', r, ds)"
  shows "length ds \<le> n - 1 \<and> list_all (\<lambda>x. x \<le> max d 30000000000) ds"
  using assms
proof (induction lib clock flt cancelled a n d e pl msg arbitrary: ds pl' r rule: retry_append.induct)
  case (2 lib clock flt cancelled a n d e pl msg)
  obtain pl1 r1 where w: "PartitionLog_Append lib (clock a) (flt a) pl msg = (pl1, r1)"
    by (cases "PartitionLog_Append lib (clock a) (flt a) pl msg")
  show ?case
  proof (cases r1)
    case (Inr off)
    then show ?thesis using 2(2) w by simp
  next
    case (Inl e1)
    show ?thesis
    proof (cases "n = 0 \<or> cancelled a")
      case True
      then show ?thesis using 2(2) w Inl by (auto split: if_splits)
    next
      case False
      obtain pl2 r2 ds2 where t: "retry_append lib clock flt cancelled (Suc a) n (next_delay d) (Some e1) pl1 msg = (pl2, r2, ds2)"
        by (cases "retry_append lib clock flt cancelled (Suc a) n (next_delay d) (Some e1) pl1 msg") auto
      have ds: "ds = d # ds2" using 2(2) w Inl False t by simp
      have "length ds2 \<le> n - 1 \<and> list_all (\<lambda>x. x \<le> max (next_delay d) 30000000000) ds2"
        using 2(1) [OF w [symmetric] Inl _ _ t] False by simp
      then show ?thesis using ds False next_delay_le [of d] by (auto simp: list_all_iff max_def)
    qed
  qed
qed simp

section \<open>A failed sync at the partition log\<close>

lemma Segment_Write_sync_fault:
  assumes "seg_inv s es" and "fits now s msg" and "s_syncPolicy s \<noteq> ''os''"
    and "Segment_Write now LogSyncFault s msg = (s', r)"
  shows "r = Inl LogSync" "seg_inv s' (es @ [(now, s_nextOffset s, msg\<lparr>m_Offset := s_nextOffset s\<rparr>)])"
    "s_nextOffset s' = s_nextOffset s + 1" "s_baseOffset s' = s_baseOffset s" "s_maxBytes s' = s_maxBytes s"
proof -
  let ?e = "(now, s_nextOffset s, msg\<lparr>m_Offset := s_nextOffset s\<rparr>) :: entry"
  let ?rec = "encodeRecord now (s_nextOffset s) (msg\<lparr>m_Offset := s_nextOffset s\<rparr>) (s_version s)"
  have s': "s' = s\<lparr>s_logFile := s_logFile s @ ?rec, s_logSize := s_logSize s + int (length ?rec),
      s_nextOffset := s_nextOffset s + 1\<rparr>" and r: "r = Inl LogSync"
    using assms(3,4) by (simp_all add: Segment_Write_def Let_def)
  show "r = Inl LogSync" by (rule r)
  show "s_nextOffset s' = s_nextOffset s + 1" "s_baseOffset s' = s_baseOffset s" "s_maxBytes s' = s_maxBytes s"
    by (simp_all add: s')
  have we: "wf_entry ?e" using assms(2) by (simp add: wf_entry_def fits_def e_off_def e_msg_def)
  have rec: "record_of (s_version s) ?e = ?rec" by (simp add: record_of_def e_off_def e_msg_def)
  have wes: "wf_entries (s_baseOffset s) (s_nextOffset s + 1) (es @ [?e])"
    using assms(1) we by (intro wf_entries_snoc) (auto simp: seg_inv_def e_off_def)
  obtain ps where ps: "s_indexFile s = index_bytes ps" "list_all (index_point (s_version s) (s_dataStart s) es) ps"
    using assms(1) by (auto simp: seg_inv_def)
  have "list_all (index_point (s_version s) (s_dataStart s) (es @ [?e])) ps"
    using ps(2) by (auto simp: list_all_iff intro: index_point_snoc)
  then show "seg_inv s' (es @ [?e])"
    using assms(1,2) wes ps(1) rec by (auto simp: seg_inv_def s' fits_def)
qed

lemma PartitionLog_Append_sync_fault:
  assumes "pl_holds pl es" and "pl_fits lib now pl msg" and "s_syncPolicy (active_after_roll lib pl) \<noteq> ''os''"
  shows "\<exists>pl'. PartitionLog_Append lib now LogSyncFault pl msg = (pl', Inl LogSync) \<and>
    PartitionLog_NextOffset pl' = PartitionLog_NextOffset pl + 1 \<and>
    pl_holds pl' (es @ [(now, PartitionLog_NextOffset pl, msg\<lparr>m_Offset := PartitionLog_NextOffset pl\<rparr>)])"
proof -
  obtain ess where ess: "pl_inv pl ess" "concat ess = es" using assms(1) by (auto simp: pl_holds_def)
  obtain ess1 where r: "pl_inv (roll lib pl) ess1" "concat ess1 = concat ess"
    "PartitionLog_NextOffset (roll lib pl) = PartitionLog_NextOffset pl"
    using ess(1) by (rule roll_inv)
  obtain init act es0 es1 where d: "pl_segments (roll lib pl) = init @ [act]" "ess1 = es0 @ [es1]"
    using r(1) by (rule pl_invE)
  note i = pl_inv_snoc [OF d(1), of es0 es1]
  have inv: "seg_inv act es1" using r(1) i d(2) by simp
  have nxt: "s_nextOffset act = PartitionLog_NextOffset pl" using r(3) d(1) by (simp add: PartitionLog_NextOffset_def)
  have fit: "fits now act msg" "s_syncPolicy act \<noteq> ''os''"
    using assms(2,3) d(1) by (simp_all add: pl_fits_def active_after_roll_def)
  obtain s' x where w: "Segment_Write now LogSyncFault act msg = (s', x)" by (cases "Segment_Write now LogSyncFault act msg")
  note w' = Segment_Write_sync_fault [OF inv fit w]
  define pl' where "pl' = (roll lib pl)\<lparr>pl_segments := init @ [s']\<rparr>"
  have app: "PartitionLog_Append lib now LogSyncFault pl msg = (pl', Inl LogSync)"
    using w w'(1) d(1) by (simp add: PartitionLog_Append_def pl'_def Let_def)
  have seg: "pl_segments pl' = init @ [s']" by (simp add: pl'_def)
  have "pl_inv pl' (es0 @ [es1 @ [(now, s_nextOffset act, msg\<lparr>m_Offset := s_nextOffset act\<rparr>)]])"
    unfolding pl_inv_snoc [OF seg] using r(1) i d(2) w' by (simp add: pl'_def seg_before_def)
  then have "pl_holds pl' (es @ [(now, s_nextOffset act, msg\<lparr>m_Offset := s_nextOffset act\<rparr>)])"
    using r(2) d(2) ess(2) by (fastforce simp: pl_holds_def)
  moreover have "PartitionLog_NextOffset pl' = PartitionLog_NextOffset pl + 1"
    using w'(3) nxt by (simp add: PartitionLog_NextOffset_def seg)
  ultimately show ?thesis using app nxt by simp
qed

text \<open>C38. Retrying after a failed sync duplicates the message, in exactly-once mode too: if the first
  append fails only in its sync and the second succeeds, the publish reports one offset but the log holds
  the message twice, and a reader receives both copies.\<close>

theorem retry_after_failed_sync_duplicates:
  assumes "pl_holds pl es" and "pl_fits lib (clock 0) pl msg" and "s_syncPolicy (active_after_roll lib pl) \<noteq> ''os''"
    and "pl1 = fst (PartitionLog_Append lib (clock 0) LogSyncFault pl msg)" and "pl_fits lib (clock 1) pl1 msg"
    and "flt 0 = LogSyncFault" and "flt 1 = NoFault" and "\<not> cancelled 0" and "1 \<le> p_maxRetries p"
    and "seqNum \<noteq> 0" and "LookupOffset (p_dedup p) clientID seqNum = None"
    and "p_idempotencyStore p (clientID, seqNum) = None" and "clientID \<noteq> []"
    and "publish_exactly_once lib clock flt cancelled p pl msg part seqNum clientID = (p', pl', r)"
  shows "(\<exists>res. r = Inr res \<and> res_Offset res = PartitionLog_NextOffset pl + 1) \<and>
    PartitionLog_Read lib pl' (PartitionLog_NextOffset pl) 2 =
      Inr [msg\<lparr>m_Offset := PartitionLog_NextOffset pl\<rparr>, msg\<lparr>m_Offset := PartitionLog_NextOffset pl + 1\<rparr>]"
proof -
  let ?n = "PartitionLog_NextOffset pl"
  let ?e0 = "(clock 0, ?n, msg\<lparr>m_Offset := ?n\<rparr>) :: entry"
  let ?e1 = "(clock 1, ?n + 1, msg\<lparr>m_Offset := ?n + 1\<rparr>) :: entry"
  have p1: "PartitionLog_Append lib (clock 0) LogSyncFault pl msg = (pl1, Inl LogSync)"
    "PartitionLog_NextOffset pl1 = ?n + 1" "pl_holds pl1 (es @ [?e0])"
    using PartitionLog_Append_sync_fault [OF assms(1-3)] assms(4) by auto
  obtain pl2 where p2: "PartitionLog_Append lib (clock 1) NoFault pl1 msg = (pl2, Inr (?n + 1))"
    "pl_holds pl2 ((es @ [?e0]) @ [?e1])"
    using pl_log.append_law [OF p1(3) assms(5)] p1(2) by auto
  obtain k where k: "nat (p_maxRetries p + 1) = Suc (Suc k)"
    using assms(9) by (intro that [of "nat (p_maxRetries p - 1)"]) simp
  have "publishWithRetry lib clock flt cancelled p pl msg = (pl2, Inr (?n + 1))"
    using p1(1) p2(1) assms(6-8) by (simp add: publishWithRetry_def k)
  then have r: "r = Inr \<lparr>res_MessageID = m_ID msg, res_Partition = part, res_Offset = ?n + 1\<rparr>" "pl' = pl2"
    using assms(10-14) by (auto simp: publish_exactly_once_def Let_def)
  have none: "filter (\<lambda>e. ?n \<le> e_off e) es = []"
    using pl_holds_next [OF assms(1)] by (auto simp: filter_empty_conv list_all_iff)
  have "PartitionLog_Read lib pl2 ?n 2 = Inr (take (nat 2) (entries_from ?n ((es @ [?e0]) @ [?e1])))"
    using p2(2) by (rule pl_log.read_law)
  also have "entries_from ?n ((es @ [?e0]) @ [?e1]) = [msg\<lparr>m_Offset := ?n\<rparr>, msg\<lparr>m_Offset := ?n + 1\<rparr>]"
    using none by (simp add: entries_from_def) (simp add: e_off_def e_msg_def)
  finally show ?thesis using r by (simp add: eval_nat_numeral)
qed

section \<open>Exactly once\<close>

text \<open>What other callers do with the producer between two publishes.\<close>

datatype producer_op =
    PublishOp string "nat \<Rightarrow> int" "nat \<Rightarrow> disk_fault" "nat \<Rightarrow> bool" string string "bytes option"
      "(string \<times> string) list" DeliveryMode "64 word" byte string
  | PurgeOp "64 word"

definition producer_step :: "flate_lib \<Rightarrow> Producer \<times> TopicManager \<Rightarrow> producer_op \<Rightarrow> Producer \<times> TopicManager" where
  "producer_step lib st op =
     (case op of
        PublishOp uuid clock flt cancelled topic key payload headers mode seq codec client \<Rightarrow>
          (let (p, m, _) = Publish lib uuid clock flt cancelled (fst st) (snd st) topic key payload headers mode seq codec client
           in (p, m))
      | PurgeOp older \<Rightarrow> (PurgeIdempotencyStore (fst st) older, snd st))"

text \<open>A producer after another one: the same identity, and no cached result lost.\<close>

definition extends :: "Producer \<Rightarrow> Producer \<Rightarrow> bool" where
  "extends p p' \<longleftrightarrow> p_ProducerID p' = p_ProducerID p \<and> p_idempotencyStore p \<subseteq>\<^sub>m p_idempotencyStore p'"

lemma extends_refl [simp]: "extends p p"
  by (simp add: extends_def)

lemma extends_store [simp]:
  "p_idempotencyStore p k = None \<Longrightarrow>
   extends p (p\<lparr>p_dedup := d, p_idempotencyStore := (p_idempotencyStore p)(k \<mapsto> res)\<rparr>)"
  by (auto simp: extends_def map_le_def)

lemma exactly_once_extends:
  assumes "publish_exactly_once lib clock flt cancelled p pl msg part seq client = (p', pl', r)"
  shows "extends p p'"
  using assms
  by (auto simp: publish_exactly_once_def Let_def split: if_split_asm option.split_asm prod.split_asm sum.split_asm)

lemma Publish_extends:
  assumes "Publish lib uuid clock flt cancelled p m topic key payload headers mode seq codec client = (p', m', r)"
  shows "extends p p'"
  using assms exactly_once_extends
  by (auto simp only: Publish_def Let_def extends_refl split: sum.split_asm prod.split_asm if_split_asm)

definition keeps_seq :: "64 word \<Rightarrow> producer_op \<Rightarrow> bool" where
  "keeps_seq seq op = (case op of PurgeOp older \<Rightarrow> \<not> seq < older | _ \<Rightarrow> True)"

lemma producer_step_keeps:
  assumes "keeps_seq seq op" and "p_idempotencyStore (fst st) (c, seq) = Some x"
  shows "p_idempotencyStore (fst (producer_step lib st op)) (c, seq) = Some x \<and>
    p_ProducerID (fst (producer_step lib st op)) = p_ProducerID (fst st)"
proof (cases op)
  case (PublishOp uuid clock flt cancelled topic key payload headers mode s codec client)
  obtain p' m' r where w: "Publish lib uuid clock flt cancelled (fst st) (snd st) topic key payload headers mode s codec client = (p', m', r)"
    by (cases "Publish lib uuid clock flt cancelled (fst st) (snd st) topic key payload headers mode s codec client") auto
  have "extends (fst st) p'" by (rule Publish_extends [OF w])
  moreover have "fst (producer_step lib st op) = p'" by (simp add: producer_step_def PublishOp w)
  ultimately show ?thesis using assms(2) by (force simp: extends_def map_le_def)
next
  case (PurgeOp older)
  then show ?thesis using assms by (simp add: producer_step_def keeps_seq_def PurgeIdempotencyStore_def)
qed

lemma producer_run_keeps:
  "list_all (keeps_seq seq) ops \<Longrightarrow> p_idempotencyStore (fst st) (c, seq) = Some x \<Longrightarrow>
   p_idempotencyStore (fst (foldl (producer_step lib) st ops)) (c, seq) = Some x \<and>
   p_ProducerID (fst (foldl (producer_step lib) st ops)) = p_ProducerID (fst st)"
proof (induction ops arbitrary: st)
  case (Cons op ops)
  have "p_idempotencyStore (fst (producer_step lib st op)) (c, seq) = Some x \<and>
      p_ProducerID (fst (producer_step lib st op)) = p_ProducerID (fst st)"
    using Cons.prems by (intro producer_step_keeps) simp_all
  then show ?case using Cons.IH [of "producer_step lib st op"] Cons.prems by simp
qed simp

lemma exactly_once_stored:
  assumes "publish_exactly_once lib clock flt cancelled p pl msg part seq client = (p', pl', Inr res)"
    and "p_idempotencyStore p (if client \<noteq> [] then client else p_ProducerID p, seq) = None"
    and "LookupOffset (p_dedup p) (if client \<noteq> [] then client else p_ProducerID p) seq = None"
  shows "p_idempotencyStore p' (if client \<noteq> [] then client else p_ProducerID p, seq) = Some res"
  using assms by (auto simp: publish_exactly_once_def Let_def split: if_splits prod.splits sum.splits)

lemma exactly_once_repeat:
  assumes "p_idempotencyStore p (if client \<noteq> [] then client else p_ProducerID p, seq) = Some res" and "seq \<noteq> 0"
  shows "publish_exactly_once lib clock flt cancelled p pl msg part seq client = (p, pl, Inr res)"
  using assms by (auto simp: publish_exactly_once_def Let_def split: option.splits)

text \<open>C21. An acknowledged exactly-once publish is not repeated: after it, and after any other publishes and
  any purges of older sequence numbers, publishing the same sequence number again returns the first
  result and writes nothing.\<close>

theorem exactly_once_idempotent:
  assumes "publish_exactly_once lib clock flt cancelled p pl msg part seq client = (p1, pl1, Inr res)"
    and "p_idempotencyStore p (if client \<noteq> [] then client else p_ProducerID p, seq) = None"
    and "LookupOffset (p_dedup p) (if client \<noteq> [] then client else p_ProducerID p) seq = None"
    and "list_all (keeps_seq seq) ops" and "foldl (producer_step lib) (p1, m1) ops = (p2, m2)" and "seq \<noteq> 0"
  shows "publish_exactly_once lib clock' flt' cancelled' p2 pl2 msg' part' seq client = (p2, pl2, Inr res)"
proof -
  let ?c = "if client \<noteq> [] then client else p_ProducerID p"
  have id1: "p_ProducerID p1 = p_ProducerID p" using exactly_once_extends [OF assms(1)] by (simp add: extends_def)
  have "p_idempotencyStore p2 (?c, seq) = Some res \<and> p_ProducerID p2 = p_ProducerID p1"
    using producer_run_keeps [OF assms(4), of "(p1, m1)" ?c res lib] exactly_once_stored [OF assms(1-3)] assms(5) by simp
  then show ?thesis using id1 assms(6) by (intro exactly_once_repeat) (auto split: if_splits)
qed

text \<open>Clients that do not name themselves share one sequence: the broker publishes without a client id, so
  the second of two clients using the same sequence number is told that its message was stored, at the
  place of the first client's message, while nothing of it is written.\<close>

theorem shared_sequence_drops_message:
  assumes "publish_exactly_once lib clock flt cancelled p pl msg part seq [] = (p1, pl1, Inr res)"
    and "p_idempotencyStore p (p_ProducerID p, seq) = None" and "LookupOffset (p_dedup p) (p_ProducerID p) seq = None"
  shows "seq \<noteq> 0 \<and> publish_exactly_once lib clock' flt' cancelled' p1 pl' msg' part' seq [] = (p1, pl', Inr res)"
proof -
  have s: "seq \<noteq> 0" using assms(1) by (auto simp: publish_exactly_once_def)
  have "p_ProducerID p1 = p_ProducerID p" using exactly_once_extends [OF assms(1)] by (simp add: extends_def)
  then have "p_idempotencyStore p1 (p_ProducerID p1, seq) = Some res"
    using exactly_once_stored [OF assms(1)] assms(2,3) by simp
  then show ?thesis using s exactly_once_repeat [of p1 "[]" seq res] by simp
qed

section \<open>Witnesses\<close>

definition sample_producer :: Producer where
  "sample_producer = NewProducer ''x'' 3 1"

lemma sample_producer_fresh:
  "p_idempotencyStore sample_producer k = None" "LookupOffset (p_dedup sample_producer) c s = None"
  "p_maxRetries sample_producer = 3" "p_ProducerID sample_producer = ''producer-x''"
  by (simp_all add: sample_producer_def NewProducer_def LookupOffset_def NewDedupWindow_def)

lemma sample_once:
  "publish_exactly_once sample_lib (\<lambda>_. 5) (\<lambda>_. NoFault) (\<lambda>_. False) sample_producer sample_pl0 sample_Message 0 1 c =
     (sample_producer\<lparr>p_dedup := Mark (p_dedup sample_producer) (if c \<noteq> [] then c else ''producer-x'') 1 0,
        p_idempotencyStore := [(if c \<noteq> [] then c else ''producer-x'', 1) \<mapsto>
          \<lparr>res_MessageID = m_ID sample_Message, res_Partition = 0, res_Offset = 0\<rparr>]\<rparr>,
      sample_pl1, Inr \<lparr>res_MessageID = m_ID sample_Message, res_Partition = 0, res_Offset = 0\<rparr>)"
proof -
  have "PartitionLog_Append sample_lib 5 NoFault sample_pl0 sample_Message = (sample_pl1, Inr 0)"
    by (rule sample_pl1_segments)
  then have "publishWithRetry sample_lib (\<lambda>_. 5) (\<lambda>_. NoFault) (\<lambda>_. False) sample_producer sample_pl0 sample_Message =
      (sample_pl1, Inr 0)"
    by (simp add: publishWithRetry_def sample_producer_fresh eval_nat_numeral)
  moreover have "p_idempotencyStore sample_producer = Map.empty" by (simp add: sample_producer_def NewProducer_def)
  ultimately show ?thesis by (simp add: publish_exactly_once_def sample_producer_fresh Let_def)
qed

theorem exactly_once_idempotent_witness:
  "snd (publish_exactly_once sample_lib (\<lambda>_. 9) (\<lambda>_. NoFault) (\<lambda>_. False)
      (PurgeIdempotencyStore (fst (publish_exactly_once sample_lib (\<lambda>_. 5) (\<lambda>_. NoFault) (\<lambda>_. False) sample_producer
         sample_pl0 sample_Message 0 1 ''c'')) 1) sample_pl1 zero_Message 0 1 ''c'') =
   (sample_pl1, Inr \<lparr>res_MessageID = m_ID sample_Message, res_Partition = 0, res_Offset = 0\<rparr>)"
proof -
  let ?q = "fst (publish_exactly_once sample_lib (\<lambda>_. 5) (\<lambda>_. NoFault) (\<lambda>_. False) sample_producer sample_pl0 sample_Message 0 1 ''c'')"
  let ?m = "NewTopicManager 10 4096 ''always'' (\<lambda>_ _. []) NewHashPartitioner"
  have k: "list_all (keeps_seq 1) [PurgeOp 1]" by (simp add: keeps_seq_def)
  have s: "foldl (producer_step sample_lib) (?q, ?m) [PurgeOp 1] = (PurgeIdempotencyStore ?q 1, ?m)"
    by (simp add: producer_step_def)
  have q: "publish_exactly_once sample_lib (\<lambda>_. 5) (\<lambda>_. NoFault) (\<lambda>_. False) sample_producer sample_pl0 sample_Message 0 1 ''c'' =
      (?q, sample_pl1, Inr \<lparr>res_MessageID = m_ID sample_Message, res_Partition = 0, res_Offset = 0\<rparr>)"
    by (simp add: sample_once)
  show ?thesis
    using exactly_once_idempotent [OF q _ _ k s, of "\<lambda>_. 9" "\<lambda>_. NoFault" "\<lambda>_. False" sample_pl1 zero_Message 0]
      sample_producer_fresh by simp
qed

theorem shared_sequence_drops_message_witness:
  "\<exists>p1. publish_exactly_once sample_lib (\<lambda>_. 9) (\<lambda>_. NoFault) (\<lambda>_. False) p1 sample_pl1
      (sample_Message\<lparr>m_Payload := Some [1, 2, 3]\<rparr>) 0 1 [] =
    (p1, sample_pl1, Inr \<lparr>res_MessageID = m_ID sample_Message, res_Partition = 0, res_Offset = 0\<rparr>)"
  by (rule exI, rule conjunct2 [OF shared_sequence_drops_message [OF sample_once [of "[]"]]])
    (simp_all add: sample_producer_fresh)

theorem retry_after_failed_sync_duplicates_witness:
  "\<exists>p' pl' r. publish_exactly_once sample_lib (\<lambda>k. if k = 0 then 5 else 6) (\<lambda>k. if k = 0 then LogSyncFault else NoFault) (\<lambda>_. False)
       sample_producer sample_pl0 sample_Message 0 1 ''c'' = (p', pl', r) \<and>
     PartitionLog_Read sample_lib pl' 0 2 = Inr [sample_Message, sample_Message\<lparr>m_Offset := 1\<rparr>]"
proof -
  let ?clock = "\<lambda>k :: nat. if k = 0 then 5 else 6 :: int" and ?flt = "\<lambda>k :: nat. if k = 0 then LogSyncFault else NoFault"
  have h: "pl_holds sample_pl0 []" using sample_pl0_inv by (auto simp: pl_holds_def)
  have r0: "roll sample_lib sample_pl0 = sample_pl0"
    by (simp add: roll_def sample_pl0_segments Segment_IsFull_def)
  have act: "active_after_roll sample_lib sample_pl0 = sample_seg 0" by (simp add: active_after_roll_def r0 sample_pl0_segments)
  have fit: "pl_fits sample_lib (?clock 0) sample_pl0 sample_Message" by (simp add: pl_fits_def act fits_sample_at)
  have sync: "s_syncPolicy (active_after_roll sample_lib sample_pl0) \<noteq> ''os''" by (simp add: act)
  let ?pl1 = "fst (PartitionLog_Append sample_lib (?clock 0) LogSyncFault sample_pl0 sample_Message)"
  obtain s' r where w: "Segment_Write 5 LogSyncFault (sample_seg 0) sample_Message = (s', r)"
    by (cases "Segment_Write 5 LogSyncFault (sample_seg 0) sample_Message")
  have f0: "fits 5 (sample_seg 0) sample_Message" by (simp add: fits_sample_at)
  note w' = Segment_Write_sync_fault [OF sample_seg_inv f0 _ w]
  have pl1: "pl_segments ?pl1 = [s']" "pl_segMaxBytes ?pl1 = 10" "pl_indexEvery ?pl1 = 4096" "pl_syncPolicy ?pl1 = ''always''"
    using w w'(1) by (simp_all add: PartitionLog_Append_def r0 sample_pl0_segments Let_def)
  have s': "s_nextOffset s' = 1" "s_baseOffset s' = 0" "s_maxBytes s' = 10" using w' by simp_all
  have "s_version s' = RecordVersion" "s_logSize s' < 1000"
    using w by (auto simp: Segment_Write_def Let_def length_encodeRecord length_sample key_sample sample_offset0
        recHeaderSize_def record_consts)
  moreover have "segment_files [s'] 1 = ([], [])" using s' by (simp add: segment_files_def)
  ultimately have "fits 6 (active_after_roll sample_lib ?pl1) sample_Message"
    using s' pl1 by (auto simp: active_after_roll_def roll_def sample_seg_def [symmetric] intro!: fits_sample_at)
  then have fit1: "pl_fits sample_lib (?clock 1) ?pl1 sample_Message" by (simp add: pl_fits_def)
  obtain p' pl' r where e: "publish_exactly_once sample_lib ?clock ?flt (\<lambda>_. False) sample_producer sample_pl0 sample_Message 0 1 ''c'' = (p', pl', r)"
    by (cases "publish_exactly_once sample_lib ?clock ?flt (\<lambda>_. False) sample_producer sample_pl0 sample_Message 0 1 ''c''") auto
  have "PartitionLog_Read sample_lib pl' 0 2 = Inr [sample_Message\<lparr>m_Offset := 0\<rparr>, sample_Message\<lparr>m_Offset := 1\<rparr>]"
    using retry_after_failed_sync_duplicates [OF h fit sync refl fit1 _ _ _ _ _ _ _ _ e] sample_producer_fresh
    by (simp add: sample_pl0_next)
  then show ?thesis using e by (auto simp: sample_offset0)
qed

end
