(* ===== verification/Access.thy ===== *)
theory Access
  imports Prelude
begin

text \<open>
  Authentication and access control: \<^verbatim>\<open>src/internal/auth/auth.go\<close> and \<^verbatim>\<open>rbac.go\<close>, with the
  connection's view of an identity from \<^verbatim>\<open>src/internal/networking/connection.go\<close>. Keys are stored under
  their SHA-256 digest, which is defined here on 32-bit words as \<open>crypto/sha256\<close> computes it.
\<close>

section \<open>SHA-256\<close>

text \<open>
  The constants are not tabulated but derived: they are the first 32 bits of the fractional parts of the
  cube roots (round constants) and the square roots (initial state) of the first primes. A root is found
  bit by bit, from the bit \<open>b\<close> downwards.
\<close>

definition small_primes :: "int list" where
  "small_primes =
     [2, 3, 5, 7, 11, 13, 17, 19, 23, 29, 31, 37, 41, 43, 47, 53, 59, 61, 67, 71, 73, 79, 83, 89, 97,
      101, 103, 107, 109, 113, 127, 131, 137, 139, 149, 151, 157, 163, 167, 173, 179, 181, 191, 193,
      197, 199, 211, 223, 227, 229, 233, 239, 241, 251, 257, 263, 269, 271, 277, 281, 283, 293, 307,
      311]"

fun root_bits :: "nat \<Rightarrow> nat \<Rightarrow> int \<Rightarrow> int \<Rightarrow> int" where
  "root_bits 0 k n r = r"
| "root_bits (Suc b) k n r = root_bits b k n (if (r + 2 ^ b) ^ k \<le> n then r + 2 ^ b else r)"

definition root_fraction :: "nat \<Rightarrow> int \<Rightarrow> 32 word" where
  "root_fraction k p = word_of_int (root_bits 37 k (p * 2 ^ (32 * k)) 0)"

definition sha_K :: "32 word list" where
  "sha_K = map (root_fraction 3) small_primes"

definition sha_H0 :: "32 word list" where
  "sha_H0 = map (root_fraction 2) (take 8 small_primes)"

definition rotr :: "nat \<Rightarrow> 32 word \<Rightarrow> 32 word" where
  "rotr n w = drop_bit n w OR push_bit (32 - n) w"

definition put32 :: "32 word \<Rightarrow> bytes" where
  "put32 w = map (\<lambda>i. ucast (drop_bit i w)) [24, 16, 8, 0]"

definition put64 :: "64 word \<Rightarrow> bytes" where
  "put64 w = map (\<lambda>i. ucast (drop_bit i w)) [56, 48, 40, 32, 24, 16, 8, 0]"

definition be_word :: "bytes \<Rightarrow> 32 word" where
  "be_word bs = foldl (\<lambda>w b. w * 256 + ucast b) 0 bs"

definition sha_pad :: "bytes \<Rightarrow> bytes" where
  "sha_pad bs =
     bs @ [0x80] @ replicate ((119 - length bs mod 64) mod 64) 0 @ put64 (word_of_nat (8 * length bs))"

fun chunks :: "nat \<Rightarrow> nat \<Rightarrow> 'a list \<Rightarrow> 'a list list" where
  "chunks 0 n xs = []"
| "chunks (Suc k) n xs = take n xs # chunks k n (drop n xs)"

text \<open>The message schedule, extended one word at a time.\<close>

fun sha_schedule :: "nat \<Rightarrow> 32 word list \<Rightarrow> 32 word list" where
  "sha_schedule 0 ws = ws"
| "sha_schedule (Suc k) ws =
     (let t = length ws; w15 = ws ! (t - 15); w2 = ws ! (t - 2);
          s0 = rotr 7 w15 XOR rotr 18 w15 XOR drop_bit 3 w15;
          s1 = rotr 17 w2 XOR rotr 19 w2 XOR drop_bit 10 w2
      in sha_schedule k (ws @ [ws ! (t - 16) + s0 + ws ! (t - 7) + s1]))"

fun sha_rounds :: "(32 word \<times> 32 word) list \<Rightarrow> 32 word list \<Rightarrow> 32 word list" where
  "sha_rounds ((k, w) # kws) [a, b, c, d, e, f, g, h] =
     (let t1 = h + (rotr 6 e XOR rotr 11 e XOR rotr 25 e) + ((e AND f) XOR (NOT e AND g)) + k + w;
          t2 = (rotr 2 a XOR rotr 13 a XOR rotr 22 a) + ((a AND b) XOR (a AND c) XOR (b AND c))
      in sha_rounds kws [t1 + t2, a, b, c, d + t1, e, f, g])"
| "sha_rounds _ st = st"

definition sha_block :: "32 word list \<Rightarrow> bytes \<Rightarrow> 32 word list" where
  "sha_block st blk =
     map2 (+) st (sha_rounds (zip sha_K (sha_schedule 48 (map be_word (chunks 16 4 blk)))) st)"

definition sha256 :: "bytes \<Rightarrow> bytes" where
  "sha256 bs =
     (let p = sha_pad bs
      in concat (map put32 (foldl sha_block sha_H0 (chunks (length p div 64) 64 p))))"

definition hex_digit :: "nat \<Rightarrow> char" where
  "hex_digit n = ''0123456789abcdef'' ! n"

definition hashKey :: "string \<Rightarrow> string" where
  "hashKey key = concat (map (\<lambda>b. [hex_digit (unat b div 16), hex_digit (unat b mod 16)]) (sha256 (bytes_of_string key)))"

text \<open>The published test vector for the message \<open>abc\<close>.\<close>

lemma hashKey_abc: "hashKey ''abc'' = ''ba7816bf8f01cfea414140de5dae2223b00361a396177a9cb410ff61f20015ad''"
  by code_simp

section \<open>Roles and permissions\<close>

definition RoleAdmin :: string where "RoleAdmin = ''admin''"
definition RoleProducer :: string where "RoleProducer = ''producer''"
definition RoleConsumer :: string where "RoleConsumer = ''consumer''"
definition RoleViewer :: string where "RoleViewer = ''viewer''"

definition PermPublish :: string where "PermPublish = ''publish''"
definition PermSubscribe :: string where "PermSubscribe = ''subscribe''"
definition PermFetch :: string where "PermFetch = ''fetch''"
definition PermCommit :: string where "PermCommit = ''commit''"
definition PermCreateTopic :: string where "PermCreateTopic = ''create_topic''"
definition PermDeleteTopic :: string where "PermDeleteTopic = ''delete_topic''"
definition PermListTopics :: string where "PermListTopics = ''list_topics''"
definition PermSeek :: string where "PermSeek = ''seek''"
definition PermAdmin :: string where "PermAdmin = ''admin''"

lemmas role_defs = RoleAdmin_def RoleProducer_def RoleConsumer_def RoleViewer_def

lemmas perm_defs = PermPublish_def PermSubscribe_def PermFetch_def PermCommit_def PermCreateTopic_def
  PermDeleteTopic_def PermListTopics_def PermSeek_def PermAdmin_def

definition RolePermissions :: "string \<Rightarrow> string list" where
  "RolePermissions role =
     (if role = RoleAdmin then
        [PermPublish, PermSubscribe, PermFetch, PermCommit, PermCreateTopic, PermDeleteTopic, PermListTopics,
         PermSeek, PermAdmin]
      else if role = RoleProducer then [PermPublish, PermListTopics]
      else if role = RoleConsumer then [PermSubscribe, PermFetch, PermCommit, PermSeek, PermListTopics]
      else if role = RoleViewer then [PermListTopics]
      else [])"

record Identity =
  id_ClientID :: string
  id_Role :: string
  id_Topics :: "string list"

fun topic_listed :: "string \<Rightarrow> string list \<Rightarrow> bool" where
  "topic_listed topic [] = False"
| "topic_listed topic (t # ts) = (if t = topic then True else topic_listed topic ts)"

fun perm_listed :: "string \<Rightarrow> string list \<Rightarrow> bool" where
  "perm_listed perm [] = False"
| "perm_listed perm (p # ps) = (if p = perm then True else perm_listed perm ps)"

definition Identity_Can :: "Identity \<Rightarrow> string \<Rightarrow> string \<Rightarrow> bool" where
  "Identity_Can i perm topic =
     (if topic \<noteq> [] \<and> id_Topics i \<noteq> [] \<and> \<not> topic_listed topic (id_Topics i) then False
      else perm_listed perm (RolePermissions (id_Role i)))"

fun roleFromLegacy :: "string list \<Rightarrow> string" where
  "roleFromLegacy [] = RoleViewer"
| "roleFromLegacy (p # ps) =
     (if p = ''admin'' then RoleAdmin
      else if p = ''publish'' then RoleProducer
      else if p = ''subscribe'' then RoleConsumer
      else roleFromLegacy ps)"

section \<open>The authenticator\<close>

record APIKeyEntry =
  ak_Key :: string
  ak_ClientID :: string
  ak_Role :: string
  ak_Permissions :: "string list"
  ak_Topics :: "string list"

record Authenticator =
  au_keys :: "string \<rightharpoonup> Identity"
  au_enabled :: bool

definition key_identity :: "APIKeyEntry \<Rightarrow> Identity" where
  "key_identity k =
     \<lparr>id_ClientID = ak_ClientID k, id_Role = (if ak_Role k \<noteq> [] then ak_Role k else roleFromLegacy (ak_Permissions k)),
      id_Topics = ak_Topics k\<rparr>"

definition NewAuthenticator :: "bool \<Rightarrow> APIKeyEntry list \<Rightarrow> Authenticator" where
  "NewAuthenticator enabled ks =
     \<lparr>au_keys = foldl (\<lambda>m k. m(hashKey (ak_Key k) \<mapsto> key_identity k)) Map.empty ks, au_enabled = enabled\<rparr>"

definition anonymous :: Identity where
  "anonymous = \<lparr>id_ClientID = ''anonymous'', id_Role = RoleAdmin, id_Topics = []\<rparr>"

definition Authenticate :: "Authenticator \<Rightarrow> string \<Rightarrow> Identity option" where
  "Authenticate a key = (if \<not> au_enabled a then Some anonymous else au_keys a (hashKey key))"

definition AddKey :: "Authenticator \<Rightarrow> string \<Rightarrow> string \<Rightarrow> string \<Rightarrow> string list \<Rightarrow> Authenticator" where
  "AddKey a key clientID role topics =
     a\<lparr>au_keys := (au_keys a)(hashKey key \<mapsto> \<lparr>id_ClientID = clientID, id_Role = role, id_Topics = topics\<rparr>)\<rparr>"

definition RemoveKey :: "Authenticator \<Rightarrow> string \<Rightarrow> Authenticator" where
  "RemoveKey a key = a\<lparr>au_keys := (au_keys a)(hashKey key := None)\<rparr>"

section \<open>Connections\<close>

record Conn =
  cn_authed :: bool
  cn_clientID :: string
  cn_perms :: "string list"
  cn_identity :: "Identity option"

definition newConn :: Conn where
  "newConn = \<lparr>cn_authed = False, cn_clientID = [], cn_perms = [], cn_identity = None\<rparr>"

definition SetAuth :: "Conn \<Rightarrow> string \<Rightarrow> string list \<Rightarrow> Conn" where
  "SetAuth c clientID perms = c\<lparr>cn_clientID := clientID, cn_perms := perms, cn_authed := True\<rparr>"

definition SetIdentity :: "Conn \<Rightarrow> Identity \<Rightarrow> Conn" where
  "SetIdentity c i = c\<lparr>cn_identity := Some i\<rparr>"

definition Can :: "Conn \<Rightarrow> string \<Rightarrow> string \<Rightarrow> bool" where
  "Can c perm topic =
     (case cn_identity c of
        Some i \<Rightarrow> Identity_Can i perm topic
      | None \<Rightarrow> list_ex (\<lambda>p. p = perm \<or> p = ''admin'') (cn_perms c))"

definition HasPerm :: "Conn \<Rightarrow> string \<Rightarrow> bool" where
  "HasPerm c perm = Can c perm []"

definition identityPerms :: "Identity \<Rightarrow> string list" where
  "identityPerms i = RolePermissions (id_Role i)"

datatype auth_reply = AuthBadRequest | AuthDenied | AuthAccepted "string list"

text \<open>\<open>handleAuth\<close> on the decoded key, or on nothing when the body does not decode.\<close>

definition handleAuth :: "Authenticator \<Rightarrow> Conn \<Rightarrow> string option \<Rightarrow> Conn \<times> auth_reply" where
  "handleAuth a c req =
     (case req of
        None \<Rightarrow> (c, AuthBadRequest)
      | Some key \<Rightarrow>
          (case Authenticate a key of
             None \<Rightarrow> (c, AuthDenied)
           | Some i \<Rightarrow>
               let perms = identityPerms i
               in (SetIdentity (SetAuth c (id_ClientID i) perms) i, AuthAccepted perms)))"

section \<open>What is permitted\<close>

lemma topic_listed_iff [simp]: "topic_listed t ts \<longleftrightarrow> t \<in> set ts"
  by (induction ts) auto

lemma perm_listed_iff [simp]: "perm_listed p ps \<longleftrightarrow> p \<in> set ps"
  by (induction ps) auto

lemma Identity_Can_iff:
  "Identity_Can i perm topic \<longleftrightarrow>
     perm \<in> set (RolePermissions (id_Role i)) \<and> (topic = [] \<or> id_Topics i = [] \<or> topic \<in> set (id_Topics i))"
  by (auto simp: Identity_Can_def)

lemma keys_last:
  "foldl (\<lambda>m k. m(hashKey (ak_Key k) \<mapsto> key_identity k)) m0 ks h =
     (case find (\<lambda>k. hashKey (ak_Key k) = h) (rev ks) of Some k \<Rightarrow> Some (key_identity k) | None \<Rightarrow> m0 h)"
proof (induction ks rule: rev_induct)
  case (snoc k ks)
  then show ?case by simp
qed simp

lemma find_in_set: "find P xs = Some y \<Longrightarrow> y \<in> set xs \<and> P y"
  by (induction xs) (auto split: if_splits)

lemma find_rev_unique:
  "x \<in> set xs \<Longrightarrow> P x \<Longrightarrow> (\<And>y. y \<in> set xs \<Longrightarrow> P y \<Longrightarrow> y = x) \<Longrightarrow> find P (rev xs) = Some x"
proof (cases "find P (rev xs)")
  case None
  moreover assume "x \<in> set xs" "P x"
  ultimately show ?thesis by (simp add: find_None_iff)
next
  case (Some y)
  moreover assume "\<And>y. y \<in> set xs \<Longrightarrow> P y \<Longrightarrow> y = x"
  moreover have "y \<in> set xs" "P y" using find_in_set [OF Some] by simp_all
  ultimately show ?thesis by simp
qed

text \<open>C27. What the permission check of a connection answers after authenticating: with authentication enabled, on a
  fresh connection, and with distinct configured keys whose digests do not collide with each other or with that of
  the presented key, the check passes exactly if the presented key is configured, the role of that key grants the
  permission, and no topic is asked for, the topic is on the key's list, or the list is empty. Which handlers ask
  for which permission is a question of its own: committing an offset asks for none
  (theory \<open>Broker_Access\<close>).\<close>

theorem authenticated_access:
  assumes "distinct (map ak_Key ks)" and "inj_on hashKey (insert key (set (map ak_Key ks)))"
    and "handleAuth (NewAuthenticator True ks) newConn (Some key) = (c, reply)"
  shows "Can c perm topic \<longleftrightarrow>
    (\<exists>k \<in> set ks. ak_Key k = key \<and> perm \<in> set (RolePermissions (id_Role (key_identity k))) \<and>
       (topic = [] \<or> ak_Topics k = [] \<or> topic \<in> set (ak_Topics k)))"
proof (cases "\<exists>k \<in> set ks. ak_Key k = key")
  case True
  then obtain k where k: "k \<in> set ks" "ak_Key k = key" by blast
  have uniq: "y = k" if "y \<in> set ks" "hashKey (ak_Key y) = hashKey key" for y
  proof -
    have "ak_Key y = key" by (rule inj_onD [OF assms(2) that(2)]) (use that(1) in auto)
    with k have "ak_Key y = ak_Key k" by simp
    moreover have "inj_on ak_Key (set ks)" using assms(1) by (simp add: distinct_map)
    ultimately show ?thesis using that(1) k(1) by (blast dest: inj_onD)
  qed
  have "find (\<lambda>k. hashKey (ak_Key k) = hashKey key) (rev ks) = Some k"
    by (rule find_rev_unique [OF k(1)]) (simp only: k(2), erule (1) uniq)
  then have "Authenticate (NewAuthenticator True ks) key = Some (key_identity k)"
    by (simp add: Authenticate_def NewAuthenticator_def keys_last)
  then have "cn_identity c = Some (key_identity k)"
    using assms(3) by (auto simp: handleAuth_def SetIdentity_def Let_def)
  moreover have "id_Topics (key_identity k) = ak_Topics k" by (simp add: key_identity_def)
  ultimately have can: "Can c perm topic \<longleftrightarrow> perm \<in> set (RolePermissions (id_Role (key_identity k))) \<and>
      (topic = [] \<or> ak_Topics k = [] \<or> topic \<in> set (ak_Topics k))"
    by (simp add: Can_def Identity_Can_iff)
  have only: "k' = k" if "k' \<in> set ks" "ak_Key k' = key" for k' by (rule uniq [OF that(1)]) (simp only: that(2))
  show ?thesis unfolding can using k only by blast
next
  case False
  then have "hashKey (ak_Key k) \<noteq> hashKey key" if "k \<in> set ks" for k
    using inj_onD [OF assms(2), of "ak_Key k" key] that by auto
  then have "find (\<lambda>k. hashKey (ak_Key k) = hashKey key) (rev ks) = None" by (simp add: find_None_iff)
  then have "Authenticate (NewAuthenticator True ks) key = None"
    by (simp add: Authenticate_def NewAuthenticator_def keys_last)
  then have "c = newConn" using assms(3) by (simp add: handleAuth_def)
  then show ?thesis using False by (simp add: Can_def newConn_def)
qed

text \<open>The lattice of roles: everything any role may do, an administrator may do.\<close>

lemma admin_has_all: "set (RolePermissions role) \<subseteq> set (RolePermissions RoleAdmin)"
  by (auto simp: RolePermissions_def role_defs)

lemma producers_cannot_read:
  "PermFetch \<notin> set (RolePermissions RoleProducer)" "PermSubscribe \<notin> set (RolePermissions RoleProducer)"
  "PermPublish \<notin> set (RolePermissions RoleConsumer)"
  by (simp_all add: RolePermissions_def role_defs perm_defs)

text \<open>
  A legacy key with several permissions gets the role of the first one only: a key allowed to publish and
  to subscribe cannot subscribe.
\<close>

lemma legacy_second_permission_lost:
  "\<not> Identity_Can (key_identity \<lparr>ak_Key = k, ak_ClientID = c, ak_Role = [], ak_Permissions = [''publish'', ''subscribe''],
      ak_Topics = []\<rparr>) PermSubscribe topic"
  by (simp add: Identity_Can_iff key_identity_def RolePermissions_def role_defs perm_defs)

lemma RemoveKey_denied: "au_enabled a \<Longrightarrow> Authenticate (RemoveKey a key) key = None"
  by (simp add: Authenticate_def RemoveKey_def)

section \<open>Witness\<close>

definition sample_key :: APIKeyEntry where
  "sample_key = \<lparr>ak_Key = ''k'', ak_ClientID = ''c'', ak_Role = ''producer'', ak_Permissions = [], ak_Topics = [''t'']\<rparr>"

theorem authenticated_access_witness:
  "Can (fst (handleAuth (NewAuthenticator True [sample_key]) newConn (Some ''k''))) PermPublish ''t'' \<and>
   \<not> Can (fst (handleAuth (NewAuthenticator True [sample_key]) newConn (Some ''k''))) PermPublish ''u'' \<and>
   \<not> Can (fst (handleAuth (NewAuthenticator True [sample_key]) newConn (Some ''k''))) PermFetch ''t''"
proof -
  obtain c reply where c: "handleAuth (NewAuthenticator True [sample_key]) newConn (Some ''k'') = (c, reply)"
    by (cases "handleAuth (NewAuthenticator True [sample_key]) newConn (Some ''k'')")
  have i: "inj_on hashKey (insert ''k'' (set (map ak_Key [sample_key])))" by (simp add: sample_key_def)
  show ?thesis
    using authenticated_access [OF _ i c, of PermPublish "''t''"] authenticated_access [OF _ i c, of PermPublish "''u''"]
      authenticated_access [OF _ i c, of PermFetch "''t''"] c
    by (simp add: sample_key_def key_identity_def RolePermissions_def role_defs perm_defs)
qed

end
