(* ===== verification/Broker_Handlers.thy ===== *)
theory Broker_Handlers
  imports Group_Manager Producer Access Frame_Codec
begin

text \<open>
  The request handlers of a broker without a cluster: \<^verbatim>\<open>src/internal/broker/handlers_*.go\<close>, the offset
  checkpoint (\<^verbatim>\<open>checkpoint.go\<close>) and the replay of the three logs at the start (\<^verbatim>\<open>lifecycle.go\<close>,
  \<open>Start\<close> in \<^verbatim>\<open>broker.go\<close>). A handler maps the broker, the connection and the request, decoded or not, to
  the new broker and the response. What the world decides is an argument: the clock, the faults of the
  disks, message ids, the answer of the rate limiter, and what other goroutines do to a group while a
  delivery sleeps. Metrics, traces, audit events and the explorer's live feed are left out.
\<close>

section \<open>State\<close>

text \<open>
  The partitioner is the one of the topic manager and the offset store is the one of the consumer manager,
  which \<open>New\<close> shares between them and the broker.
\<close>

record Broker =
  b_topics :: TopicManager
  b_producers :: Producer
  b_consumers :: GroupManager
  b_auth :: Authenticator
  b_authEnabled :: bool
  b_msgWAL :: WAL
  b_walEntries :: "Entry list"
  b_offsetWAL :: OffsetWAL
  b_topicWAL :: WAL
  b_commitCount :: int
  b_pendingWALBytes :: int
  b_walThreshold :: int

definition New ::
  "string \<Rightarrow> int \<Rightarrow> int \<Rightarrow> string \<Rightarrow> (string \<Rightarrow> nat \<Rightarrow> log_files) \<Rightarrow> bool \<Rightarrow> APIKeyEntry list \<Rightarrow> int \<Rightarrow>
   bytes \<Rightarrow> bytes \<Rightarrow> bytes \<Rightarrow> Broker" where
  "New uuid segMax idxEvery syncPolicy disk authEnabled apiKeys thresh msgFile offsetFile topicFile =
     (let (msgWAL, walEntries) = WAL_Open msgFile
      in \<lparr>b_topics = NewTopicManager segMax idxEvery syncPolicy disk NewHashPartitioner,
          b_producers = NewProducer uuid 3 200000000,
          b_consumers = NewManager NewOffsetStore (NewDLQ 10000) 3 512,
          b_auth = NewAuthenticator authEnabled apiKeys, b_authEnabled = authEnabled,
          b_msgWAL = msgWAL, b_walEntries = walEntries, b_offsetWAL = OpenOffsetWAL offsetFile,
          b_topicWAL = fst (WAL_Open topicFile), b_commitCount = 0, b_pendingWALBytes = 0, b_walThreshold = thresh\<rparr>)"

record DeleteTopicRequest =
  dt_Name :: string

record BatchPublishRequest =
  bp_Messages :: "PublishRequest list"

datatype response =
    SendOK
  | SendError string
  | Published PublishResult
  | BatchPublished "PublishResult list"
  | Fetched string int "Message list"
  | FetchedRaw string int bytes
  | Sought "(int \<times> int) list"
  | Topics "(string \<times> int \<times> int) list"
  | AuthResponse bool "string list"
  | Pong
  | Panicked

text \<open>What a publish meets: message id, clock, disk and log faults, cancellation, limiter, deliveries.\<close>

record world =
  w_uuid :: string
  w_clock :: "nat \<Rightarrow> int"
  w_disk :: "nat \<Rightarrow> disk_fault"
  w_cancelled :: "nat \<Rightarrow> bool"
  w_wal :: wal_fault
  w_allow :: bool
  w_groups :: "string \<Rightarrow> nat \<Rightarrow> group_op list"

section \<open>Publishing\<close>

text \<open>\<open>part, _ := b.partitioner.Assign\<close>: on an error the partition is zero.\<close>

definition assign_part :: "TopicManager \<Rightarrow> string \<Rightarrow> string \<Rightarrow> TopicManager \<times> int" where
  "assign_part m topic key =
     (let (router, r) = Assign (tm_partitioner m) topic key
      in (m\<lparr>tm_partitioner := router\<rparr>, case r of Inl _ \<Rightarrow> 0 | Inr part \<Rightarrow> part))"

definition capture_target :: "TopicManager \<Rightarrow> int \<Rightarrow> PublishRequest \<Rightarrow> PublishRequest" where
  "capture_target m part req =
     (case Get m (pr_Topic req) of
        Inl _ \<Rightarrow> req
      | Inr tp \<Rightarrow>
          (case Topic_PartitionLog tp part of
             Inl _ \<Rightarrow> req
           | Inr pl \<Rightarrow> req\<lparr>pr_TargetOffset := Some (PartitionLog_NextOffset pl)\<rparr>))"

definition publish_request ::
  "flate_lib \<Rightarrow> world \<Rightarrow> Broker \<Rightarrow> PublishRequest \<Rightarrow> Broker \<times> (publish_error, PublishResult) result" where
  "publish_request lib w b req =
     (let (p, m, r) = Publish lib (w_uuid w) (w_clock w) (w_disk w) (w_cancelled w) (b_producers b) (b_topics b)
            (pr_Topic req) (pr_Key req) (pr_Payload req) (pr_Headers req) (pr_DeliveryMode req) (pr_SeqNum req)
            (pr_Codec req) []
      in (b\<lparr>b_producers := p, b_topics := m\<rparr>, r))"

definition dispatched_message :: "int \<Rightarrow> PublishRequest \<Rightarrow> PublishResult \<Rightarrow> Message" where
  "dispatched_message now req res =
     zero_Message\<lparr>m_ID := res_MessageID res, m_Topic := pr_Topic req, m_Partition := res_Partition res,
       m_Offset := res_Offset res, m_Timestamp := now, m_Payload := pr_Payload req, m_Headers := pr_Headers req,
       m_Key := pr_Key req\<rparr>"

definition dispatch_published :: "world \<Rightarrow> Broker \<Rightarrow> PublishRequest \<Rightarrow> PublishResult \<Rightarrow> Broker \<times> bool" where
  "dispatch_published w b req res =
     (let (c, ok) = Manager_Dispatch (w_clock w 0) (w_groups w) (b_consumers b)
            (dispatched_message (w_clock w 0) req res)
      in (b\<lparr>b_consumers := c\<rparr>, ok))"

text \<open>
  The critical section of \<open>handlePublish\<close> under the lock of the partition, from the capture of the target
  offset to the append of the producer. The pending bytes are added and taken off again.
\<close>

definition publish_logged ::
  "flate_lib \<Rightarrow> world \<Rightarrow> Broker \<Rightarrow> int \<Rightarrow> PublishRequest \<Rightarrow> Broker \<times> (string, PublishResult) result" where
  "publish_logged lib w b part req0 =
     (let req = capture_target (b_topics b) part req0;
          walData = Marshal_PublishRequest req;
          pending = b_pendingWALBytes b + int (length walData)
      in if b_walThreshold b > 0 \<and> pending > b_walThreshold b then (b, Inl ''BROKER_OVERLOADED'')
         else case WAL_Append (w_wal w) (b_msgWAL b) walData of
                (wl, Inl _) \<Rightarrow> (b\<lparr>b_msgWAL := wl\<rparr>, Inl ''INTERNAL_ERROR'')
              | (wl, Inr _) \<Rightarrow>
                  (case publish_request lib w (b\<lparr>b_msgWAL := wl\<rparr>) req of
                     (b', Inl _) \<Rightarrow> (b', Inl ''INTERNAL_ERROR'')
                   | (b', Inr res) \<Rightarrow> (b', Inr res)))"

definition handlePublish ::
  "flate_lib \<Rightarrow> world \<Rightarrow> Broker \<Rightarrow> Conn \<Rightarrow> PublishRequest option \<Rightarrow> Broker \<times> response" where
  "handlePublish lib w b conn body =
     (case body of
        None \<Rightarrow> (b, SendError ''BAD_REQUEST'')
      | Some req \<Rightarrow>
          if pr_Topic req = [] then (b, SendError ''BAD_REQUEST'')
          else if \<not> Can conn PermPublish (pr_Topic req) then (b, SendError ''FORBIDDEN'')
          else let (m, part) = assign_part (b_topics b) (pr_Topic req) (pr_Key req); b1 = b\<lparr>b_topics := m\<rparr>
               in if \<not> w_allow w then (b1, SendError ''BROKER_OVERLOADED'')
                  else case publish_logged lib w b1 part req of
                         (b2, Inl code) \<Rightarrow> (b2, SendError code)
                       | (b2, Inr res) \<Rightarrow>
                           (let (b3, ok) = dispatch_published w b2 req res
                            in (b3, if ok then Published res else Panicked)))"

text \<open>
  A batch: every message with its own world. A failing log append ends the batch; a failing publish leaves
  an empty result. Unlike the single publish the messages are not checked one by one against the
  threshold.
\<close>

fun batch_publish ::
  "flate_lib \<Rightarrow> Broker \<Rightarrow> (world \<times> PublishRequest) list \<Rightarrow> Broker \<times> (PublishRequest \<times> PublishResult option) list option" where
  "batch_publish lib b [] = (b, Some [])"
| "batch_publish lib b ((w, req0) # rest) =
     (let (m, part) = assign_part (b_topics b) (pr_Topic req0) (pr_Key req0);
          req = capture_target m part req0
      in case WAL_Append (w_wal w) (b_msgWAL b) (Marshal_PublishRequest req) of
           (wl, Inl _) \<Rightarrow> (b\<lparr>b_topics := m, b_msgWAL := wl\<rparr>, None)
         | (wl, Inr _) \<Rightarrow>
             (let (b1, r) = publish_request lib w (b\<lparr>b_topics := m, b_msgWAL := wl\<rparr>) req;
                  (b2, rs) = batch_publish lib b1 rest
              in (b2, map_option ((#) (req, case r of Inl _ \<Rightarrow> None | Inr res \<Rightarrow> Some res)) rs)))"

fun batch_dispatch :: "Broker \<Rightarrow> (world \<times> PublishRequest \<times> PublishResult option) list \<Rightarrow> Broker \<times> bool" where
  "batch_dispatch b [] = (b, True)"
| "batch_dispatch b ((w, req, None) # rest) = batch_dispatch b rest"
| "batch_dispatch b ((w, req, Some res) # rest) =
     (let (b1, ok) = dispatch_published w b req res in if ok then batch_dispatch b1 rest else (b1, False))"

definition payload_len :: "PublishRequest \<Rightarrow> int" where
  "payload_len req = int (length (case pr_Payload req of None \<Rightarrow> [] | Some p \<Rightarrow> p))"

text \<open>A failed message of a batch keeps the zero response.\<close>

definition batch_response :: "PublishResult option \<Rightarrow> PublishResult" where
  "batch_response r =
     (case r of Some res \<Rightarrow> res | None \<Rightarrow> \<lparr>res_MessageID = [], res_Partition = 0, res_Offset = 0\<rparr>)"

definition handleBatchPublish ::
  "flate_lib \<Rightarrow> (nat \<Rightarrow> world) \<Rightarrow> bool \<Rightarrow> Broker \<Rightarrow> Conn \<Rightarrow> BatchPublishRequest option \<Rightarrow> Broker \<times> response" where
  "handleBatchPublish lib ws allow b conn body =
     (case body of
        None \<Rightarrow> (b, SendError ''BAD_REQUEST'')
      | Some batch \<Rightarrow>
          (case bp_Messages batch of
             [] \<Rightarrow> (b, SendError ''BAD_REQUEST'')
           | m0 # ms \<Rightarrow>
               if list_ex (\<lambda>m. pr_Topic m \<noteq> pr_Topic m0) ms then (b, SendError ''BAD_REQUEST'')
               else if \<not> Can conn PermPublish (pr_Topic m0) then (b, SendError ''FORBIDDEN'')
               else if \<not> allow then (b, SendError ''BROKER_OVERLOADED'')
               else if b_walThreshold b > 0 \<and>
                       b_pendingWALBytes b + sum_list (map payload_len (m0 # ms)) > b_walThreshold b
               then (b, SendError ''BROKER_OVERLOADED'')
               else let reqs = map (\<lambda>i. (ws i, (m0 # ms) ! i)) [0..<Suc (length ms)]
                    in case batch_publish lib b reqs of
                         (b1, None) \<Rightarrow> (b1, SendError ''INTERNAL_ERROR'')
                       | (b1, Some rs) \<Rightarrow>
                           (let (b2, ok) = batch_dispatch b1 (map (\<lambda>(i, req, r). (ws i, req, r)) (enumerate 0 rs))
                            in (b2, if ok then BatchPublished (map (\<lambda>(_, r). batch_response r) rs) else Panicked))))"

section \<open>Consuming\<close>

text \<open>All messages of a log from an offset on, a hundred at a time; a read error ends the loop.\<close>

partial_function (option) read_all :: "flate_lib \<Rightarrow> PartitionLog \<Rightarrow> int \<Rightarrow> Message list option" where
  "read_all lib pl offset =
     (case PartitionLog_Read lib pl offset 100 of
        Inl _ \<Rightarrow> Some []
      | Inr msgs \<Rightarrow>
          if msgs = [] then Some []
          else Option.bind (read_all lib pl (m_Offset (last msgs) + 1)) (\<lambda>rest. Some (msgs @ rest)))"

fun dispatch_all ::
  "int \<Rightarrow> (int \<Rightarrow> nat \<Rightarrow> group_op list) \<Rightarrow> GroupManager \<Rightarrow> string \<Rightarrow> string \<Rightarrow> int \<Rightarrow> Message list \<Rightarrow> GroupManager \<times> bool" where
  "dispatch_all now env c grp topic part [] = (c, True)"
| "dispatch_all now env c grp topic part (msg # msgs) =
     (let (c1, ok) = DispatchToGroup now (env (m_Offset msg)) c grp topic part (Some msg)
      in if ok then dispatch_all now env c1 grp topic part msgs else (c1, False))"

fun replay_partitions ::
  "flate_lib \<Rightarrow> int \<Rightarrow> (int \<Rightarrow> nat \<Rightarrow> group_op list) \<Rightarrow> Topic \<Rightarrow> string \<Rightarrow> string \<Rightarrow> int list \<Rightarrow> GroupManager \<Rightarrow>
   (GroupManager \<times> bool) option" where
  "replay_partitions lib now env tp grp topic [] c = Some (c, True)"
| "replay_partitions lib now env tp grp topic (p # ps) c =
     (case Topic_PartitionLog tp p of
        Inl _ \<Rightarrow> replay_partitions lib now env tp grp topic ps c
      | Inr pl \<Rightarrow>
          (case read_all lib pl 0 of
             None \<Rightarrow> None
           | Some msgs \<Rightarrow>
               (case dispatch_all now env c grp topic p msgs of
                  (c1, False) \<Rightarrow> Some (c1, False)
                | (c1, True) \<Rightarrow> replay_partitions lib now env tp grp topic ps c1)))"

definition replayToConsumer ::
  "flate_lib \<Rightarrow> int \<Rightarrow> (int \<Rightarrow> nat \<Rightarrow> group_op list) \<Rightarrow> Topic \<Rightarrow> string \<Rightarrow> string \<Rightarrow> int \<Rightarrow> GroupManager \<Rightarrow>
   (GroupManager \<times> bool) option" where
  "replayToConsumer lib now env tp grp topic partCount c =
     replay_partitions lib now env tp grp topic [0..partCount - 1] c"

definition set_sink :: "GroupManager \<Rightarrow> string \<Rightarrow> string \<Rightarrow> nat \<Rightarrow> GroupManager" where
  "set_sink c grp topic ptr =
     (let key = groupKey grp topic
      in case map_of (gm_groups c) key of
           None \<Rightarrow> c
         | Some g \<Rightarrow> c\<lparr>gm_groups := set_group key (at_ptr ptr (SetSink True) g) (gm_groups c)\<rparr>)"

text \<open>The delivery loop of a pushing consumer runs beside the handler and is not part of it.\<close>

definition handleSubscribe ::
  "flate_lib \<Rightarrow> int \<Rightarrow> (int \<Rightarrow> nat \<Rightarrow> group_op list) \<Rightarrow> Broker \<Rightarrow> Conn \<Rightarrow> SubscribeRequest option \<Rightarrow>
   (Broker \<times> response) option" where
  "handleSubscribe lib now env b conn body =
     (case body of
        None \<Rightarrow> Some (b, SendError ''BAD_REQUEST'')
      | Some req \<Rightarrow>
          if \<not> Can conn PermSubscribe (sr_Topic req) then Some (b, SendError ''FORBIDDEN'')
          else case Get (b_topics b) (sr_Topic req) of
            Inl _ \<Rightarrow> Some (b, SendError ''TOPIC_NOT_FOUND'')
          | Inr tp \<Rightarrow>
              (let partCount = int32_of (tc_Partitions (t_cfg tp))
               in case Subscribe now (b_consumers b) (sr_Group req) (sr_ConsumerID req) (cn_clientID conn)
                         (sr_Topic req) partCount of
                    (c, Inl InvalidGroupName) \<Rightarrow> Some (b\<lparr>b_consumers := c\<rparr>, SendError ''BAD_REQUEST'')
                  | (c, Inl (JoinFailed _)) \<Rightarrow> Some (b\<lparr>b_consumers := c\<rparr>, SendError ''INTERNAL_ERROR'')
                  | (c, Inr ptr) \<Rightarrow>
                      if sr_Push req then
                        (let c1 = set_sink c (sr_Group req) (sr_Topic req) ptr
                         in if \<not> HasCommittedOffset c1 (sr_Group req) (sr_Topic req) 0 then
                              map_option (\<lambda>(c2, ok). (b\<lparr>b_consumers := c2\<rparr>, if ok then SendOK else Panicked))
                                (replayToConsumer lib now env tp (sr_Group req) (sr_Topic req) partCount c1)
                            else Some (b\<lparr>b_consumers := c1\<rparr>, SendOK))
                      else Some (b\<lparr>b_consumers := c\<rparr>, SendOK)))"

definition handleUnsubscribe :: "int \<Rightarrow> Broker \<Rightarrow> SubscribeRequest option \<Rightarrow> Broker \<times> response" where
  "handleUnsubscribe now b body =
     (case body of
        None \<Rightarrow> (b, SendError ''BAD_REQUEST'')
      | Some req \<Rightarrow>
          (b\<lparr>b_consumers := Unsubscribe now (b_consumers b) (sr_Group req) (sr_ConsumerID req) (sr_Topic req)\<rparr>, SendOK))"

definition fetch_count :: "int \<Rightarrow> int" where
  "fetch_count maxCount = (if maxCount \<le> 0 \<or> maxCount > 1000 then 100 else maxCount)"

text \<open>
  \<open>handleFetch\<close> waits on the log, which grows meanwhile: \<open>logs pl k\<close> is the log \<open>pl\<close> at the \<open>k\<close>-th read and
  \<open>rawLog pl\<close> the one at the raw transfer. A fetch changes nothing; \<open>None\<close> is a fetch that never answers.
\<close>

definition handleFetch ::
  "flate_lib \<Rightarrow> (PartitionLog \<Rightarrow> nat \<Rightarrow> PartitionLog) \<Rightarrow> (PartitionLog \<Rightarrow> PartitionLog) \<Rightarrow> (nat \<Rightarrow> bool) \<Rightarrow> Broker \<Rightarrow> Conn \<Rightarrow>
   FetchRequest option \<Rightarrow> response option" where
  "handleFetch lib logs rawLog cancelled b conn body =
     (case body of
        None \<Rightarrow> Some (SendError ''BAD_REQUEST'')
      | Some req \<Rightarrow>
          if \<not> Can conn PermFetch (fr_Topic req) then Some (SendError ''FORBIDDEN'')
          else case Get (b_topics b) (fr_Topic req) of
            Inl _ \<Rightarrow> Some (SendError ''TOPIC_NOT_FOUND'')
          | Inr tp \<Rightarrow>
              (case Topic_PartitionLog tp (fr_Partition req) of
                 Inl _ \<Rightarrow> Some (SendError ''PARTITION_NOT_FOUND'')
               | Inr pl \<Rightarrow>
                   (let maxCount = fetch_count (fr_MaxCount req);
                        fetched =
                          (if fr_Group req = [] then
                             Some (case PartitionLog_Read lib (logs pl 0) (fr_Offset req) maxCount of
                                     Inl e \<Rightarrow> Inl (ReadError e) | Inr msgs \<Rightarrow> Inr msgs)
                           else PollPartitionLog lib (logs pl) cancelled (b_consumers b) (fr_Group req) (fr_Topic req)
                                  (fr_Partition req) maxCount)
                    in map_option (\<lambda>r. case r of
                           Inl ContextDone \<Rightarrow> Fetched (fr_Topic req) (fr_Partition req) []
                         | Inl (ReadError _) \<Rightarrow> SendError ''INTERNAL_ERROR''
                         | Inr msgs \<Rightarrow>
                             (case (if fr_RawTransfer req then SendTo (rawLog pl) (fr_Offset req) 4194304 else None) of
                                Some raw \<Rightarrow> FetchedRaw (fr_Topic req) (fr_Partition req) raw
                              | None \<Rightarrow> Fetched (fr_Topic req) (fr_Partition req) msgs)) fetched)))"

definition handleCommitOffset ::
  "wal_fault \<Rightarrow> Broker \<Rightarrow> CommitOffsetRequest option \<Rightarrow> Broker \<times> response" where
  "handleCommitOffset flt b body =
     (case body of
        None \<Rightarrow> (b, SendError ''BAD_REQUEST'')
      | Some req \<Rightarrow>
          (case Manager_CommitOffset (b_consumers b) (co_Group req) (co_ConsumerID req) (co_Topic req)
                  (co_Partition req) (co_Offset req) of
             (c, Inl _) \<Rightarrow> (b\<lparr>b_consumers := c\<rparr>, SendError ''INTERNAL_ERROR'')
           | (c, Inr _) \<Rightarrow>
               (let (ow, _) = OffsetWAL_Commit flt (b_offsetWAL b) (co_Group req) (co_Topic req) (co_Partition req)
                      (co_Offset req)
                in (b\<lparr>b_consumers := c, b_offsetWAL := ow, b_commitCount := b_commitCount b + 1\<rparr>, SendOK))))"

definition handleAck :: "Broker \<Rightarrow> Conn \<Rightarrow> AckRequest option \<Rightarrow> Broker \<times> response" where
  "handleAck b conn body =
     (if \<not> cn_authed conn then (b, SendError ''UNAUTHORIZED'')
      else case body of
        None \<Rightarrow> (b, SendError ''BAD_REQUEST'')
      | Some req \<Rightarrow>
          (b\<lparr>b_consumers := (b_consumers b)\<lparr>gm_offsets := OffsetStore_Commit (gm_offsets (b_consumers b))
              (ak_ConsumerID req) (ak_Topic req) (ak_Partition req) (ak_Offset req)\<rparr>\<rparr>, SendOK))"

definition requeue ::
  "int \<Rightarrow> (string \<Rightarrow> nat \<Rightarrow> group_op list) \<Rightarrow> GroupManager \<Rightarrow> NackRequest \<Rightarrow> Message option \<Rightarrow> GroupManager \<times> bool" where
  "requeue now env c req msg =
     (case msg of
        None \<Rightarrow> (c, True)
      | Some mg \<Rightarrow>
          if nk_Group req \<noteq> [] then
            DispatchToGroup now (env (groupKey (nk_Group req) (nk_Topic req))) c (nk_Group req) (nk_Topic req)
              (nk_Partition req) (Some mg)
          else Manager_Dispatch now env c mg)"

definition handleNack ::
  "flate_lib \<Rightarrow> int \<Rightarrow> (string \<Rightarrow> nat \<Rightarrow> group_op list) \<Rightarrow> Broker \<Rightarrow> Conn \<Rightarrow> NackRequest option \<Rightarrow> Broker \<times> response" where
  "handleNack lib now env b conn body =
     (if \<not> cn_authed conn then (b, SendError ''UNAUTHORIZED'')
      else case body of
        None \<Rightarrow> (b, SendError ''BAD_REQUEST'')
      | Some req \<Rightarrow>
          (case Get (b_topics b) (nk_Topic req) of
             Inl _ \<Rightarrow> (b, SendError ''TOPIC_NOT_FOUND'')
           | Inr tp \<Rightarrow>
               (case Topic_PartitionLog tp (nk_Partition req) of
                  Inl _ \<Rightarrow> (b, SendError ''PARTITION_NOT_FOUND'')
                | Inr pl \<Rightarrow>
                    (case PartitionLog_Read lib pl (nk_Offset req) 1 of
                       Inl _ \<Rightarrow> (b, SendError ''INTERNAL_ERROR'')
                     | Inr msgs \<Rightarrow>
                         (let msg = (case msgs of [] \<Rightarrow> None | mg # _ \<Rightarrow> Some mg)
                          in if nk_Requeue req then
                               (let (c, ok) = requeue now env (b_consumers b) req msg
                                in (b\<lparr>b_consumers := c\<rparr>, if ok then SendOK else Panicked))
                             else (b\<lparr>b_consumers := (b_consumers b)\<lparr>gm_dlq := DLQ_Push now (gm_dlq (b_consumers b))
                                     \<lparr>de_Original = msg, de_Group = [],
                                      de_Reason = ''nack from consumer '' @ nk_ConsumerID req, de_Attempts = 1,
                                      de_ArrivedAt = 0\<rparr>\<rparr>\<rparr>, SendOK))))))"

section \<open>Offsets\<close>

definition seek_offset :: "flate_lib \<Rightarrow> SeekRequest \<Rightarrow> PartitionLog \<Rightarrow> int" where
  "seek_offset lib req pl =
     (let direct = (case sk_Offset req of Some off \<Rightarrow> off | None \<Rightarrow> - 1)
      in if direct \<ge> 0 then (if direct - 1 < - 1 then - 1 else direct - 1)
         else if sk_ToEnd req then (if PartitionLog_NextOffset pl > 0 then PartitionLog_NextOffset pl - 1 else 0)
         else if sk_TimestampNs req = 0 then - 1
         else let found = OffsetForTimestamp lib pl (sk_TimestampNs req) in if found > 0 then found - 1 else - 1)"

definition store_offset :: "wal_fault \<Rightarrow> Broker \<Rightarrow> string \<Rightarrow> string \<Rightarrow> int \<Rightarrow> int \<Rightarrow> Broker" where
  "store_offset flt b grp topic part newOff =
     b\<lparr>b_consumers := SeekGroupOffset (b_consumers b) grp topic part newOff,
       b_offsetWAL := fst (OffsetWAL_Commit flt (b_offsetWAL b) grp topic part newOff)\<rparr>"

fun seek_loop ::
  "flate_lib \<Rightarrow> (int \<Rightarrow> wal_fault) \<Rightarrow> SeekRequest \<Rightarrow> Topic \<Rightarrow> int list \<Rightarrow> Broker \<Rightarrow> Broker \<times> (int \<times> int) list" where
  "seek_loop lib flt req tp [] b = (b, [])"
| "seek_loop lib flt req tp (p # ps) b =
     (case Topic_PartitionLog tp (int32_of p) of
        Inl _ \<Rightarrow> seek_loop lib flt req tp ps b
      | Inr pl \<Rightarrow>
          (let newOff = seek_offset lib req pl;
               (b', offs) = seek_loop lib flt req tp ps (store_offset (flt p) b (sk_Group req) (sk_Topic req) (int32_of p) newOff)
           in (b', (p, if newOff + 1 < 0 then 0 else newOff + 1) # offs)))"

definition handleSeek ::
  "flate_lib \<Rightarrow> (int \<Rightarrow> wal_fault) \<Rightarrow> Broker \<Rightarrow> Conn \<Rightarrow> SeekRequest option \<Rightarrow> Broker \<times> response" where
  "handleSeek lib flt b conn body =
     (case body of
        None \<Rightarrow> (b, SendError ''BAD_REQUEST'')
      | Some req \<Rightarrow>
          if sk_Topic req = [] \<or> sk_Group req = [] then (b, SendError ''BAD_REQUEST'')
          else if \<not> Can conn PermSeek (sk_Topic req) then (b, SendError ''FORBIDDEN'')
          else case Get (b_topics b) (sk_Topic req) of
            Inl _ \<Rightarrow> (b, SendError ''TOPIC_NOT_FOUND'')
          | Inr tp \<Rightarrow>
              (let (b', offs) = seek_loop lib flt req tp [0..tc_Partitions (t_cfg tp) - 1] b in (b', Sought offs)))"

definition handleResetGroup ::
  "(int \<Rightarrow> wal_fault) \<Rightarrow> Broker \<Rightarrow> Conn \<Rightarrow> ResetGroupRequest option \<Rightarrow> Broker \<times> response" where
  "handleResetGroup flt b conn body =
     (case body of
        None \<Rightarrow> (b, SendError ''BAD_REQUEST'')
      | Some req \<Rightarrow>
          if rg_Topic req = [] \<or> rg_Group req = [] then (b, SendError ''BAD_REQUEST'')
          else if \<not> Can conn PermSeek (rg_Topic req) then (b, SendError ''FORBIDDEN'')
          else case Get (b_topics b) (rg_Topic req) of
            Inl _ \<Rightarrow> (b, SendError ''TOPIC_NOT_FOUND'')
          | Inr tp \<Rightarrow>
              (foldl (\<lambda>b p. store_offset (flt p) b (rg_Group req) (rg_Topic req) (int32_of p) (- 1)) b
                 [0..tc_Partitions (t_cfg tp) - 1], SendOK))"

text \<open>\<open>snapshot\<close> is the store in the order in which Go happens to visit the map.\<close>

definition runOffsetCheckpoint :: "(nat \<Rightarrow> wal_fault) \<Rightarrow> (string \<times> int) list \<Rightarrow> Broker \<Rightarrow> Broker" where
  "runOffsetCheckpoint flt snapshot b =
     (if snapshot = [] then b
      else case OffsetWAL_Checkpoint flt (b_offsetWAL b) snapshot of
             (ow, Inl _) \<Rightarrow> b\<lparr>b_offsetWAL := ow\<rparr>
           | (ow, Inr _) \<Rightarrow> b\<lparr>b_offsetWAL := ow, b_commitCount := 0\<rparr>)"

section \<open>Topics\<close>

definition requested_config :: "CreateTopicRequest \<Rightarrow> TopicConfig" where
  "requested_config req =
     zero_TopicConfig\<lparr>tc_Name := ct_Name req,
       tc_Partitions := (if ct_Partitions req \<le> 0 then 1 else ct_Partitions req),
       tc_ReplicationFactor := (if ct_ReplicationFactor req \<le> 0 then 1 else ct_ReplicationFactor req),
       tc_RetentionHours := ct_RetentionHours req, tc_CompactionMode := ct_CompactionMode req\<rparr>"

fun create_code :: "topic_error \<Rightarrow> string" where
  "create_code TopicExists = ''TOPIC_EXISTS''"
| "create_code TopicNotFound = ''TOPIC_NOT_FOUND''"
| "create_code InvalidTopicName = ''BAD_REQUEST''"
| "create_code _ = ''INTERNAL_ERROR''"

definition handleCreateTopic ::
  "flate_lib \<Rightarrow> int \<Rightarrow> (nat \<Rightarrow> bool) \<Rightarrow> wal_fault \<Rightarrow> Broker \<Rightarrow> Conn \<Rightarrow> CreateTopicRequest option \<Rightarrow> Broker \<times> response" where
  "handleCreateTopic lib now fails flt b conn body =
     (case body of
        None \<Rightarrow> (b, SendError ''BAD_REQUEST'')
      | Some req \<Rightarrow>
          if ct_Name req = [] then (b, SendError ''BAD_REQUEST'')
          else if \<not> Can conn PermCreateTopic (ct_Name req) then (b, SendError ''FORBIDDEN'')
          else case Create lib now fails (b_topics b) (requested_config req) of
            (m, Inl e) \<Rightarrow> (b\<lparr>b_topics := m\<rparr>, SendError (create_code e))
          | (m, Inr _) \<Rightarrow>
              (b\<lparr>b_topics := m, b_topicWAL := fst (TopicWAL_Append flt (b_topicWAL b) (requested_config req))\<rparr>, SendOK))"

definition handleDeleteTopic :: "wal_fault \<Rightarrow> Broker \<Rightarrow> Conn \<Rightarrow> DeleteTopicRequest option \<Rightarrow> Broker \<times> response" where
  "handleDeleteTopic flt b conn body =
     (case body of
        None \<Rightarrow> (b, SendError ''BAD_REQUEST'')
      | Some req \<Rightarrow>
          if \<not> Can conn PermDeleteTopic (dt_Name req) then (b, SendError ''FORBIDDEN'')
          else case Delete (b_topics b) (dt_Name req) of
            (m, Inl _) \<Rightarrow> (b\<lparr>b_topics := m\<rparr>, SendError ''TOPIC_NOT_FOUND'')
          | (m, Inr _) \<Rightarrow>
              (b\<lparr>b_topics := m, b_topicWAL := fst (TopicWAL_Delete flt (b_topicWAL b) (dt_Name req))\<rparr>, SendOK))"

definition handleListTopics :: "Broker \<Rightarrow> Conn \<Rightarrow> response" where
  "handleListTopics b conn =
     (if \<not> Can conn PermListTopics [] then SendError ''FORBIDDEN''
      else Topics (map (\<lambda>(cfg, created). (tc_Name cfg, tc_Partitions cfg, created)) (TopicList (b_topics b))))"

section \<open>Connections\<close>

record surroundings =
  su_now :: int
  su_world :: world
  su_batch :: "nat \<Rightarrow> world"
  su_replay :: "int \<Rightarrow> nat \<Rightarrow> group_op list"
  su_logs :: "PartitionLog \<Rightarrow> nat \<Rightarrow> PartitionLog"
  su_rawLog :: "PartitionLog \<Rightarrow> PartitionLog"
  su_walAt :: "int \<Rightarrow> wal_fault"
  su_openFails :: "nat \<Rightarrow> bool"

definition DeleteTopicRequest_fields :: "(string \<times> DeleteTopicRequest setter) list" where
  "DeleteTopicRequest_fields = [(''name'', as_string (\<lambda>s. dt_Name_update (\<lambda>_. s)))]"

definition BatchPublishRequest_fields :: "(string \<times> BatchPublishRequest setter) list" where
  "BatchPublishRequest_fields =
     [(''messages'', as_list (assign_struct PublishRequest_fields) zero_PublishRequest bp_Messages
         (\<lambda>ms. bp_Messages_update (\<lambda>_. ms)))]"

definition auth_response :: "auth_reply \<Rightarrow> response" where
  "auth_response r =
     (case r of AuthBadRequest \<Rightarrow> SendError ''BAD_REQUEST'' | AuthDenied \<Rightarrow> AuthResponse False []
      | AuthAccepted perms \<Rightarrow> AuthResponse True perms)"

text \<open>\<open>dispatch\<close>; every handler decodes its body over the zero value of its request.\<close>

definition dispatch ::
  "flate_lib \<Rightarrow> surroundings \<Rightarrow> Broker \<Rightarrow> Conn \<Rightarrow> Frame \<Rightarrow> (Broker \<times> Conn \<times> response) option" where
  "dispatch lib su b conn f =
     (let w = su_world su; now = su_now su; flt = w_wal w; body = Body f;
          ret = (\<lambda>(b', r). Some (b', conn, r))
      in case Command f of
        CmdAuth \<Rightarrow>
          (let (conn', r) = handleAuth (b_auth b) conn (map_option au_APIKey
                 (Unmarshal_body (assign_struct AuthRequest_fields) body \<lparr>au_APIKey = [], au_ClientID = []\<rparr>))
           in Some (b, conn', auth_response r))
      | CmdPing \<Rightarrow> Some (b, conn, Pong)
      | CmdCreateTopic \<Rightarrow>
          ret (handleCreateTopic lib now (su_openFails su) flt b conn
            (Unmarshal_body (assign_struct CreateTopicRequest_fields) body
               \<lparr>ct_Name = [], ct_Partitions = 0, ct_ReplicationFactor = 0, ct_RetentionHours = 0, ct_CompactionMode = []\<rparr>))
      | CmdDeleteTopic \<Rightarrow>
          ret (handleDeleteTopic flt b conn
            (Unmarshal_body (assign_struct DeleteTopicRequest_fields) body \<lparr>dt_Name = []\<rparr>))
      | CmdListTopics \<Rightarrow> ret (b, handleListTopics b conn)
      | CmdPublish \<Rightarrow>
          ret (handlePublish lib w b conn
            (Unmarshal_body (assign_struct PublishRequest_fields) body zero_PublishRequest))
      | CmdBatchPublish \<Rightarrow>
          ret (handleBatchPublish lib (su_batch su) (w_allow w) b conn
            (Unmarshal_body (assign_struct BatchPublishRequest_fields) body \<lparr>bp_Messages = []\<rparr>))
      | CmdSubscribe \<Rightarrow>
          Option.bind (handleSubscribe lib now (su_replay su) b conn
            (Unmarshal_body (assign_struct SubscribeRequest_fields) body
               \<lparr>sr_Topic = [], sr_Group = [], sr_ConsumerID = [], sr_Push = False\<rparr>)) ret
      | CmdUnsubscribe \<Rightarrow>
          ret (handleUnsubscribe now b
            (Unmarshal_body (assign_struct SubscribeRequest_fields) body
               \<lparr>sr_Topic = [], sr_Group = [], sr_ConsumerID = [], sr_Push = False\<rparr>))
      | CmdFetch \<Rightarrow>
          Option.bind (handleFetch lib (su_logs su) (su_rawLog su) (w_cancelled w) b conn
            (Unmarshal_body (assign_struct FetchRequest_fields) body
               \<lparr>fr_Topic = [], fr_Group = [], fr_Partition = 0, fr_Offset = 0, fr_MaxCount = 0, fr_RawTransfer = False\<rparr>))
            (\<lambda>r. ret (b, r))
      | CmdCommitOffset \<Rightarrow>
          ret (handleCommitOffset flt b
            (Unmarshal_body (assign_struct CommitOffsetRequest_fields) body
               \<lparr>co_Group = [], co_ConsumerID = [], co_Topic = [], co_Partition = 0, co_Offset = 0\<rparr>))
      | CmdAck \<Rightarrow>
          ret (handleAck b conn
            (Unmarshal_body (assign_struct AckRequest_fields) body
               \<lparr>ak_ConsumerID = [], ak_Topic = [], ak_Partition = 0, ak_Offset = 0\<rparr>))
      | CmdNack \<Rightarrow>
          ret (handleNack lib now (w_groups w) b conn
            (Unmarshal_body (assign_struct NackRequest_fields) body
               \<lparr>nk_ConsumerID = [], nk_Topic = [], nk_Partition = 0, nk_Offset = 0, nk_Group = [], nk_Requeue = False\<rparr>))
      | CmdSeek \<Rightarrow>
          ret (handleSeek lib (su_walAt su) b conn
            (Unmarshal_body (assign_struct SeekRequest_fields) body
               \<lparr>sk_Topic = [], sk_Group = [], sk_TimestampNs = 0, sk_ToEnd = False, sk_Offset = None\<rparr>))
      | CmdResetGroup \<Rightarrow>
          ret (handleResetGroup (su_walAt su) b conn
            (Unmarshal_body (assign_struct ResetGroupRequest_fields) body \<lparr>rg_Group = [], rg_Topic = []\<rparr>))
      | _ \<Rightarrow> Some (b, conn, SendError ''UNKNOWN_COMMAND''))"

definition accept_conn :: "Broker \<Rightarrow> Conn" where
  "accept_conn b =
     (if b_authEnabled b then newConn
      else SetIdentity (SetAuth newConn ''anonymous'' []) anonymous)"

text \<open>One frame in the loop of \<open>Handle\<close>.\<close>

definition handle_frame ::
  "flate_lib \<Rightarrow> surroundings \<Rightarrow> Broker \<Rightarrow> Conn \<Rightarrow> Frame \<Rightarrow> (Broker \<times> Conn \<times> response) option" where
  "handle_frame lib su b conn f =
     (if b_authEnabled b \<and> \<not> cn_authed conn \<and> Command f \<noteq> CmdAuth \<and> Command f \<noteq> CmdPing
      then Some (b, conn, SendError ''UNAUTHORIZED'')
      else dispatch lib su b conn f)"

section \<open>Start\<close>

definition replayOffsetWAL :: "Broker \<Rightarrow> Broker" where
  "replayOffsetWAL b =
     (let (ow, restored) = OffsetWAL_Replay (b_offsetWAL b)
      in b\<lparr>b_offsetWAL := ow,
           b_consumers := (b_consumers b)\<lparr>gm_offsets := OffsetStore_Restore (gm_offsets (b_consumers b)) restored\<rparr>\<rparr>)"

definition replayTopicWAL :: "flate_lib \<Rightarrow> int \<Rightarrow> (string \<Rightarrow> nat \<Rightarrow> bool) \<Rightarrow> Broker \<Rightarrow> Broker" where
  "replayTopicWAL lib now fails b =
     (let (tw, creates, deletes) = TopicWAL_Replay (b_topicWAL b);
          m1 = foldl (\<lambda>m name. fst (Delete m name)) (b_topics b) deletes;
          m2 = foldl (\<lambda>m cfg. fst (Create lib now (fails (tc_Name cfg)) m cfg)) m1 creates
      in b\<lparr>b_topicWAL := tw, b_topics := m2\<rparr>)"

definition replay_written :: "TopicManager \<Rightarrow> PublishRequest \<Rightarrow> TopicManager \<times> bool" where
  "replay_written m req =
     (case pr_TargetOffset req of
        None \<Rightarrow> (m, False)
      | Some target \<Rightarrow>
          (case Get m (pr_Topic req) of
             Inl _ \<Rightarrow> (m, False)
           | Inr tp \<Rightarrow>
               (let (m', part) = assign_part m (pr_Topic req) (pr_Key req)
                in (m', case Topic_PartitionLog tp part of
                          Inl _ \<Rightarrow> False | Inr pl \<Rightarrow> PartitionLog_NextOffset pl > target))))"

definition replay_request :: "flate_lib \<Rightarrow> world \<Rightarrow> Broker \<Rightarrow> PublishRequest \<Rightarrow> Broker" where
  "replay_request lib w b req =
     (let (m, written) = replay_written (b_topics b) req; b1 = b\<lparr>b_topics := m\<rparr>
      in if written then b1 else fst (publish_request lib w b1 req))"

fun replay_entries_from :: "flate_lib \<Rightarrow> (int \<Rightarrow> world) \<Rightarrow> Entry list \<Rightarrow> Broker \<Rightarrow> Broker" where
  "replay_entries_from lib ws [] b = b"
| "replay_entries_from lib ws (e # es) b =
     (case Unmarshal_PublishRequest (en_Data e) of
        None \<Rightarrow> replay_entries_from lib ws es b
      | Some req \<Rightarrow> replay_entries_from lib ws es (replay_request lib (ws (en_Offset e)) b req))"

definition replayMessageWAL :: "flate_lib \<Rightarrow> (int \<Rightarrow> world) \<Rightarrow> Broker \<Rightarrow> Broker" where
  "replayMessageWAL lib ws b =
     (if b_walEntries b = [] then b
      else (replay_entries_from lib ws (b_walEntries b) b)\<lparr>b_walEntries := []\<rparr>)"

definition start_broker :: "flate_lib \<Rightarrow> int \<Rightarrow> (string \<Rightarrow> nat \<Rightarrow> bool) \<Rightarrow> (int \<Rightarrow> world) \<Rightarrow> Broker \<Rightarrow> Broker" where
  "start_broker lib now fails ws b =
     (let b1 = replayMessageWAL lib ws (replayTopicWAL lib now fails (replayOffsetWAL b))
      in b1\<lparr>b_msgWAL := fst (WAL_Truncate (\<lambda>_. WalOk) (b_msgWAL b1) [])\<rparr>)"

end
