(* ===== verification/Broker_Access.thy ===== *)
theory Broker_Access
  imports Broker_Handlers
begin

text \<open>
  What the permissions of a connection mean for the state of the broker, over every command of the dispatcher:
  a connection that may not publish, create or delete cannot change topics or messages, and one that has not
  authenticated cannot change anything. Offsets are not protected in the same way.
\<close>

section \<open>What each handler leaves alone\<close>

text \<open>The part of the broker that holds messages and topics.\<close>

definition data_of :: "Broker \<Rightarrow> TopicManager \<times> Producer \<times> WAL \<times> WAL" where
  "data_of b = (b_topics b, b_producers b, b_msgWAL b, b_topicWAL b)"

lemma data_of_updates [simp]:
  "data_of (b\<lparr>b_consumers := c\<rparr>) = data_of b" "data_of (b\<lparr>b_offsetWAL := ow\<rparr>) = data_of b"
  "data_of (b\<lparr>b_commitCount := n\<rparr>) = data_of b"
  by (simp_all add: data_of_def)

lemma data_store_offset [simp]: "data_of (store_offset flt b g t p off) = data_of b"
  by (simp add: store_offset_def)

lemma data_seek_loop: "data_of (fst (seek_loop lib flt req tp ps b)) = data_of b"
  by (induction lib flt req tp ps b rule: seek_loop.induct) (auto simp: Let_def case_prod_beta split: sum.splits)

lemma data_reset: "data_of (foldl (\<lambda>b p. store_offset (flt p) b g t (f p) off) b ps) = data_of b"
  by (induction ps arbitrary: b) simp_all

lemma data_handleSubscribe:
  "handleSubscribe lib now env b conn body = Some (b', r) \<Longrightarrow> data_of b' = data_of b"
  by (auto simp: handleSubscribe_def Let_def split: option.splits if_splits sum.splits prod.splits subscribe_error.splits)

lemma data_handleUnsubscribe: "data_of (fst (handleUnsubscribe now b body)) = data_of b"
  by (simp add: handleUnsubscribe_def split: option.splits)

lemma data_handleCommitOffset: "data_of (fst (handleCommitOffset flt b body)) = data_of b"
  by (simp add: handleCommitOffset_def Let_def split: option.splits sum.splits prod.splits)

lemma data_handleAck: "data_of (fst (handleAck b conn body)) = data_of b"
  by (simp add: handleAck_def split: option.splits)

lemma data_handleNack: "data_of (fst (handleNack lib now env b conn body)) = data_of b"
  by (simp add: handleNack_def Let_def split: option.splits sum.splits prod.splits)

lemma data_handleSeek: "data_of (fst (handleSeek lib flt b conn body)) = data_of b"
  using data_seek_loop by (auto simp: handleSeek_def Let_def case_prod_beta split: option.splits sum.splits)

lemma data_handleResetGroup: "data_of (fst (handleResetGroup flt b conn body)) = data_of b"
  by (simp add: handleResetGroup_def data_reset split: option.splits sum.splits)

lemma data_handlePublish: "\<forall>t. \<not> Can conn PermPublish t \<Longrightarrow> data_of (fst (handlePublish lib w b conn body)) = data_of b"
  by (simp add: handlePublish_def split: option.splits)

lemma data_handleBatchPublish:
  "\<forall>t. \<not> Can conn PermPublish t \<Longrightarrow> data_of (fst (handleBatchPublish lib ws allow b conn body)) = data_of b"
  by (simp add: handleBatchPublish_def split: option.splits list.splits)

lemma data_handleCreateTopic:
  "\<forall>t. \<not> Can conn PermCreateTopic t \<Longrightarrow> data_of (fst (handleCreateTopic lib now fails flt b conn body)) = data_of b"
  by (simp add: handleCreateTopic_def split: option.splits)

lemma data_handleDeleteTopic:
  "\<forall>t. \<not> Can conn PermDeleteTopic t \<Longrightarrow> data_of (fst (handleDeleteTopic flt b conn body)) = data_of b"
  by (simp add: handleDeleteTopic_def split: option.splits)

section \<open>Permissions protect the data\<close>

lemma dispatch_keeps_data:
  assumes "\<forall>t. \<not> Can conn PermPublish t" and "\<forall>t. \<not> Can conn PermCreateTopic t" and "\<forall>t. \<not> Can conn PermDeleteTopic t"
    and "dispatch lib su b conn f = Some (b', conn', r)"
  shows "data_of b' = data_of b"
proof -
  have ret: "data_of b' = data_of b" if "(\<lambda>(b', r). Some (b', conn, r)) h = Some (b', conn', r)"
    "data_of (fst h) = data_of b" for h :: "Broker \<times> response"
    using that by (auto split: prod.splits)
  note d = assms(4) [unfolded dispatch_def Let_def]
  show ?thesis
  proof (cases "Command f")
    case CmdCreateTopic
    from d [unfolded CmdCreateTopic Command.case] show ?thesis by (rule ret) (rule data_handleCreateTopic [OF assms(2)])
  next
    case CmdDeleteTopic
    from d [unfolded CmdDeleteTopic Command.case] show ?thesis by (rule ret) (rule data_handleDeleteTopic [OF assms(3)])
  next
    case CmdPublish
    from d [unfolded CmdPublish Command.case] show ?thesis by (rule ret) (rule data_handlePublish [OF assms(1)])
  next
    case CmdBatchPublish
    from d [unfolded CmdBatchPublish Command.case] show ?thesis by (rule ret) (rule data_handleBatchPublish [OF assms(1)])
  next
    case CmdUnsubscribe
    from d [unfolded CmdUnsubscribe Command.case] show ?thesis by (rule ret) (rule data_handleUnsubscribe)
  next
    case CmdCommitOffset
    from d [unfolded CmdCommitOffset Command.case] show ?thesis by (rule ret) (rule data_handleCommitOffset)
  next
    case CmdAck
    from d [unfolded CmdAck Command.case] show ?thesis by (rule ret) (rule data_handleAck)
  next
    case CmdNack
    from d [unfolded CmdNack Command.case] show ?thesis by (rule ret) (rule data_handleNack)
  next
    case CmdSeek
    from d [unfolded CmdSeek Command.case] show ?thesis by (rule ret) (rule data_handleSeek)
  next
    case CmdResetGroup
    from d [unfolded CmdResetGroup Command.case] show ?thesis by (rule ret) (rule data_handleResetGroup)
  next
    case CmdSubscribe
    from d [unfolded CmdSubscribe Command.case] show ?thesis
      by (auto simp: bind_eq_Some_conv dest: data_handleSubscribe)
  next
    case CmdFetch
    from d [unfolded CmdFetch Command.case] show ?thesis by (auto simp: bind_eq_Some_conv)
  next
    case CmdAuth
    from d [unfolded CmdAuth Command.case] show ?thesis by (auto split: prod.splits)
  qed (use d in simp_all)
qed

text \<open>C7. Whatever frame a connection sends that may neither publish nor create nor delete topics, the topics with
  all their messages, the producer, the message log and the topic log stay as they are.\<close>

theorem unpermitted_frame_keeps_data:
  assumes "\<forall>t. \<not> Can conn PermPublish t" and "\<forall>t. \<not> Can conn PermCreateTopic t" and "\<forall>t. \<not> Can conn PermDeleteTopic t"
    and "handle_frame lib su b conn f = Some (b', conn', r)"
  shows "b_topics b' = b_topics b \<and> b_producers b' = b_producers b \<and> b_msgWAL b' = b_msgWAL b \<and>
    b_topicWAL b' = b_topicWAL b"
proof -
  have "data_of b' = data_of b"
  proof (cases "b_authEnabled b \<and> \<not> cn_authed conn \<and> Command f \<noteq> CmdAuth \<and> Command f \<noteq> CmdPing")
    case True
    then show ?thesis using assms(4) by (simp add: handle_frame_def)
  next
    case False
    from assms(4) [unfolded handle_frame_def if_not_P [OF False]] show ?thesis by (rule dispatch_keeps_data [OF assms(1-3)])
  qed
  then show ?thesis by (simp add: data_of_def)
qed

text \<open>C30. Committing needs no permission: a connection that authenticated but lacks the commit permission for the
  topic moves the offset of any group member it names, and is told that all went well.\<close>

theorem commit_needs_no_permission:
  assumes "cn_authed conn" and "\<not> Can conn PermCommit (co_Topic req)" and "Command f = CmdCommitOffset"
    and "Unmarshal_body (assign_struct CommitOffsetRequest_fields) (Body f)
      \<lparr>co_Group = [], co_ConsumerID = [], co_Topic = [], co_Partition = 0, co_Offset = 0\<rparr> = Some req"
    and "manager_inv (b_consumers b)" and "CHR ''/'' \<notin> set (co_Group req)"
    and "map_of (gm_groups (b_consumers b)) (groupKey (co_Group req) (co_Topic req)) = Some g"
    and "map_of (g_consumers g) (co_ConsumerID req) = Some ptr"
  shows "\<exists>b'. handle_frame lib su b conn f = Some (b', conn, SendOK) \<and>
    GroupOffset (b_consumers b') (co_Group req) (co_Topic req) (co_Partition req) = co_Offset req"
  using assms found_group [OF assms(5-7)]
  by (simp add: handle_frame_def dispatch_def Let_def handleCommitOffset_def Manager_CommitOffset_def
      Group_CommitOffset_def GroupOffset_def case_prod_beta)

section \<open>Seeking\<close>

text \<open>
  Seeking to the end makes the group start at the next offset, except in an empty partition: there the stored
  zero says that offset zero was read, and the first message of the partition is skipped.
\<close>

lemma seek_to_end:
  assumes "sk_ToEnd req" and "sk_Offset req = None"
  shows "seek_offset lib req pl = (if PartitionLog_NextOffset pl > 0 then PartitionLog_NextOffset pl - 1 else 0)"
  using assms by (simp add: seek_offset_def)

lemma seek_then_start:
  assumes "manager_inv (b_consumers b)" and "CHR ''/'' \<notin> set grp" and "- 1 \<le> off" and "off + 1 < 2 ^ 63"
  shows "start_offset (b_consumers (store_offset flt b grp topic part off)) grp topic part = off + 1"
proof -
  have "manager_inv (b_consumers (store_offset flt b grp topic part off))"
    using assms(1) by (simp add: store_offset_def SeekGroupOffset_def manager_inv_def)
  from start_offset_eq [OF this assms(2)] show ?thesis
    using assms(3,4)
    by (simp add: store_offset_def SeekGroupOffset_def HasCommittedOffset_def GroupOffset_def int64_range_def)
qed

lemma seek_to_end_of_empty_skips_first:
  assumes "manager_inv (b_consumers b)" and "CHR ''/'' \<notin> set grp" and "PartitionLog_NextOffset pl = 0"
    and "sk_ToEnd req" and "sk_Offset req = None"
  shows "start_offset (b_consumers (store_offset flt b grp topic part (seek_offset lib req pl))) grp topic part = 1"
  using seek_then_start [OF assms(1,2)] seek_to_end [OF assms(4,5)] assms(3) by simp

section \<open>Witnesses\<close>

definition viewer_conn :: Conn where
  "viewer_conn = \<lparr>cn_authed = True, cn_clientID = ''v'', cn_perms = [],
     cn_identity = Some \<lparr>id_ClientID = ''v'', id_Role = RoleViewer, id_Topics = []\<rparr>\<rparr>"

lemma viewer_cannot:
  "perm \<noteq> PermListTopics \<Longrightarrow> \<not> Can viewer_conn perm t"
  by (simp add: viewer_conn_def Can_def Identity_Can_iff RolePermissions_def role_defs)

definition sample_broker :: Broker where
  "sample_broker = (New ''x'' 10 4096 ''always'' (\<lambda>_ _. []) True [] 0 [] [] [])\<lparr>b_consumers :=
     fst (Subscribe 0 (NewManager NewOffsetStore (NewDLQ 10000) 3 512) ''g'' ''c'' ''v'' ''t'' 1)\<rparr>"

definition sample_world :: world where
  "sample_world = \<lparr>w_uuid = ''id'', w_clock = (\<lambda>_. 5), w_disk = (\<lambda>_. NoFault), w_cancelled = (\<lambda>_. True), w_wal = WalOk,
     w_allow = True, w_groups = (\<lambda>_ _. [])\<rparr>"

definition sample_surroundings :: surroundings where
  "sample_surroundings = \<lparr>su_now = 5, su_world = sample_world, su_batch = (\<lambda>_. sample_world), su_replay = (\<lambda>_ _. []),
     su_logs = (\<lambda>pl _. pl), su_rawLog = (\<lambda>pl. pl), su_walAt = (\<lambda>_. WalOk), su_openFails = (\<lambda>_. False)\<rparr>"

theorem unpermitted_frame_keeps_data_witness:
  "\<exists>b'. handle_frame sample_lib sample_surroundings sample_broker viewer_conn
      \<lparr>Command = CmdDeleteTopic, RequestID = 1, Body = []\<rparr> = Some (b', viewer_conn, SendError ''FORBIDDEN'') \<and>
    b_topics b' = b_topics sample_broker"
proof -
  have h: "handle_frame sample_lib sample_surroundings sample_broker viewer_conn
      \<lparr>Command = CmdDeleteTopic, RequestID = 1, Body = []\<rparr> = Some (sample_broker, viewer_conn, SendError ''FORBIDDEN'')"
    using viewer_cannot [of PermDeleteTopic]
    by (simp add: handle_frame_def dispatch_def Let_def handleDeleteTopic_def Unmarshal_body_def perm_defs)
      (simp add: viewer_conn_def)
  show ?thesis
    using h unpermitted_frame_keeps_data [OF _ _ _ h] viewer_cannot by (auto simp: perm_defs)
qed

definition sample_commit_frame :: Frame where
  "sample_commit_frame = \<lparr>Command = CmdCommitOffset, RequestID = 1,
     Body = bytes_of_string ''{\"group\":\"g\",\"consumer_id\":\"c\",\"topic\":\"t\",\"partition\":0,\"offset\":7}''\<rparr>"

lemma sample_commit_body:
  "Unmarshal_body (assign_struct CommitOffsetRequest_fields) (Body sample_commit_frame)
      \<lparr>co_Group = [], co_ConsumerID = [], co_Topic = [], co_Partition = 0, co_Offset = 0\<rparr> =
   Some \<lparr>co_Group = ''g'', co_ConsumerID = ''c'', co_Topic = ''t'', co_Partition = 0, co_Offset = 7\<rparr>"
  by code_simp

lemma sample_broker_group:
  "\<exists>g. map_of (gm_groups (b_consumers sample_broker)) (groupKey ''g'' ''t'') = Some g \<and> map_of (g_consumers g) ''c'' = Some 0"
  by (simp add: sample_broker_def Subscribe_def validGroupName_def name_pattern_def name_head_def NewManager_def
      Let_def Join_def NewGroup_def rebalance_def set_group_def)

theorem commit_needs_no_permission_witness:
  "\<exists>b'. handle_frame sample_lib sample_surroundings sample_broker viewer_conn sample_commit_frame =
      Some (b', viewer_conn, SendOK) \<and> GroupOffset (b_consumers b') ''g'' ''t'' 0 = 7"
proof -
  obtain g where g: "map_of (gm_groups (b_consumers sample_broker)) (groupKey ''g'' ''t'') = Some g"
    "map_of (g_consumers g) ''c'' = Some 0" using sample_broker_group by blast
  have inv: "manager_inv (b_consumers sample_broker)"
    by (simp add: sample_broker_def) (intro manager_inv_Subscribe manager_inv_new dlq_inv_new)
  let ?req = "\<lparr>co_Group = ''g'', co_ConsumerID = ''c'', co_Topic = ''t'', co_Partition = 0, co_Offset = 7\<rparr>"
  show ?thesis
    using commit_needs_no_permission [of viewer_conn ?req sample_commit_frame sample_broker g 0 sample_lib
        sample_surroundings, OF _ _ _ sample_commit_body inv] g viewer_cannot [of PermCommit "''t''"]
    by (simp add: viewer_conn_def sample_commit_frame_def perm_defs)
qed

end
