(* ===== verification/Broker_Recovery.thy ===== *)
theory Broker_Recovery
  imports Broker_Access
begin

text \<open>
  The broker across a restart: what \<open>Start\<close> makes of the files a crashed or stopped broker left behind. Committed
  offsets come back and consumers continue after them. Keyed messages are neither lost nor doubled by the
  replay of the message log; keyless messages and repeated exactly-once publishes are doubled.
\<close>

section \<open>The replays touch different parts\<close>

lemma consumers_publish_request [simp]: "b_consumers (fst (publish_request lib w b req)) = b_consumers b"
  by (simp add: publish_request_def Let_def case_prod_beta)

lemma consumers_replay_request [simp]: "b_consumers (replay_request lib w b req) = b_consumers b"
  by (simp add: replay_request_def Let_def case_prod_beta)

lemma consumers_replay_entries [simp]: "b_consumers (replay_entries_from lib ws es b) = b_consumers b"
  by (induction lib ws es b rule: replay_entries_from.induct) (simp_all split: option.splits)

lemma consumers_start:
  "b_consumers (start_broker lib now fails ws b) = b_consumers (replayOffsetWAL b)"
  by (simp add: start_broker_def replayMessageWAL_def replayTopicWAL_def Let_def case_prod_beta)

section \<open>Committed offsets\<close>

lemma commit_logged:
  assumes "ow_holds (b_offsetWAL b) cs" and "handleCommitOffset WalOk b (Some req) = (b1, SendOK)"
    and "c = \<lparr>or_Group = co_Group req, or_Topic = co_Topic req, or_Partition = co_Partition req, or_Offset = co_Offset req\<rparr>"
    and "wf_offsetRecord c" and "fits_entry (Marshal_offsetRecord c)" and "int (length cs) + 1 < 2 ^ 63"
  shows "ow_holds (b_offsetWAL b1) (cs @ [c])"
proof -
  obtain ow r where ow: "OffsetWAL_Commit WalOk (b_offsetWAL b) (co_Group req) (co_Topic req) (co_Partition req) (co_Offset req) = (ow, r)"
    by (cases "OffsetWAL_Commit WalOk (b_offsetWAL b) (co_Group req) (co_Topic req) (co_Partition req) (co_Offset req)")
  have "b_offsetWAL b1 = ow"
    using assms(2) ow by (auto simp: handleCommitOffset_def Let_def split: sum.splits prod.splits)
  then show ?thesis using commit_holds(2) [OF assms(1,4-6), of ow r] ow assms(3) by simp
qed

text \<open>A commit that dies in the middle of its write, or is refused, leaves what was acknowledged.\<close>

lemma torn_commit_logged:
  assumes "ow_holds (b_offsetWAL b) cs" and "b1 = fst (handleCommitOffset (Short n) b (Some req))"
    and "c = \<lparr>or_Group = co_Group req, or_Topic = co_Topic req, or_Partition = co_Partition req, or_Offset = co_Offset req\<rparr>"
    and "fits_entry (Marshal_offsetRecord c)" and "n < headerSize + length (Marshal_offsetRecord c)"
  shows "ow_holds (OpenOffsetWAL (w_file (ow_wal (b_offsetWAL b1)))) cs"
proof -
  obtain ow r where ow: "OffsetWAL_Commit (Short n) (b_offsetWAL b) (co_Group req) (co_Topic req) (co_Partition req) (co_Offset req) = (ow, r)"
    by (cases "OffsetWAL_Commit (Short n) (b_offsetWAL b) (co_Group req) (co_Topic req) (co_Partition req) (co_Offset req)")
  have "b_offsetWAL b1 = ow \<or> b_offsetWAL b1 = b_offsetWAL b"
    using assms(2) ow by (auto simp: handleCommitOffset_def Let_def split: sum.splits prod.splits)
  moreover have "ow_holds (OpenOffsetWAL (w_file (ow_wal ow))) cs"
    using commit_crash_holds(2) [OF assms(1,4,5), of ow r] ow assms(3) by simp
  moreover have "ow_holds (OpenOffsetWAL (w_file (ow_wal (b_offsetWAL b)))) cs"
    using assms(1) open_inv [of "ow_wal (b_offsetWAL b)" "map Marshal_offsetRecord cs"] by (simp add: ow_holds_def OpenOffsetWAL_def)
  ultimately show ?thesis by auto
qed

lemma restart_offset:
  assumes "ow_holds (OpenOffsetWAL file) cs"
    and "b = start_broker lib now fails ws (New uuid segMax idxEvery sync disk en ks th msgFile file topicFile)"
  shows "gm_groups (b_consumers b) = []"
    and "GroupOffset (b_consumers b) grp topic part = (case offset_map cs (offsetKey grp topic part) of None \<Rightarrow> - 1 | Some v \<Rightarrow> v)"
  using replay_holds [OF assms(1)] assms(2)
  by (simp_all add: consumers_start replayOffsetWAL_def New_def Let_def case_prod_beta NewManager_def GroupOffset_def
      Load_Restore_new)

lemma pl_holds_int64: "pl_holds pl es \<Longrightarrow> e \<in> set es \<Longrightarrow> int64_range (e_off e)"
proof -
  assume "pl_holds pl es" and e: "e \<in> set es"
  then obtain ess where i: "list_all2 seg_inv (pl_segments pl) ess" "concat ess = es" by (auto simp: pl_holds_def pl_inv_def)
  then obtain xs where "xs \<in> set ess" "e \<in> set xs" using e by auto
  then obtain k where k: "k < length ess" "e \<in> set (ess ! k)" by (auto simp: in_set_conv_nth)
  then have "seg_inv (pl_segments pl ! k) (ess ! k)" using i(1) by (simp add: list_all2_conv_all_nth)
  then show ?thesis using k(2) by (simp add: seg_inv_def wf_entries_def wf_entry_def wf_record_def list_all_iff)
qed

lemma fetch_from_committed:
  assumes "gm_groups (b_consumers b) = []" and "GroupOffset (b_consumers b) (fr_Group f) (fr_Topic f) (fr_Partition f) = off"
    and "0 \<le> off" and "fr_Group f \<noteq> []" and "\<not> fr_RawTransfer f" and "Can conn PermFetch (fr_Topic f)"
    and "Get (b_topics b) (fr_Topic f) = Inr tp" and "Topic_PartitionLog tp (fr_Partition f) = Inr pl" and "pl_holds pl es"
    and "entries_from (off + 1) es \<noteq> []"
  shows "handleFetch lib (\<lambda>pl _. pl) raw cancelled b conn (Some f) =
    Some (Fetched (fr_Topic f) (fr_Partition f) (take (nat (fetch_count (fr_MaxCount f))) (entries_from (off + 1) es)))"
proof -
  let ?n = "fetch_count (fr_MaxCount f)"
  have n: "0 < ?n" by (simp add: fetch_count_def)
  obtain e where e: "e \<in> set es" "off + 1 \<le> e_off e" using assms(10) by (auto simp: entries_from_def filter_empty_conv)
  have "int64_range (off + 1)" using pl_holds_int64 [OF assms(9) e(1)] e(2) assms(3) by (simp add: int64_range_def)
  then have start: "start_offset (b_consumers b) (fr_Group f) (fr_Topic f) (fr_Partition f) = off + 1"
    using assms(1-3) by (simp add: start_offset_def GroupOffset_def)
  have read: "PartitionLog_Read lib pl (off + 1) ?n = Inr (take (nat ?n) (entries_from (off + 1) es))"
    using pl_log.read_law [OF assms(9)] .
  have "PollPartitionLog lib (\<lambda>_. pl) cancelled (b_consumers b) (fr_Group f) (fr_Topic f) (fr_Partition f) ?n =
      Some (Inr (take (nat ?n) (entries_from (off + 1) es)))"
    unfolding PollPartitionLog_def start using read n assms(10) by (intro poll_loop_first [of 0 0]) simp_all
  then show ?thesis using assms(4-8) by (simp add: handleFetch_def Let_def)
qed

text \<open>
  The answer to a commit does not say that it was logged: the handler only warns about a failed write of the
  offset log and answers as it does otherwise. Such a commit is forgotten by a restart, which takes up the
  offset that was logged before it.
\<close>

lemma unlogged_commit_lost:
  assumes "ow_holds (b_offsetWAL b) cs" and "handleCommitOffset (Short n) b (Some req) = (b1, answer)"
    and "c = \<lparr>or_Group = co_Group req, or_Topic = co_Topic req, or_Partition = co_Partition req, or_Offset = co_Offset req\<rparr>"
    and "fits_entry (Marshal_offsetRecord c)" and "n < headerSize + length (Marshal_offsetRecord c)"
    and "b2 = start_broker lib now fails ws
      (New uuid segMax idxEvery sync disk en ks th msgFile (w_file (ow_wal (b_offsetWAL b1))) topicFile)"
  shows "answer = snd (handleCommitOffset WalOk b (Some req))"
    and "GroupOffset (b_consumers b2) (co_Group req) (co_Topic req) (co_Partition req) =
      (case offset_map cs (offsetKey (co_Group req) (co_Topic req) (co_Partition req)) of None \<Rightarrow> - 1 | Some v \<Rightarrow> v)"
proof -
  show "answer = snd (handleCommitOffset WalOk b (Some req))"
    using assms(2) by (auto simp: handleCommitOffset_def Let_def split: sum.splits prod.splits)
  have "b1 = fst (handleCommitOffset (Short n) b (Some req))" using assms(2) by simp
  from restart_offset(2) [OF torn_commit_logged [OF assms(1) this assms(3-5)] assms(6)]
  show "GroupOffset (b_consumers b2) (co_Group req) (co_Topic req) (co_Partition req) =
      (case offset_map cs (offsetKey (co_Group req) (co_Topic req) (co_Partition req)) of None \<Rightarrow> - 1 | Some v \<Rightarrow> v)" .
qed

text \<open>C4. A consumer continues after its last logged commit: when a commit was answered with OK and its write to the
  offset log succeeded, and the broker then dies at any byte of the next commit and is started again from its
  files, a fetch by the group returns exactly the messages of the partition after the committed offset, in
  order, up to the batch size. The success of the write is a condition of its own, since the handler answers OK
  without it (lemma \<open>unlogged_commit_lost\<close>); the messages are uncompressed, as everywhere that
  \<open>pl_holds\<close> is assumed.\<close>

theorem commit_survives_restart:
  assumes "ow_holds (b_offsetWAL b) cs" and "handleCommitOffset WalOk b (Some req) = (b1, SendOK)"
    and "c = \<lparr>or_Group = co_Group req, or_Topic = co_Topic req, or_Partition = co_Partition req, or_Offset = co_Offset req\<rparr>"
    and "wf_offsetRecord c" and "fits_entry (Marshal_offsetRecord c)" and "int (length cs) + 1 < 2 ^ 63"
    and "b2 = fst (handleCommitOffset (Short n) b1 (Some req2))"
    and "d = \<lparr>or_Group = co_Group req2, or_Topic = co_Topic req2, or_Partition = co_Partition req2, or_Offset = co_Offset req2\<rparr>"
    and "fits_entry (Marshal_offsetRecord d)" and "n < headerSize + length (Marshal_offsetRecord d)"
    and "b3 = start_broker lib now fails ws
      (New uuid segMax idxEvery sync disk en ks th msgFile (w_file (ow_wal (b_offsetWAL b2))) topicFile)"
    and "fr_Group f = co_Group req" and "fr_Topic f = co_Topic req" and "fr_Partition f = co_Partition req"
    and "fr_Group f \<noteq> []" and "\<not> fr_RawTransfer f" and "Can conn PermFetch (fr_Topic f)" and "0 \<le> co_Offset req"
    and "Get (b_topics b3) (fr_Topic f) = Inr tp" and "Topic_PartitionLog tp (fr_Partition f) = Inr pl" and "pl_holds pl es"
    and "entries_from (co_Offset req + 1) es \<noteq> []"
  shows "handleFetch lib (\<lambda>pl _. pl) raw cancelled b3 conn (Some f) =
    Some (Fetched (fr_Topic f) (fr_Partition f)
      (take (nat (fetch_count (fr_MaxCount f))) (entries_from (co_Offset req + 1) es)))"
proof -
  have "ow_holds (b_offsetWAL b1) (cs @ [c])" by (rule commit_logged [OF assms(1-6)])
  then have o: "ow_holds (OpenOffsetWAL (w_file (ow_wal (b_offsetWAL b2)))) (cs @ [c])"
    by (rule torn_commit_logged [OF _ assms(7-10)])
  have "GroupOffset (b_consumers b3) (fr_Group f) (fr_Topic f) (fr_Partition f) = co_Offset req"
    using restart_offset(2) [OF o assms(11)] assms(3,12-14) by (simp add: offset_map_snoc)
  from fetch_from_committed [OF restart_offset(1) [OF o assms(11)] this assms(18,15-17,19-22)] show ?thesis .
qed

section \<open>Keyed messages\<close>

text \<open>The log a keyed message is routed to.\<close>

definition keyed_log_of :: "TopicManager \<Rightarrow> string \<Rightarrow> string \<Rightarrow> PartitionLog option" where
  "keyed_log_of m topic key =
     (case Get m topic of
        Inl _ \<Rightarrow> None
      | Inr tp \<Rightarrow>
          (case hp_topics (tm_partitioner m) topic of
             None \<Rightarrow> None
           | Some cnt \<Rightarrow>
               (case Topic_PartitionLog tp (hashPartition key cnt) of Inl _ \<Rightarrow> None | Inr pl \<Rightarrow> Some pl)))"

text \<open>A logged request whose message is in its partition log already.\<close>

definition already_written :: "TopicManager \<Rightarrow> PublishRequest \<Rightarrow> bool" where
  "already_written m req \<longleftrightarrow>
     pr_Key req \<noteq> [] \<and>
     (\<exists>target pl. pr_TargetOffset req = Some target \<and> keyed_log_of m (pr_Topic req) (pr_Key req) = Some pl \<and>
        target < PartitionLog_NextOffset pl)"

lemma keyed_log_ofE:
  assumes "keyed_log_of m topic key = Some pl"
  obtains tp cnt where "map_of (tm_topics m) topic = Some tp" "hp_topics (tm_partitioner m) topic = Some cnt"
    "Topic_PartitionLog tp (hashPartition key cnt) = Inr pl"
  using assms that by (auto simp: keyed_log_of_def Get_def split: option.splits sum.splits)

lemma assign_part_keyed:
  "key \<noteq> [] \<Longrightarrow> hp_topics (tm_partitioner m) topic = Some cnt \<Longrightarrow> assign_part m topic key = (m, hashPartition key cnt)"
  by (simp add: assign_part_def Assign_def)

lemma replay_written_skips: "already_written m req \<Longrightarrow> replay_written m req = (m, True)"
  by (auto simp: already_written_def replay_written_def assign_part_keyed Get_def elim!: keyed_log_ofE)

lemma replay_all_written:
  "list_all wf_PublishRequest reqs \<Longrightarrow> list_all (already_written (b_topics b)) reqs \<Longrightarrow>
   replay_entries_from lib ws (entries_at k (map Marshal_PublishRequest reqs) @ es) b = replay_entries_from lib ws es b"
  by (induction reqs arbitrary: k) (simp_all add: request_codec.dec_enc replay_request_def replay_written_skips)

text \<open>The message log of the broker holds these requests, and all of them are written.\<close>

definition wal_covered :: "Broker \<Rightarrow> PublishRequest list \<Rightarrow> bool" where
  "wal_covered b reqs \<longleftrightarrow>
     wal_inv (b_msgWAL b) (map Marshal_PublishRequest reqs) \<and> list_all wf_PublishRequest reqs \<and>
     list_all (already_written (b_topics b)) reqs"

lemma set_partition_topics [simp]:
  "map_of (tm_topics (set_partition m topic part pl')) n =
     map_option (\<lambda>t. if n = topic then t\<lparr>t_partitions := (t_partitions t)[nat part := pl']\<rparr> else t) (map_of (tm_topics m) n)"
proof -
  have "map_of (map (\<lambda>(n, t). (n, if n = topic then t\<lparr>t_partitions := (t_partitions t)[nat part := pl']\<rparr> else t)) xs) n =
      map_option (\<lambda>t. if n = topic then t\<lparr>t_partitions := (t_partitions t)[nat part := pl']\<rparr> else t) (map_of xs n)" for xs
    by (induction xs) auto
  then show ?thesis by (simp add: set_partition_def)
qed

lemma set_partition_router [simp]: "tm_partitioner (set_partition m topic part pl') = tm_partitioner m"
  by (simp add: set_partition_def)

lemma PartitionLog_at:
  "Topic_PartitionLog t i = Inr pl \<longleftrightarrow> 0 \<le> i \<and> nat i < length (t_partitions t) \<and> pl = t_partitions t ! nat i"
  by (auto simp: Topic_PartitionLog_def)

lemma keyed_log_of_iff:
  "keyed_log_of m topic key = Some pl \<longleftrightarrow>
     (\<exists>tp cnt. map_of (tm_topics m) topic = Some tp \<and> hp_topics (tm_partitioner m) topic = Some cnt \<and>
        Topic_PartitionLog tp (hashPartition key cnt) = Inr pl)"
  by (auto simp: keyed_log_of_def Get_def split: option.splits sum.splits)

lemma keyed_log_replaced:
  assumes "keyed_log_of m topic key = Some pl" and "hp_topics (tm_partitioner m) topic = Some cnt"
  shows "keyed_log_of (set_partition m topic (hashPartition key cnt) pl') topic key = Some pl'"
  using assms by (auto simp: keyed_log_of_iff PartitionLog_at)

text \<open>Replacing one log by another leaves every lookup the same, or turns the old log into the new one.\<close>

lemma keyed_log_other:
  assumes "keyed_log_of m topic key = Some pl" and "hp_topics (tm_partitioner m) topic = Some cnt"
    and "keyed_log_of m t k = Some q"
  obtains "keyed_log_of (set_partition m topic (hashPartition key cnt) pl') t k = Some q"
  | "q = pl" "keyed_log_of (set_partition m topic (hashPartition key cnt) pl') t k = Some pl'"
proof (cases "t = topic \<and> hashPartition k cnt = hashPartition key cnt")
  case True
  then have "q = pl" using assms by (auto simp: keyed_log_of_iff PartitionLog_at)
  moreover have "keyed_log_of (set_partition m topic (hashPartition key cnt) pl') t k = Some pl'"
    using assms True by (auto simp: keyed_log_of_iff PartitionLog_at)
  ultimately show ?thesis by (rule that(2))
next
  case False
  obtain tp n where q: "map_of (tm_topics m) t = Some tp" "hp_topics (tm_partitioner m) t = Some n"
    "Topic_PartitionLog tp (hashPartition k n) = Inr q"
    using assms(3) by (auto simp: keyed_log_of_iff)
  have "nat (hashPartition k n) \<noteq> nat (hashPartition key cnt)" if "t = topic"
    using that False q assms(1,2) by (auto simp: keyed_log_of_iff PartitionLog_at)
  then have "keyed_log_of (set_partition m topic (hashPartition key cnt) pl') t k = Some q"
    using q by (auto simp: keyed_log_of_iff PartitionLog_at)
  then show ?thesis by (rule that(1))
qed

lemma already_written_grows:
  assumes "already_written m req" and "keyed_log_of m topic key = Some pl" and "hp_topics (tm_partitioner m) topic = Some cnt"
    and "PartitionLog_NextOffset pl \<le> PartitionLog_NextOffset pl'"
  shows "already_written (set_partition m topic (hashPartition key cnt) pl') req"
proof -
  obtain target q where q: "pr_Key req \<noteq> []" "pr_TargetOffset req = Some target"
    "keyed_log_of m (pr_Topic req) (pr_Key req) = Some q" "target < PartitionLog_NextOffset q"
    using assms(1) by (auto simp: already_written_def)
  from assms(2,3) q(3) show ?thesis
    by (rule keyed_log_other [where pl' = pl']) (use q assms(4) in \<open>auto simp: already_written_def\<close>)
qed

section \<open>A keyed publish\<close>

text \<open>What the producer makes of a request, before it has an offset.\<close>

definition request_message :: "flate_lib \<Rightarrow> world \<Rightarrow> TopicManager \<Rightarrow> PublishRequest \<Rightarrow> Message \<Rightarrow> bool" where
  "request_message lib w m req msg \<longleftrightarrow>
     (\<exists>tp cnt. map_of (tm_topics m) (pr_Topic req) = Some tp \<and> hp_topics (tm_partitioner m) (pr_Topic req) = Some cnt \<and>
        compress_message lib (tc_CompressionCodec (t_cfg tp)) (pr_Codec req) (pr_Payload req)
          ((NewMessage (w_uuid w) (w_clock w 0) (pr_Topic req) (pr_Payload req) (pr_Key req) (pr_Headers req))
             \<lparr>m_Partition := hashPartition (pr_Key req) cnt\<rparr>) = Inr msg)"

text \<open>A keyed request in one of the two plain modes that meets a working disk with room.\<close>

definition smooth :: "flate_lib \<Rightarrow> world \<Rightarrow> Broker \<Rightarrow> PublishRequest \<Rightarrow> Message \<Rightarrow> bool" where
  "smooth lib w b req msg \<longleftrightarrow>
     pr_Key req \<noteq> [] \<and> (pr_DeliveryMode req = AtMostOnce \<or> pr_DeliveryMode req = AtLeastOnce) \<and>
     (\<forall>i. w_disk w i = NoFault) \<and> 0 \<le> p_maxRetries (b_producers b) \<and>
     request_message lib w (b_topics b) req msg \<and>
     (\<forall>pl. keyed_log_of (b_topics b) (pr_Topic req) (pr_Key req) = Some pl \<longrightarrow> pl_fits lib (w_clock w 0) pl msg)"

lemma publishWithRetry_smooth:
  assumes "PartitionLog_Append lib (clock 0) NoFault pl msg = (pl', Inr off)" and "flt 0 = NoFault" and "0 \<le> p_maxRetries p"
  shows "publishWithRetry lib clock flt cancelled p pl msg = (pl', Inr off)"
proof -
  obtain n where "nat (p_maxRetries p + 1) = Suc n" using assms(3) by (cases "nat (p_maxRetries p + 1)") auto
  then show ?thesis using assms(1,2) by (simp add: publishWithRetry_def)
qed

text \<open>One of the two plain modes on a disk that works.\<close>

definition plain :: "world \<Rightarrow> Broker \<Rightarrow> PublishRequest \<Rightarrow> bool" where
  "plain w b req \<longleftrightarrow>
     (pr_DeliveryMode req = AtMostOnce \<or> pr_DeliveryMode req = AtLeastOnce) \<and> (\<forall>i. w_disk w i = NoFault) \<and>
     0 \<le> p_maxRetries (b_producers b)"

lemma publish_request_plain:
  assumes "plain w b req" and "map_of (tm_topics (b_topics b)) (pr_Topic req) = Some tp"
    and "Assign (tm_partitioner (b_topics b)) (pr_Topic req) (pr_Key req) = (router, Inr part)"
    and "Topic_PartitionLog tp part = Inr pl"
    and "compress_message lib (tc_CompressionCodec (t_cfg tp)) (pr_Codec req) (pr_Payload req)
      ((NewMessage (w_uuid w) (w_clock w 0) (pr_Topic req) (pr_Payload req) (pr_Key req) (pr_Headers req))
         \<lparr>m_Partition := part\<rparr>) = Inr msg"
    and "pl_holds pl es" and "pl_fits lib (w_clock w 0) pl msg" and "off = PartitionLog_NextOffset pl"
  obtains pl' where
    "publish_request lib w b req =
       (b\<lparr>b_topics := set_partition ((b_topics b)\<lparr>tm_partitioner := router\<rparr>) (pr_Topic req) part pl'\<rparr>,
        Inr \<lparr>res_MessageID = m_ID msg, res_Partition = part, res_Offset = off\<rparr>)"
    "PartitionLog_NextOffset pl' = off + 1" "pl_holds pl' (es @ [(w_clock w 0, off, msg\<lparr>m_Offset := off\<rparr>)])"
    "PartitionLog_Append lib (w_clock w 0) NoFault pl msg = (pl', Inr off)"
proof -
  obtain pl' where pl': "PartitionLog_Append lib (w_clock w 0) NoFault pl msg = (pl', Inr off)"
    "PartitionLog_NextOffset pl' = off + 1" "pl_holds pl' (es @ [(w_clock w 0, off, msg\<lparr>m_Offset := off\<rparr>)])"
    using pl_log.append_law [OF assms(6,7)] assms(8) by auto
  have flt: "w_disk w 0 = NoFault" "0 \<le> p_maxRetries (b_producers b)" using assms(1) by (simp_all add: plain_def)
  have mode: "pr_DeliveryMode req = AtMostOnce \<or> pr_DeliveryMode req = AtLeastOnce" using assms(1) by (simp add: plain_def)
  have modes: "AtMostOnce \<noteq> AtLeastOnce" by (simp add: AtMostOnce_def AtLeastOnce_def)
  have r: "publishWithRetry lib (w_clock w) (w_disk w) (w_cancelled w) (b_producers b) pl msg = (pl', Inr off)"
    by (rule publishWithRetry_smooth) (use pl'(1) flt in simp_all)
  have "publish_request lib w b req =
       (b\<lparr>b_topics := set_partition ((b_topics b)\<lparr>tm_partitioner := router\<rparr>) (pr_Topic req) part pl'\<rparr>,
        Inr \<lparr>res_MessageID = m_ID msg, res_Partition = part, res_Offset = off\<rparr>)"
    using mode modes assms(2-5) flt pl'(1) r by (auto simp: publish_request_def Publish_def Get_def Let_def)
  then show ?thesis using that pl' by blast
qed

lemma publish_request_smooth:
  assumes "smooth lib w b req msg" and "keyed_log_of (b_topics b) (pr_Topic req) (pr_Key req) = Some pl" and "pl_holds pl es"
    and "hp_topics (tm_partitioner (b_topics b)) (pr_Topic req) = Some cnt" and "off = PartitionLog_NextOffset pl"
  obtains pl' where
    "publish_request lib w b req =
       (b\<lparr>b_topics := set_partition (b_topics b) (pr_Topic req) (hashPartition (pr_Key req) cnt) pl'\<rparr>,
        Inr \<lparr>res_MessageID = m_ID msg, res_Partition = hashPartition (pr_Key req) cnt, res_Offset = off\<rparr>)"
    "PartitionLog_NextOffset pl' = off + 1" "pl_holds pl' (es @ [(w_clock w 0, off, msg\<lparr>m_Offset := off\<rparr>)])"
proof -
  obtain tp where tp: "map_of (tm_topics (b_topics b)) (pr_Topic req) = Some tp"
    "Topic_PartitionLog tp (hashPartition (pr_Key req) cnt) = Inr pl"
    using assms(2,4) by (auto simp: keyed_log_of_iff)
  have msg: "compress_message lib (tc_CompressionCodec (t_cfg tp)) (pr_Codec req) (pr_Payload req)
          ((NewMessage (w_uuid w) (w_clock w 0) (pr_Topic req) (pr_Payload req) (pr_Key req) (pr_Headers req))
             \<lparr>m_Partition := hashPartition (pr_Key req) cnt\<rparr>) = Inr msg"
    using assms(1,4) tp(1) by (auto simp: smooth_def request_message_def)
  have "plain w b req" "pl_fits lib (w_clock w 0) pl msg" and key: "pr_Key req \<noteq> []"
    using assms(1,2) by (simp_all add: smooth_def plain_def)
  moreover have "Assign (tm_partitioner (b_topics b)) (pr_Topic req) (pr_Key req) =
      (tm_partitioner (b_topics b), Inr (hashPartition (pr_Key req) cnt))"
    using key assms(4) by (simp add: Assign_def)
  ultimately obtain pl' where "publish_request lib w b req =
       (b\<lparr>b_topics := set_partition ((b_topics b)\<lparr>tm_partitioner := tm_partitioner (b_topics b)\<rparr>) (pr_Topic req)
           (hashPartition (pr_Key req) cnt) pl'\<rparr>,
        Inr \<lparr>res_MessageID = m_ID msg, res_Partition = hashPartition (pr_Key req) cnt, res_Offset = off\<rparr>)"
    "PartitionLog_NextOffset pl' = off + 1" "pl_holds pl' (es @ [(w_clock w 0, off, msg\<lparr>m_Offset := off\<rparr>)])"
    using publish_request_plain [OF _ tp(1) _ tp(2) msg assms(3) _ assms(5)] by metis
  then show ?thesis using that [of pl'] by simp
qed

lemma smooth_cong [simp]:
  "smooth lib w (b\<lparr>b_msgWAL := wl\<rparr>) req msg = smooth lib w b req msg"
  "smooth lib w (b\<lparr>b_walEntries := es\<rparr>) req msg = smooth lib w b req msg"
  "smooth lib w b (req\<lparr>pr_TargetOffset := x\<rparr>) msg = smooth lib w b req msg"
  by (simp_all add: smooth_def request_message_def)

lemma capture_keyed:
  assumes "keyed_log_of m (pr_Topic req) (pr_Key req) = Some pl" and "hp_topics (tm_partitioner m) (pr_Topic req) = Some cnt"
  shows "capture_target m (hashPartition (pr_Key req) cnt) req = req\<lparr>pr_TargetOffset := Some (PartitionLog_NextOffset pl)\<rparr>"
  using assms by (auto simp: keyed_log_of_iff capture_target_def Get_def)

lemma publish_logged_smooth:
  assumes "wal_covered b reqs" and "smooth lib w b req msg" and "w_wal w = WalOk"
    and "keyed_log_of (b_topics b) (pr_Topic req) (pr_Key req) = Some pl" and "pl_holds pl es"
    and "hp_topics (tm_partitioner (b_topics b)) (pr_Topic req) = Some cnt"
    and "req' = req\<lparr>pr_TargetOffset := Some (PartitionLog_NextOffset pl)\<rparr>"
    and "wf_PublishRequest req'" and "fits_entry (Marshal_PublishRequest req')" and "int (length reqs) + 1 < 2 ^ 63"
    and "publish_logged lib w b (hashPartition (pr_Key req) cnt) req = (b', Inr res)"
  obtains pl' where "wal_covered b' (reqs @ [req'])"
    "b_topics b' = set_partition (b_topics b) (pr_Topic req) (hashPartition (pr_Key req) cnt) pl'"
    "res_Offset res = PartitionLog_NextOffset pl"
    "pl_holds pl' (es @ [(w_clock w 0, PartitionLog_NextOffset pl, msg\<lparr>m_Offset := PartitionLog_NextOffset pl\<rparr>)])"
proof -
  let ?off = "PartitionLog_NextOffset pl" and ?part = "hashPartition (pr_Key req) cnt"
  have cap: "capture_target (b_topics b) ?part req = req'" using capture_keyed [OF assms(4,6)] assms(7) by simp
  obtain wl i where wl: "WAL_Append WalOk (b_msgWAL b) (Marshal_PublishRequest req') = (wl, Inr i)"
    "wal_inv wl (map Marshal_PublishRequest (reqs @ [req']))"
    using append_inv [of "b_msgWAL b" "map Marshal_PublishRequest reqs" "Marshal_PublishRequest req'"] assms(1,9,10)
    by (auto simp: wal_covered_def)
  have names: "pr_Topic req' = pr_Topic req" "pr_Key req' = pr_Key req" by (simp_all add: assms(7))
  obtain pl' where pl': "publish_request lib w (b\<lparr>b_msgWAL := wl\<rparr>) req' =
      ((b\<lparr>b_msgWAL := wl\<rparr>)\<lparr>b_topics := set_partition (b_topics b) (pr_Topic req) ?part pl'\<rparr>,
        Inr \<lparr>res_MessageID = m_ID msg, res_Partition = ?part, res_Offset = ?off\<rparr>)"
    "PartitionLog_NextOffset pl' = ?off + 1" "pl_holds pl' (es @ [(w_clock w 0, ?off, msg\<lparr>m_Offset := ?off\<rparr>)])"
    by (rule publish_request_smooth [of lib w "b\<lparr>b_msgWAL := wl\<rparr>" req' msg pl es cnt ?off])
      (use assms(2,4-6) names assms(7) in simp_all)
  have b': "b' = (b\<lparr>b_msgWAL := wl\<rparr>)\<lparr>b_topics := set_partition (b_topics b) (pr_Topic req) ?part pl'\<rparr>" "res_Offset res = ?off"
    using assms(3,11) cap wl(1) pl'(1) by (auto simp: publish_logged_def Let_def split: if_splits)
  have "already_written (b_topics b') req'"
    using keyed_log_replaced [OF assms(4,6), of pl'] assms(2,7) pl'(2) names b'(1) by (auto simp: already_written_def smooth_def)
  moreover have "list_all (already_written (b_topics b')) reqs"
    using assms(1) already_written_grows [OF _ assms(4,6), of _ pl'] pl'(2) b'(1) by (auto simp: wal_covered_def list_all_iff)
  ultimately have "wal_covered b' (reqs @ [req'])" using wl(2) assms(1,8) b'(1) by (simp add: wal_covered_def)
  then show ?thesis using that [of pl'] b' pl'(3) by simp
qed

text \<open>Any number of acknowledged keyed publishes, by any connections, on disks that work.\<close>

inductive keyed_publishes :: "flate_lib \<Rightarrow> Broker \<Rightarrow> PublishRequest list \<Rightarrow> Broker \<Rightarrow> bool" for lib b0 where
  none: "keyed_publishes lib b0 [] b0"
| more: "keyed_publishes lib b0 reqs b \<Longrightarrow> smooth lib w b req msg \<Longrightarrow> w_wal w = WalOk \<Longrightarrow>
    keyed_log_of (b_topics b) (pr_Topic req) (pr_Key req) = Some pl \<Longrightarrow>
    req' = req\<lparr>pr_TargetOffset := Some (PartitionLog_NextOffset pl)\<rparr> \<Longrightarrow>
    wf_PublishRequest req' \<Longrightarrow> fits_entry (Marshal_PublishRequest req') \<Longrightarrow> int (length reqs) + 1 < 2 ^ 63 \<Longrightarrow>
    handlePublish lib w b conn (Some req) = (b', Published res) \<Longrightarrow> keyed_publishes lib b0 (reqs @ [req']) b'"

definition logs_hold :: "TopicManager \<Rightarrow> bool" where
  "logs_hold m \<longleftrightarrow> (\<forall>t k pl. keyed_log_of m t k = Some pl \<longrightarrow> (\<exists>es. pl_holds pl es))"

lemma handlePublish_keyed:
  assumes "handlePublish lib w b conn (Some req) = (b', Published res)" and "pr_Key req \<noteq> []"
    and "hp_topics (tm_partitioner (b_topics b)) (pr_Topic req) = Some cnt"
  obtains b2 where "publish_logged lib w b (hashPartition (pr_Key req) cnt) req = (b2, Inr res)"
    "b_topics b' = b_topics b2" "b_msgWAL b' = b_msgWAL b2"
  using assms that
  by (auto simp: handlePublish_def assign_part_keyed Let_def dispatch_published_def split: if_splits sum.splits prod.splits)

lemma wal_covered_cong: "b_topics b' = b_topics b \<Longrightarrow> b_msgWAL b' = b_msgWAL b \<Longrightarrow> wal_covered b' reqs = wal_covered b reqs"
  by (simp add: wal_covered_def)

lemma logs_hold_set_partition:
  assumes "logs_hold m" and "keyed_log_of m topic key = Some pl" and "hp_topics (tm_partitioner m) topic = Some cnt"
    and "pl_holds pl' es'"
  shows "logs_hold (set_partition m topic (hashPartition key cnt) pl')"
  unfolding logs_hold_def
proof (intro allI impI)
  fix t k q
  assume q: "keyed_log_of (set_partition m topic (hashPartition key cnt) pl') t k = Some q"
  then obtain q0 where q0: "keyed_log_of m t k = Some q0" by (auto simp: keyed_log_of_iff PartitionLog_at split: if_splits)
  from assms(2,3) q0 show "\<exists>es. pl_holds q es"
    by (rule keyed_log_other [where pl' = pl']) (use q q0 assms(1,4) in \<open>auto simp: logs_hold_def\<close>)
qed

lemma keyed_publishes_covered:
  assumes "keyed_publishes lib b0 reqs b" and "wal_covered b0 []" and "logs_hold (b_topics b0)"
  shows "wal_covered b reqs \<and> logs_hold (b_topics b)"
  using assms
proof (induction rule: keyed_publishes.induct)
  case (more reqs b w req msg pl req' conn b' res)
  have IH: "wal_covered b reqs" "logs_hold (b_topics b)" using more by simp_all
  obtain es where es: "pl_holds pl es" using IH(2) more.hyps(4) unfolding logs_hold_def by blast
  obtain cnt where cnt: "hp_topics (tm_partitioner (b_topics b)) (pr_Topic req) = Some cnt"
    using more.hyps(4) by (auto simp: keyed_log_of_iff)
  have key: "pr_Key req \<noteq> []" using more.hyps(2) by (simp add: smooth_def)
  obtain b2 where b2: "publish_logged lib w b (hashPartition (pr_Key req) cnt) req = (b2, Inr res)"
    "b_topics b' = b_topics b2" "b_msgWAL b' = b_msgWAL b2"
    by (rule handlePublish_keyed [OF more.hyps(9) key cnt])
  obtain pl' where pl': "wal_covered b2 (reqs @ [req'])"
    "b_topics b2 = set_partition (b_topics b) (pr_Topic req) (hashPartition (pr_Key req) cnt) pl'"
    "pl_holds pl' (es @ [(w_clock w 0, PartitionLog_NextOffset pl, msg\<lparr>m_Offset := PartitionLog_NextOffset pl\<rparr>)])"
    by (rule publish_logged_smooth [OF IH(1) more.hyps(2,3,4) es cnt more.hyps(5-8) b2(1)])
  have "logs_hold (b_topics b2)" unfolding pl'(2) by (rule logs_hold_set_partition [OF IH(2) more.hyps(4) cnt pl'(3)])
  then show ?case using pl'(1) b2(2,3) wal_covered_cong [of b' b2] by simp
qed simp

section \<open>Replaying keyed messages\<close>

text \<open>The logs as they are opened again: each keyed lookup finds a log with the same next offset.\<close>

definition reopened :: "TopicManager \<Rightarrow> TopicManager \<Rightarrow> bool" where
  "reopened m m' \<longleftrightarrow>
     (\<forall>t k pl. keyed_log_of m t k = Some pl \<longrightarrow>
        (\<exists>pl'. keyed_log_of m' t k = Some pl' \<and> PartitionLog_NextOffset pl' = PartitionLog_NextOffset pl))"

lemma reopened_written: "reopened m m' \<Longrightarrow> already_written m req \<Longrightarrow> already_written m' req"
  unfolding reopened_def already_written_def by fastforce

text \<open>C5. A restart does not double plain keyed messages: after any number of acknowledged publishes that all have a key,
  are uncompressed, use the at-most-once or at-least-once mode and met no disk fault, replaying the message log
  over the reopened topics changes nothing. The conditions are needed: a publish without a key and a repeated
  exactly-once publish are stored a second time by the replay (theory \<open>Broker_Duplicates\<close>).\<close>

theorem keyed_restart_no_duplicates:
  assumes "wal_covered b0 []" and "logs_hold (b_topics b0)" and "keyed_publishes lib b0 reqs b"
    and "reopened (b_topics b) (b_topics r)" and "b_walEntries r = snd (WAL_Open (w_file (b_msgWAL b)))"
  shows "replayMessageWAL lib ws r = r\<lparr>b_walEntries := []\<rparr>"
proof -
  have c: "wal_covered b reqs" using keyed_publishes_covered [OF assms(3,1,2)] by simp
  have e: "b_walEntries r = entries_at 0 (map Marshal_PublishRequest reqs)"
    using open_inv [of "b_msgWAL b" "map Marshal_PublishRequest reqs"] c assms(5) by (simp add: wal_covered_def)
  have "list_all (already_written (b_topics r)) reqs"
    using c reopened_written [OF assms(4)] by (auto simp: wal_covered_def list_all_iff)
  then show ?thesis
    using replay_all_written [of reqs r lib ws 0 "[]"] c e by (simp add: replayMessageWAL_def wal_covered_def)
qed

text \<open>C6. A publish that was logged but not written is completed once, where all publishes logged before it are plain
  keyed ones: when every earlier entry of the message log is an acknowledged, uncompressed, keyed publish in
  at-most-once or at-least-once mode that met no disk fault, and the broker dies after another such publish has
  reached the message log and before it has reached the partition log, the restart appends the message to
  the log of its key, behind everything that was there, at the offset that was reserved for it. With a keyless
  entry before it the replay may put a second copy of that one in the partition, which moves the next offset
  past the reserved one, and then the interrupted publish is skipped as already written.\<close>

theorem interrupted_publish_completed:
  assumes "wal_covered b0 []" and "logs_hold (b_topics b0)" and "keyed_publishes lib b0 reqs b"
    and "keyed_log_of (b_topics b) (pr_Topic req) (pr_Key req) = Some pl"
    and "assign_part (b_topics b) (pr_Topic req) (pr_Key req) = (m, part)" and "req' = capture_target m part req"
    and "wf_PublishRequest req'" and "fits_entry (Marshal_PublishRequest req')" and "int (length reqs) + 1 < 2 ^ 63"
    and "WAL_Append WalOk (b_msgWAL b) (Marshal_PublishRequest req') = (wl, i)"
    and "reopened (b_topics b) (b_topics r)" and "b_walEntries r = snd (WAL_Open (w_file wl))"
    and "w = ws (int (length reqs))" and "smooth lib w r req msg"
    and "keyed_log_of (b_topics r) (pr_Topic req) (pr_Key req) = Some plr" and "pl_holds plr es"
  shows "\<exists>pl'. keyed_log_of (b_topics (replayMessageWAL lib ws r)) (pr_Topic req) (pr_Key req) = Some pl' \<and>
    pl_holds pl' (es @ [(w_clock w 0, PartitionLog_NextOffset pl, msg\<lparr>m_Offset := PartitionLog_NextOffset pl\<rparr>)])"
proof -
  let ?off = "PartitionLog_NextOffset pl"
  have key: "pr_Key req \<noteq> []" using assms(14) by (simp add: smooth_def)
  obtain cnt where cnt: "hp_topics (tm_partitioner (b_topics b)) (pr_Topic req) = Some cnt"
    using assms(4) by (auto simp: keyed_log_of_iff)
  have req': "req' = req\<lparr>pr_TargetOffset := Some ?off\<rparr>"
    using assms(5,6) capture_keyed [OF assms(4) cnt] assign_part_keyed [OF key cnt] by simp
  have c: "wal_covered b reqs" using keyed_publishes_covered [OF assms(3,1,2)] by simp
  have "wal_inv wl (map Marshal_PublishRequest reqs @ [Marshal_PublishRequest req'])"
    using append_inv [of "b_msgWAL b" "map Marshal_PublishRequest reqs" "Marshal_PublishRequest req'"] c assms(8-10)
    by (auto simp: wal_covered_def)
  from open_inv [OF this] have e: "b_walEntries r = entries_at 0 (map Marshal_PublishRequest reqs) @
      [\<lparr>en_Offset = int (length reqs), en_Data = Marshal_PublishRequest req'\<rparr>]"
    using assms(12) by (simp add: entries_at_append)
  have next_r: "PartitionLog_NextOffset plr = ?off" using assms(4,11,15) unfolding reopened_def by fastforce
  obtain cr where cr: "hp_topics (tm_partitioner (b_topics r)) (pr_Topic req) = Some cr"
    using assms(15) by (auto simp: keyed_log_of_iff)
  have skip: "list_all (already_written (b_topics r)) reqs"
    using c reopened_written [OF assms(11)] by (auto simp: wal_covered_def list_all_iff)
  have "replay_written (b_topics r) req' = (b_topics r, False)"
    using assms(15) cr key next_r req'
    by (auto simp: replay_written_def keyed_log_of_iff Get_def assign_part_keyed)
  then have "replay_entries_from lib ws (b_walEntries r) r = fst (publish_request lib w r req')"
    using replay_all_written [OF _ skip, of lib ws 0] c assms(7,13) e
    by (simp add: wal_covered_def replay_request_def request_codec.dec_enc)
  moreover obtain pl' where "publish_request lib w r req' =
       (r\<lparr>b_topics := set_partition (b_topics r) (pr_Topic req) (hashPartition (pr_Key req) cr) pl'\<rparr>,
        Inr \<lparr>res_MessageID = m_ID msg, res_Partition = hashPartition (pr_Key req) cr, res_Offset = ?off\<rparr>)"
    "pl_holds pl' (es @ [(w_clock w 0, ?off, msg\<lparr>m_Offset := ?off\<rparr>)])"
    by (rule publish_request_smooth [of lib w r req' msg plr es cr ?off]) (use assms(14-16) cr next_r req' in simp_all)
  ultimately show ?thesis
    using keyed_log_replaced [OF assms(15) cr, of pl'] e by (auto simp: replayMessageWAL_def)
qed

section \<open>Witnesses\<close>

lemma fits_of_length:
  assumes "wf_Message msg" and "m_Codec msg = 0" and "s_version s = RecordVersion" and "s_logSize s < 1000"
    and "int64_range (s_nextOffset s)" and "length (m_Key msg) < 100"
    and "length (Marshal_Message (msg\<lparr>m_Offset := s_nextOffset s\<rparr>)) < 900"
  shows "fits now s msg"
  using assms
  by (auto simp: fits_def wf_record_def wf_Message_def length_encodeRecord recHeaderSize_def record_consts)

definition keyed_request :: PublishRequest where
  "keyed_request = zero_PublishRequest\<lparr>pr_Topic := ''t'', pr_Key := ''k'', pr_Payload := Some [104, 105]\<rparr>"

definition keyed_message :: Message where
  "keyed_message = sample_Message\<lparr>m_Key := ''k''\<rparr>"

definition quiet_world :: world where
  "quiet_world = \<lparr>w_uuid = [], w_clock = (\<lambda>_. 0), w_disk = (\<lambda>_. NoFault), w_cancelled = (\<lambda>_. True), w_wal = WalOk,
     w_allow = True, w_groups = (\<lambda>_ _. [])\<rparr>"

lemma quiet_fields [simp]:
  "w_uuid quiet_world = []" "w_clock quiet_world i = 0" "w_disk quiet_world i = NoFault" "w_wal quiet_world = WalOk"
  "w_allow quiet_world"
  by (simp_all add: quiet_world_def)

definition one_topic :: "PartitionLog list \<Rightarrow> TopicManager" where
  "one_topic pls = (NewTopicManager 10 4096 ''always'' (\<lambda>_ _. []) (fst (Register NewHashPartitioner ''t'' (int (length pls)))))
     \<lparr>tm_topics := [(''t'', \<lparr>t_cfg = zero_TopicConfig\<lparr>tc_Name := ''t'', tc_Partitions := int (length pls)\<rparr>,
        t_createdAt = 0, t_partitions = pls, t_closed = False\<rparr>)]\<rparr>"

definition broker_with :: "PartitionLog list \<Rightarrow> Broker" where
  "broker_with pls = (New [] 10 4096 ''always'' (\<lambda>_ _. []) False [] 0 [] [] [])\<lparr>b_topics := one_topic pls\<rparr>"

lemma broker_with_fields:
  "b_topics (broker_with pls) = one_topic pls" "b_msgWAL (broker_with pls) = fst (WAL_Open [])"
  "p_maxRetries (b_producers (broker_with pls)) = 3" "b_walThreshold (broker_with pls) = 0"
  "gm_groups (b_consumers (broker_with pls)) = []"
  by (simp_all add: broker_with_def New_def case_prod_beta NewProducer_def NewManager_def)

lemma one_topic_router:
  "pls \<noteq> [] \<Longrightarrow> hp_topics (tm_partitioner (one_topic pls)) ''t'' = Some (int (length pls))"
  "pls \<noteq> [] \<Longrightarrow> hp_rrCur (tm_partitioner (one_topic pls)) ''t'' = Some 0"
  by (simp_all add: one_topic_def NewTopicManager_def Register_def NewHashPartitioner_def Let_def)

lemma hash_one: "hashPartition key 1 = 0"
  using hashPartition_range [of 1 key] by simp

lemma one_topic_keyed: "keyed_log_of (one_topic [pl]) t k = Some q \<longleftrightarrow> t = ''t'' \<and> q = pl"
  using one_topic_router(1) [of "[pl]"]
  by (auto simp: keyed_log_of_iff PartitionLog_at hash_one) (auto simp: one_topic_def NewTopicManager_def split: if_splits)

lemma sample_pl0_holds: "pl_holds sample_pl0 []"
  using sample_pl0_inv by (auto simp: pl_holds_def)

lemma fits_pl0:
  assumes "wf_Message msg" and "m_Codec msg = 0" and "length (m_Key msg) < 100"
    and "length (Marshal_Message (msg\<lparr>m_Offset := 0\<rparr>)) < 900"
  shows "pl_fits sample_lib now sample_pl0 msg"
  using assms
  by (simp add: pl_fits_def active_after_roll_def roll_def sample_pl0_segments Segment_IsFull_def)
    (rule fits_of_length; simp add: int64_range_def)

lemma keyed_message_ok: "wf_Message keyed_message" "m_Codec keyed_message = 0" "length (m_Key keyed_message) < 100"
  "length (Marshal_Message (keyed_message\<lparr>m_Offset := 0\<rparr>)) < 900"
proof -
  show "wf_Message keyed_message"
    using wf_Message_sample by (simp add: keyed_message_def wf_Message_def ascii_valid_utf8)
  show "length (Marshal_Message (keyed_message\<lparr>m_Offset := 0\<rparr>)) < 900"
    by (simp add: keyed_message_def sample_Message_def marshal_eval)
qed (simp_all add: keyed_message_def sample_Message_def zero_Message_def)

lemma smooth_sample: "smooth sample_lib quiet_world (broker_with [sample_pl0]) keyed_request keyed_message"
proof -
  have "compress_message sample_lib 0 0 (Some [104, 105])
      ((NewMessage [] 0 ''t'' (Some [104, 105]) ''k'' [])\<lparr>m_Partition := 0\<rparr>) = Inr keyed_message"
    by (simp add: compress_message_def CodecNone_def NewMessage_def keyed_message_def sample_Message_def zero_Message_def)
  then have "request_message sample_lib quiet_world (one_topic [sample_pl0]) keyed_request keyed_message"
    using one_topic_router(1) [of "[sample_pl0]"]
    by (simp add: request_message_def keyed_request_def zero_PublishRequest_def hash_one quiet_world_def)
      (simp add: one_topic_def NewTopicManager_def zero_TopicConfig_def)
  moreover have "pl_fits sample_lib 0 sample_pl0 keyed_message" by (intro fits_pl0 keyed_message_ok)
  ultimately show ?thesis
    by (simp add: smooth_def broker_with_fields one_topic_keyed) (simp add: keyed_request_def zero_PublishRequest_def quiet_world_def AtMostOnce_def)
qed

definition logged_request :: PublishRequest where
  "logged_request = keyed_request\<lparr>pr_TargetOffset := Some 0\<rparr>"

lemma logged_request_ok: "wf_PublishRequest logged_request" "fits_entry (Marshal_PublishRequest logged_request)"
  by (simp_all add: logged_request_def keyed_request_def zero_PublishRequest_def wf_PublishRequest_def ascii_valid_utf8
      wf_headers_def map_sorted_def int64_range_def fits_entry_def Marshal_PublishRequest_def PublishRequest_json_def
      marshal_eval)

lemma covered_sample: "wal_covered (broker_with pls) []"
  by (simp add: wal_covered_def broker_with_fields empty_wal_inv)

lemma logs_hold_sample: "logs_hold (b_topics (broker_with [sample_pl0]))"
  using sample_pl0_holds by (auto simp: logs_hold_def broker_with_fields one_topic_keyed)

definition admin_conn :: Conn where
  "admin_conn = SetIdentity (SetAuth newConn ''anonymous'' []) anonymous"

lemma admin_can: "Can admin_conn PermPublish t" "Can admin_conn PermFetch t"
  by (simp_all add: admin_conn_def Can_def SetIdentity_def anonymous_def Identity_Can_iff RolePermissions_def)

lemma publish_sample:
  obtains b pl where "handlePublish sample_lib quiet_world (broker_with [sample_pl0]) admin_conn (Some keyed_request) =
      (b, Published \<lparr>res_MessageID = [], res_Partition = 0, res_Offset = 0\<rparr>)"
    "keyed_log_of (b_topics b) ''t'' ''k'' = Some pl" "pl_holds pl [(0, 0, keyed_message\<lparr>m_Offset := 0\<rparr>)]"
proof -
  let ?b = "broker_with [sample_pl0]"
  have names: "pr_Topic keyed_request = ''t''" "pr_Key keyed_request = ''k''" by (simp_all add: keyed_request_def)
  have cnt: "hp_topics (tm_partitioner (b_topics ?b)) ''t'' = Some 1"
    using one_topic_router(1) [of "[sample_pl0]"] by (simp add: broker_with_fields)
  have log: "keyed_log_of (b_topics ?b) ''t'' ''k'' = Some sample_pl0" by (simp add: broker_with_fields one_topic_keyed)
  obtain wl i where wl: "WAL_Append WalOk (b_msgWAL ?b) (Marshal_PublishRequest logged_request) = (wl, Inr i)"
    using append_inv [OF empty_wal_inv logged_request_ok(2)] by (auto simp: broker_with_fields)
  have cap: "capture_target (b_topics ?b) 0 keyed_request = logged_request"
    using capture_keyed [of "b_topics ?b" keyed_request sample_pl0 1] names cnt log
    by (simp add: hash_one sample_pl0_next logged_request_def)
  obtain pl where pl: "publish_request sample_lib quiet_world (?b\<lparr>b_msgWAL := wl\<rparr>) logged_request =
      ((?b\<lparr>b_msgWAL := wl\<rparr>)\<lparr>b_topics := set_partition (b_topics ?b) ''t'' 0 pl\<rparr>,
        Inr \<lparr>res_MessageID = [], res_Partition = 0, res_Offset = 0\<rparr>)"
    "pl_holds pl [(0, 0, keyed_message\<lparr>m_Offset := 0\<rparr>)]"
    using publish_request_smooth [of sample_lib quiet_world "?b\<lparr>b_msgWAL := wl\<rparr>" logged_request keyed_message sample_pl0 "[]" 1 0]
      smooth_sample names cnt log sample_pl0_holds
    by (auto simp: logged_request_def sample_pl0_next hash_one quiet_world_def keyed_message_def sample_Message_def
        zero_Message_def)
  let ?b' = "(?b\<lparr>b_msgWAL := wl\<rparr>)\<lparr>b_topics := set_partition (b_topics ?b) ''t'' 0 pl\<rparr>"
  have logged: "publish_logged sample_lib quiet_world ?b 0 keyed_request =
      (?b', Inr \<lparr>res_MessageID = [], res_Partition = 0, res_Offset = 0\<rparr>)"
    using cap wl pl(1) by (simp add: publish_logged_def Let_def broker_with_fields quiet_world_def)
  have part: "assign_part (b_topics ?b) ''t'' ''k'' = (b_topics ?b, 0)" using assign_part_keyed [OF _ cnt] by (simp add: hash_one)
  have "handlePublish sample_lib quiet_world ?b admin_conn (Some keyed_request) =
      (?b'\<lparr>b_consumers := (b_consumers ?b)\<lparr>gm_groups := [], gm_dlq := gm_dlq (b_consumers ?b)\<rparr>\<rparr>,
       Published \<lparr>res_MessageID = [], res_Partition = 0, res_Offset = 0\<rparr>)"
    using part logged names admin_can(1)
    by (simp add: handlePublish_def dispatch_published_def Manager_Dispatch_def broker_with_fields(5))
  moreover have "keyed_log_of (set_partition (b_topics ?b) ''t'' 0 pl) ''t'' ''k'' = Some pl"
    using keyed_log_replaced [OF log cnt, of pl] by (simp add: hash_one)
  ultimately show ?thesis using that pl(2) by force
qed

theorem keyed_restart_no_duplicates_witness:
  "\<exists>b r. handlePublish sample_lib quiet_world (broker_with [sample_pl0]) admin_conn (Some keyed_request) =
      (b, Published \<lparr>res_MessageID = [], res_Partition = 0, res_Offset = 0\<rparr>) \<and>
    b_walEntries r = snd (WAL_Open (w_file (b_msgWAL b))) \<and> b_topics r = b_topics b \<and>
    replayMessageWAL sample_lib (\<lambda>_. quiet_world) r = r\<lparr>b_walEntries := []\<rparr>"
proof -
  let ?b0 = "broker_with [sample_pl0]"
  obtain b pl where p: "handlePublish sample_lib quiet_world ?b0 admin_conn (Some keyed_request) =
      (b, Published \<lparr>res_MessageID = [], res_Partition = 0, res_Offset = 0\<rparr>)"
    by (rule publish_sample)
  have names: "pr_Topic keyed_request = ''t''" "pr_Key keyed_request = ''k''" by (simp_all add: keyed_request_def)
  have log: "keyed_log_of (b_topics ?b0) ''t'' ''k'' = Some sample_pl0" by (simp add: broker_with_fields one_topic_keyed)
  have target: "logged_request = keyed_request\<lparr>pr_TargetOffset := Some (PartitionLog_NextOffset sample_pl0)\<rparr>"
    by (simp add: logged_request_def sample_pl0_next)
  have "keyed_publishes sample_lib ?b0 ([] @ [logged_request]) b"
    by (rule keyed_publishes.more [OF keyed_publishes.none smooth_sample _ _ target logged_request_ok _ p])
      (use names log in \<open>simp_all add: logged_request_def\<close>)
  then have run: "keyed_publishes sample_lib ?b0 [logged_request] b" by simp
  define r where "r = b\<lparr>b_walEntries := snd (WAL_Open (w_file (b_msgWAL b)))\<rparr>"
  have "reopened (b_topics b) (b_topics r)" by (simp add: reopened_def r_def)
  from keyed_restart_no_duplicates [OF covered_sample logs_hold_sample run this] p show ?thesis
    by (intro exI [of _ b] exI [of _ r]) (simp add: r_def)
qed

theorem interrupted_publish_completed_witness:
  "\<exists>r pl'. b_topics r = b_topics (broker_with [sample_pl0]) \<and>
    b_walEntries r = [\<lparr>en_Offset = 0, en_Data = Marshal_PublishRequest logged_request\<rparr>] \<and>
    keyed_log_of (b_topics (replayMessageWAL sample_lib (\<lambda>_. quiet_world) r)) ''t'' ''k'' = Some pl' \<and>
    pl_holds pl' [(0, 0, keyed_message\<lparr>m_Offset := 0\<rparr>)]"
proof -
  let ?b = "broker_with [sample_pl0]"
  have names: "pr_Topic keyed_request = ''t''" "pr_Key keyed_request = ''k''" by (simp_all add: keyed_request_def)
  have cnt: "hp_topics (tm_partitioner (b_topics ?b)) ''t'' = Some 1"
    using one_topic_router(1) [of "[sample_pl0]"] by (simp add: broker_with_fields)
  have log: "keyed_log_of (b_topics ?b) (pr_Topic keyed_request) (pr_Key keyed_request) = Some sample_pl0"
    by (simp add: broker_with_fields one_topic_keyed names)
  have part: "assign_part (b_topics ?b) (pr_Topic keyed_request) (pr_Key keyed_request) = (b_topics ?b, 0)"
    using assign_part_keyed [OF _ cnt] by (simp add: hash_one names)
  have cap: "logged_request = capture_target (b_topics ?b) 0 keyed_request"
    using capture_keyed [of "b_topics ?b" keyed_request sample_pl0 1] names cnt log
    by (simp add: hash_one sample_pl0_next logged_request_def)
  obtain wl i where wl: "WAL_Append WalOk (b_msgWAL ?b) (Marshal_PublishRequest logged_request) = (wl, i)"
    "wal_inv wl [Marshal_PublishRequest logged_request]"
    using append_inv [OF empty_wal_inv logged_request_ok(2)] by (auto simp: broker_with_fields)
  have e: "snd (WAL_Open (w_file wl)) = [\<lparr>en_Offset = 0, en_Data = Marshal_PublishRequest logged_request\<rparr>]"
    using open_inv [OF wl(2)] by simp
  define r where "r = ?b\<lparr>b_walEntries := snd (WAL_Open (w_file wl))\<rparr>"
  have re: "reopened (b_topics ?b) (b_topics r)" "b_walEntries r = snd (WAL_Open (w_file wl))"
    "smooth sample_lib quiet_world r keyed_request keyed_message"
    "keyed_log_of (b_topics r) (pr_Topic keyed_request) (pr_Key keyed_request) = Some sample_pl0"
    using smooth_sample log by (simp_all add: reopened_def r_def)
  obtain pl' where "keyed_log_of (b_topics (replayMessageWAL sample_lib (\<lambda>_. quiet_world) r)) ''t'' ''k'' = Some pl'"
    "pl_holds pl' [(0, 0, keyed_message\<lparr>m_Offset := 0\<rparr>)]"
    using interrupted_publish_completed [OF covered_sample logs_hold_sample keyed_publishes.none log part cap
        logged_request_ok _ wl(1) re(1,2) _ re(3,4) sample_pl0_holds, of "\<lambda>_. quiet_world"]
    by (auto simp: names sample_pl0_next)
  then show ?thesis using e by (intro exI [of _ r] exI [of _ pl']) (simp add: r_def)
qed

lemma start_one_topic:
  assumes "topic_log tw [\<lparr>to_Op = ''create'', to_Config = sample_topic\<rparr>]"
    and "b = New uuid 10 4096 ''always'' disk en ks th [] offsetFile (w_file tw)"
  shows "b_topics (start_broker lib now (\<lambda>_ _. False) ws b) =
    fst (Create lib now (\<lambda>_. False) (NewTopicManager 10 4096 ''always'' disk NewHashPartitioner) sample_topic)"
proof -
  let ?op = "\<lparr>to_Op = ''create'', to_Config = sample_topic\<rparr>"
  have o: "WAL_Open (w_file tw) = (tw, entries_at 0 [Marshal_topicOp ?op])"
    using assms(1) by (intro open_inv) (simp add: topic_log_def)
  have wf: "list_all wf_topicOp [?op]" using sample_topic_ok(1) by simp
  have "TopicWAL_Replay tw = (tw, [sample_topic], [])"
    using o replay_topic_entries [OF wf, of "([], [])" 0] by (simp add: TopicWAL_Replay_def apply_topicOp_def)
  then show ?thesis
    using o by (simp add: assms(2) start_broker_def replayMessageWAL_def replayTopicWAL_def replayOffsetWAL_def New_def
        open_empty Let_def case_prod_beta)
qed

definition used_disk :: "string \<Rightarrow> nat \<Rightarrow> log_files" where
  "used_disk = (\<lambda>_ _. map seg_file (pl_segments sample_pl2))"

lemma restarted_topic:
  obtains tp pl where
    "Get (fst (Create sample_lib 0 (\<lambda>_. False) (NewTopicManager 10 4096 ''always'' used_disk NewHashPartitioner) sample_topic))
       ''t'' = Inr tp"
    "Topic_PartitionLog tp 0 = Inr pl" "pl_holds pl [sample_entry, sample_entry1]"
proof -
  let ?pl = "OpenPartitionLog sample_lib (used_disk ''t'' 0) 10 4096 ''always''"
  have v: "list_all (\<lambda>s. s_version s = RecordVersion) (pl_segments sample_pl2)" "pl_segMaxBytes sample_pl2 = 10"
    by (rule sample_pl2_segments, simp)+
  have "pl_holds ?pl [sample_entry, sample_entry1]"
    using reopen_inv [OF sample_pl2_inv v(1) refl, of sample_lib 4096 "''always''"] v(2)
    by (auto simp: pl_holds_def used_disk_def)
  moreover have "Get (fst (Create sample_lib 0 (\<lambda>_. False) (NewTopicManager 10 4096 ''always'' used_disk NewHashPartitioner)
      sample_topic)) ''t'' =
      Inr \<lparr>t_cfg = default_config sample_topic, t_createdAt = 0, t_partitions = [?pl], t_closed = False\<rparr>"
    by (simp add: Create_def Let_def Get_def sample_topic_def default_config_def zero_TopicConfig_def name_t
        NewTopicManager_def map_put_map_of)
  ultimately show ?thesis using that by (simp add: Topic_PartitionLog_def)
qed

theorem commit_survives_restart_witness:
  "\<exists>b1 b2 (tw :: WAL). handleCommitOffset WalOk sample_broker
       (Some \<lparr>co_Group = ''g'', co_ConsumerID = ''c'', co_Topic = ''t'', co_Partition = 0, co_Offset = 0\<rparr>) = (b1, SendOK) \<and>
     b2 = fst (handleCommitOffset (Short 20) b1
       (Some \<lparr>co_Group = ''g'', co_ConsumerID = ''c'', co_Topic = ''t'', co_Partition = 0, co_Offset = 0\<rparr>)) \<and>
     handleFetch sample_lib (\<lambda>pl _. pl) id (\<lambda>_. True)
       (start_broker sample_lib 0 (\<lambda>_ _. False) (\<lambda>_. quiet_world)
         (New [] 10 4096 ''always'' used_disk False [] 0 [] (w_file (ow_wal (b_offsetWAL b2))) (w_file tw))) admin_conn
       (Some \<lparr>fr_Topic = ''t'', fr_Group = ''g'', fr_Partition = 0, fr_Offset = 0, fr_MaxCount = 5, fr_RawTransfer = False\<rparr>) =
     Some (Fetched ''t'' 0 [sample_Message\<lparr>m_Offset := 1\<rparr>])"
proof -
  let ?req = "\<lparr>co_Group = ''g'', co_ConsumerID = ''c'', co_Topic = ''t'', co_Partition = 0, co_Offset = 0\<rparr>"
  let ?f = "\<lparr>fr_Topic = ''t'', fr_Group = ''g'', fr_Partition = 0, fr_Offset = 0, fr_MaxCount = 5, fr_RawTransfer = False\<rparr>"
  have ow: "ow_holds (b_offsetWAL sample_broker) []"
    by (simp add: sample_broker_def New_def case_prod_beta ow_holds_def OpenOffsetWAL_def empty_wal_inv)
  obtain g where g: "map_of (gm_groups (b_consumers sample_broker)) (groupKey ''g'' ''t'') = Some g"
    "map_of (g_consumers g) ''c'' = Some 0" using sample_broker_group by blast
  obtain b1 where b1: "handleCommitOffset WalOk sample_broker (Some ?req) = (b1, SendOK)"
    using g by (simp add: handleCommitOffset_def Manager_CommitOffset_def Group_CommitOffset_def case_prod_beta)
  define b2 where "b2 = fst (handleCommitOffset (Short 20) b1 (Some ?req))"
  obtain tw where "wal_inv tw [Marshal_topicOp \<lparr>to_Op = ''create'', to_Config = sample_topic\<rparr>]"
    using append_inv [OF empty_wal_inv sample_topic_ok(2)] by auto
  then have tw: "topic_log tw [\<lparr>to_Op = ''create'', to_Config = sample_topic\<rparr>]"
    using sample_topic_ok(1) by (simp add: topic_log_def)
  let ?b3 = "start_broker sample_lib 0 (\<lambda>_ _. False) (\<lambda>_. quiet_world)
    (New [] 10 4096 ''always'' used_disk False [] 0 [] (w_file (ow_wal (b_offsetWAL b2))) (w_file tw))"
  obtain tp pl where tp: "Get (b_topics ?b3) ''t'' = Inr tp" "Topic_PartitionLog tp 0 = Inr pl"
    "pl_holds pl [sample_entry, sample_entry1]"
    by (rule restarted_topic) (simp add: start_one_topic [OF tw refl])
  have c: "fits_entry (Marshal_offsetRecord (sample_commit 0))" "20 < headerSize + length (Marshal_offsetRecord (sample_commit 0))"
    using sample_commit_ok(2) by (simp_all add: fits_entry_def)
  have ef: "entries_from 1 [sample_entry, sample_entry1] = [sample_Message\<lparr>m_Offset := 1\<rparr>]"
    by (simp add: entries_from_def sample_entry_def sample_entry1_def e_off_def e_msg_def)
  have rec: "sample_commit 0 = \<lparr>or_Group = co_Group ?req, or_Topic = co_Topic ?req, or_Partition = co_Partition ?req,
      or_Offset = co_Offset ?req\<rparr>"
    by (simp add: sample_commit_def)
  have len: "int (length ([] :: offsetRecord list)) + 1 < 2 ^ 63" by simp
  have f: "fr_Group ?f = co_Group ?req" "fr_Topic ?f = co_Topic ?req" "fr_Partition ?f = co_Partition ?req" "fr_Group ?f \<noteq> []"
    "\<not> fr_RawTransfer ?f" "Can admin_conn PermFetch (fr_Topic ?f)" "0 \<le> co_Offset ?req"
    "Get (b_topics ?b3) (fr_Topic ?f) = Inr tp" "Topic_PartitionLog tp (fr_Partition ?f) = Inr pl"
    "entries_from (co_Offset ?req + 1) [sample_entry, sample_entry1] \<noteq> []"
    using tp(1,2) admin_can(2) ef by simp_all
  have "handleFetch sample_lib (\<lambda>pl _. pl) id (\<lambda>_. True) ?b3 admin_conn (Some ?f) =
      Some (Fetched (fr_Topic ?f) (fr_Partition ?f)
        (take (nat (fetch_count (fr_MaxCount ?f))) (entries_from (co_Offset ?req + 1) [sample_entry, sample_entry1])))"
    by (rule commit_survives_restart [OF ow b1 rec sample_commit_ok(1) c(1) len b2_def rec c refl f(1-9) tp(3) f(10)])
  also have "\<dots> = Some (Fetched ''t'' 0 [sample_Message\<lparr>m_Offset := 1\<rparr>])" using ef by (simp add: fetch_count_def)
  finally have fetched: "handleFetch sample_lib (\<lambda>pl _. pl) id (\<lambda>_. True) ?b3 admin_conn (Some ?f) =
      Some (Fetched ''t'' 0 [sample_Message\<lparr>m_Offset := 1\<rparr>])" .
  show ?thesis
    by (rule exI [of _ b1], rule exI [of _ b2], rule exI [of _ tw]) (intro conjI b1 b2_def fetched)
qed

end
