(* ===== verification/Broker_Duplicates.thy ===== *)
theory Broker_Duplicates
  imports Broker_Recovery
begin

text \<open>
  Where publishing and restarting go wrong together: the handler asks the partitioner a second time, so keyless
  messages leave partitions idle and their log entries name the wrong partition; and the memory of exactly-once
  publishes does not survive the restart that replays their log entries.
\<close>

section \<open>Keyless publishes\<close>

lemma Assign_keyless_at:
  assumes "hp_topics p topic = Some cnt" and "hp_rrCur p topic = Some c" and "unat c < 2 ^ 63" and "0 < cnt"
  shows "Assign p topic [] = (p\<lparr>hp_rrCur := (hp_rrCur p)(topic \<mapsto> c + 1)\<rparr>, Inr (int (unat c) mod cnt))"
  using assms sint_small [OF assms(3)] by (simp add: Assign_def Let_def smod_nonneg)

lemma unat_next: "unat (c :: 64 word) < 2 ^ 63 \<Longrightarrow> unat (c + 1) = unat c + 1"
  by (simp add: unat_plus_if' order.strict_trans1)

lemma assign_part_keyless:
  assumes "hp_topics (tm_partitioner m) topic = Some cnt" and "hp_rrCur (tm_partitioner m) topic = Some c"
    and "unat c < 2 ^ 63" and "0 < cnt"
  shows "assign_part m topic [] =
    (m\<lparr>tm_partitioner := (tm_partitioner m)\<lparr>hp_rrCur := (hp_rrCur (tm_partitioner m))(topic \<mapsto> c + 1)\<rparr>\<rparr>, int (unat c) mod cnt)"
  using Assign_keyless_at [OF assms] by (simp add: assign_part_def)

lemma Publish_partition:
  assumes "Publish lib uuid clock flt cancelled p m topic key payload headers mode seq codec client = (p', m', Inr res)"
    and "mode = AtMostOnce \<or> mode = AtLeastOnce" and "Assign (tm_partitioner m) topic key = (router, Inr part)"
  shows "res_Partition res = part" and "tm_partitioner m' = router"
proof -
  have modes: "AtMostOnce \<noteq> AtLeastOnce" by (simp add: AtMostOnce_def AtLeastOnce_def)
  show "res_Partition res = part" "tm_partitioner m' = router"
    using assms modes by (auto simp: Publish_def Let_def split: sum.splits prod.splits if_splits)
qed

text \<open>With an even number of partitions, half of them never receive a keyless message: the handler and the
  producer each take a ticket of the round-robin counter, so as long as the counter is even, which it is
  after a start, a keyless publish goes to a partition with an odd number and leaves the counter even.\<close>

theorem keyless_only_odd_partitions:
  assumes "hp_topics (tm_partitioner (b_topics b)) (pr_Topic req) = Some cnt" and "0 < cnt" and "even cnt"
    and "hp_rrCur (tm_partitioner (b_topics b)) (pr_Topic req) = Some c" and "even (unat c)" and "unat c + 2 < 2 ^ 63"
    and "pr_Key req = []" and "pr_DeliveryMode req = AtMostOnce \<or> pr_DeliveryMode req = AtLeastOnce"
    and "handlePublish lib w b conn (Some req) = (b', Published res)"
  shows "odd (res_Partition res) \<and>
    (\<exists>c'. hp_rrCur (tm_partitioner (b_topics b')) (pr_Topic req) = Some c' \<and> unat c' = unat c + 2)"
proof -
  let ?p = "(tm_partitioner (b_topics b))\<lparr>hp_rrCur := (hp_rrCur (tm_partitioner (b_topics b)))(pr_Topic req \<mapsto> c + 1)\<rparr>"
  have c: "unat c < 2 ^ 63" "unat (c + 1) = unat c + 1" "unat (c + 1) < 2 ^ 63"
    using assms(6) unat_next [of c] by simp_all
  have c2: "unat (c + 1 + 1) = unat c + 2" using unat_next [OF c(3)] c(2) by simp
  have a1: "assign_part (b_topics b) (pr_Topic req) [] = ((b_topics b)\<lparr>tm_partitioner := ?p\<rparr>, int (unat c) mod cnt)"
    by (rule assign_part_keyless [OF assms(1,4) c(1) assms(2)])
  have a2: "Assign ?p (pr_Topic req) [] = (?p\<lparr>hp_rrCur := (hp_rrCur ?p)(pr_Topic req \<mapsto> c + 1 + 1)\<rparr>, Inr (int (unat (c + 1)) mod cnt))"
    by (rule Assign_keyless_at) (use assms(1,2) c(3) in simp_all)
  obtain wl p m where pub: "Publish lib (w_uuid w) (w_clock w) (w_disk w) (w_cancelled w) p ((b_topics b)\<lparr>tm_partitioner := ?p\<rparr>)
      (pr_Topic req) [] (pr_Payload req) (pr_Headers req) (pr_DeliveryMode req) (pr_SeqNum req) (pr_Codec req) [] = (wl, m, Inr res)"
    and m: "b_topics b' = m"
  proof -
    have cap: "pr_Topic (capture_target t q req) = pr_Topic req \<and> pr_Key (capture_target t q req) = pr_Key req \<and>
        pr_Payload (capture_target t q req) = pr_Payload req \<and> pr_Headers (capture_target t q req) = pr_Headers req \<and>
        pr_DeliveryMode (capture_target t q req) = pr_DeliveryMode req \<and> pr_SeqNum (capture_target t q req) = pr_SeqNum req \<and>
        pr_Codec (capture_target t q req) = pr_Codec req" for t q
      by (simp add: capture_target_def split: sum.splits)
    show ?thesis
      using assms(7,9) a1 cap that
      by (auto simp: handlePublish_def publish_logged_def publish_request_def dispatch_published_def Let_def
          split: if_splits sum.splits prod.splits)
  qed
  have "res_Partition res = int (unat (c + 1)) mod cnt" "tm_partitioner m = ?p\<lparr>hp_rrCur := (hp_rrCur ?p)(pr_Topic req \<mapsto> c + 1 + 1)\<rparr>"
    using Publish_partition [OF pub assms(8)] a2 by simp_all
  moreover have "odd (int (unat (c + 1)) mod cnt)"
    unfolding dvd_mod_iff [OF assms(3)] even_of_nat c(2) using assms(5) by simp
  ultimately show ?thesis using m c2 by simp
qed

lemma handlePublish_split:
  assumes "handlePublish lib w b conn (Some req) = (b', Published res)"
    and "assign_part (b_topics b) (pr_Topic req) (pr_Key req) = (m, part)" and "w_wal w = WalOk"
  obtains wl i b2 where
    "WAL_Append WalOk (b_msgWAL b) (Marshal_PublishRequest (capture_target m part req)) = (wl, Inr i)"
    "publish_request lib w (b\<lparr>b_topics := m, b_msgWAL := wl\<rparr>) (capture_target m part req) = (b2, Inr res)"
    "b_topics b' = b_topics b2" "b_producers b' = b_producers b2" "b_msgWAL b' = wl"
  using assms that
  by (auto simp: handlePublish_def publish_logged_def publish_request_def dispatch_published_def Let_def
      split: if_splits sum.splits prod.splits)

text \<open>The two tickets of a publish on a fresh counter.\<close>

lemma first_ticket:
  assumes "hp_topics (tm_partitioner m) topic = Some cnt" and "2 \<le> cnt" and "hp_rrCur (tm_partitioner m) topic = Some 0"
  obtains m' where "assign_part m topic [] = (m', 0)" "tm_topics m' = tm_topics m"
    "hp_topics (tm_partitioner m') topic = Some cnt" "hp_rrCur (tm_partitioner m') topic = Some 1"
  using assign_part_keyless [OF assms(1,3)] assms that by simp

lemma second_ticket:
  assumes "plain w b req" and "pr_Key req = []" and "map_of (tm_topics (b_topics b)) (pr_Topic req) = Some tp"
    and "hp_topics (tm_partitioner (b_topics b)) (pr_Topic req) = Some cnt" and "2 \<le> cnt"
    and "hp_rrCur (tm_partitioner (b_topics b)) (pr_Topic req) = Some 1" and "Topic_PartitionLog tp 1 = Inr pl"
    and "compress_message lib (tc_CompressionCodec (t_cfg tp)) (pr_Codec req) (pr_Payload req)
      ((NewMessage (w_uuid w) (w_clock w 0) (pr_Topic req) (pr_Payload req) [] (pr_Headers req))\<lparr>m_Partition := 1\<rparr>) = Inr msg"
    and "pl_holds pl es" and "pl_fits lib (w_clock w 0) pl msg" and "off = PartitionLog_NextOffset pl"
  obtains m' res pl' where "publish_request lib w b req = (b\<lparr>b_topics := m'\<rparr>, Inr res)"
    "map_of (tm_topics m') (pr_Topic req) = Some (tp\<lparr>t_partitions := (t_partitions tp)[1 := pl']\<rparr>)"
    "hp_topics (tm_partitioner m') (pr_Topic req) = Some cnt"
    "PartitionLog_NextOffset pl' = off + 1" "pl_holds pl' (es @ [(w_clock w 0, off, msg\<lparr>m_Offset := off\<rparr>)])"
    "PartitionLog_Append lib (w_clock w 0) NoFault pl msg = (pl', Inr off)"
proof -
  define router where "router = fst (Assign (tm_partitioner (b_topics b)) (pr_Topic req) [])"
  have a: "Assign (tm_partitioner (b_topics b)) (pr_Topic req) (pr_Key req) = (router, Inr 1)"
    "hp_topics router (pr_Topic req) = Some cnt"
    using Assign_keyless_at [OF assms(4,6)] assms(2,4,5) by (simp_all add: router_def)
  have msg: "compress_message lib (tc_CompressionCodec (t_cfg tp)) (pr_Codec req) (pr_Payload req)
      ((NewMessage (w_uuid w) (w_clock w 0) (pr_Topic req) (pr_Payload req) (pr_Key req) (pr_Headers req))\<lparr>m_Partition := 1\<rparr>) = Inr msg"
    using assms(2,8) by simp
  obtain pl' where p: "publish_request lib w b req =
       (b\<lparr>b_topics := set_partition ((b_topics b)\<lparr>tm_partitioner := router\<rparr>) (pr_Topic req) 1 pl'\<rparr>,
        Inr \<lparr>res_MessageID = m_ID msg, res_Partition = 1, res_Offset = off\<rparr>)"
    "PartitionLog_NextOffset pl' = off + 1" "pl_holds pl' (es @ [(w_clock w 0, off, msg\<lparr>m_Offset := off\<rparr>)])"
    "PartitionLog_Append lib (w_clock w 0) NoFault pl msg = (pl', Inr off)"
    by (rule publish_request_plain [OF assms(1,3) a(1) assms(7) msg assms(9-11)])
  show ?thesis by (rule that [OF p(1) _ _ p(2-4)]) (use assms(3) a(2) in simp_all)
qed

text \<open>C28. A keyless message is doubled by the next restart, without any failure: the log entry of the first keyless
  publish after a start names the next offset of partition 0, while the message goes to partition 1. At the restart
  partition 0 is still short of that offset, so the entry is published again, to partition 1.\<close>

theorem keyless_restart_duplicates:
  assumes "map_of (tm_topics (b_topics b)) (pr_Topic req) = Some tp"
    and "hp_topics (tm_partitioner (b_topics b)) (pr_Topic req) = Some cnt" and "2 \<le> cnt"
    and "hp_rrCur (tm_partitioner (b_topics b)) (pr_Topic req) = Some 0"
    and "Topic_PartitionLog tp 0 = Inr pl0" and "Topic_PartitionLog tp 1 = Inr pl1" and "pl_holds pl1 es"
    and "pr_Key req = []" and "plain w b req" and "w_wal w = WalOk" and "wal_inv (b_msgWAL b) []"
    and "compress_message lib (tc_CompressionCodec (t_cfg tp)) (pr_Codec req) (pr_Payload req)
      ((NewMessage (w_uuid w) (w_clock w 0) (pr_Topic req) (pr_Payload req) [] (pr_Headers req))\<lparr>m_Partition := 1\<rparr>) = Inr msg"
    and "pl_fits lib (w_clock w 0) pl1 msg" and "off = PartitionLog_NextOffset pl1"
    and "req' = req\<lparr>pr_TargetOffset := Some (PartitionLog_NextOffset pl0)\<rparr>"
    and "wf_PublishRequest req'" and "fits_entry (Marshal_PublishRequest req')"
    and "handlePublish lib w b conn (Some req) = (b1, Published res)"
    and "b_topics r = (b_topics b1)\<lparr>tm_partitioner := (tm_partitioner (b_topics b1))
      \<lparr>hp_rrCur := (hp_rrCur (tm_partitioner (b_topics b1)))(pr_Topic req \<mapsto> 0)\<rparr>\<rparr>"
    and "b_walEntries r = snd (WAL_Open (w_file (b_msgWAL b1)))"
    and "plain (ws 0) r req"
    and "compress_message lib (tc_CompressionCodec (t_cfg tp)) (pr_Codec req) (pr_Payload req)
      ((NewMessage (w_uuid (ws 0)) (w_clock (ws 0) 0) (pr_Topic req) (pr_Payload req) [] (pr_Headers req))
        \<lparr>m_Partition := 1\<rparr>) = Inr msg'"
    and "map_of (tm_topics (b_topics r)) (pr_Topic req) = Some tp1" and "Topic_PartitionLog tp1 1 = Inr q"
    and "pl_fits lib (w_clock (ws 0) 0) q msg'"
  shows "pl_holds q (es @ [(w_clock w 0, off, msg\<lparr>m_Offset := off\<rparr>)]) \<and>
    (\<exists>tp2 pl'. map_of (tm_topics (b_topics (replayMessageWAL lib ws r))) (pr_Topic req) = Some tp2 \<and>
       Topic_PartitionLog tp2 1 = Inr pl' \<and>
       pl_holds pl' (es @ [(w_clock w 0, off, msg\<lparr>m_Offset := off\<rparr>),
         (w_clock (ws 0) 0, off + 1, msg'\<lparr>m_Offset := off + 1\<rparr>)]))"
proof -
  let ?t = "pr_Topic req" and ?e = "(w_clock w 0, off, msg\<lparr>m_Offset := off\<rparr>) :: entry"
  have req': "pr_Topic req' = ?t" "pr_Key req' = []" "pr_Payload req' = pr_Payload req" "pr_Headers req' = pr_Headers req"
    "pr_Codec req' = pr_Codec req" "pr_TargetOffset req' = Some (PartitionLog_NextOffset pl0)" "plain v c req' = plain v c req" for v c
    using assms(8,15) by (simp_all add: plain_def)
  obtain m where m: "assign_part (b_topics b) ?t (pr_Key req) = (m, 0)" "tm_topics m = tm_topics (b_topics b)"
    "hp_topics (tm_partitioner m) ?t = Some cnt" "hp_rrCur (tm_partitioner m) ?t = Some 1"
    using first_ticket [OF assms(2-4)] assms(8) by metis
  have cap: "capture_target m 0 req = req'" using assms(1,5,15) m(2) by (simp add: capture_target_def Get_def)
  obtain wl i b2 where h: "WAL_Append WalOk (b_msgWAL b) (Marshal_PublishRequest req') = (wl, Inr i)"
    "publish_request lib w (b\<lparr>b_topics := m, b_msgWAL := wl\<rparr>) req' = (b2, Inr res)"
    "b_topics b1 = b_topics b2" "b_msgWAL b1 = wl"
    by (rule handlePublish_split [OF assms(18) m(1) assms(10), unfolded cap])
  obtain pl where pl: "map_of (tm_topics (b_topics b1)) ?t = Some (tp\<lparr>t_partitions := (t_partitions tp)[1 := pl]\<rparr>)"
    "hp_topics (tm_partitioner (b_topics b1)) ?t = Some cnt" "PartitionLog_NextOffset pl = off + 1" "pl_holds pl (es @ [?e])"
    by (rule second_ticket [of w "b\<lparr>b_topics := m, b_msgWAL := wl\<rparr>" req' tp cnt pl1 lib msg es off])
      (use assms(1,3,6,7,9,12-14) req' m(2-4) h(2,3) in \<open>auto simp: plain_def\<close>)
  have tp1: "tp1 = tp\<lparr>t_partitions := (t_partitions tp)[1 := pl]\<rparr>" using assms(19,23) pl(1) by simp
  have q: "q = pl" "Topic_PartitionLog tp1 0 = Inr pl0" using assms(5,6,24) tp1 by (simp_all add: PartitionLog_at)
  have "hp_topics (tm_partitioner (b_topics r)) ?t = Some cnt" "hp_rrCur (tm_partitioner (b_topics r)) ?t = Some 0"
    using assms(19) pl(2) by simp_all
  then obtain m1 where m1: "assign_part (b_topics r) ?t [] = (m1, 0)" "tm_topics m1 = tm_topics (b_topics r)"
    "hp_topics (tm_partitioner m1) ?t = Some cnt" "hp_rrCur (tm_partitioner m1) ?t = Some 1"
    using first_ticket assms(3) by metis
  have "replay_written (b_topics r) req' = (m1, False)"
    using req' m1(1) assms(23) q(2) by (simp add: replay_written_def Get_def)
  then have rep: "replay_request lib (ws 0) r req' = fst (publish_request lib (ws 0) (r\<lparr>b_topics := m1\<rparr>) req')"
    by (simp add: replay_request_def)
  obtain pl' where pl': "map_of (tm_topics (b_topics (replay_request lib (ws 0) r req'))) ?t =
      Some (tp1\<lparr>t_partitions := (t_partitions tp1)[1 := pl']\<rparr>)"
    "pl_holds pl' ((es @ [?e]) @ [(w_clock (ws 0) 0, off + 1, msg'\<lparr>m_Offset := off + 1\<rparr>)])"
    by (rule second_ticket [of "ws 0" "r\<lparr>b_topics := m1\<rparr>" req' tp1 cnt q lib msg' "es @ [?e]" "off + 1"])
      (use assms(3,21-25) req' m1(2-4) q(1) pl(3,4) tp1 rep in \<open>auto simp: plain_def\<close>)
  have "wal_inv wl [Marshal_PublishRequest req']" using append_inv [OF assms(11,17)] h(1) by auto
  from open_inv [OF this] have "b_walEntries r = [\<lparr>en_Offset = 0, en_Data = Marshal_PublishRequest req'\<rparr>]"
    using assms(20) h(4) by simp
  then have "b_topics (replayMessageWAL lib ws r) = b_topics (replay_request lib (ws 0) r req')"
    using assms(16) by (simp add: replayMessageWAL_def request_codec.dec_enc)
  moreover have "Topic_PartitionLog (tp1\<lparr>t_partitions := (t_partitions tp1)[1 := pl']\<rparr>) 1 = Inr pl'"
    using assms(24) by (simp add: PartitionLog_at)
  ultimately show ?thesis using pl(4) pl' q(1) by simp
qed

section \<open>Exactly-once publishes\<close>

definition once :: "world \<Rightarrow> Broker \<Rightarrow> PublishRequest \<Rightarrow> bool" where
  "once w b req \<longleftrightarrow>
     pr_DeliveryMode req = ExactlyOnce \<and> pr_SeqNum req \<noteq> 0 \<and> pr_Key req \<noteq> [] \<and> (\<forall>i. w_disk w i = NoFault) \<and>
     0 \<le> p_maxRetries (b_producers b)"

definition seq_known :: "Broker \<Rightarrow> PublishRequest \<Rightarrow> PublishResult option" where
  "seq_known b req = p_idempotencyStore (b_producers b) (p_ProducerID (b_producers b), pr_SeqNum req)"

lemma modes_distinct: "ExactlyOnce \<noteq> AtMostOnce" "ExactlyOnce \<noteq> AtLeastOnce"
  by (simp_all add: ExactlyOnce_def AtMostOnce_def AtLeastOnce_def)

text \<open>A new sequence number is appended and remembered; a remembered one is answered.\<close>

lemma publish_once_new:
  assumes "once w b req" and "keyed_log_of (b_topics b) (pr_Topic req) (pr_Key req) = Some pl" and "pl_holds pl es"
    and "hp_topics (tm_partitioner (b_topics b)) (pr_Topic req) = Some cnt"
    and "request_message lib w (b_topics b) req msg" and "pl_fits lib (w_clock w 0) pl msg"
    and "seq_known b req = None" and "LookupOffset (p_dedup (b_producers b)) (p_ProducerID (b_producers b)) (pr_SeqNum req) = None"
    and "off = PartitionLog_NextOffset pl"
  obtains p' pl' res where
    "publish_request lib w b req =
       (b\<lparr>b_producers := p', b_topics := set_partition (b_topics b) (pr_Topic req) (hashPartition (pr_Key req) cnt) pl'\<rparr>, Inr res)"
    "p_ProducerID p' = p_ProducerID (b_producers b)" "p_maxRetries p' = p_maxRetries (b_producers b)"
    "p_idempotencyStore p' (p_ProducerID p', pr_SeqNum req) = Some res"
    "PartitionLog_NextOffset pl' = off + 1" "pl_holds pl' (es @ [(w_clock w 0, off, msg\<lparr>m_Offset := off\<rparr>)])"
    "PartitionLog_Append lib (w_clock w 0) NoFault pl msg = (pl', Inr off)"
proof -
  obtain tp where tp: "map_of (tm_topics (b_topics b)) (pr_Topic req) = Some tp"
    "Topic_PartitionLog tp (hashPartition (pr_Key req) cnt) = Inr pl"
    using assms(2,4) by (auto simp: keyed_log_of_iff)
  have msg: "compress_message lib (tc_CompressionCodec (t_cfg tp)) (pr_Codec req) (pr_Payload req)
      ((NewMessage (w_uuid w) (w_clock w 0) (pr_Topic req) (pr_Payload req) (pr_Key req) (pr_Headers req))
         \<lparr>m_Partition := hashPartition (pr_Key req) cnt\<rparr>) = Inr msg"
    using assms(4,5) tp(1) by (auto simp: request_message_def)
  obtain pl' where pl': "PartitionLog_Append lib (w_clock w 0) NoFault pl msg = (pl', Inr off)"
    "PartitionLog_NextOffset pl' = off + 1" "pl_holds pl' (es @ [(w_clock w 0, off, msg\<lparr>m_Offset := off\<rparr>)])"
    using pl_log.append_law [OF assms(3,6)] assms(9) by auto
  have r: "publishWithRetry lib (w_clock w) (w_disk w) (w_cancelled w) (b_producers b) pl msg = (pl', Inr off)"
    by (rule publishWithRetry_smooth) (use pl'(1) assms(1) in \<open>simp_all add: once_def\<close>)
  have a: "Assign (tm_partitioner (b_topics b)) (pr_Topic req) (pr_Key req) =
      (tm_partitioner (b_topics b), Inr (hashPartition (pr_Key req) cnt))"
    using assms(1,4) by (simp add: Assign_def once_def)
  let ?res = "\<lparr>res_MessageID = m_ID msg, res_Partition = hashPartition (pr_Key req) cnt, res_Offset = off\<rparr>"
  let ?p = "(b_producers b)\<lparr>p_dedup := Mark (p_dedup (b_producers b)) (p_ProducerID (b_producers b)) (pr_SeqNum req) off,
      p_idempotencyStore := (p_idempotencyStore (b_producers b))((p_ProducerID (b_producers b), pr_SeqNum req) \<mapsto> ?res)\<rparr>"
  have "publish_exactly_once lib (w_clock w) (w_disk w) (w_cancelled w) (b_producers b) pl msg (hashPartition (pr_Key req) cnt)
      (pr_SeqNum req) [] = (?p, pl', Inr ?res)"
    using assms(1,7,8) r by (simp add: publish_exactly_once_def once_def seq_known_def Let_def)
  then have "publish_request lib w b req =
      (b\<lparr>b_producers := ?p, b_topics := set_partition (b_topics b) (pr_Topic req) (hashPartition (pr_Key req) cnt) pl'\<rparr>, Inr ?res)"
    using assms(1) tp a msg modes_distinct by (simp add: publish_request_def Publish_def Get_def Let_def once_def)
  then show ?thesis by (rule that) (simp_all add: pl')
qed

lemma publish_once_known:
  assumes "once w b req" and "keyed_log_of (b_topics b) (pr_Topic req) (pr_Key req) = Some pl"
    and "hp_topics (tm_partitioner (b_topics b)) (pr_Topic req) = Some cnt"
    and "seq_known b req = Some cached" and "publish_request lib w b req = (b', Inr res)"
  shows "res = cached \<and> b_topics b' = set_partition (b_topics b) (pr_Topic req) (hashPartition (pr_Key req) cnt) pl"
proof -
  obtain tp where tp: "map_of (tm_topics (b_topics b)) (pr_Topic req) = Some tp"
    "Topic_PartitionLog tp (hashPartition (pr_Key req) cnt) = Inr pl"
    using assms(2,3) by (auto simp: keyed_log_of_iff)
  have a: "Assign (tm_partitioner (b_topics b)) (pr_Topic req) (pr_Key req) =
      (tm_partitioner (b_topics b), Inr (hashPartition (pr_Key req) cnt))"
    using assms(1,3) by (simp add: Assign_def once_def)
  have k: "publish_exactly_once lib (w_clock w) (w_disk w) (w_cancelled w) (b_producers b) pl msg (hashPartition (pr_Key req) cnt)
      (pr_SeqNum req) [] = (b_producers b, pl, Inr cached)" for msg
    using exactly_once_repeat [of "b_producers b" "[]" "pr_SeqNum req" cached] assms(1,4) by (simp add: once_def seq_known_def)
  show ?thesis
    using assms(1,5) tp a k modes_distinct
    by (auto simp: publish_request_def Publish_def Get_def Let_def once_def split: sum.splits)
qed

lemma keyed_split:
  assumes "handlePublish lib w b conn (Some req) = (b', Published res)" and "pr_Key req \<noteq> []" and "w_wal w = WalOk"
    and "keyed_log_of (b_topics b) (pr_Topic req) (pr_Key req) = Some pl"
    and "req' = req\<lparr>pr_TargetOffset := Some (PartitionLog_NextOffset pl)\<rparr>"
    and "wal_inv (b_msgWAL b) ds" and "fits_entry (Marshal_PublishRequest req')" and "int (length ds) + 1 < 2 ^ 63"
  obtains wl b2 where "publish_request lib w (b\<lparr>b_msgWAL := wl\<rparr>) req' = (b2, Inr res)" "b_topics b' = b_topics b2"
    "b_producers b' = b_producers b2" "wal_inv (b_msgWAL b') (ds @ [Marshal_PublishRequest req'])"
proof -
  obtain cnt where cnt: "hp_topics (tm_partitioner (b_topics b)) (pr_Topic req) = Some cnt"
    using assms(4) by (auto simp: keyed_log_of_iff)
  note a = assign_part_keyed [OF assms(2) cnt]
  have cap: "capture_target (b_topics b) (hashPartition (pr_Key req) cnt) req = req'"
    using capture_keyed [OF assms(4) cnt] assms(5) by simp
  obtain wl i b2 where h: "WAL_Append WalOk (b_msgWAL b) (Marshal_PublishRequest req') = (wl, Inr i)"
    "publish_request lib w (b\<lparr>b_topics := b_topics b, b_msgWAL := wl\<rparr>) req' = (b2, Inr res)"
    "b_topics b' = b_topics b2" "b_producers b' = b_producers b2" "b_msgWAL b' = wl"
    by (rule handlePublish_split [OF assms(1) a assms(3), unfolded cap])
  have "wal_inv wl (ds @ [Marshal_PublishRequest req'])" using append_inv [OF assms(6-8)] h(1) by auto
  then show ?thesis using that [of wl b2] h by simp
qed

lemma once_cong [simp]:
  "once w (b\<lparr>b_msgWAL := wl\<rparr>) req = once w b req" "once w b (req\<lparr>pr_TargetOffset := x\<rparr>) = once w b req"
  "request_message lib w m (req\<lparr>pr_TargetOffset := x\<rparr>) msg = request_message lib w m req msg"
  "seq_known (b\<lparr>b_msgWAL := wl\<rparr>) req = seq_known b req" "seq_known b (req\<lparr>pr_TargetOffset := x\<rparr>) = seq_known b req"
  by (simp_all add: once_def request_message_def seq_known_def)

text \<open>C29. Exactly-once does not survive a restart: a client publishes a sequence number, and again because it missed
  the answer. The broker answers both with the same result and stores the message once. But both are in the message
  log, the second with a target offset nothing was written to, and the restarted producer has forgotten
  the number: the replay stores the message a second time.\<close>

theorem exactly_once_restart_duplicates:
  assumes "wal_inv (b_msgWAL b) []" and "keyed_log_of (b_topics b) (pr_Topic req) (pr_Key req) = Some pl" and "pl_holds pl es"
    and "once w1 b req" and "once w2 b req" and "w_wal w1 = WalOk" and "w_wal w2 = WalOk" and "seq_known b req = None"
    and "LookupOffset (p_dedup (b_producers b)) (p_ProducerID (b_producers b)) (pr_SeqNum req) = None"
    and "request_message lib w1 (b_topics b) req msg" and "pl_fits lib (w_clock w1 0) pl msg" and "off = PartitionLog_NextOffset pl"
    and "\<forall>t \<in> {off, off + 1}. wf_PublishRequest (req\<lparr>pr_TargetOffset := Some t\<rparr>) \<and>
      fits_entry (Marshal_PublishRequest (req\<lparr>pr_TargetOffset := Some t\<rparr>))"
    and "handlePublish lib w1 b conn (Some req) = (b1, Published res1)"
    and "handlePublish lib w2 b1 conn (Some req) = (b2, Published res2)"
    and "b_topics r = b_topics b2" and "b_producers r = NewProducer uuid 3 delay"
    and "b_walEntries r = snd (WAL_Open (w_file (b_msgWAL b2)))" and "\<forall>i. w_disk (ws 1) i = NoFault"
    and "request_message lib (ws 1) (b_topics r) req msg'" and "keyed_log_of (b_topics r) (pr_Topic req) (pr_Key req) = Some q"
    and "pl_fits lib (w_clock (ws 1) 0) q msg'"
  shows "res2 = res1 \<and> pl_holds q (es @ [(w_clock w1 0, off, msg\<lparr>m_Offset := off\<rparr>)]) \<and>
    (\<exists>pl'. keyed_log_of (b_topics (replayMessageWAL lib ws r)) (pr_Topic req) (pr_Key req) = Some pl' \<and>
       pl_holds pl' (es @ [(w_clock w1 0, off, msg\<lparr>m_Offset := off\<rparr>),
         (w_clock (ws 1) 0, off + 1, msg'\<lparr>m_Offset := off + 1\<rparr>)]))"
proof -
  let ?T = "pr_Topic req" and ?K = "pr_Key req" and ?e = "(w_clock w1 0, off, msg\<lparr>m_Offset := off\<rparr>) :: entry"
  let ?r1 = "req\<lparr>pr_TargetOffset := Some off\<rparr>" and ?r2 = "req\<lparr>pr_TargetOffset := Some (off + 1)\<rparr>"
  have key: "?K \<noteq> []" using assms(4) by (simp add: once_def)
  obtain cnt where cnt: "hp_topics (tm_partitioner (b_topics b)) ?T = Some cnt" using assms(2) by (auto simp: keyed_log_of_iff)
  let ?part = "hashPartition ?K cnt"
  obtain wl c1 where h1: "publish_request lib w1 (b\<lparr>b_msgWAL := wl\<rparr>) ?r1 = (c1, Inr res1)" "b_topics b1 = b_topics c1"
    "b_producers b1 = b_producers c1" "wal_inv (b_msgWAL b1) [Marshal_PublishRequest ?r1]"
    by (rule keyed_split [OF assms(14) key assms(6,2) _ assms(1), of ?r1]) (use assms(12,13) in auto)
  obtain pl1 where p1: "b_topics c1 = set_partition (b_topics b) ?T ?part pl1" "p_maxRetries (b_producers c1) = p_maxRetries (b_producers b)"
    "seq_known b1 req = Some res1" "PartitionLog_NextOffset pl1 = off + 1" "pl_holds pl1 (es @ [?e])"
    by (rule publish_once_new [of w1 "b\<lparr>b_msgWAL := wl\<rparr>" ?r1 pl es cnt lib msg off])
      (use assms(2-4,8-12) cnt h1 in \<open>auto simp: seq_known_def\<close>)
  have log1: "keyed_log_of (b_topics b1) ?T ?K = Some pl1" "hp_topics (tm_partitioner (b_topics b1)) ?T = Some cnt"
    using keyed_log_replaced [OF assms(2) cnt, of pl1] cnt h1(2) p1(1) by simp_all
  have o2: "once w2 b1 req" using assms(5) p1(2) h1(3) by (simp add: once_def)
  obtain wl2 c2 where h2: "publish_request lib w2 (b1\<lparr>b_msgWAL := wl2\<rparr>) ?r2 = (c2, Inr res2)" "b_topics b2 = b_topics c2"
    "wal_inv (b_msgWAL b2) ([Marshal_PublishRequest ?r1] @ [Marshal_PublishRequest ?r2])"
    by (rule keyed_split [OF assms(15) key assms(7) log1(1) _ h1(4), of ?r2]) (use assms(13) p1(4) in auto)
  have p2: "res2 = res1" "b_topics b2 = set_partition (b_topics b1) ?T ?part pl1"
    using publish_once_known [of w2 "b1\<lparr>b_msgWAL := wl2\<rparr>" ?r2 pl1 cnt res1 lib c2 res2] o2 log1 p1(3) h2(1,2) by simp_all
  have logr: "q = pl1" "hp_topics (tm_partitioner (b_topics r)) ?T = Some cnt"
    using keyed_log_replaced [OF log1, of pl1] log1(2) assms(16,21) p2(2) by simp_all
  have skip: "replay_written (b_topics r) ?r1 = (b_topics r, True)"
    using assms(21) logr(1) p1(4) key by (intro replay_written_skips) (simp add: already_written_def)
  have again: "replay_written (b_topics r) ?r2 = (b_topics r, False)"
    using assms(21) logr p1(4) key by (auto simp: replay_written_def keyed_log_of_iff Get_def assign_part_keyed)
  have fresh: "once (ws 1) r ?r2" "seq_known r ?r2 = None"
    "LookupOffset (p_dedup (b_producers r)) (p_ProducerID (b_producers r)) (pr_SeqNum ?r2) = None"
    using assms(4,17,19) by (simp_all add: once_def seq_known_def NewProducer_def LookupOffset_def NewDedupWindow_def)
  obtain pl' where p3: "b_topics (fst (publish_request lib (ws 1) r ?r2)) = set_partition (b_topics r) ?T ?part pl'"
    "pl_holds pl' ((es @ [?e]) @ [(w_clock (ws 1) 0, off + 1, msg'\<lparr>m_Offset := off + 1\<rparr>)])"
    by (rule publish_once_new [of "ws 1" r ?r2 q "es @ [?e]" cnt lib msg' "off + 1"])
      (use assms(20-22) fresh logr p1(4,5) in auto)
  have "b_walEntries r = [\<lparr>en_Offset = 0, en_Data = Marshal_PublishRequest ?r1\<rparr>, \<lparr>en_Offset = 1, en_Data = Marshal_PublishRequest ?r2\<rparr>]"
    using open_inv [OF h2(3)] assms(18) by simp
  then have "b_topics (replayMessageWAL lib ws r) = set_partition (b_topics r) ?T ?part pl'"
    using assms(13) skip again p3(1) by (simp add: replayMessageWAL_def request_codec.dec_enc replay_request_def)
  then show ?thesis using keyed_log_replaced [OF assms(21) logr(2), of pl'] p2(1) logr(1) p1(5) p3(2) by simp
qed

section \<open>Witnesses\<close>

lemma append_pl0:
  assumes "wf_Message msg" and "m_Codec msg = 0" and "length (m_Key msg) < 100"
    and "length (Marshal_Message (msg\<lparr>m_Offset := 0\<rparr>)) < 900"
    and "PartitionLog_Append sample_lib now NoFault sample_pl0 msg = (pl, r)"
  obtains s where "roll sample_lib pl = pl\<lparr>pl_segments := [s, sample_seg 1]\<rparr>"
proof -
  have f: "fits now (sample_seg 0) msg" by (rule fits_of_length) (use assms(1-4) in \<open>simp_all add: int64_range_def\<close>)
  obtain s x where w: "Segment_Write now NoFault (sample_seg 0) msg = (s, x)" by (cases "Segment_Write now NoFault (sample_seg 0) msg")
  note s = Segment_Write_refines [OF sample_seg_inv f w]
  have sz: "s_logSize s = 5 + int (length (encodeRecord now 0 (msg\<lparr>m_Offset := 0\<rparr>) RecordVersion))"
    using w by (auto simp: Segment_Write_def Segment_index_def Let_def split: if_splits)
  have full: "Segment_IsFull s" using s sz by (simp add: Segment_IsFull_def length_encodeRecord recHeaderSize_def record_consts)
  have r0: "roll sample_lib sample_pl0 = sample_pl0" by (simp add: roll_def sample_pl0_segments Segment_IsFull_def)
  have pl: "pl_segments pl = [s]" "pl_segMaxBytes pl = 10" "pl_indexEvery pl = 4096" "pl_syncPolicy pl = ''always''"
    using assms(5) w by (auto simp: PartitionLog_Append_def r0 sample_pl0_segments Let_def split: sum.splits)
  have "segment_files [s] 1 = ([], [])" using s by (simp add: segment_files_def)
  then have "roll sample_lib pl = pl\<lparr>pl_segments := [s, sample_seg 1]\<rparr>"
    using full s pl by (simp add: roll_def sample_seg_def)
  then show ?thesis by (rule that)
qed

lemma fits_after_pl0:
  assumes "wf_Message msg" and "m_Codec msg = 0" and "length (m_Key msg) < 100"
    and "\<forall>k \<in> {0, 1}. length (Marshal_Message (msg\<lparr>m_Offset := k\<rparr>)) < 900"
    and "PartitionLog_Append sample_lib now NoFault sample_pl0 msg = (pl, r)"
  shows "pl_fits sample_lib now' pl msg"
proof -
  obtain s where "roll sample_lib pl = pl\<lparr>pl_segments := [s, sample_seg 1]\<rparr>"
    by (rule append_pl0 [OF assms(1-3) _ assms(5)]) (use assms(4) in auto)
  then show ?thesis
    using assms by (simp add: pl_fits_def active_after_roll_def) (rule fits_of_length; simp add: int64_range_def)
qed

lemma handlePublish_forward:
  assumes "assign_part (b_topics b) (pr_Topic req) (pr_Key req) = (m, part)" and "Can conn PermPublish (pr_Topic req)"
    and "pr_Topic req \<noteq> []" and "w_allow w" and "b_walThreshold b = 0" and "w_wal w = WalOk" and "gm_groups (b_consumers b) = []"
    and "wal_inv (b_msgWAL b) ds" and "fits_entry (Marshal_PublishRequest (capture_target m part req))" and "int (length ds) + 1 < 2 ^ 63"
    and "\<And>wl. \<exists>b2 res. publish_request lib w (b\<lparr>b_topics := m, b_msgWAL := wl\<rparr>) (capture_target m part req) = (b2, Inr res)"
  obtains b' res where "handlePublish lib w b conn (Some req) = (b', Published res)" "gm_groups (b_consumers b') = []"
    "b_walThreshold b' = 0"
proof -
  obtain wl i where wl: "WAL_Append WalOk (b_msgWAL b) (Marshal_PublishRequest (capture_target m part req)) = (wl, Inr i)"
    using append_inv [OF assms(8-10)] by auto
  obtain b2 res where b2: "publish_request lib w (b\<lparr>b_topics := m, b_msgWAL := wl\<rparr>) (capture_target m part req) = (b2, Inr res)"
    using assms(11) by blast
  have "gm_groups (b_consumers b2) = []"
    using consumers_publish_request [of lib w "b\<lparr>b_topics := m, b_msgWAL := wl\<rparr>" "capture_target m part req"] b2 assms(7) by simp
  moreover have "b_walThreshold b2 = 0" using b2 assms(5) by (auto simp: publish_request_def split: prod.splits)
  ultimately show ?thesis
    using that assms(1-6) wl b2
    by (simp add: handlePublish_def publish_logged_def dispatch_published_def Manager_Dispatch_def Let_def)
qed

definition keyless_request :: PublishRequest where
  "keyless_request = zero_PublishRequest\<lparr>pr_Topic := ''t'', pr_Payload := Some [104, 105]\<rparr>"

definition keyless_message :: Message where
  "keyless_message = sample_Message\<lparr>m_Partition := 1\<rparr>"

lemma keyless_message_ok: "wf_Message keyless_message" "m_Codec keyless_message = 0" "length (m_Key keyless_message) < 100"
  "\<forall>k \<in> {0, 1}. length (Marshal_Message (keyless_message\<lparr>m_Offset := k\<rparr>)) < 900"
proof -
  show "wf_Message keyless_message" using wf_Message_sample by (simp add: keyless_message_def wf_Message_def int32_range_def)
  show "\<forall>k \<in> {0, 1}. length (Marshal_Message (keyless_message\<lparr>m_Offset := k\<rparr>)) < 900"
    by (simp add: keyless_message_def sample_Message_def marshal_eval show_nat.simps digit_def)
qed (simp_all add: keyless_message_def sample_Message_def zero_Message_def)

lemma keyless_request_fields:
  "pr_Topic keyless_request = ''t''" "pr_Key keyless_request = []" "pr_Payload keyless_request = Some [104, 105]"
  "pr_Headers keyless_request = []" "pr_Codec keyless_request = 0" "pr_DeliveryMode keyless_request = AtMostOnce"
  by (simp_all add: keyless_request_def zero_PublishRequest_def AtMostOnce_def)

definition keyless_logged :: PublishRequest where
  "keyless_logged = keyless_request\<lparr>pr_TargetOffset := Some 0\<rparr>"

lemma keyless_logged_ok: "wf_PublishRequest keyless_logged" "fits_entry (Marshal_PublishRequest keyless_logged)"
  by (simp_all add: keyless_logged_def keyless_request_def zero_PublishRequest_def wf_PublishRequest_def ascii_valid_utf8
      wf_headers_def map_sorted_def int64_range_def fits_entry_def Marshal_PublishRequest_def PublishRequest_json_def
      marshal_eval)

definition two_topic :: Topic where
  "two_topic = \<lparr>t_cfg = zero_TopicConfig\<lparr>tc_Name := ''t'', tc_Partitions := 2\<rparr>, t_createdAt = 0,
     t_partitions = [sample_pl0, sample_pl0], t_closed = False\<rparr>"

lemma two_topic_facts:
  "map_of (tm_topics (one_topic [sample_pl0, sample_pl0])) ''t'' = Some two_topic"
  "Topic_PartitionLog two_topic 0 = Inr sample_pl0" "Topic_PartitionLog two_topic 1 = Inr sample_pl0"
  "tc_CompressionCodec (t_cfg two_topic) = 0"
  by (simp_all add: one_topic_def two_topic_def PartitionLog_at zero_TopicConfig_def)

lemma keyless_compressed:
  "compress_message sample_lib (tc_CompressionCodec (t_cfg two_topic)) (pr_Codec keyless_request) (pr_Payload keyless_request)
     ((NewMessage (w_uuid quiet_world) (w_clock quiet_world 0) (pr_Topic keyless_request) (pr_Payload keyless_request) []
       (pr_Headers keyless_request))\<lparr>m_Partition := 1\<rparr>) = Inr keyless_message"
  by (simp add: two_topic_facts keyless_request_fields compress_message_def CodecNone_def NewMessage_def keyless_message_def
      sample_Message_def zero_Message_def)

lemma keyless_fits: "pl_fits sample_lib now sample_pl0 keyless_message"
  by (rule fits_pl0) (use keyless_message_ok in simp_all)

abbreviation two_broker :: Broker where
  "two_broker \<equiv> broker_with [sample_pl0, sample_pl0]"

lemma two_broker_router:
  "hp_topics (tm_partitioner (b_topics two_broker)) ''t'' = Some 2" "hp_rrCur (tm_partitioner (b_topics two_broker)) ''t'' = Some 0"
  using one_topic_router [of "[sample_pl0, sample_pl0]"] by (simp_all add: broker_with_fields)

lemma keyless_plain: "plain quiet_world two_broker keyless_request"
  by (simp add: plain_def keyless_request_fields broker_with_fields)

text \<open>The keyless publish goes through and leaves the log of partition 1 with room for another.\<close>

lemma keyless_published:
  obtains b res pl where "handlePublish sample_lib quiet_world two_broker admin_conn (Some keyless_request) = (b, Published res)"
    "map_of (tm_topics (b_topics b)) ''t'' = Some (two_topic\<lparr>t_partitions := [sample_pl0, pl]\<rparr>)"
    "pl_fits sample_lib 0 pl keyless_message" "p_maxRetries (b_producers b) = 3"
proof -
  obtain m where m: "assign_part (b_topics two_broker) ''t'' [] = (m, 0)" "tm_topics m = tm_topics (b_topics two_broker)"
    "hp_topics (tm_partitioner m) ''t'' = Some 2" "hp_rrCur (tm_partitioner m) ''t'' = Some 1"
    by (rule first_ticket [OF two_broker_router(1) _ two_broker_router(2)]) simp
  have tp: "map_of (tm_topics m) ''t'' = Some two_topic" using m(2) two_topic_facts(1) by (simp add: broker_with_fields)
  have cap: "capture_target m 0 keyless_request = keyless_logged"
    using tp two_topic_facts(2) by (simp add: capture_target_def Get_def keyless_request_fields keyless_logged_def sample_pl0_next)
  have pub: "\<exists>m' res pl. publish_request sample_lib quiet_world (two_broker\<lparr>b_topics := m, b_msgWAL := wl\<rparr>) keyless_logged =
      ((two_broker\<lparr>b_topics := m, b_msgWAL := wl\<rparr>)\<lparr>b_topics := m'\<rparr>, Inr res) \<and>
      map_of (tm_topics m') ''t'' = Some (two_topic\<lparr>t_partitions := [sample_pl0, pl]\<rparr>) \<and>
      pl_fits sample_lib 0 pl keyless_message" for wl
    by (rule second_ticket [of quiet_world "two_broker\<lparr>b_topics := m, b_msgWAL := wl\<rparr>" keyless_logged two_topic 2 sample_pl0
          sample_lib keyless_message "[]" 0])
      (use keyless_plain keyless_compressed keyless_fits tp m(3,4) two_topic_facts(3) sample_pl0_holds sample_pl0_next
          fits_after_pl0 [OF keyless_message_ok]
        in \<open>auto simp: keyless_logged_def keyless_request_fields plain_def two_topic_def\<close>)
  have part: "assign_part (b_topics two_broker) (pr_Topic keyless_request) (pr_Key keyless_request) = (m, 0)"
    using m(1) by (simp add: keyless_request_fields)
  have wal: "wal_inv (b_msgWAL two_broker) []" by (simp add: broker_with_fields empty_wal_inv)
  obtain b res where b: "handlePublish sample_lib quiet_world two_broker admin_conn (Some keyless_request) = (b, Published res)"
    by (rule handlePublish_forward [OF part _ _ _ _ _ _ wal, of admin_conn quiet_world sample_lib])
      (use pub in \<open>simp_all add: cap keyless_logged_ok keyless_request_fields admin_can broker_with_fields, blast\<close>)
  obtain wl b2 where "publish_request sample_lib quiet_world (two_broker\<lparr>b_topics := m, b_msgWAL := wl\<rparr>) keyless_logged = (b2, Inr res)"
    "b_topics b = b_topics b2" "b_producers b = b_producers b2"
    by (rule handlePublish_split [OF b part, unfolded cap]) simp
  then show ?thesis using that [OF b] pub [of wl] broker_with_fields(3) by auto
qed

theorem keyless_only_odd_partitions_witness:
  "\<exists>b res. handlePublish sample_lib quiet_world two_broker admin_conn (Some keyless_request) = (b, Published res) \<and>
     odd (res_Partition res)"
proof -
  obtain b res where b: "handlePublish sample_lib quiet_world two_broker admin_conn (Some keyless_request) = (b, Published res)"
    by (rule keyless_published)
  show ?thesis
    using keyless_only_odd_partitions [of two_broker keyless_request 2 0 sample_lib quiet_world admin_conn b res] b
      two_broker_router by (auto simp: keyless_request_fields)
qed

theorem keyless_restart_duplicates_witness:
  "\<exists>b res r tp pl. handlePublish sample_lib quiet_world two_broker admin_conn (Some keyless_request) = (b, Published res) \<and>
     b_walEntries r = snd (WAL_Open (w_file (b_msgWAL b))) \<and> tm_topics (b_topics r) = tm_topics (b_topics b) \<and>
     map_of (tm_topics (b_topics (replayMessageWAL sample_lib (\<lambda>_. quiet_world) r))) ''t'' = Some tp \<and>
     Topic_PartitionLog tp 1 = Inr pl \<and>
     pl_holds pl [(0, 0, keyless_message\<lparr>m_Offset := 0\<rparr>), (0, 1, keyless_message\<lparr>m_Offset := 1\<rparr>)]"
proof -
  let ?t = "pr_Topic keyless_request"
  obtain b res q where b: "handlePublish sample_lib quiet_world two_broker admin_conn (Some keyless_request) = (b, Published res)"
    "map_of (tm_topics (b_topics b)) ''t'' = Some (two_topic\<lparr>t_partitions := [sample_pl0, q]\<rparr>)"
    "pl_fits sample_lib 0 q keyless_message" "p_maxRetries (b_producers b) = 3"
    by (rule keyless_published)
  define r where "r = b\<lparr>b_topics := (b_topics b)\<lparr>tm_partitioner := (tm_partitioner (b_topics b))
      \<lparr>hp_rrCur := (hp_rrCur (tm_partitioner (b_topics b)))(?t \<mapsto> 0)\<rparr>\<rparr>,
      b_walEntries := snd (WAL_Open (w_file (b_msgWAL b)))\<rparr>"
  have r: "b_topics r = (b_topics b)\<lparr>tm_partitioner := (tm_partitioner (b_topics b))
      \<lparr>hp_rrCur := (hp_rrCur (tm_partitioner (b_topics b)))(?t \<mapsto> 0)\<rparr>\<rparr>"
    "b_walEntries r = snd (WAL_Open (w_file (b_msgWAL b)))" "b_producers r = b_producers b"
    by (simp_all add: r_def)
  have tp: "map_of (tm_topics (b_topics two_broker)) ?t = Some two_topic"
    "hp_topics (tm_partitioner (b_topics two_broker)) ?t = Some 2" "hp_rrCur (tm_partitioner (b_topics two_broker)) ?t = Some 0"
    using two_topic_facts(1) two_broker_router by (simp_all add: keyless_request_fields broker_with_fields(1))
  have wal: "wal_inv (b_msgWAL two_broker) []" by (simp add: broker_with_fields empty_wal_inv)
  have lg: "keyless_logged = keyless_request\<lparr>pr_TargetOffset := Some (PartitionLog_NextOffset sample_pl0)\<rparr>"
    by (simp add: keyless_logged_def sample_pl0_next)
  have rr: "plain ((\<lambda>_. quiet_world) (0 :: int)) r keyless_request"
    "map_of (tm_topics (b_topics r)) ?t = Some (two_topic\<lparr>t_partitions := [sample_pl0, q]\<rparr>)"
    "Topic_PartitionLog (two_topic\<lparr>t_partitions := [sample_pl0, q]\<rparr>) 1 = Inr q"
    "pl_fits sample_lib (w_clock ((\<lambda>_. quiet_world) (0 :: int)) 0) q keyless_message"
    using b(2-4) r by (simp_all add: plain_def keyless_request_fields PartitionLog_at)
  have "(2 :: int) \<le> 2" by simp
  note d = keyless_restart_duplicates [OF tp(1,2) this tp(3) two_topic_facts(2,3) sample_pl0_holds keyless_request_fields(2)
      keyless_plain quiet_fields(4) wal keyless_compressed keyless_fits refl lg keyless_logged_ok b(1) r(1,2) rr(1)
      keyless_compressed rr(2-4)]
  then show ?thesis
    using b(1) r by (auto simp: keyless_request_fields sample_pl0_next intro!: exI [of _ b] exI [of _ r])
qed

definition once_request :: PublishRequest where
  "once_request = keyed_request\<lparr>pr_DeliveryMode := ExactlyOnce, pr_SeqNum := 1\<rparr>"

lemma once_request_fields:
  "pr_Topic once_request = ''t''" "pr_Key once_request = ''k''" "pr_SeqNum once_request = 1" "pr_DeliveryMode once_request = ExactlyOnce"
  by (simp_all add: once_request_def keyed_request_def)

lemma once_logged_ok:
  "\<forall>t \<in> {0, 1}. wf_PublishRequest (once_request\<lparr>pr_TargetOffset := Some t\<rparr>) \<and>
     fits_entry (Marshal_PublishRequest (once_request\<lparr>pr_TargetOffset := Some t\<rparr>))"
  by (simp add: once_request_def keyed_request_def zero_PublishRequest_def wf_PublishRequest_def ascii_valid_utf8
      wf_headers_def map_sorted_def int64_range_def fits_entry_def Marshal_PublishRequest_def PublishRequest_json_def
      ExactlyOnce_def marshal_eval show_nat.simps digit_def)

lemma once_sample:
  "once quiet_world b once_request \<longleftrightarrow> 0 \<le> p_maxRetries (b_producers b)"
  by (simp add: once_def once_request_fields)

lemma once_message:
  assumes "map_of (tm_topics m) ''t'' = Some tp" and "tc_CompressionCodec (t_cfg tp) = 0"
    and "hp_topics (tm_partitioner m) ''t'' = Some 1"
  shows "request_message sample_lib quiet_world m once_request keyed_message"
  using assms
  by (simp add: request_message_def once_request_def keyed_request_def zero_PublishRequest_def hash_one compress_message_def
      CodecNone_def NewMessage_def keyed_message_def sample_Message_def zero_Message_def)

lemma keyed_message_twice: "\<forall>k \<in> {0, 1}. length (Marshal_Message (keyed_message\<lparr>m_Offset := k\<rparr>)) < 900"
  by (simp add: keyed_message_def sample_Message_def marshal_eval show_nat.simps digit_def)

lemma publish_once_again:
  assumes "once w b req" and "keyed_log_of (b_topics b) (pr_Topic req) (pr_Key req) = Some pl"
    and "hp_topics (tm_partitioner (b_topics b)) (pr_Topic req) = Some cnt"
    and "seq_known b req = Some cached" and "request_message lib w (b_topics b) req msg"
  shows "\<exists>b'. publish_request lib w b req = (b', Inr cached)"
proof -
  obtain tp where tp: "map_of (tm_topics (b_topics b)) (pr_Topic req) = Some tp"
    "Topic_PartitionLog tp (hashPartition (pr_Key req) cnt) = Inr pl"
    using assms(2,3) by (auto simp: keyed_log_of_iff)
  have msg: "compress_message lib (tc_CompressionCodec (t_cfg tp)) (pr_Codec req) (pr_Payload req)
      ((NewMessage (w_uuid w) (w_clock w 0) (pr_Topic req) (pr_Payload req) (pr_Key req) (pr_Headers req))
         \<lparr>m_Partition := hashPartition (pr_Key req) cnt\<rparr>) = Inr msg"
    using assms(3,5) tp(1) by (auto simp: request_message_def)
  have a: "Assign (tm_partitioner (b_topics b)) (pr_Topic req) (pr_Key req) =
      (tm_partitioner (b_topics b), Inr (hashPartition (pr_Key req) cnt))"
    using assms(1,3) by (simp add: Assign_def once_def)
  have k: "publish_exactly_once lib (w_clock w) (w_disk w) (w_cancelled w) (b_producers b) pl msg (hashPartition (pr_Key req) cnt)
      (pr_SeqNum req) [] = (b_producers b, pl, Inr cached)"
    using exactly_once_repeat [of "b_producers b" "[]" "pr_SeqNum req" cached] assms(1,4) by (simp add: once_def seq_known_def)
  show ?thesis
    using assms(1) tp a k msg modes_distinct by (simp add: publish_request_def Publish_def Get_def Let_def once_def)
qed

abbreviation one_broker :: Broker where
  "one_broker \<equiv> broker_with [sample_pl0]"

lemma one_topic_at:
  "map_of (tm_topics (b_topics one_broker)) ''t'' =
     Some \<lparr>t_cfg = zero_TopicConfig\<lparr>tc_Name := ''t'', tc_Partitions := 1\<rparr>, t_createdAt = 0, t_partitions = [sample_pl0],
       t_closed = False\<rparr>"
  by (simp add: broker_with_fields one_topic_def)

lemma one_broker_facts:
  "hp_topics (tm_partitioner (b_topics one_broker)) ''t'' = Some 1"
  "keyed_log_of (b_topics one_broker) ''t'' ''k'' = Some sample_pl0" "wal_inv (b_msgWAL one_broker) []"
  "request_message sample_lib quiet_world (b_topics one_broker) once_request keyed_message"
  "p_idempotencyStore (b_producers one_broker) x = None" "LookupOffset (p_dedup (b_producers one_broker)) pid q = None"
proof -
  show r: "hp_topics (tm_partitioner (b_topics one_broker)) ''t'' = Some 1"
    using one_topic_router(1) [of "[sample_pl0]"] by (simp add: broker_with_fields)
  show "keyed_log_of (b_topics one_broker) ''t'' ''k'' = Some sample_pl0" by (simp add: broker_with_fields one_topic_keyed)
  show "wal_inv (b_msgWAL one_broker) []" by (simp add: broker_with_fields empty_wal_inv)
  show "request_message sample_lib quiet_world (b_topics one_broker) once_request keyed_message"
    by (rule once_message [OF one_topic_at _ r]) (simp add: zero_TopicConfig_def)
qed (simp_all add: broker_with_def New_def case_prod_beta NewProducer_def LookupOffset_def NewDedupWindow_def)

text \<open>The first exactly-once publish, and what it leaves behind.\<close>

lemma once_published:
  obtains b res pl where "handlePublish sample_lib quiet_world one_broker admin_conn (Some once_request) = (b, Published res)"
    "gm_groups (b_consumers b) = []" "b_walThreshold b = 0" "b_topics b = set_partition (b_topics one_broker) ''t'' 0 pl"
    "p_maxRetries (b_producers b) = 3" "seq_known b once_request = Some res" "PartitionLog_NextOffset pl = 1"
    "pl_fits sample_lib 0 pl keyed_message" "wal_inv (b_msgWAL b) [Marshal_PublishRequest (once_request\<lparr>pr_TargetOffset := Some 0\<rparr>)]"
proof -
  let ?r = "once_request\<lparr>pr_TargetOffset := Some 0\<rparr>"
  have log: "keyed_log_of (b_topics one_broker) (pr_Topic once_request) (pr_Key once_request) = Some sample_pl0"
    "hp_topics (tm_partitioner (b_topics one_broker)) (pr_Topic once_request) = Some 1"
    using one_broker_facts(1,2) by (simp_all add: once_request_fields)
  have part: "assign_part (b_topics one_broker) (pr_Topic once_request) (pr_Key once_request) = (b_topics one_broker, 0)"
    using assign_part_keyed [OF _ log(2)] by (simp add: hash_one once_request_fields)
  have cap: "capture_target (b_topics one_broker) 0 once_request = ?r"
    using capture_keyed [OF log] by (simp add: hash_one sample_pl0_next)
  have new: "\<exists>p' pl' res. publish_request sample_lib quiet_world (one_broker\<lparr>b_msgWAL := wl\<rparr>) ?r =
      (one_broker\<lparr>b_msgWAL := wl, b_producers := p', b_topics := set_partition (b_topics one_broker) ''t'' 0 pl'\<rparr>, Inr res) \<and>
      p_maxRetries p' = 3 \<and> p_idempotencyStore p' (p_ProducerID p', 1) = Some res \<and> PartitionLog_NextOffset pl' = 1 \<and>
      pl_fits sample_lib 0 pl' keyed_message" for wl
  proof -
    obtain p' pl' res where "publish_request sample_lib quiet_world (one_broker\<lparr>b_msgWAL := wl\<rparr>) ?r =
        ((one_broker\<lparr>b_msgWAL := wl\<rparr>)\<lparr>b_producers := p', b_topics := set_partition (b_topics one_broker) ''t'' 0 pl'\<rparr>, Inr res)"
      "p_maxRetries p' = 3" "p_idempotencyStore p' (p_ProducerID p', 1) = Some res" "PartitionLog_NextOffset pl' = 1"
      "PartitionLog_Append sample_lib 0 NoFault sample_pl0 keyed_message = (pl', Inr 0)"
      by (rule publish_once_new [of quiet_world "one_broker\<lparr>b_msgWAL := wl\<rparr>" ?r sample_pl0 "[]" 1 sample_lib keyed_message 0])
        (use one_broker_facts log sample_pl0_holds fits_pl0 [OF keyed_message_ok]
          in \<open>simp_all add: once_sample broker_with_fields(3) seq_known_def once_request_fields hash_one sample_pl0_next\<close>)
    then show ?thesis
      using fits_after_pl0 [OF keyed_message_ok(1-3) keyed_message_twice]
      by (intro exI [of _ p'] exI [of _ pl'] exI [of _ res]) simp
  qed
  have ok: "\<exists>b2 res. publish_request sample_lib quiet_world (one_broker\<lparr>b_topics := b_topics one_broker, b_msgWAL := wl\<rparr>)
      (capture_target (b_topics one_broker) 0 once_request) = (b2, Inr res)" for wl
    using new [of wl] unfolding cap by auto
  have fits: "fits_entry (Marshal_PublishRequest (capture_target (b_topics one_broker) 0 once_request))"
    using once_logged_ok unfolding cap by simp
  obtain b res where b: "handlePublish sample_lib quiet_world one_broker admin_conn (Some once_request) = (b, Published res)"
    "gm_groups (b_consumers b) = []" "b_walThreshold b = 0"
    by (rule handlePublish_forward [OF part _ _ _ _ _ _ one_broker_facts(3) fits _ ok, of admin_conn])
      (simp_all add: once_request_fields admin_can broker_with_fields)
  obtain wl c where c: "publish_request sample_lib quiet_world (one_broker\<lparr>b_msgWAL := wl\<rparr>) ?r = (c, Inr res)"
    "b_topics b = b_topics c" "b_producers b = b_producers c" "wal_inv (b_msgWAL b) [Marshal_PublishRequest ?r]"
    by (rule keyed_split [OF b(1) _ _ log(1) _ one_broker_facts(3), of ?r])
      (use once_logged_ok in \<open>auto simp: once_request_fields sample_pl0_next\<close>)
  obtain p' pl where "c = one_broker\<lparr>b_msgWAL := wl, b_producers := p', b_topics := set_partition (b_topics one_broker) ''t'' 0 pl\<rparr>"
    "p_maxRetries p' = 3" "p_idempotencyStore p' (p_ProducerID p', 1) = Some res" "PartitionLog_NextOffset pl = 1"
    "pl_fits sample_lib 0 pl keyed_message"
    using new [of wl] c(1) by auto
  then show ?thesis using that [OF b] c by (simp add: seq_known_def once_request_fields)
qed

theorem exactly_once_restart_duplicates_witness:
  "\<exists>b1 b2 res r pl. handlePublish sample_lib quiet_world one_broker admin_conn (Some once_request) = (b1, Published res) \<and>
     handlePublish sample_lib quiet_world b1 admin_conn (Some once_request) = (b2, Published res) \<and>
     b_walEntries r = snd (WAL_Open (w_file (b_msgWAL b2))) \<and> b_topics r = b_topics b2 \<and>
     keyed_log_of (b_topics (replayMessageWAL sample_lib (\<lambda>_. quiet_world) r)) ''t'' ''k'' = Some pl \<and>
     pl_holds pl [(0, 0, keyed_message\<lparr>m_Offset := 0\<rparr>), (0, 1, keyed_message\<lparr>m_Offset := 1\<rparr>)]"
proof -
  let ?q = once_request and ?t = "pr_Topic once_request" and ?k = "pr_Key once_request"
  obtain b1 res1 pl where b1: "handlePublish sample_lib quiet_world one_broker admin_conn (Some ?q) = (b1, Published res1)"
    "gm_groups (b_consumers b1) = []" "b_walThreshold b1 = 0" "b_topics b1 = set_partition (b_topics one_broker) ''t'' 0 pl"
    "p_maxRetries (b_producers b1) = 3" "seq_known b1 ?q = Some res1" "PartitionLog_NextOffset pl = 1"
    "pl_fits sample_lib 0 pl keyed_message" "wal_inv (b_msgWAL b1) [Marshal_PublishRequest (?q\<lparr>pr_TargetOffset := Some 0\<rparr>)]"
    by (rule once_published)
  have log0: "keyed_log_of (b_topics one_broker) ?t ?k = Some sample_pl0" "hp_topics (tm_partitioner (b_topics one_broker)) ?t = Some 1"
    using one_broker_facts(1,2) by (simp_all add: once_request_fields)
  have log1: "keyed_log_of (b_topics b1) ?t ?k = Some pl" "hp_topics (tm_partitioner (b_topics b1)) ?t = Some 1"
    using keyed_log_replaced [OF log0, of pl] log0(2) b1(4) by (simp_all add: hash_one once_request_fields)
  have msg1: "request_message sample_lib quiet_world (b_topics b1) ?q keyed_message"
    using b1(4) one_broker_facts(1)
    by (intro once_message [OF _ _ log1(2) [unfolded once_request_fields]])
      (auto simp: broker_with_fields one_topic_def zero_TopicConfig_def)
  have part: "assign_part (b_topics b1) ?t ?k = (b_topics b1, 0)"
    using assign_part_keyed [OF _ log1(2)] by (simp add: hash_one once_request_fields)
  have cap: "capture_target (b_topics b1) 0 ?q = ?q\<lparr>pr_TargetOffset := Some 1\<rparr>"
    using capture_keyed [OF log1] b1(7) by (simp add: hash_one)
  have again: "\<exists>c. publish_request sample_lib quiet_world (b1\<lparr>b_msgWAL := wl\<rparr>) (?q\<lparr>pr_TargetOffset := Some 1\<rparr>) = (c, Inr res1)" for wl
    by (rule publish_once_again [of quiet_world "b1\<lparr>b_msgWAL := wl\<rparr>" "?q\<lparr>pr_TargetOffset := Some 1\<rparr>" pl 1 res1 sample_lib keyed_message])
      (use b1 log1 msg1 in \<open>simp_all add: once_sample\<close>)
  have ok: "\<exists>c res. publish_request sample_lib quiet_world (b1\<lparr>b_topics := b_topics b1, b_msgWAL := wl\<rparr>)
      (capture_target (b_topics b1) 0 ?q) = (c, Inr res)" for wl
    using again [of wl] unfolding cap by auto
  have fits: "fits_entry (Marshal_PublishRequest (capture_target (b_topics b1) 0 ?q))"
    using once_logged_ok unfolding cap by simp
  obtain b2 res2 where b2: "handlePublish sample_lib quiet_world b1 admin_conn (Some ?q) = (b2, Published res2)"
    by (rule handlePublish_forward [OF part _ _ _ b1(3) _ b1(2) b1(9) fits _ ok, of admin_conn])
      (simp_all add: once_request_fields admin_can)
  obtain wl c where c: "publish_request sample_lib quiet_world (b1\<lparr>b_msgWAL := wl\<rparr>) (?q\<lparr>pr_TargetOffset := Some 1\<rparr>) = (c, Inr res2)"
    "b_topics b2 = b_topics c"
    by (rule keyed_split [OF b2 _ _ log1(1) _ b1(9), of "?q\<lparr>pr_TargetOffset := Some 1\<rparr>"])
      (use once_logged_ok b1(7) in \<open>auto simp: once_request_fields\<close>)
  have t2: "b_topics b2 = set_partition (b_topics b1) ?t 0 pl"
    using publish_once_known [of quiet_world "b1\<lparr>b_msgWAL := wl\<rparr>" "?q\<lparr>pr_TargetOffset := Some 1\<rparr>" pl 1 res1 sample_lib c res2]
      b1(5,6) log1 c by (simp add: once_sample hash_one)
  define r where "r = b2\<lparr>b_producers := NewProducer [] 3 200000000, b_walEntries := snd (WAL_Open (w_file (b_msgWAL b2)))\<rparr>"
  have r: "b_topics r = b_topics b2" "b_producers r = NewProducer [] 3 200000000"
    "b_walEntries r = snd (WAL_Open (w_file (b_msgWAL b2)))" by (simp_all add: r_def)
  have logr: "keyed_log_of (b_topics r) ?t ?k = Some pl"
    using keyed_log_replaced [OF log1, of pl] t2 r(1) by (simp add: hash_one)
  have msgr: "request_message sample_lib quiet_world (b_topics r) ?q keyed_message"
    using b1(4) t2 log1(2) r(1)
    by (intro once_message) (auto simp: once_request_fields broker_with_fields one_topic_def zero_TopicConfig_def)
  have res: "res2 = res1 \<and> (\<exists>pl'. keyed_log_of (b_topics (replayMessageWAL sample_lib (\<lambda>_. quiet_world) r)) ?t ?k = Some pl' \<and>
      pl_holds pl' [(0, 0, keyed_message\<lparr>m_Offset := 0\<rparr>), (0, 1, keyed_message\<lparr>m_Offset := 1\<rparr>)])"
    using exactly_once_restart_duplicates [OF one_broker_facts(3) log0(1) sample_pl0_holds, of quiet_world quiet_world
        sample_lib keyed_message 0 admin_conn b1 res1 b2 res2 r "[]" 200000000 "\<lambda>_. quiet_world" keyed_message pl]
      one_broker_facts(4-6) b1(1,8) b2 r msgr logr once_logged_ok fits_pl0 [OF keyed_message_ok]
    by (simp add: once_sample broker_with_fields(3) seq_known_def sample_pl0_next)
  then obtain pl' where "keyed_log_of (b_topics (replayMessageWAL sample_lib (\<lambda>_. quiet_world) r)) ''t'' ''k'' = Some pl'"
    "pl_holds pl' [(0, 0, keyed_message\<lparr>m_Offset := 0\<rparr>), (0, 1, keyed_message\<lparr>m_Offset := 1\<rparr>)]"
    by (auto simp: once_request_fields)
  then show ?thesis using b1(1) b2 r res by blast
qed

end
