(* ===== verification/Raft_Rpc.thy ===== *)
theory Raft_Rpc
  imports Broker_Types
begin

text \<open>
  Data of the Raft module: log entries and persistent state (\<^verbatim>\<open>src/internal/cluster/raft/state.go\<close>),
  the messages and their JSON bodies (\<^verbatim>\<open>rpc.go\<close>) and the state file (\<^verbatim>\<open>store.go\<close>). Terms and
  indices are natural numbers below \<open>2 ^ 64\<close>; increments wrap. A nil slice and an empty slice are
  the same list, written as \<open>null\<close>. The codecs are shown to be inverse on well-formed values.
\<close>

section \<open>State\<close>

datatype Role = Follower | Candidate | Leader

record LogEntry =
  le_Term :: nat
  le_Index :: nat
  le_Command :: "bytes option"

record PersistentState =
  ps_CurrentTerm :: nat
  ps_VotedFor :: string
  ps_Log :: "LogEntry list"

definition zero_LogEntry :: LogEntry where
  "zero_LogEntry = \<lparr>le_Term = 0, le_Index = 0, le_Command = None\<rparr>"

definition zero_PersistentState :: PersistentState where
  "zero_PersistentState = \<lparr>ps_CurrentTerm = 0, ps_VotedFor = [], ps_Log = []\<rparr>"

text \<open>Wrap-around of \<open>uint64\<close>.\<close>

definition u64 :: "nat \<Rightarrow> nat" where
  "u64 n = n mod 2 ^ 64"

lemma u64_id [simp]: "n < 2 ^ 64 \<Longrightarrow> u64 n = n"
  by (simp add: u64_def)

abbreviation as_uint64 :: "(nat \<Rightarrow> 'a \<Rightarrow> 'a) \<Rightarrow> 'a setter" where
  "as_uint64 \<equiv> as_uint (2 ^ 64 - 1)"

definition LogEntry_json :: "LogEntry \<Rightarrow> json" where
  "LogEntry_json e = JObj
     [(''Term'', int_json (int (le_Term e))), (''Index'', int_json (int (le_Index e))),
      (''Command'', bytes_json (le_Command e))]"

definition LogEntry_fields :: "(string \<times> LogEntry setter) list" where
  "LogEntry_fields =
     [(''term'', as_uint64 (\<lambda>n. le_Term_update (\<lambda>_. n))),
      (''index'', as_uint64 (\<lambda>n. le_Index_update (\<lambda>_. n))),
      (''command'', as_bytes (\<lambda>b. le_Command_update (\<lambda>_. b)))]"

definition PersistentState_json :: "PersistentState \<Rightarrow> json" where
  "PersistentState_json s = JObj
     [(''CurrentTerm'', int_json (int (ps_CurrentTerm s))), (''VotedFor'', JStr (ps_VotedFor s)),
      (''Log'', list_json LogEntry_json (ps_Log s))]"

definition PersistentState_fields :: "(string \<times> PersistentState setter) list" where
  "PersistentState_fields =
     [(''currentterm'', as_uint64 (\<lambda>n. ps_CurrentTerm_update (\<lambda>_. n))),
      (''votedfor'', as_string (\<lambda>s. ps_VotedFor_update (\<lambda>_. s))),
      (''log'', as_list (assign_struct LogEntry_fields) zero_LogEntry ps_Log (\<lambda>l. ps_Log_update (\<lambda>_. l)))]"

definition wf_LogEntry :: "LogEntry \<Rightarrow> bool" where
  "wf_LogEntry e \<longleftrightarrow> le_Term e < 2 ^ 64 \<and> le_Index e < 2 ^ 64"

definition wf_PersistentState :: "PersistentState \<Rightarrow> bool" where
  "wf_PersistentState s \<longleftrightarrow>
     ps_CurrentTerm s < 2 ^ 64 \<and> valid_utf8 (ps_VotedFor s) \<and> list_all wf_LogEntry (ps_Log s)"

text \<open>
  The state file. \<open>Save\<close> writes a temporary file and renames it over the old one, so it either
  replaces the content or leaves it; a missing file is the zero state.
\<close>

type_synonym state_file = "bytes option"

definition Save :: "bool \<Rightarrow> state_file \<Rightarrow> PersistentState \<Rightarrow> state_file" where
  "Save works f s = (if works then Some (Marshal (PersistentState_json s)) else f)"

definition Load :: "state_file \<Rightarrow> PersistentState option" where
  "Load f =
     (case f of
        None \<Rightarrow> Some zero_PersistentState
      | Some data \<Rightarrow> Unmarshal (assign_struct PersistentState_fields) data zero_PersistentState)"

section \<open>Messages\<close>

definition MsgRaftRequestVote :: nat where
  "MsgRaftRequestVote = 20"

definition MsgRaftVoteResponse :: nat where
  "MsgRaftVoteResponse = 21"

definition MsgRaftAppendEntries :: nat where
  "MsgRaftAppendEntries = 22"

definition MsgRaftAppendResponse :: nat where
  "MsgRaftAppendResponse = 23"

lemmas msg_types =
  MsgRaftRequestVote_def MsgRaftVoteResponse_def MsgRaftAppendEntries_def MsgRaftAppendResponse_def

record RaftMessage =
  rm_Type :: nat
  rm_From :: string
  rm_Term :: nat
  rm_Body :: bytes

record RequestVoteArgs =
  rv_Term :: nat
  rv_CandidateID :: string
  rv_LastLogIndex :: nat
  rv_LastLogTerm :: nat

record RequestVoteReply =
  vr_Term :: nat
  vr_VoteGranted :: bool

record AppendEntriesArgs =
  ae_Term :: nat
  ae_LeaderID :: string
  ae_PrevLogIndex :: nat
  ae_PrevLogTerm :: nat
  ae_Entries :: "LogEntry list"
  ae_LeaderCommit :: nat

record AppendEntriesReply =
  ar_Term :: nat
  ar_Success :: bool
  ar_MatchIndex :: nat
  ar_ConflictIndex :: nat
  ar_ConflictTerm :: nat

definition RequestVoteArgs_json :: "RequestVoteArgs \<Rightarrow> json" where
  "RequestVoteArgs_json a = JObj
     [(''Term'', int_json (int (rv_Term a))), (''CandidateID'', JStr (rv_CandidateID a)),
      (''LastLogIndex'', int_json (int (rv_LastLogIndex a))),
      (''LastLogTerm'', int_json (int (rv_LastLogTerm a)))]"

definition RequestVoteArgs_fields :: "(string \<times> RequestVoteArgs setter) list" where
  "RequestVoteArgs_fields =
     [(''term'', as_uint64 (\<lambda>n. rv_Term_update (\<lambda>_. n))),
      (''candidateid'', as_string (\<lambda>s. rv_CandidateID_update (\<lambda>_. s))),
      (''lastlogindex'', as_uint64 (\<lambda>n. rv_LastLogIndex_update (\<lambda>_. n))),
      (''lastlogterm'', as_uint64 (\<lambda>n. rv_LastLogTerm_update (\<lambda>_. n)))]"

definition RequestVoteReply_json :: "RequestVoteReply \<Rightarrow> json" where
  "RequestVoteReply_json r = JObj
     [(''Term'', int_json (int (vr_Term r))), (''VoteGranted'', JBool (vr_VoteGranted r))]"

definition RequestVoteReply_fields :: "(string \<times> RequestVoteReply setter) list" where
  "RequestVoteReply_fields =
     [(''term'', as_uint64 (\<lambda>n. vr_Term_update (\<lambda>_. n))),
      (''votegranted'', as_bool (\<lambda>b. vr_VoteGranted_update (\<lambda>_. b)))]"

definition AppendEntriesArgs_json :: "AppendEntriesArgs \<Rightarrow> json" where
  "AppendEntriesArgs_json a = JObj
     [(''Term'', int_json (int (ae_Term a))), (''LeaderID'', JStr (ae_LeaderID a)),
      (''PrevLogIndex'', int_json (int (ae_PrevLogIndex a))),
      (''PrevLogTerm'', int_json (int (ae_PrevLogTerm a))),
      (''Entries'', list_json LogEntry_json (ae_Entries a)),
      (''LeaderCommit'', int_json (int (ae_LeaderCommit a)))]"

definition AppendEntriesArgs_fields :: "(string \<times> AppendEntriesArgs setter) list" where
  "AppendEntriesArgs_fields =
     [(''term'', as_uint64 (\<lambda>n. ae_Term_update (\<lambda>_. n))),
      (''leaderid'', as_string (\<lambda>s. ae_LeaderID_update (\<lambda>_. s))),
      (''prevlogindex'', as_uint64 (\<lambda>n. ae_PrevLogIndex_update (\<lambda>_. n))),
      (''prevlogterm'', as_uint64 (\<lambda>n. ae_PrevLogTerm_update (\<lambda>_. n))),
      (''entries'', as_list (assign_struct LogEntry_fields) zero_LogEntry ae_Entries (\<lambda>l. ae_Entries_update (\<lambda>_. l))),
      (''leadercommit'', as_uint64 (\<lambda>n. ae_LeaderCommit_update (\<lambda>_. n)))]"

definition AppendEntriesReply_json :: "AppendEntriesReply \<Rightarrow> json" where
  "AppendEntriesReply_json r = JObj
     [(''Term'', int_json (int (ar_Term r))), (''Success'', JBool (ar_Success r)),
      (''MatchIndex'', int_json (int (ar_MatchIndex r))),
      (''ConflictIndex'', int_json (int (ar_ConflictIndex r))),
      (''ConflictTerm'', int_json (int (ar_ConflictTerm r)))]"

definition AppendEntriesReply_fields :: "(string \<times> AppendEntriesReply setter) list" where
  "AppendEntriesReply_fields =
     [(''term'', as_uint64 (\<lambda>n. ar_Term_update (\<lambda>_. n))),
      (''success'', as_bool (\<lambda>b. ar_Success_update (\<lambda>_. b))),
      (''matchindex'', as_uint64 (\<lambda>n. ar_MatchIndex_update (\<lambda>_. n))),
      (''conflictindex'', as_uint64 (\<lambda>n. ar_ConflictIndex_update (\<lambda>_. n))),
      (''conflictterm'', as_uint64 (\<lambda>n. ar_ConflictTerm_update (\<lambda>_. n)))]"

definition EncodeRequestVoteArgs :: "RequestVoteArgs \<Rightarrow> bytes" where
  "EncodeRequestVoteArgs a = Marshal (RequestVoteArgs_json a)"

definition DecodeRequestVoteArgs :: "bytes \<Rightarrow> RequestVoteArgs option" where
  "DecodeRequestVoteArgs b = Unmarshal (assign_struct RequestVoteArgs_fields) b
     \<lparr>rv_Term = 0, rv_CandidateID = [], rv_LastLogIndex = 0, rv_LastLogTerm = 0\<rparr>"

definition EncodeRequestVoteReply :: "RequestVoteReply \<Rightarrow> bytes" where
  "EncodeRequestVoteReply r = Marshal (RequestVoteReply_json r)"

definition DecodeRequestVoteReply :: "bytes \<Rightarrow> RequestVoteReply option" where
  "DecodeRequestVoteReply b = Unmarshal (assign_struct RequestVoteReply_fields) b
     \<lparr>vr_Term = 0, vr_VoteGranted = False\<rparr>"

definition EncodeAppendEntriesArgs :: "AppendEntriesArgs \<Rightarrow> bytes" where
  "EncodeAppendEntriesArgs a = Marshal (AppendEntriesArgs_json a)"

definition DecodeAppendEntriesArgs :: "bytes \<Rightarrow> AppendEntriesArgs option" where
  "DecodeAppendEntriesArgs b = Unmarshal (assign_struct AppendEntriesArgs_fields) b
     \<lparr>ae_Term = 0, ae_LeaderID = [], ae_PrevLogIndex = 0, ae_PrevLogTerm = 0, ae_Entries = [], ae_LeaderCommit = 0\<rparr>"

definition EncodeAppendEntriesReply :: "AppendEntriesReply \<Rightarrow> bytes" where
  "EncodeAppendEntriesReply r = Marshal (AppendEntriesReply_json r)"

definition DecodeAppendEntriesReply :: "bytes \<Rightarrow> AppendEntriesReply option" where
  "DecodeAppendEntriesReply b = Unmarshal (assign_struct AppendEntriesReply_fields) b
     \<lparr>ar_Term = 0, ar_Success = False, ar_MatchIndex = 0, ar_ConflictIndex = 0, ar_ConflictTerm = 0\<rparr>"

definition wf_RequestVoteArgs :: "RequestVoteArgs \<Rightarrow> bool" where
  "wf_RequestVoteArgs a \<longleftrightarrow>
     rv_Term a < 2 ^ 64 \<and> valid_utf8 (rv_CandidateID a) \<and> rv_LastLogIndex a < 2 ^ 64 \<and> rv_LastLogTerm a < 2 ^ 64"

definition wf_RequestVoteReply :: "RequestVoteReply \<Rightarrow> bool" where
  "wf_RequestVoteReply r \<longleftrightarrow> vr_Term r < 2 ^ 64"

definition wf_AppendEntriesArgs :: "AppendEntriesArgs \<Rightarrow> bool" where
  "wf_AppendEntriesArgs a \<longleftrightarrow>
     ae_Term a < 2 ^ 64 \<and> valid_utf8 (ae_LeaderID a) \<and> ae_PrevLogIndex a < 2 ^ 64 \<and>
     ae_PrevLogTerm a < 2 ^ 64 \<and> list_all wf_LogEntry (ae_Entries a) \<and> ae_LeaderCommit a < 2 ^ 64"

definition wf_AppendEntriesReply :: "AppendEntriesReply \<Rightarrow> bool" where
  "wf_AppendEntriesReply r \<longleftrightarrow>
     ar_Term r < 2 ^ 64 \<and> ar_MatchIndex r < 2 ^ 64 \<and> ar_ConflictIndex r < 2 ^ 64 \<and> ar_ConflictTerm r < 2 ^ 64"

section \<open>Round trips\<close>

lemma u64_max: "(n :: nat) < 18446744073709551616 \<Longrightarrow> n \<le> 18446744073709551615"
  by simp

lemma fold_raft_names [simp]:
  "fold_name ''Term'' = ''term''" "fold_name ''Index'' = ''index''" "fold_name ''Command'' = ''command''"
  "fold_name ''CurrentTerm'' = ''currentterm''" "fold_name ''VotedFor'' = ''votedfor''"
  "fold_name ''Log'' = ''log''" "fold_name ''CandidateID'' = ''candidateid''"
  "fold_name ''LastLogIndex'' = ''lastlogindex''" "fold_name ''LastLogTerm'' = ''lastlogterm''"
  "fold_name ''VoteGranted'' = ''votegranted''" "fold_name ''LeaderID'' = ''leaderid''"
  "fold_name ''PrevLogIndex'' = ''prevlogindex''" "fold_name ''PrevLogTerm'' = ''prevlogterm''"
  "fold_name ''Entries'' = ''entries''" "fold_name ''LeaderCommit'' = ''leadercommit''"
  "fold_name ''Success'' = ''success''" "fold_name ''MatchIndex'' = ''matchindex''"
  "fold_name ''ConflictIndex'' = ''conflictindex''" "fold_name ''ConflictTerm'' = ''conflictterm''"
  by (simp_all add: fold_name.simps lower_def in_range_def char_of_def bit_0)

lemma assign_LogEntry:
  "wf_LogEntry e \<Longrightarrow> assign_struct LogEntry_fields (LogEntry_json e) zero_LogEntry = Some e"
  by (cases e)
    (simp add: assign_struct_def LogEntry_json_def LogEntry_fields_def zero_LogEntry_def wf_LogEntry_def u64_max)

lemma LogEntry_json_valid: "valid_json (LogEntry_json e)"
  by (simp add: LogEntry_json_def ascii_valid_utf8)

lemma entries_ok:
  "list_all wf_LogEntry es \<Longrightarrow>
   list_all (\<lambda>e. assign_struct LogEntry_fields (LogEntry_json e) zero_LogEntry = Some e) es"
  by (auto simp: list_all_iff assign_LogEntry)

lemma entries_valid: "list_all (\<lambda>e. valid_json (LogEntry_json e)) es"
  by (simp add: list_all_iff LogEntry_json_valid)

lemma raft_lookup [simp]:
  "map_of PersistentState_fields ''log'' = Some (as_list (assign_struct LogEntry_fields) zero_LogEntry ps_Log
     (\<lambda>l. ps_Log_update (\<lambda>_. l)))"
  "map_of AppendEntriesArgs_fields ''entries'' = Some (as_list (assign_struct LogEntry_fields) zero_LogEntry ae_Entries
     (\<lambda>l. ae_Entries_update (\<lambda>_. l)))"
  "map_of PersistentState_fields ''currentterm'' = Some (as_uint64 (\<lambda>n. ps_CurrentTerm_update (\<lambda>_. n)))"
  "map_of PersistentState_fields ''votedfor'' = Some (as_string (\<lambda>s. ps_VotedFor_update (\<lambda>_. s)))"
  "map_of AppendEntriesArgs_fields ''term'' = Some (as_uint64 (\<lambda>n. ae_Term_update (\<lambda>_. n)))"
  "map_of AppendEntriesArgs_fields ''leaderid'' = Some (as_string (\<lambda>s. ae_LeaderID_update (\<lambda>_. s)))"
  "map_of AppendEntriesArgs_fields ''prevlogindex'' = Some (as_uint64 (\<lambda>n. ae_PrevLogIndex_update (\<lambda>_. n)))"
  "map_of AppendEntriesArgs_fields ''prevlogterm'' = Some (as_uint64 (\<lambda>n. ae_PrevLogTerm_update (\<lambda>_. n)))"
  "map_of AppendEntriesArgs_fields ''leadercommit'' = Some (as_uint64 (\<lambda>n. ae_LeaderCommit_update (\<lambda>_. n)))"
  by (simp_all add: PersistentState_fields_def AppendEntriesArgs_fields_def)

interpretation vote_args_codec: byte_codec EncodeRequestVoteArgs DecodeRequestVoteArgs wf_RequestVoteArgs
proof
  fix a
  assume a: "wf_RequestVoteArgs a"
  then have "valid_json (RequestVoteArgs_json a)"
    by (simp add: RequestVoteArgs_json_def wf_RequestVoteArgs_def ascii_valid_utf8)
  then show "DecodeRequestVoteArgs (EncodeRequestVoteArgs a) = Some a"
    using a by (cases a) (simp add: DecodeRequestVoteArgs_def EncodeRequestVoteArgs_def assign_struct_def
      RequestVoteArgs_json_def RequestVoteArgs_fields_def wf_RequestVoteArgs_def u64_max)
qed

interpretation vote_reply_codec: byte_codec EncodeRequestVoteReply DecodeRequestVoteReply wf_RequestVoteReply
proof
  fix r
  assume r: "wf_RequestVoteReply r"
  have "valid_json (RequestVoteReply_json r)" by (simp add: RequestVoteReply_json_def ascii_valid_utf8)
  then show "DecodeRequestVoteReply (EncodeRequestVoteReply r) = Some r"
    using r by (cases r) (simp add: DecodeRequestVoteReply_def EncodeRequestVoteReply_def assign_struct_def
      RequestVoteReply_json_def RequestVoteReply_fields_def wf_RequestVoteReply_def u64_max)
qed

interpretation append_args_codec: byte_codec EncodeAppendEntriesArgs DecodeAppendEntriesArgs wf_AppendEntriesArgs
proof
  fix a
  assume a: "wf_AppendEntriesArgs a"
  then have v: "valid_json (AppendEntriesArgs_json a)"
    by (simp add: AppendEntriesArgs_json_def wf_AppendEntriesArgs_def ascii_valid_utf8 entries_valid)
  have "list_all (\<lambda>e. assign_struct LogEntry_fields (LogEntry_json e) zero_LogEntry = Some e) (ae_Entries a)"
    using a by (intro entries_ok) (simp add: wf_AppendEntriesArgs_def)
  with v show "DecodeAppendEntriesArgs (EncodeAppendEntriesArgs a) = Some a"
    using a by (cases a) (simp add: DecodeAppendEntriesArgs_def EncodeAppendEntriesArgs_def
      assign_struct_def [of AppendEntriesArgs_fields] AppendEntriesArgs_json_def wf_AppendEntriesArgs_def u64_max)
qed

interpretation append_reply_codec: byte_codec EncodeAppendEntriesReply DecodeAppendEntriesReply wf_AppendEntriesReply
proof
  fix r
  assume r: "wf_AppendEntriesReply r"
  have "valid_json (AppendEntriesReply_json r)" by (simp add: AppendEntriesReply_json_def ascii_valid_utf8)
  then show "DecodeAppendEntriesReply (EncodeAppendEntriesReply r) = Some r"
    using r by (cases r) (simp add: DecodeAppendEntriesReply_def EncodeAppendEntriesReply_def assign_struct_def
      AppendEntriesReply_json_def AppendEntriesReply_fields_def wf_AppendEntriesReply_def u64_max)
qed

lemma Load_Save:
  assumes "wf_PersistentState s"
  shows "Load (Save True f s) = Some s"
proof -
  have v: "valid_json (PersistentState_json s)"
    using assms by (simp add: PersistentState_json_def wf_PersistentState_def ascii_valid_utf8 entries_valid)
  have "list_all (\<lambda>e. assign_struct LogEntry_fields (LogEntry_json e) zero_LogEntry = Some e) (ps_Log s)"
    using assms by (intro entries_ok) (simp add: wf_PersistentState_def)
  with v show ?thesis
    using assms by (cases s) (simp add: Load_def Save_def assign_struct_def [of PersistentState_fields]
      PersistentState_json_def wf_PersistentState_def zero_PersistentState_def u64_max)
qed

end
