(* ===== verification/Raft.thy ===== *)
theory Raft
  imports Raft_Rpc
begin

text \<open>
  One Raft node, \<^verbatim>\<open>src/internal/cluster/raft\<close>: elections (\<^verbatim>\<open>election.go\<close>), replication
  (\<^verbatim>\<open>replication.go\<close>), the log (\<^verbatim>\<open>log.go\<close>) and the node with its event loop (\<^verbatim>\<open>node.go\<close>). A
  handler maps a node and a message to the new node, the messages it sends with their addresses,
  and whether the election timer restarts. The state file is part of the node, with a flag that
  says whether writes to it succeed; the commands given to the \<open>apply\<close> callback, the proposals
  signalled as committed and those closed on a loss of leadership are recorded as lists, the commands
  with the index they were applied at. Every access to the log is the partial \<open>log_at\<close>: an index out of
  range, which stops the Go program, is \<^term>\<open>None\<close> in the loops and sets \<open>n_crashed\<close> in the handlers. Timers and the channels between the
  goroutines are not modelled: the event loop is a function per event.
\<close>

section \<open>Node\<close>

record Node =
  n_selfID :: string
  n_peers :: "string list"
  n_peerAddrMap :: "string \<rightharpoonup> string"
  n_state :: PersistentState
  n_role :: Role
  n_commitIndex :: nat
  n_lastApplied :: nat
  n_leaderID :: string
  n_leaderKnown :: bool
  n_nextIndex :: "string \<rightharpoonup> nat"
  n_matchIndex :: "string \<rightharpoonup> nat"
  n_voteGranted :: "string list"
  n_proposals :: "nat list"
  n_store :: state_file
  n_storeWorks :: bool
  n_applied :: "(nat \<times> bytes option) list"
  n_signalled :: "nat list"
  n_closed :: "nat list"
  n_crashed :: bool

type_synonym outbox = "(string \<times> RaftMessage) list"

abbreviation n_term :: "Node \<Rightarrow> nat" where
  "n_term n \<equiv> ps_CurrentTerm (n_state n)"

abbreviation n_votedFor :: "Node \<Rightarrow> string" where
  "n_votedFor n \<equiv> ps_VotedFor (n_state n)"

abbreviation n_log :: "Node \<Rightarrow> LogEntry list" where
  "n_log n \<equiv> ps_Log (n_state n)"

definition NewNode :: "string \<Rightarrow> string list \<Rightarrow> state_file \<Rightarrow> Node" where
  "NewNode selfID peers store =
     \<lparr>n_selfID = selfID, n_peers = peers, n_peerAddrMap = Map.empty, n_state = zero_PersistentState,
      n_role = Follower, n_commitIndex = 0, n_lastApplied = 0, n_leaderID = [], n_leaderKnown = False,
      n_nextIndex = Map.empty, n_matchIndex = Map.empty, n_voteGranted = [], n_proposals = [],
      n_store = store, n_storeWorks = True, n_applied = [], n_signalled = [], n_closed = [],
      n_crashed = False\<rparr>"

text \<open>A Go map read answers zero for a missing key.\<close>

definition map_get :: "(string \<rightharpoonup> nat) \<Rightarrow> string \<Rightarrow> nat" where
  "map_get m k = (case m k of None \<Rightarrow> 0 | Some v \<Rightarrow> v)"

lemma map_get_upd [simp]: "map_get (m(k \<mapsto> v)) j = (if j = k then v else map_get m j)"
  by (simp add: map_get_def)

definition persistLocked :: "Node \<Rightarrow> Node" where
  "persistLocked n = n\<lparr>n_store := Save (n_storeWorks n) (n_store n) (n_state n)\<rparr>"

definition SetPeerAddrs :: "Node \<Rightarrow> (string \<rightharpoonup> string) \<Rightarrow> Node" where
  "SetPeerAddrs n addrs = n\<lparr>n_peerAddrMap := addrs\<rparr>"

definition peerAddr :: "Node \<Rightarrow> string \<Rightarrow> string" where
  "peerAddr n peerID = (case n_peerAddrMap n peerID of Some addr \<Rightarrow> addr | None \<Rightarrow> peerID)"

definition send_to :: "Node \<Rightarrow> string \<Rightarrow> RaftMessage \<Rightarrow> outbox" where
  "send_to n peer msg = (let addr = peerAddr n peer in if addr \<noteq> [] then [(addr, msg)] else [])"

definition raft_msg :: "Node \<Rightarrow> nat \<Rightarrow> bytes \<Rightarrow> RaftMessage" where
  "raft_msg n ty body = \<lparr>rm_Type = ty, rm_From = n_selfID n, rm_Term = n_term n, rm_Body = body\<rparr>"

section \<open>Log\<close>

text \<open>An index expression of Go on the log: out of range it panics.\<close>

definition log_at :: "LogEntry list \<Rightarrow> nat \<Rightarrow> LogEntry option" where
  "log_at log i = (if i < length log then Some (log ! i) else None)"

definition lastLogIndexAndTermLocked :: "Node \<Rightarrow> nat \<times> nat" where
  "lastLogIndexAndTermLocked n =
     (if n_log n = [] then (0, 0) else (le_Index (last (n_log n)), le_Term (last (n_log n))))"

text \<open>The first index of the run of entries of the conflicting term.\<close>

fun conflict_start :: "LogEntry list \<Rightarrow> nat \<Rightarrow> nat \<Rightarrow> nat option" where
  "conflict_start log ct 0 = Some 0"
| "conflict_start log ct (Suc 0) = Some (Suc 0)"
| "conflict_start log ct (Suc (Suc k)) =
     (case log_at log k of
        None \<Rightarrow> None
      | Some e \<Rightarrow> if le_Term e = ct then conflict_start log ct (Suc k) else Some (Suc (Suc k)))"

text \<open>The loop over the new entries, from the zero-based position \<open>p\<close> on.\<close>

fun merge_entries :: "LogEntry list \<Rightarrow> nat \<Rightarrow> LogEntry list \<Rightarrow> LogEntry list option" where
  "merge_entries log p [] = Some log"
| "merge_entries log p (e # es) =
     (if p + 1 > length log then Some (log @ e # es)
      else case log_at log p of
             None \<Rightarrow> None
           | Some existing \<Rightarrow>
               if le_Term existing \<noteq> le_Term e then Some (take p log @ e # es)
               else merge_entries log (Suc p) es)"

text \<open>The check of the previous entry: the conflict index and term when it does not match.\<close>

definition prev_conflict :: "LogEntry list \<Rightarrow> nat \<Rightarrow> nat \<Rightarrow> (nat \<times> nat) option option" where
  "prev_conflict log prevIndex prevTerm =
     (if prevIndex > 0 then
        (case log_at log (prevIndex - 1) of
           None \<Rightarrow> None
         | Some entry \<Rightarrow>
             if le_Term entry \<noteq> prevTerm
             then map_option (\<lambda>ci. Some (ci, le_Term entry)) (conflict_start log (le_Term entry) prevIndex)
             else Some None)
      else Some None)"

definition appendEntriesFromLeader ::
  "Node \<Rightarrow> nat \<Rightarrow> nat \<Rightarrow> LogEntry list \<Rightarrow> (Node \<times> bool \<times> nat \<times> nat) option" where
  "appendEntriesFromLeader n prevIndex prevTerm entries =
     (let log = n_log n
      in if prevIndex > length log then Some (n, False, length log + 1, 0)
         else case prev_conflict log prevIndex prevTerm of
                None \<Rightarrow> None
              | Some (Some (ci, ct)) \<Rightarrow> Some (n, False, ci, ct)
              | Some None \<Rightarrow>
                  map_option (\<lambda>log'. (persistLocked (n\<lparr>n_state := (n_state n)\<lparr>ps_Log := log'\<rparr>\<rparr>), True, 0, 0))
                    (merge_entries log prevIndex entries))"

definition TruncateLogFrom :: "Node \<Rightarrow> nat \<Rightarrow> Node" where
  "TruncateLogFrom n index =
     (if 0 < index \<and> index \<le> length (n_log n)
      then persistLocked (n\<lparr>n_state := (n_state n)\<lparr>ps_Log := take (index - 1) (n_log n)\<rparr>\<rparr>)
      else n)"

section \<open>Elections\<close>

fun init_peer_index ::
  "string list \<Rightarrow> nat \<Rightarrow> (string \<rightharpoonup> nat) \<times> (string \<rightharpoonup> nat) \<Rightarrow> (string \<rightharpoonup> nat) \<times> (string \<rightharpoonup> nat)" where
  "init_peer_index [] lastIdx m = m"
| "init_peer_index (peer # peers) lastIdx (next, match) =
     init_peer_index peers lastIdx (next(peer \<mapsto> lastIdx + 1), match(peer \<mapsto> 0))"

definition becomeLeaderLocked :: "Node \<Rightarrow> Node" where
  "becomeLeaderLocked n =
     (let (next, match) = init_peer_index (n_peers n) (length (n_log n)) (n_nextIndex n, n_matchIndex n)
      in n\<lparr>n_role := Leader, n_leaderID := n_selfID n, n_leaderKnown := True,
           n_nextIndex := next, n_matchIndex := match\<rparr>)"

definition handleElectionTimeout :: "Node \<Rightarrow> Node \<times> outbox" where
  "handleElectionTimeout n =
     (if n_role n = Leader then (n, [])
      else
        let n1 = persistLocked (n\<lparr>
              n_state := (n_state n)\<lparr>ps_CurrentTerm := u64 (n_term n + 1), ps_VotedFor := n_selfID n\<rparr>,
              n_role := Candidate, n_leaderID := [], n_leaderKnown := False,
              n_voteGranted := [n_selfID n]\<rparr>)
        in if n_peers n1 = [] then (becomeLeaderLocked n1, [])
           else
             let args = \<lparr>rv_Term = n_term n1, rv_CandidateID = n_selfID n1,
                   rv_LastLogIndex = length (n_log n1),
                   rv_LastLogTerm = (if n_log n1 = [] then 0 else le_Term (last (n_log n1)))\<rparr>;
                 msg = raft_msg n1 MsgRaftRequestVote (EncodeRequestVoteArgs args)
             in (n1, concat (map (\<lambda>peer. send_to n1 peer msg) (n_peers n1))))"

text \<open>What every handler does on a higher term: become a follower without a vote.\<close>

definition step_down :: "Node \<Rightarrow> nat \<Rightarrow> Node" where
  "step_down n t =
     persistLocked (n\<lparr>n_state := (n_state n)\<lparr>ps_CurrentTerm := t, ps_VotedFor := []\<rparr>,
       n_role := Follower, n_leaderID := [], n_leaderKnown := False\<rparr>)"

definition logUpToDate :: "Node \<Rightarrow> RequestVoteArgs \<Rightarrow> bool" where
  "logUpToDate n args =
     (let (lastIdx, lastTerm) = lastLogIndexAndTermLocked n
      in rv_LastLogTerm args > lastTerm \<or>
         (rv_LastLogTerm args = lastTerm \<and> rv_LastLogIndex args \<ge> lastIdx))"

definition can_grant :: "Node \<Rightarrow> RequestVoteArgs \<Rightarrow> bool" where
  "can_grant n args \<longleftrightarrow>
     rv_Term args \<ge> n_term n \<and> (n_votedFor n = [] \<or> n_votedFor n = rv_CandidateID args) \<and>
     logUpToDate n args"

definition cast_vote :: "Node \<Rightarrow> RequestVoteArgs \<Rightarrow> Node" where
  "cast_vote n args =
     (if can_grant n args
      then persistLocked (n\<lparr>n_state := (n_state n)\<lparr>ps_VotedFor := rv_CandidateID args\<rparr>\<rparr>)
      else n)"

definition handleRequestVote :: "Node \<Rightarrow> RaftMessage \<Rightarrow> Node \<times> outbox \<times> bool" where
  "handleRequestVote n msg =
     (case DecodeRequestVoteArgs (rm_Body msg) of
        None \<Rightarrow> (n, [], False)
      | Some args \<Rightarrow>
          (let n1 = (if rv_Term args > n_term n then step_down n (rv_Term args) else n);
               reply = \<lparr>vr_Term = n_term n1, vr_VoteGranted = can_grant n1 args\<rparr>;
               n2 = cast_vote n1 args;
               resp = raft_msg n2 MsgRaftVoteResponse (EncodeRequestVoteReply reply)
           in (n2, send_to n2 (rv_CandidateID args) resp,
               vr_VoteGranted reply \<or> vr_Term reply > n_term n2)))"

section \<open>Replication\<close>

definition quorum :: "Node \<Rightarrow> nat" where
  "quorum n = (length (n_peers n) + 1) div 2 + 1"

text \<open>One round of the loop; \<open>n_lastApplied\<close> is raised before the entry is read.\<close>

definition apply_one :: "Node \<Rightarrow> Node option" where
  "apply_one n =
     (let k = n_lastApplied n + 1
      in map_option (\<lambda>entry.
           n\<lparr>n_lastApplied := k, n_applied := n_applied n @ [(k, le_Command entry)],
             n_signalled := (if k \<in> set (n_proposals n) then n_signalled n @ [k] else n_signalled n),
             n_proposals := removeAll k (n_proposals n)\<rparr>) (log_at (n_log n) (k - 1)))"

function applyCommittedLocked :: "Node \<Rightarrow> Node" where
  "applyCommittedLocked n =
     (if n_lastApplied n < n_commitIndex n then
        (case apply_one n of
           None \<Rightarrow> n\<lparr>n_lastApplied := n_lastApplied n + 1, n_crashed := True\<rparr>
         | Some n' \<Rightarrow> applyCommittedLocked n')
      else n)"
  by pat_completeness auto
termination
  by (relation "measure (\<lambda>n. n_commitIndex n - n_lastApplied n)") (auto simp: apply_one_def Let_def)

declare applyCommittedLocked.simps [simp del]

definition replicated :: "Node \<Rightarrow> nat \<Rightarrow> nat" where
  "replicated n idx = 1 + length (filter (\<lambda>peer. map_get (n_matchIndex n) peer \<ge> idx) (n_peers n))"

text \<open>The loop over the indices from the end of the log down to the commit index.\<close>

fun commit_scan :: "Node \<Rightarrow> nat \<Rightarrow> nat option option" where
  "commit_scan n 0 = Some None"
| "commit_scan n (Suc k) =
     (if Suc k \<le> n_commitIndex n then Some None
      else case log_at (n_log n) k of
             None \<Rightarrow> None
           | Some entry \<Rightarrow>
               if le_Term entry = n_term n \<and> replicated n (Suc k) \<ge> quorum n then Some (Some (Suc k))
               else commit_scan n k)"

definition advanceCommitIndexLocked :: "Node \<Rightarrow> Node" where
  "advanceCommitIndexLocked n =
     (if n_role n \<noteq> Leader then n
      else case commit_scan n (length (n_log n)) of
             None \<Rightarrow> n\<lparr>n_crashed := True\<rparr>
           | Some None \<Rightarrow> n
           | Some (Some idx) \<Rightarrow> applyCommittedLocked (n\<lparr>n_commitIndex := idx\<rparr>))"

text \<open>The term of the entry before the next index, and the arguments of one message.\<close>

definition prev_term :: "Node \<Rightarrow> nat \<Rightarrow> nat option" where
  "prev_term n prevIdx =
     (if prevIdx > 0 \<and> prevIdx \<le> length (n_log n) then map_option le_Term (log_at (n_log n) (prevIdx - 1)) else Some 0)"

definition append_args :: "Node \<Rightarrow> nat \<Rightarrow> AppendEntriesArgs option" where
  "append_args n nextIdx =
     (let logLen = length (n_log n); prevIdx = u64 (nextIdx + (2 ^ 64 - 1))
      in map_option (\<lambda>prevTerm.
           \<lparr>ae_Term = n_term n, ae_LeaderID = n_selfID n, ae_PrevLogIndex = prevIdx, ae_PrevLogTerm = prevTerm,
            ae_Entries = (if nextIdx \<le> logLen \<and> nextIdx \<ge> 1 then drop (nextIdx - 1) (n_log n) else []),
            ae_LeaderCommit = n_commitIndex n\<rparr>) (prev_term n prevIdx))"

definition clamp_next :: "Node \<Rightarrow> string \<Rightarrow> nat" where
  "clamp_next n peer =
     (let nextIdx = map_get (n_nextIndex n) peer
      in if nextIdx > length (n_log n) then length (n_log n) + 1 else nextIdx)"

fun send_append_loop :: "Node \<Rightarrow> string list \<Rightarrow> Node \<times> outbox" where
  "send_append_loop n [] = (n, [])"
| "send_append_loop n (peer # peers) =
     (let nextIdx = clamp_next n peer;
          n1 = (if map_get (n_nextIndex n) peer > length (n_log n)
                then n\<lparr>n_nextIndex := (n_nextIndex n)(peer \<mapsto> nextIdx)\<rparr> else n)
      in case append_args n1 nextIdx of
           None \<Rightarrow> (n1\<lparr>n_crashed := True\<rparr>, [])
         | Some args \<Rightarrow>
             (let msg = raft_msg n1 MsgRaftAppendEntries (EncodeAppendEntriesArgs args);
                  (n2, out) = send_append_loop n1 peers
              in (n2, send_to n1 peer msg @ out)))"

definition sendAppendEntriesToAll :: "Node \<Rightarrow> Node \<times> outbox" where
  "sendAppendEntriesToAll n =
     (if n_role n \<noteq> Leader then (n, []) else send_append_loop n (n_peers n))"

definition handleVoteResponse :: "Node \<Rightarrow> RaftMessage \<Rightarrow> Node \<times> outbox \<times> bool" where
  "handleVoteResponse n msg =
     (case DecodeRequestVoteReply (rm_Body msg) of
        None \<Rightarrow> (n, [], False)
      | Some reply \<Rightarrow>
          if vr_Term reply > n_term n then (step_down n (vr_Term reply), [], True)
          else if n_role n \<noteq> Candidate \<or> vr_Term reply \<noteq> n_term n then (n, [], False)
          else if vr_VoteGranted reply then
            (let n1 = n\<lparr>n_voteGranted := List.insert (rm_From msg) (n_voteGranted n)\<rparr>
             in if length (n_voteGranted n1) \<ge> quorum n1 then
                  (let (n2, out) = sendAppendEntriesToAll (becomeLeaderLocked n1) in (n2, out, False))
                else (n1, [], False))
          else (n, [], False))"

definition accept_leader :: "Node \<Rightarrow> AppendEntriesArgs \<Rightarrow> Node" where
  "accept_leader n args =
     persistLocked (n\<lparr>n_state := (n_state n)\<lparr>ps_CurrentTerm := ae_Term args, ps_VotedFor := []\<rparr>,
       n_role := Follower, n_leaderID := ae_LeaderID args, n_leaderKnown := True\<rparr>)"

definition follow_commit :: "Node \<Rightarrow> nat \<Rightarrow> Node" where
  "follow_commit n leaderCommit =
     (if leaderCommit > n_commitIndex n
      then applyCommittedLocked (n\<lparr>n_commitIndex := min leaderCommit (length (n_log n))\<rparr>)
      else n)"

definition handleAppendEntries :: "Node \<Rightarrow> RaftMessage \<Rightarrow> Node \<times> outbox \<times> bool" where
  "handleAppendEntries n msg =
     (case DecodeAppendEntriesArgs (rm_Body msg) of
        None \<Rightarrow> (n, [], False)
      | Some args \<Rightarrow>
          if ae_Term args < n_term n then
            (let reply = \<lparr>ar_Term = n_term n, ar_Success = False, ar_MatchIndex = 0,
                   ar_ConflictIndex = 0, ar_ConflictTerm = 0\<rparr>
             in (n, send_to n (ae_LeaderID args) (raft_msg n MsgRaftAppendResponse (EncodeAppendEntriesReply reply)),
                 False))
          else
            (let n1 = accept_leader (if ae_Term args > n_term n then accept_leader n args else n) args
             in case appendEntriesFromLeader n1 (ae_PrevLogIndex args) (ae_PrevLogTerm args) (ae_Entries args) of
                  None \<Rightarrow> (n1\<lparr>n_crashed := True\<rparr>, [], False)
                | Some (n2, success, ci, ct) \<Rightarrow>
                    (let n3 = (if success then follow_commit n2 (ae_LeaderCommit args) else n2);
                         reply = \<lparr>ar_Term = n_term n1, ar_Success = success,
                           ar_MatchIndex = (if success then length (n_log n2) else 0),
                           ar_ConflictIndex = (if success then 0 else ci),
                           ar_ConflictTerm = (if success then 0 else ct)\<rparr>
                     in (n3, send_to n3 (ae_LeaderID args) (raft_msg n3 MsgRaftAppendResponse (EncodeAppendEntriesReply reply)),
                         True))))"

text \<open>The last index, at most \<open>i\<close>, whose entry has the given term.\<close>

fun last_of_term :: "LogEntry list \<Rightarrow> nat \<Rightarrow> nat \<Rightarrow> nat option option" where
  "last_of_term log t 0 = Some None"
| "last_of_term log t (Suc k) =
     (case log_at log k of
        None \<Rightarrow> None
      | Some e \<Rightarrow> if le_Term e = t then Some (Some (Suc k)) else last_of_term log t k)"

definition retry_next :: "Node \<Rightarrow> AppendEntriesReply \<Rightarrow> nat option" where
  "retry_next n reply =
     map_option (\<lambda>nextIdx. if nextIdx < 1 then 1 else nextIdx)
       (if ar_ConflictTerm reply > 0 then
          map_option (\<lambda>found. case found of Some i \<Rightarrow> i + 1 | None \<Rightarrow> ar_ConflictIndex reply)
            (last_of_term (n_log n) (ar_ConflictTerm reply) (length (n_log n)))
        else Some (ar_ConflictIndex reply))"

definition handleAppendResponse :: "Node \<Rightarrow> RaftMessage \<Rightarrow> Node \<times> outbox \<times> bool" where
  "handleAppendResponse n msg =
     (case DecodeAppendEntriesReply (rm_Body msg) of
        None \<Rightarrow> (n, [], False)
      | Some reply \<Rightarrow>
          if ar_Term reply > n_term n then (step_down n (ar_Term reply), [], True)
          else if n_role n \<noteq> Leader then (n, [], False)
          else
            let peer = rm_From msg
            in if ar_Success reply then
                 (advanceCommitIndexLocked (n\<lparr>
                    n_matchIndex := (n_matchIndex n)(peer \<mapsto> ar_MatchIndex reply),
                    n_nextIndex := (n_nextIndex n)(peer \<mapsto> u64 (ar_MatchIndex reply + 1))\<rparr>), [], False)
               else case retry_next n reply of
                      None \<Rightarrow> (n\<lparr>n_crashed := True\<rparr>, [], False)
                    | Some nextIdx \<Rightarrow> (n\<lparr>n_nextIndex := (n_nextIndex n)(peer \<mapsto> nextIdx)\<rparr>, [], False))"

section \<open>Events\<close>

text \<open>
  \<open>Propose\<close> up to the point where it waits for the channel of its index; the index is then in
  \<open>n_signalled\<close> when it commits and in \<open>n_closed\<close> when leadership is lost first.
\<close>

definition Propose :: "Node \<Rightarrow> bytes option \<Rightarrow> Node \<times> outbox \<times> nat option" where
  "Propose n cmd =
     (if n_role n \<noteq> Leader then (n, [], None)
      else
        let index = length (n_log n) + 1;
            entry = \<lparr>le_Term = n_term n, le_Index = index, le_Command = cmd\<rparr>;
            n1 = persistLocked (n\<lparr>n_state := (n_state n)\<lparr>ps_Log := n_log n @ [entry]\<rparr>\<rparr>);
            n2 = n1\<lparr>n_proposals := List.insert index (n_proposals n1)\<rparr>;
            (n3, out) = sendAppendEntriesToAll n2
        in (advanceCommitIndexLocked n3, out, Some index))"

definition dispatchMsg :: "Node \<Rightarrow> RaftMessage \<Rightarrow> Node \<times> outbox \<times> bool" where
  "dispatchMsg n msg =
     (if rm_Type msg = MsgRaftRequestVote then handleRequestVote n msg
      else if rm_Type msg = MsgRaftVoteResponse then handleVoteResponse n msg
      else if rm_Type msg = MsgRaftAppendEntries then handleAppendEntries n msg
      else if rm_Type msg = MsgRaftAppendResponse then handleAppendResponse n msg
      else (n, [], False))"

definition run_msg :: "Node \<Rightarrow> RaftMessage \<Rightarrow> Node \<times> outbox \<times> bool" where
  "run_msg n msg =
     (let (n1, out, reset) = dispatchMsg n msg
      in (if n_role n = Leader \<and> n_role n1 \<noteq> Leader
          then n1\<lparr>n_closed := n_closed n1 @ n_proposals n1, n_proposals := []\<rparr> else n1, out, reset))"

definition run_heartbeat :: "Node \<Rightarrow> Node \<times> outbox" where
  "run_heartbeat n = (if n_role n = Leader then sendAppendEntriesToAll n else (n, []))"

text \<open>\<open>Start\<close>: a state file that cannot be read leaves the zero state.\<close>

definition Start :: "Node \<Rightarrow> Node" where
  "Start n =
     (let n1 = (case Load (n_store n) of Some s \<Rightarrow> n\<lparr>n_state := s\<rparr> | None \<Rightarrow> n)
      in if n_peers n1 = [] then
           becomeLeaderLocked (persistLocked (n1\<lparr>n_state :=
             (n_state n1)\<lparr>ps_CurrentTerm := u64 (n_term n1 + 1), ps_VotedFor := n_selfID n1\<rparr>\<rparr>))
         else n1)"

end
