(* ===== verification/Raft_Replication.thy ===== *)
theory Raft_Replication
  imports Raft
begin

text \<open>
  Log replication of a Raft node. The theory shows that a node never indexes its log out of range
  and applies each committed entry once and in order, whatever it receives; that an accepted
  AppendEntries makes the log agree with the leader's, when equal terms mean equal logs; that under the same
  condition the back-off of a leader and a follower with diverged logs ends; and that the match index reported by a follower with a
  stale suffix makes a leader commit an entry that no follower has.
\<close>

section \<open>Frames of the operations\<close>

lemma persist_fields [simp]:
  "n_selfID (persistLocked n) = n_selfID n" "n_peers (persistLocked n) = n_peers n"
  "n_peerAddrMap (persistLocked n) = n_peerAddrMap n"
  "n_state (persistLocked n) = n_state n" "n_role (persistLocked n) = n_role n"
  "n_commitIndex (persistLocked n) = n_commitIndex n" "n_lastApplied (persistLocked n) = n_lastApplied n"
  "n_nextIndex (persistLocked n) = n_nextIndex n" "n_matchIndex (persistLocked n) = n_matchIndex n"
  "n_voteGranted (persistLocked n) = n_voteGranted n" "n_proposals (persistLocked n) = n_proposals n"
  "n_storeWorks (persistLocked n) = n_storeWorks n" "n_applied (persistLocked n) = n_applied n"
  "n_crashed (persistLocked n) = n_crashed n" "n_leaderID (persistLocked n) = n_leaderID n"
  by (simp_all add: persistLocked_def)

lemma step_down_fields [simp]:
  "n_selfID (step_down n t) = n_selfID n" "n_peers (step_down n t) = n_peers n"
  "n_peerAddrMap (step_down n t) = n_peerAddrMap n"
  "n_term (step_down n t) = t" "n_votedFor (step_down n t) = []" "n_log (step_down n t) = n_log n"
  "n_role (step_down n t) = Follower" "n_commitIndex (step_down n t) = n_commitIndex n"
  "n_lastApplied (step_down n t) = n_lastApplied n" "n_applied (step_down n t) = n_applied n"
  "n_crashed (step_down n t) = n_crashed n" "n_storeWorks (step_down n t) = n_storeWorks n"
  "n_voteGranted (step_down n t) = n_voteGranted n"
  by (simp_all add: step_down_def)

lemma becomeLeader_fields [simp]:
  "n_selfID (becomeLeaderLocked n) = n_selfID n" "n_peers (becomeLeaderLocked n) = n_peers n"
  "n_peerAddrMap (becomeLeaderLocked n) = n_peerAddrMap n"
  "n_state (becomeLeaderLocked n) = n_state n" "n_role (becomeLeaderLocked n) = Leader"
  "n_commitIndex (becomeLeaderLocked n) = n_commitIndex n"
  "n_lastApplied (becomeLeaderLocked n) = n_lastApplied n"
  "n_applied (becomeLeaderLocked n) = n_applied n" "n_crashed (becomeLeaderLocked n) = n_crashed n"
  "n_store (becomeLeaderLocked n) = n_store n" "n_storeWorks (becomeLeaderLocked n) = n_storeWorks n"
  "n_voteGranted (becomeLeaderLocked n) = n_voteGranted n"
  by (simp_all add: becomeLeaderLocked_def Let_def split: prod.split)

lemma cast_vote_fields [simp]:
  "n_selfID (cast_vote n a) = n_selfID n" "n_peers (cast_vote n a) = n_peers n"
  "n_peerAddrMap (cast_vote n a) = n_peerAddrMap n"
  "n_term (cast_vote n a) = n_term n" "n_log (cast_vote n a) = n_log n"
  "n_role (cast_vote n a) = n_role n" "n_commitIndex (cast_vote n a) = n_commitIndex n"
  "n_lastApplied (cast_vote n a) = n_lastApplied n" "n_applied (cast_vote n a) = n_applied n"
  "n_crashed (cast_vote n a) = n_crashed n" "n_storeWorks (cast_vote n a) = n_storeWorks n"
  "n_voteGranted (cast_vote n a) = n_voteGranted n"
  by (simp_all add: cast_vote_def)

lemma accept_leader_fields [simp]:
  "n_selfID (accept_leader n a) = n_selfID n" "n_peers (accept_leader n a) = n_peers n"
  "n_peerAddrMap (accept_leader n a) = n_peerAddrMap n"
  "n_term (accept_leader n a) = ae_Term a" "n_votedFor (accept_leader n a) = []"
  "n_log (accept_leader n a) = n_log n" "n_role (accept_leader n a) = Follower"
  "n_commitIndex (accept_leader n a) = n_commitIndex n"
  "n_lastApplied (accept_leader n a) = n_lastApplied n" "n_applied (accept_leader n a) = n_applied n"
  "n_crashed (accept_leader n a) = n_crashed n" "n_storeWorks (accept_leader n a) = n_storeWorks n"
  by (simp_all add: accept_leader_def)

section \<open>Accesses to the log\<close>

text \<open>Within its bounds every loop over the log returns; the merge is given by the longest matching prefix.\<close>

lemma log_at_in [simp]: "i < length log \<Longrightarrow> log_at log i = Some (log ! i)"
  by (simp add: log_at_def)

lemma conflict_start_in: "k \<le> length log \<Longrightarrow> \<exists>c \<le> k. conflict_start log ct k = Some c \<and> (0 < k \<longrightarrow> 0 < c)"
  by (induction log ct k rule: conflict_start.induct) (auto intro: le_SucI)

fun match_len :: "LogEntry list \<Rightarrow> nat \<Rightarrow> LogEntry list \<Rightarrow> nat" where
  "match_len log p [] = 0"
| "match_len log p (e # es) =
     (if p < length log \<and> le_Term (log ! p) = le_Term e then Suc (match_len log (Suc p) es) else 0)"

definition merged :: "LogEntry list \<Rightarrow> nat \<Rightarrow> LogEntry list \<Rightarrow> LogEntry list" where
  "merged log p es =
     (if match_len log p es = length es then log
      else take (p + match_len log p es) log @ drop (match_len log p es) es)"

lemma match_len_le: "match_len log p es \<le> length es"
  by (induction es arbitrary: p) auto

lemma match_len_terms:
  "i < match_len log p es \<Longrightarrow> p + i < length log \<and> le_Term (log ! (p + i)) = le_Term (es ! i)"
proof (induction es arbitrary: p i)
  case (Cons e es)
  show ?case
  proof (cases i)
    case (Suc j)
    then have "Suc p + j < length log \<and> le_Term (log ! (Suc p + j)) = le_Term (es ! j)"
      using Cons.IH [of j "Suc p"] Cons.prems by (simp split: if_splits)
    then show ?thesis using Suc by simp
  qed (use Cons.prems in \<open>simp split: if_splits\<close>)
qed simp

lemma merge_entries_merged: "p \<le> length log \<Longrightarrow> merge_entries log p es = Some (merged log p es)"
  by (induction es arbitrary: p) (auto simp: merged_def not_less)

lemma prev_conflict_in:
  assumes "p \<le> length log"
  obtains "prev_conflict log p t = Some None" "0 < p \<longrightarrow> le_Term (log ! (p - 1)) = t"
  | ci where "prev_conflict log p t = Some (Some (ci, le_Term (log ! (p - 1))))" "0 < p" "le_Term (log ! (p - 1)) \<noteq> t"
      "0 < ci" "ci \<le> p"
proof (cases "0 < p \<and> le_Term (log ! (p - 1)) \<noteq> t")
  case True
  moreover obtain ci where "conflict_start log (le_Term (log ! (p - 1))) p = Some ci" "0 < ci" "ci \<le> p"
    using conflict_start_in [OF assms] True by blast
  moreover have "log_at log (p - 1) = Some (log ! (p - 1))" using assms True by (intro log_at_in) linarith
  ultimately show ?thesis by (intro that(2) [of ci]) (simp_all add: prev_conflict_def)
next
  case False
  moreover have "0 < p \<longrightarrow> log_at log (p - 1) = Some (log ! (p - 1))" using assms by (auto intro!: log_at_in)
  ultimately show ?thesis by (intro that(1)) (auto simp: prev_conflict_def)
qed

text \<open>\<open>appendEntriesFromLeader\<close> does not panic: it refuses and leaves the node alone, or merges.\<close>

lemma append_from_leader_cases:
  obtains ci ct where "appendEntriesFromLeader n p t es = Some (n, False, ci, ct)"
  | "appendEntriesFromLeader n p t es =
       Some (persistLocked (n\<lparr>n_state := (n_state n)\<lparr>ps_Log := merged (n_log n) p es\<rparr>\<rparr>), True, 0, 0)"
proof (cases "p \<le> length (n_log n)")
  case True
  then show ?thesis
    by (rule prev_conflict_in [where t = t])
      (use that True merge_entries_merged [OF True, of es] in \<open>auto simp: appendEntriesFromLeader_def Let_def\<close>)
next
  case False
  then show ?thesis using that(1) by (simp add: appendEntriesFromLeader_def Let_def)
qed

lemma commit_scan_in: "k \<le> length (n_log n) \<Longrightarrow> \<exists>r. commit_scan n k = Some r"
  by (induction k) auto

lemma last_of_term_in: "k \<le> length log \<Longrightarrow> \<exists>r. last_of_term log t k = Some r"
  by (induction k) auto

lemma retry_next_in: "\<exists>k. retry_next n reply = Some k"
  using last_of_term_in [of "length (n_log n)" "n_log n"] by (auto simp: retry_next_def)

lemma append_args_in: "\<exists>a. append_args n k = Some a"
  by (auto simp: append_args_def prev_term_def Let_def)

lemma send_loop_frame:
  "send_append_loop n ps = (n', out) \<Longrightarrow> \<exists>nx. n' = n\<lparr>n_nextIndex := nx\<rparr>"
proof (induction ps arbitrary: n n' out)
  case Nil
  then show ?case by (metis Node.surjective Node.update_convs(10) Pair_inject send_append_loop.simps(1))
next
  case (Cons p ps)
  let ?n1 = "if map_get (n_nextIndex n) p > length (n_log n)
      then n\<lparr>n_nextIndex := (n_nextIndex n)(p \<mapsto> clamp_next n p)\<rparr> else n"
  obtain n2 out2 where r: "send_append_loop ?n1 ps = (n2, out2)" by (cases "send_append_loop ?n1 ps")
  obtain a where "append_args ?n1 (clamp_next n p) = Some a" using append_args_in by blast
  then have "n' = n2" using Cons.prems r by (simp add: Let_def split: prod.splits)
  moreover obtain nx where "n2 = ?n1\<lparr>n_nextIndex := nx\<rparr>" using Cons.IH [OF r] by blast
  ultimately show ?case by (auto split: if_splits)
qed

lemma send_all_frame: "sendAppendEntriesToAll n = (n', out) \<Longrightarrow> \<exists>nx. n' = n\<lparr>n_nextIndex := nx\<rparr>"
proof (cases "n_role n = Leader")
  case False
  assume "sendAppendEntriesToAll n = (n', out)"
  then have "n' = n\<lparr>n_nextIndex := n_nextIndex n\<rparr>" using False by (simp add: sendAppendEntriesToAll_def)
  then show ?thesis by blast
qed (simp add: sendAppendEntriesToAll_def send_loop_frame)

section \<open>Applying entries\<close>

lemma apply_one_in:
  "n_lastApplied n < length (n_log n) \<Longrightarrow>
   apply_one n = Some (n\<lparr>n_lastApplied := Suc (n_lastApplied n),
     n_applied := n_applied n @ [(Suc (n_lastApplied n), le_Command (n_log n ! n_lastApplied n))],
     n_signalled := (if Suc (n_lastApplied n) \<in> set (n_proposals n) then n_signalled n @ [Suc (n_lastApplied n)] else n_signalled n),
     n_proposals := removeAll (Suc (n_lastApplied n)) (n_proposals n)\<rparr>)"
  by (simp add: apply_one_def)

lemma apply_one_fields:
  assumes "apply_one n = Some n'"
  shows "n_commitIndex n' = n_commitIndex n" "n_state n' = n_state n" "n_role n' = n_role n"
    "n_selfID n' = n_selfID n" "n_peers n' = n_peers n" "n_nextIndex n' = n_nextIndex n" "n_matchIndex n' = n_matchIndex n"
    "n_voteGranted n' = n_voteGranted n" "n_store n' = n_store n" "n_storeWorks n' = n_storeWorks n"
    "n_peerAddrMap n' = n_peerAddrMap n"
  using assms by (auto simp: apply_one_def Let_def)

lemma apply_frame [simp]:
  "n_commitIndex (applyCommittedLocked n) = n_commitIndex n"
  "n_state (applyCommittedLocked n) = n_state n" "n_role (applyCommittedLocked n) = n_role n"
  "n_selfID (applyCommittedLocked n) = n_selfID n" "n_peers (applyCommittedLocked n) = n_peers n"
  "n_nextIndex (applyCommittedLocked n) = n_nextIndex n" "n_matchIndex (applyCommittedLocked n) = n_matchIndex n"
  "n_voteGranted (applyCommittedLocked n) = n_voteGranted n" "n_store (applyCommittedLocked n) = n_store n"
  "n_storeWorks (applyCommittedLocked n) = n_storeWorks n"
  "n_peerAddrMap (applyCommittedLocked n) = n_peerAddrMap n"
  by (induction n rule: applyCommittedLocked.induct;
      subst applyCommittedLocked.simps; auto dest: apply_one_fields split: option.split)+

text \<open>The entries applied under the indices from \<open>i\<close> on, up to and including \<open>j\<close>.\<close>

definition applied_range :: "LogEntry list \<Rightarrow> nat \<Rightarrow> nat \<Rightarrow> (nat \<times> bytes option) list" where
  "applied_range log i j = map (\<lambda>k. (k, le_Command (log ! (k - 1)))) [i..<Suc j]"

lemma apply_exact:
  assumes "n_lastApplied n \<le> n_commitIndex n" and "n_commitIndex n \<le> length (n_log n)"
  shows "n_lastApplied (applyCommittedLocked n) = n_commitIndex n \<and>
    n_crashed (applyCommittedLocked n) = n_crashed n \<and>
    n_applied (applyCommittedLocked n) =
      n_applied n @ applied_range (n_log n) (Suc (n_lastApplied n)) (n_commitIndex n)"
  using assms
proof (induction n rule: applyCommittedLocked.induct)
  case (1 n)
  show ?case
  proof (cases "n_lastApplied n < n_commitIndex n")
    case True
    then have "n_lastApplied n < length (n_log n)" using 1 by simp
    note one = apply_one_in [OF this]
    have "[Suc (n_lastApplied n)..<Suc (n_commitIndex n)] =
        Suc (n_lastApplied n) # [Suc (Suc (n_lastApplied n))..<Suc (n_commitIndex n)]"
      using True by (intro upt_conv_Cons) simp
    then show ?thesis
      using 1(1) [OF True one] 1(2,3) True one
      by (simp add: applyCommittedLocked.simps [of n] applied_range_def)
  next
    case False
    then show ?thesis using 1(2) by (simp add: applyCommittedLocked.simps [of n] applied_range_def)
  qed
qed

lemma commit_scan_Some:
  "commit_scan n k = Some (Some idx) \<Longrightarrow>
   n_commitIndex n < idx \<and> idx \<le> k \<and> 0 < idx \<and> le_Term (n_log n ! (idx - 1)) = n_term n \<and>
   quorum n \<le> replicated n idx"
  by (induction k) (auto simp: log_at_def split: if_splits option.splits)

section \<open>The node invariant\<close>

datatype event = Timeout | Receive RaftMessage | Proposal "bytes option" | Heartbeat

definition handle :: "Node \<Rightarrow> event \<Rightarrow> Node" where
  "handle n ev =
     (case ev of
        Timeout \<Rightarrow> fst (handleElectionTimeout n)
      | Receive msg \<Rightarrow> fst (run_msg n msg)
      | Proposal cmd \<Rightarrow> fst (Propose n cmd)
      | Heartbeat \<Rightarrow> fst (run_heartbeat n))"

text \<open>
  A node in order: the program has not panicked, everything committed has been applied, and the indices applied
  are those from 1 to the last one, each once and in this order.
\<close>

definition node_ok :: "Node \<Rightarrow> bool" where
  "node_ok n \<longleftrightarrow>
     \<not> n_crashed n \<and> n_commitIndex n \<le> n_lastApplied n \<and> map fst (n_applied n) = [1..<Suc (n_lastApplied n)]"

text \<open>
  A step in order: it does not panic, and what it applies are the commands of the log at the next indices, none
  of them beyond the commit index or the log.
\<close>

definition node_step :: "Node \<Rightarrow> Node \<Rightarrow> bool" where
  "node_step n n' \<longleftrightarrow>
     \<not> n_crashed n' \<and> n_commitIndex n' \<le> n_lastApplied n' \<and> n_lastApplied n \<le> n_lastApplied n' \<and>
     n_applied n' = n_applied n @ applied_range (n_log n') (Suc (n_lastApplied n)) (n_lastApplied n') \<and>
     (n_lastApplied n < n_lastApplied n' \<longrightarrow> n_lastApplied n' = n_commitIndex n' \<and> n_lastApplied n' \<le> length (n_log n'))"

lemma step_keeps_ok: "node_ok n \<Longrightarrow> node_step n n' \<Longrightarrow> node_ok n'"
  using upt_add_eq_append [of 1 "Suc (n_lastApplied n)" "n_lastApplied n' - n_lastApplied n"]
  by (auto simp: node_ok_def node_step_def applied_range_def comp_def)

definition same_applied :: "Node \<Rightarrow> Node \<Rightarrow> bool" where
  "same_applied n m \<longleftrightarrow>
     n_crashed m = n_crashed n \<and> n_commitIndex m = n_commitIndex n \<and> n_lastApplied m = n_lastApplied n \<and>
     n_applied m = n_applied n"

lemma step_same: "node_ok n \<Longrightarrow> same_applied n m \<Longrightarrow> node_step n m"
  by (simp add: node_ok_def node_step_def same_applied_def applied_range_def)

lemma step_apply:
  assumes "node_ok n" and "same_applied n m" and "c \<le> length (n_log m)"
  shows "node_step n (applyCommittedLocked (m\<lparr>n_commitIndex := c\<rparr>))"
proof (cases "n_lastApplied m \<le> c")
  case True
  then show ?thesis
    using assms apply_exact [of "m\<lparr>n_commitIndex := c\<rparr>"] by (simp add: node_ok_def node_step_def same_applied_def)
next
  case False
  then have "applyCommittedLocked (m\<lparr>n_commitIndex := c\<rparr>) = m\<lparr>n_commitIndex := c\<rparr>"
    by (simp add: applyCommittedLocked.simps [of "m\<lparr>n_commitIndex := c\<rparr>"])
  then show ?thesis using assms False by (simp add: node_ok_def node_step_def same_applied_def applied_range_def)
qed

lemma advance_step:
  assumes "node_ok n" and "same_applied n m"
  shows "node_step n (advanceCommitIndexLocked m)"
proof -
  obtain r where r: "commit_scan m (length (n_log m)) = Some r" using commit_scan_in [OF le_refl] by blast
  have "node_step n (applyCommittedLocked (m\<lparr>n_commitIndex := idx\<rparr>))" if "r = Some idx" for idx
    using commit_scan_Some [of m "length (n_log m)" idx] r that by (intro step_apply [OF assms]) simp
  then show ?thesis using step_same [OF assms] by (simp add: advanceCommitIndexLocked_def r split: option.split)
qed

lemma follow_step: "node_ok n \<Longrightarrow> same_applied n m \<Longrightarrow> node_step n (follow_commit m c)"
  by (simp add: follow_commit_def step_apply step_same)

lemma sent_same: "sendAppendEntriesToAll m = (m', out) \<Longrightarrow> same_applied n m \<Longrightarrow> same_applied n m'"
  using send_all_frame [of m m' out] by (auto simp: same_applied_def)

lemma timeout_step: "node_ok n \<Longrightarrow> node_step n (fst (handleElectionTimeout n))"
  by (rule step_same) (simp_all add: handleElectionTimeout_def Let_def same_applied_def)

lemma request_vote_step: "node_ok n \<Longrightarrow> node_step n (fst (handleRequestVote n msg))"
  by (rule step_same) (simp_all add: handleRequestVote_def Let_def same_applied_def split: option.split)

lemma vote_response_step:
  assumes "node_ok n"
  shows "node_step n (fst (handleVoteResponse n msg))"
proof (rule step_same [OF assms])
  show "same_applied n (fst (handleVoteResponse n msg))"
  proof (cases "DecodeRequestVoteReply (rm_Body msg)")
    case (Some reply)
    let ?n1 = "n\<lparr>n_voteGranted := List.insert (rm_From msg) (n_voteGranted n)\<rparr>"
    obtain n2 out where s: "sendAppendEntriesToAll (becomeLeaderLocked ?n1) = (n2, out)"
      by (cases "sendAppendEntriesToAll (becomeLeaderLocked ?n1)")
    have "same_applied n n2" by (rule sent_same [OF s]) (simp add: same_applied_def)
    then show ?thesis using s by (simp add: handleVoteResponse_def Some Let_def same_applied_def)
  qed (simp add: handleVoteResponse_def same_applied_def)
qed

lemma append_entries_step:
  assumes "node_ok n"
  shows "node_step n (fst (handleAppendEntries n msg))"
proof (cases "DecodeAppendEntriesArgs (rm_Body msg)")
  case None
  then show ?thesis using assms by (simp add: handleAppendEntries_def step_same same_applied_def)
next
  case (Some args)
  define n1 where "n1 = accept_leader (if ae_Term args > n_term n then accept_leader n args else n) args"
  have n1: "same_applied n n1" by (simp add: n1_def same_applied_def)
  have "same_applied n (persistLocked (n1\<lparr>n_state := st\<rparr>))" for st using n1 by (simp add: same_applied_def)
  note follow = follow_step [OF assms this]
  show ?thesis
    by (rule append_from_leader_cases [of n1 "ae_PrevLogIndex args" "ae_PrevLogTerm args" "ae_Entries args"])
      (use assms n1 follow step_same in \<open>auto simp: handleAppendEntries_def Some n1_def [symmetric] Let_def same_applied_def\<close>)
qed

lemma append_response_step:
  assumes "node_ok n"
  shows "node_step n (fst (handleAppendResponse n msg))"
proof (cases "DecodeAppendEntriesReply (rm_Body msg)")
  case (Some reply)
  obtain k where "retry_next n reply = Some k" using retry_next_in by blast
  then show ?thesis
    using step_same [OF assms] advance_step [OF assms] by (simp add: handleAppendResponse_def Some Let_def same_applied_def)
qed (use assms step_same in \<open>simp add: handleAppendResponse_def same_applied_def\<close>)

lemma run_msg_step:
  assumes "node_ok n"
  shows "node_step n (fst (run_msg n msg))"
proof -
  obtain n1 out reset where d: "dispatchMsg n msg = (n1, out, reset)" by (cases "dispatchMsg n msg")
  have "node_step n (fst (dispatchMsg n msg))"
    using assms step_same [OF assms, of n]
    by (simp add: dispatchMsg_def request_vote_step vote_response_step append_entries_step append_response_step same_applied_def)
  then show ?thesis by (simp add: run_msg_def d node_step_def)
qed

lemma propose_step:
  assumes "node_ok n"
  shows "node_step n (fst (Propose n cmd))"
proof (cases "n_role n = Leader")
  case True
  let ?e = "\<lparr>le_Term = n_term n, le_Index = length (n_log n) + 1, le_Command = cmd\<rparr>"
  let ?n1 = "persistLocked (n\<lparr>n_state := (n_state n)\<lparr>ps_Log := n_log n @ [?e]\<rparr>\<rparr>)"
  let ?n2 = "?n1\<lparr>n_proposals := List.insert (length (n_log n) + 1) (n_proposals ?n1)\<rparr>"
  obtain n3 out where s: "sendAppendEntriesToAll ?n2 = (n3, out)" by (cases "sendAppendEntriesToAll ?n2")
  have "same_applied n n3" by (rule sent_same [OF s]) (simp add: same_applied_def)
  then show ?thesis using True s advance_step [OF assms] by (simp add: Propose_def Let_def)
qed (use assms step_same in \<open>simp add: Propose_def same_applied_def\<close>)

lemma handle_step:
  assumes "node_ok n"
  shows "node_step n (handle n ev)"
proof (cases ev)
  case Heartbeat
  obtain n' out where s: "sendAppendEntriesToAll n = (n', out)" by (cases "sendAppendEntriesToAll n")
  have "same_applied n n'" by (rule sent_same [OF s]) (simp add: same_applied_def)
  then show ?thesis
    using step_same [OF assms] s by (simp add: handle_def Heartbeat run_heartbeat_def same_applied_def)
qed (simp_all add: handle_def assms timeout_step run_msg_step propose_step)

lemma Start_ok: "node_ok (Start (NewNode self peers store))"
  by (simp add: Start_def NewNode_def node_ok_def Let_def split: option.split)

lemma reached_ok: "node_ok (foldl handle (Start (NewNode self peers store)) evs)"
  by (induction evs rule: rev_induct) (simp_all add: Start_ok step_keeps_ok handle_step)

text \<open>C12. A node never indexes its log out of range, and applies the committed entries once each and in order:
  started from any state file, after any sequence of timeouts, proposals, heartbeats and received messages, well
  formed or not, the node has not panicked, everything committed is applied, and the indices given to the state
  machine so far are those from 1 to the last one applied; and the next event applies exactly the commands that
  its log then has at the following indices, up to the commit index.\<close>

theorem node_never_panics:
  "let n = foldl handle (Start (NewNode self peers store)) evs; n' = handle n ev
   in \<not> n_crashed n \<and> n_commitIndex n \<le> n_lastApplied n \<and> map fst (n_applied n) = [1..<Suc (n_lastApplied n)] \<and>
      n_applied n' = n_applied n @
        map (\<lambda>i. (i, le_Command (n_log n' ! (i - 1)))) [Suc (n_lastApplied n)..<Suc (n_lastApplied n')] \<and>
      (n_lastApplied n' = n_lastApplied n \<or>
         n_lastApplied n < n_lastApplied n' \<and> n_lastApplied n' = n_commitIndex n' \<and> n_commitIndex n' \<le> length (n_log n'))"
  using reached_ok [of self peers store evs] handle_step [OF reached_ok, of self peers store evs ev]
  by (auto simp: node_ok_def node_step_def applied_range_def Let_def)

section \<open>Agreement after an accepted append\<close>

text \<open>Equal terms at an index mean equal logs up to there.\<close>

definition log_matching :: "LogEntry list \<Rightarrow> LogEntry list \<Rightarrow> bool" where
  "log_matching a b \<longleftrightarrow>
     list_all (\<lambda>i. le_Term (a ! i) = le_Term (b ! i) \<longrightarrow> take (Suc i) a = take (Suc i) b)
       [0..<min (length a) (length b)]"

lemma log_matchingD:
  "log_matching a b \<Longrightarrow> i < length a \<Longrightarrow> i < length b \<Longrightarrow> le_Term (a ! i) = le_Term (b ! i) \<Longrightarrow>
   take (Suc i) a = take (Suc i) b"
  by (auto simp: log_matching_def list_all_iff)

lemma merge_agrees:
  assumes "log_matching log l" and "p \<le> length log" and "p \<le> length l" and "take p log = take p l"
  shows "take (length l) (merged log p (drop p l)) = l"
proof -
  let ?k = "match_len log p (drop p l)"
  have pre: "take (p + j) log = take (p + j) l" if j: "j \<le> ?k" for j
    using j
  proof (induction j)
    case (Suc j)
    then have "p + j < length log \<and> le_Term (log ! (p + j)) = le_Term (drop p l ! j)"
      using match_len_terms [of j log p "drop p l"] by simp
    moreover have "p + j < length l" using Suc.prems match_len_le [of log p "drop p l"] by simp
    ultimately show ?case using log_matchingD [OF assms(1), of "p + j"] by simp
  qed (simp add: assms(4))
  show ?thesis
  proof (cases "?k = length (drop p l)")
    case True
    then have "merged log p (drop p l) = log" by (simp add: merged_def)
    then show ?thesis using pre [of ?k] True assms(3) by simp
  next
    case False
    then have "merged log p (drop p l) = take (p + ?k) l @ drop ?k (drop p l)"
      using pre [of ?k] by (simp add: merged_def)
    also have "\<dots> = l" by (metis append_take_drop_id drop_drop add.commute)
    finally show ?thesis by simp
  qed
qed

section \<open>Repair of diverged logs\<close>

text \<open>
  One exchange: the leader sends its AppendEntries for a peer, the follower answers, the leader
  handles the answer.
\<close>

definition append_msg :: "Node \<Rightarrow> AppendEntriesArgs \<Rightarrow> RaftMessage" where
  "append_msg l args = raft_msg l MsgRaftAppendEntries (EncodeAppendEntriesArgs args)"

definition exchange :: "Node \<times> Node \<Rightarrow> Node \<times> Node" where
  "exchange lf =
     (let (l, f) = lf
      in case append_args l (clamp_next l (n_selfID f)) of
           None \<Rightarrow> (l\<lparr>n_crashed := True\<rparr>, f)
         | Some args \<Rightarrow>
             (let (f', out, _) = handleAppendEntries f (append_msg l args);
                  l' = fold (\<lambda>m n. fst (handleAppendResponse n m)) (map snd out) l
              in (l', f')))"

lemma append_args_next [simp]: "append_args (n\<lparr>n_nextIndex := nx\<rparr>) k = append_args n k"
  by (simp add: append_args_def prev_term_def Let_def)

lemma send_loop_out:
  "peer \<in> set ps \<Longrightarrow> distinct ps \<Longrightarrow> peerAddr n peer \<noteq> [] \<Longrightarrow> send_append_loop n ps = (n', out) \<Longrightarrow>
   append_args n (clamp_next n peer) = Some args \<Longrightarrow> (peerAddr n peer, append_msg n args) \<in> set out"
proof (induction ps arbitrary: n n' out)
  case (Cons p ps)
  let ?n1 = "if map_get (n_nextIndex n) p > length (n_log n)
      then n\<lparr>n_nextIndex := (n_nextIndex n)(p \<mapsto> clamp_next n p)\<rparr> else n"
  obtain n2 out2 where r: "send_append_loop ?n1 ps = (n2, out2)" by (cases "send_append_loop ?n1 ps")
  have same: "peerAddr ?n1 q = peerAddr n q" "raft_msg ?n1 ty b = raft_msg n ty b"
    "append_args ?n1 k = append_args n k" for q ty b k
    by (simp_all add: peerAddr_def raft_msg_def)
  obtain a where a: "append_args n (clamp_next n p) = Some a" using append_args_in by blast
  then have out: "out = send_to ?n1 p (append_msg n a) @ out2"
    using Cons.prems(4) r same by (simp add: Let_def append_msg_def split: prod.splits)
  show ?case
  proof (cases "peer = p")
    case True
    then show ?thesis using Cons.prems(3,5) same(1) a by (simp add: out send_to_def Let_def)
  next
    case False
    then have "clamp_next ?n1 peer = clamp_next n peer" by (simp add: clamp_next_def Let_def)
    moreover have "append_msg ?n1 args = append_msg n args" by (simp add: append_msg_def same)
    ultimately show ?thesis
      using Cons.IH [OF _ _ _ r] Cons.prems False same(1,3) by (simp add: out)
  qed
qed simp

text \<open>
  What the logs of a Raft cluster satisfy: if the follower has an entry of a term at an index up to
  one where the leader has an entry of that term, both logs are equal up to the former.
\<close>

definition term_prefix :: "LogEntry list \<Rightarrow> LogEntry list \<Rightarrow> bool" where
  "term_prefix f l \<longleftrightarrow>
     list_all (\<lambda>i. list_all (\<lambda>j. i \<le> j \<and> le_Term (f ! i) = le_Term (l ! j) \<longrightarrow> take (Suc i) f = take (Suc i) l)
       [0..<length l]) [0..<length f]"

lemma term_prefixD:
  "term_prefix f l \<Longrightarrow> i < length f \<Longrightarrow> j < length l \<Longrightarrow> i \<le> j \<Longrightarrow> le_Term (f ! i) = le_Term (l ! j) \<Longrightarrow>
   take (Suc i) f = take (Suc i) l"
  by (fastforce simp: term_prefix_def list_all_iff)

lemma term_prefix_matching: "term_prefix f l \<Longrightarrow> log_matching f l"
  using term_prefixD [of f l] by (auto simp: log_matching_def list_all_iff)

lemma last_of_term_Some:
  "last_of_term log t k = Some (Some i) \<Longrightarrow> 0 < i \<and> i \<le> k \<and> le_Term (log ! (i - 1)) = t"
  by (induction k) (auto simp: log_at_def split: if_splits option.splits)

lemma take_Suc_nth_eq: "take (Suc i) a = take (Suc i) b \<Longrightarrow> i < length a \<Longrightarrow> i < length b \<Longrightarrow> a ! i = b ! i"
  by (metis lessI nth_take)

lemma advance_fields [simp]:
  "n_selfID (advanceCommitIndexLocked n) = n_selfID n" "n_peers (advanceCommitIndexLocked n) = n_peers n"
  "n_state (advanceCommitIndexLocked n) = n_state n" "n_role (advanceCommitIndexLocked n) = n_role n"
  "n_nextIndex (advanceCommitIndexLocked n) = n_nextIndex n"
  "n_matchIndex (advanceCommitIndexLocked n) = n_matchIndex n"
  "n_peerAddrMap (advanceCommitIndexLocked n) = n_peerAddrMap n"
  "n_voteGranted (advanceCommitIndexLocked n) = n_voteGranted n"
  "n_store (advanceCommitIndexLocked n) = n_store n" "n_storeWorks (advanceCommitIndexLocked n) = n_storeWorks n"
  by (simp_all add: advanceCommitIndexLocked_def split: option.split)

lemma follow_fields [simp]:
  "n_selfID (follow_commit n c) = n_selfID n" "n_peers (follow_commit n c) = n_peers n"
  "n_state (follow_commit n c) = n_state n" "n_role (follow_commit n c) = n_role n"
  "n_peerAddrMap (follow_commit n c) = n_peerAddrMap n"
  "n_store (follow_commit n c) = n_store n" "n_storeWorks (follow_commit n c) = n_storeWorks n"
  by (simp_all add: follow_commit_def)

text \<open>The arguments of a message that starts after the first \<open>p\<close> entries.\<close>

definition args_after :: "Node \<Rightarrow> nat \<Rightarrow> AppendEntriesArgs" where
  "args_after l p =
    \<lparr>ae_Term = n_term l, ae_LeaderID = n_selfID l, ae_PrevLogIndex = p,
     ae_PrevLogTerm = (if 0 < p then le_Term (n_log l ! (p - 1)) else 0),
     ae_Entries = drop p (n_log l), ae_LeaderCommit = n_commitIndex l\<rparr>"

lemma append_args_at:
  assumes "p \<le> length (n_log l)" and "p < 2 ^ 64"
  shows "append_args l (Suc p) = Some (args_after l p)"
proof -
  have "Suc p + (2 ^ 64 - 1) = p + 2 ^ 64" by simp
  then have u: "u64 (Suc p + (2 ^ 64 - 1)) = p" using assms(2) by (simp only: u64_def mod_add_self2 mod_less)
  have "prev_term l p = Some (if 0 < p then le_Term (n_log l ! (p - 1)) else 0)"
    using assms(1) by (auto simp: prev_term_def log_at_def)
  then show ?thesis using assms(1) unfolding append_args_def u Let_def by (simp add: args_after_def)
qed

text \<open>A leader and a follower whose exchange is under way.\<close>

definition repairing :: "Node \<Rightarrow> Node \<Rightarrow> bool" where
  "repairing l f \<longleftrightarrow>
     n_role l = Leader \<and> peerAddr f (n_selfID l) \<noteq> [] \<and> valid_utf8 (n_selfID l) \<and>
     n_term f \<le> n_term l \<and> n_term l < 2 ^ 64 \<and> n_commitIndex l < 2 ^ 64 \<and>
     length (n_log l) + length (n_log f) + 1 < 2 ^ 64 \<and> list_all wf_LogEntry (n_log l) \<and>
     list_all (\<lambda>e. 0 < le_Term e \<and> wf_LogEntry e) (n_log f) \<and>
     1 \<le> clamp_next l (n_selfID f)"

lemma clamp_le: "clamp_next l peer \<le> length (n_log l) + 1"
  by (simp add: clamp_next_def Let_def)

lemma length_merge: "length (merged log p es) \<le> length log + length es"
  by (auto simp: merged_def intro!: add_mono)

text \<open>The follower's side of an exchange, on the decoded message.\<close>

lemma follower_answer:
  assumes "repairing l f" and "clamp_next l (n_selfID f) = Suc p"
    and "n1 = accept_leader (if n_term l > n_term f then accept_leader f (args_after l p) else f)
      (args_after l p)"
    and "appendEntriesFromLeader n1 p (if 0 < p then le_Term (n_log l ! (p - 1)) else 0) (drop p (n_log l)) =
      Some (n2, ok, ci, ct)"
  shows "handleAppendEntries f (append_msg l (args_after l p)) =
    (let n3 = (if ok then follow_commit n2 (n_commitIndex l) else n2)
     in (n3, [(peerAddr f (n_selfID l), raft_msg n3 MsgRaftAppendResponse (EncodeAppendEntriesReply
          \<lparr>ar_Term = n_term l, ar_Success = ok, ar_MatchIndex = (if ok then length (n_log n2) else 0),
           ar_ConflictIndex = (if ok then 0 else ci), ar_ConflictTerm = (if ok then 0 else ct)\<rparr>))], True))"
proof -
  have p: "p \<le> length (n_log l)" using clamp_le [of l "n_selfID f"] assms(2) by simp
  have p64: "p < 2 ^ 64" using p assms(1) by (simp add: repairing_def)
  have "le_Term (n_log l ! (p - 1)) < 2 ^ 64" if "0 < p"
    using that p assms(1) by (auto simp: repairing_def list_all_length wf_LogEntry_def)
  then have "wf_AppendEntriesArgs (args_after l p)"
    using assms(1) p64 by (auto simp: args_after_def wf_AppendEntriesArgs_def repairing_def list_all_iff dest: in_set_dropD)
  then have dec: "DecodeAppendEntriesArgs (rm_Body (append_msg l (args_after l p))) = Some (args_after l p)"
    by (simp add: append_msg_def raft_msg_def append_args_codec.dec_enc)
  have n2: "n_peerAddrMap n2 = n_peerAddrMap f"
    by (rule append_from_leader_cases [of n1 p "if 0 < p then le_Term (n_log l ! (p - 1)) else 0" "drop p (n_log l)"])
      (use assms(3,4) in auto)
  define a where "a = args_after l p"
  have a: "ae_Term a = n_term l" "ae_LeaderID a = n_selfID l" "ae_LeaderCommit a = n_commitIndex l"
    "ae_PrevLogIndex a = p" "ae_PrevLogTerm a = (if 0 < p then le_Term (n_log l ! (p - 1)) else 0)"
    "ae_Entries a = drop p (n_log l)"
    by (simp_all add: a_def args_after_def)
  have t: "n_term n1 = n_term l" "\<not> n_term l < n_term f"
    using assms(1) by (simp_all add: assms(3) args_after_def repairing_def)
  have n1: "n1 = accept_leader (if n_term l > n_term f then accept_leader f a else f) a"
    by (simp only: assms(3) a_def)
  have "peerAddr (if ok then follow_commit n2 (n_commitIndex l) else n2) (n_selfID l) = peerAddr f (n_selfID l)"
    using n2 by (simp add: peerAddr_def)
  moreover have "peerAddr f (n_selfID l) \<noteq> []" using assms(1) by (simp add: repairing_def)
  ultimately show ?thesis
    unfolding a_def [symmetric] handleAppendEntries_def dec [folded a_def] option.case a Let_def n1 [symmetric]
    using t assms(4) by (simp add: send_to_def Let_def del: if_split)
qed

lemma response_term:
  assumes "n_role l = Leader" and "wf_AppendEntriesReply r" and "ar_Term r = n_term l" and "rm_Body m = EncodeAppendEntriesReply r"
    and "retry_next l r = Some k"
  shows "fst (handleAppendResponse l m) =
    (if ar_Success r then
       advanceCommitIndexLocked (l\<lparr>n_matchIndex := (n_matchIndex l)(rm_From m \<mapsto> ar_MatchIndex r),
         n_nextIndex := (n_nextIndex l)(rm_From m \<mapsto> u64 (ar_MatchIndex r + 1))\<rparr>)
     else l\<lparr>n_nextIndex := (n_nextIndex l)(rm_From m \<mapsto> k)\<rparr>)"
  using assms by (simp add: handleAppendResponse_def append_reply_codec.dec_enc Let_def)

lemma exchange_rejected:
  assumes "repairing l f" and "clamp_next l (n_selfID f) = Suc p"
    and "\<not> (p \<le> length (n_log f) \<and> (0 < p \<longrightarrow> le_Term (n_log f ! (p - 1)) = le_Term (n_log l ! (p - 1))))"
    and "term_prefix (n_log f) (n_log l)"
  shows "\<exists>l' f'. exchange (l, f) = (l', f') \<and> repairing l' f' \<and> n_selfID f' = n_selfID f \<and>
    n_log l' = n_log l \<and> n_log f' = n_log f \<and> clamp_next l' (n_selfID f) \<le> p"
proof -
  let ?fid = "n_selfID f"
  define n1 where "n1 = accept_leader (if n_term l > n_term f then accept_leader f (args_after l p) else f)
      (args_after l p)"
  define ct where "ct = (if length (n_log f) < p then 0 else le_Term (n_log f ! (p - 1)))"
  have p: "p \<le> length (n_log l)" using clamp_le [of l ?fid] assms(2) by simp
  have args: "append_args l (Suc p) = Some (args_after l p)"
    using p assms(1) by (intro append_args_at) (simp_all add: repairing_def)
  have pos: "0 < p" using assms(3) by auto
  have lf: "n_log n1 = n_log f" "n_selfID n1 = ?fid" "n_peerAddrMap n1 = n_peerAddrMap f" by (simp_all add: n1_def)
  have tm: "n_term n1 = n_term l" by (simp add: n1_def args_after_def)
  obtain ci where rej: "appendEntriesFromLeader n1 p (if 0 < p then le_Term (n_log l ! (p - 1)) else 0) (drop p (n_log l)) =
      Some (n1, False, ci, ct)" and ci: "1 \<le> ci" "ci \<le> p"
  proof (cases "p \<le> length (n_log f)")
    case True
    then show ?thesis
      by (rule prev_conflict_in [where t = "le_Term (n_log l ! (p - 1))"])
        (use that assms(3) pos True in \<open>auto simp: appendEntriesFromLeader_def Let_def lf ct_def\<close>)
  next
    case False
    then show ?thesis
      using that [of "length (n_log f) + 1"] by (simp add: appendEntriesFromLeader_def Let_def lf ct_def)
  qed
  let ?r = "\<lparr>ar_Term = n_term l, ar_Success = False, ar_MatchIndex = 0, ar_ConflictIndex = ci, ar_ConflictTerm = ct\<rparr>"
  let ?m = "raft_msg n1 MsgRaftAppendResponse (EncodeAppendEntriesReply ?r)"
  have h: "handleAppendEntries f (append_msg l (args_after l p)) = (n1, [(peerAddr f (n_selfID l), ?m)], True)"
    using follower_answer [OF assms(1,2) n1_def rej] by (simp add: Let_def)
  have ct64: "ct < 2 ^ 64"
    using assms(1,3) pos by (auto simp: ct_def repairing_def list_all_length wf_LogEntry_def)
  have "wf_AppendEntriesReply ?r"
    using assms(1) ct64 ci p by (simp add: wf_AppendEntriesReply_def repairing_def)
  moreover obtain k where k: "retry_next l ?r = Some k" using retry_next_in by blast
  ultimately have resp: "fst (handleAppendResponse l ?m) = l\<lparr>n_nextIndex := (n_nextIndex l)(?fid \<mapsto> k)\<rparr>"
    using response_term [of l ?r ?m k] assms(1) lf(2) by (simp add: repairing_def raft_msg_def)
  let ?l' = "l\<lparr>n_nextIndex := (n_nextIndex l)(?fid \<mapsto> k)\<rparr>"
  obtain found where found: "last_of_term (n_log l) ct (length (n_log l)) = Some found" using last_of_term_in by blast
  have nx: "1 \<le> k \<and> k \<le> p"
  proof (cases found)
    case None
    then show ?thesis using ci k found by (auto simp: retry_next_def split: if_splits)
  next
    case (Some i)
    then have i: "0 < i" "i \<le> length (n_log l)" "le_Term (n_log l ! (i - 1)) = ct"
      using last_of_term_Some found by blast+
    show ?thesis
    proof (cases "length (n_log f) < p")
      case True
      then show ?thesis using ci k by (auto simp: retry_next_def ct_def)
    next
      case False
      have "i < p"
      proof (rule ccontr)
        assume "\<not> i < p"
        then have "take (Suc (p - 1)) (n_log f) = take (Suc (p - 1)) (n_log l)"
          using term_prefixD [of "n_log f" "n_log l" "p - 1" "i - 1"] assms(4) False pos i
          by (simp add: repairing_def ct_def)
        then have "n_log f ! (p - 1) = n_log l ! (p - 1)"
          using take_Suc_nth_eq [of "p - 1" "n_log f" "n_log l"] False p pos by simp
        then show False using assms(3) False by simp
      qed
      then show ?thesis using Some ci k found by (auto simp: retry_next_def split: if_splits)
    qed
  qed
  then have cl: "1 \<le> clamp_next ?l' ?fid" "clamp_next ?l' ?fid \<le> p"
    using p by (auto simp: clamp_next_def Let_def)
  have ex: "exchange (l, f) = (?l', n1)" using h resp args by (simp add: exchange_def assms(2))
  have "repairing ?l' n1" using assms(1) cl lf tm by (simp add: repairing_def peerAddr_def)
  then show ?thesis using ex lf cl by auto
qed

lemma exchange_accepted:
  assumes "repairing l f" and "clamp_next l (n_selfID f) = Suc p"
    and "p \<le> length (n_log f)" and "0 < p \<longrightarrow> le_Term (n_log f ! (p - 1)) = le_Term (n_log l ! (p - 1))"
    and "term_prefix (n_log f) (n_log l)"
  shows "\<exists>l' f'. exchange (l, f) = (l', f') \<and> n_log l' = n_log l \<and>
    take (length (n_log l)) (n_log f') = n_log l \<and>
    map_get (n_matchIndex l') (n_selfID f) = length (n_log f')"
proof -
  let ?fid = "n_selfID f"
  define n1 where "n1 = accept_leader (if n_term l > n_term f then accept_leader f (args_after l p) else f)
      (args_after l p)"
  define g where "g = merged (n_log f) p (drop p (n_log l))"
  define n2 where "n2 = persistLocked (n1\<lparr>n_state := (n_state n1)\<lparr>ps_Log := g\<rparr>\<rparr>)"
  have p: "p \<le> length (n_log l)" using clamp_le [of l ?fid] assms(2) by simp
  have lf: "n_log n1 = n_log f" "n_selfID n1 = ?fid" by (simp_all add: n1_def)
  have acc: "appendEntriesFromLeader n1 p (if 0 < p then le_Term (n_log l ! (p - 1)) else 0) (drop p (n_log l)) =
      Some (n2, True, 0, 0)"
    by (rule prev_conflict_in [OF assms(3), of "if 0 < p then le_Term (n_log l ! (p - 1)) else 0"])
      (use assms(3,4) merge_entries_merged [OF assms(3)] in \<open>auto simp: appendEntriesFromLeader_def Let_def lf g_def n2_def\<close>)
  have args: "append_args l (Suc p) = Some (args_after l p)"
    using p assms(1) by (intro append_args_at) (simp_all add: repairing_def)
  let ?n3 = "follow_commit n2 (n_commitIndex l)"
  let ?r = "\<lparr>ar_Term = n_term l, ar_Success = True, ar_MatchIndex = length g, ar_ConflictIndex = 0, ar_ConflictTerm = 0\<rparr>"
  let ?m = "raft_msg ?n3 MsgRaftAppendResponse (EncodeAppendEntriesReply ?r)"
  have h: "handleAppendEntries f (append_msg l (args_after l p)) = (?n3, [(peerAddr f (n_selfID l), ?m)], True)"
    using follower_answer [OF assms(1,2) n1_def acc] by (simp add: Let_def n2_def)
  have len: "length g + 1 < 2 ^ 64"
  proof -
    have "length g \<le> length (n_log f) + (length (n_log l) - p)"
      using length_merge [of "n_log f" p "drop p (n_log l)"] by (simp add: g_def)
    moreover have "length (n_log l) + length (n_log f) + 1 < 2 ^ 64" using assms(1) by (simp add: repairing_def)
    ultimately show ?thesis by linarith
  qed
  have "take p (n_log f) = take p (n_log l)"
  proof (cases p)
    case (Suc k)
    then show ?thesis
      using term_prefixD [of "n_log f" "n_log l" k k] assms(3-5) p by simp
  qed simp
  then have agree: "take (length (n_log l)) g = n_log l"
    unfolding g_def using assms(3,5) p by (intro merge_agrees) (simp_all add: term_prefix_matching)
  have "wf_AppendEntriesReply ?r" using assms(1) len by (simp add: wf_AppendEntriesReply_def repairing_def)
  moreover obtain k where "retry_next l ?r = Some k" using retry_next_in by blast
  ultimately have resp: "fst (handleAppendResponse l ?m) =
      advanceCommitIndexLocked (l\<lparr>n_matchIndex := (n_matchIndex l)(?fid \<mapsto> length g),
         n_nextIndex := (n_nextIndex l)(?fid \<mapsto> u64 (length g + 1))\<rparr>)"
    using response_term [of l ?r ?m k] assms(1) lf(2) by (simp add: repairing_def raft_msg_def n2_def)
  have "exchange (l, f) = (fst (handleAppendResponse l ?m), ?n3)" using h args by (simp add: exchange_def assms(2))
  then show ?thesis using resp agree by (simp add: n2_def)
qed

text \<open>C13. Diverged logs are repaired, where log matching holds between them: assume that an entry of the follower whose
  term the leader also has, at that index or later, means equal logs up to that entry. When leader and follower
  then exchange AppendEntries and answers, the conflict hints move the leader's next index down in every rejected
  round, so after at most as many rounds as the leader has entries, plus one, the follower's log begins with the
  leader's whole log, possibly followed by further entries of its own, and the leader's match index covers its
  log. The code does not establish the assumption: with two leaders in one term it can fail.\<close>

theorem repair_converges:
  assumes "repairing l f" and "term_prefix (n_log f) (n_log l)"
  shows "\<exists>k l' f'. k \<le> length (n_log l) + 1 \<and> (exchange ^^ k) (l, f) = (l', f') \<and> n_log l' = n_log l \<and>
    take (length (n_log l)) (n_log f') = n_log l \<and>
    length (n_log l) \<le> map_get (n_matchIndex l') (n_selfID f)"
proof -
  have step: "\<exists>k l' f'. k \<le> q \<and> (exchange ^^ k) (l, f) = (l', f') \<and> n_log l' = n_log l \<and>
    take (length (n_log l)) (n_log f') = n_log l \<and>
    length (n_log l) \<le> map_get (n_matchIndex l') (n_selfID f)"
    if "repairing l f" "term_prefix (n_log f) (n_log l)" "clamp_next l (n_selfID f) \<le> q" for l f q
    using that
  proof (induction q arbitrary: l f)
    case 0
    then show ?case by (simp add: repairing_def)
  next
    case (Suc q)
    obtain p where p: "clamp_next l (n_selfID f) = Suc p"
      using Suc.prems(1) by (metis One_nat_def Suc_le_D repairing_def)
    show ?case
    proof (cases "p \<le> length (n_log f) \<and> (0 < p \<longrightarrow> le_Term (n_log f ! (p - 1)) = le_Term (n_log l ! (p - 1)))")
      case True
      then obtain l' f' where e: "exchange (l, f) = (l', f')" "n_log l' = n_log l"
        "take (length (n_log l)) (n_log f') = n_log l" "map_get (n_matchIndex l') (n_selfID f) = length (n_log f')"
        using exchange_accepted [OF Suc.prems(1) p _ _ Suc.prems(2)] by blast
      have "length (n_log l) \<le> length (n_log f')" using e(3) by (metis length_take min.cobounded1)
      then show ?thesis using e by (intro exI [of _ 1] exI [of _ l'] exI [of _ f']) simp
    next
      case False
      then obtain l1 f1 where e: "exchange (l, f) = (l1, f1)" "repairing l1 f1" "n_selfID f1 = n_selfID f"
        "n_log l1 = n_log l" "n_log f1 = n_log f" "clamp_next l1 (n_selfID f) \<le> p"
        using exchange_rejected [OF Suc.prems(1) p _ Suc.prems(2)] by blast
      then have "term_prefix (n_log f1) (n_log l1)" "clamp_next l1 (n_selfID f1) \<le> q" using Suc.prems(2,3) p by simp_all
      from Suc.IH [OF e(2) this] obtain k l' f' where k: "k \<le> q" "(exchange ^^ k) (l1, f1) = (l', f')"
        "n_log l' = n_log l1" "take (length (n_log l1)) (n_log f') = n_log l1"
        "length (n_log l1) \<le> map_get (n_matchIndex l') (n_selfID f1)" by blast
      have "(exchange ^^ Suc k) (l, f) = (l', f')" using k(2) e(1) by (simp add: funpow_Suc_right del: funpow.simps)
      then show ?thesis using k e by (intro exI [of _ "Suc k"] exI [of _ l'] exI [of _ f']) simp
    qed
  qed
  show ?thesis using step [OF assms clamp_le] by blast
qed

section \<open>Stale suffixes\<close>

lemma advance_commit:
  "n_commitIndex (advanceCommitIndexLocked n) =
     (case (if n_role n = Leader then commit_scan n (length (n_log n)) else None) of
        Some (Some idx) \<Rightarrow> idx | _ \<Rightarrow> n_commitIndex n)"
  by (simp add: advanceCommitIndexLocked_def split: option.split)

lemma advance_commit_le:
  "n_commitIndex n \<le> length (n_log n) \<Longrightarrow> n_commitIndex (advanceCommitIndexLocked n) \<le> length (n_log n)"
  using commit_scan_Some [of n "length (n_log n)"] by (auto simp: advance_commit split: option.split)

text \<open>Only entries of the current term that a majority has acknowledged are committed.\<close>

lemma advance_needs_quorum:
  "n_commitIndex (advanceCommitIndexLocked n) \<noteq> n_commitIndex n \<Longrightarrow>
   le_Term (n_log n ! (n_commitIndex (advanceCommitIndexLocked n) - 1)) = n_term n \<and>
   quorum n \<le> replicated n (n_commitIndex (advanceCommitIndexLocked n))"
  using commit_scan_Some [of n "length (n_log n)"] by (auto simp: advance_commit split: option.splits if_splits)

lemma propose_commits:
  assumes "n_role n = Leader" and "n_peers n = [a, b]" and "n_commitIndex n \<le> length (n_log n)"
    and "length (n_log n) < map_get (n_matchIndex n) a"
    and "Propose n cmd = (n', out, r)"
  shows "r = Some (length (n_log n) + 1) \<and> n_commitIndex n' = length (n_log n) + 1"
proof -
  let ?e = "\<lparr>le_Term = n_term n, le_Index = length (n_log n) + 1, le_Command = cmd\<rparr>"
  let ?n1 = "persistLocked (n\<lparr>n_state := (n_state n)\<lparr>ps_Log := n_log n @ [?e]\<rparr>\<rparr>)"
  let ?n2 = "?n1\<lparr>n_proposals := List.insert (length (n_log n) + 1) (n_proposals ?n1)\<rparr>"
  obtain n3 out3 where s: "sendAppendEntriesToAll ?n2 = (n3, out3)" by (cases "sendAppendEntriesToAll ?n2")
  then obtain nx where n3: "n3 = ?n2\<lparr>n_nextIndex := nx\<rparr>" using send_all_frame by blast
  have "n' = advanceCommitIndexLocked n3" "r = Some (length (n_log n) + 1)"
    using assms(1,5) s by (auto simp: Propose_def Let_def)
  moreover have "commit_scan n3 (length (n_log n3)) = Some (Some (length (n_log n) + 1))"
    using assms(2-4) by (simp add: n3 replicated_def quorum_def nth_append)
  ultimately show ?thesis using assms(1) by (simp add: advance_commit n3)
qed

text \<open>C33. A stale suffix is counted as replication: a follower that still holds entries the leader does
  not have reports the length of its whole log as matching. In a cluster of three the leader then
  commits its next proposal at once, although the follower still has its stale entry at that index
  and the other follower was never asked.\<close>

theorem stale_suffix_commits_unreplicated:
  assumes "repairing l f" and "n_peers l = [n_selfID f, b]" and "n_log f = n_log l @ x # xs"
    and "map_get (n_nextIndex l) (n_selfID f) = length (n_log l) + 1" and "n_commitIndex l \<le> length (n_log l)"
    and "exchange (l, f) = (l1, f1)" and "Propose l1 cmd = (l2, out, r)"
  shows "r = Some (length (n_log l) + 1) \<and> n_commitIndex l2 = length (n_log l) + 1 \<and>
    n_log f1 = n_log l @ x # xs"
proof -
  let ?p = "length (n_log l)"
  have cl: "clamp_next l (n_selfID f) = Suc ?p" using assms(4) by (simp add: clamp_next_def Let_def)
  define n1 where "n1 = accept_leader (if n_term l > n_term f then accept_leader f (args_after l ?p) else f)
      (args_after l ?p)"
  define n2 where "n2 = persistLocked (n1\<lparr>n_state := (n_state n1)\<lparr>ps_Log := n_log f\<rparr>\<rparr>)"
  have lf: "n_log n1 = n_log f" "n_selfID n1 = n_selfID f" by (simp_all add: n1_def)
  have eq: "le_Term (n_log f ! (?p - 1)) = le_Term (n_log l ! (?p - 1))" if "0 < ?p"
    using that by (simp add: assms(3) nth_append)
  have acc: "appendEntriesFromLeader n1 ?p (if 0 < ?p then le_Term (n_log l ! (?p - 1)) else 0) (drop ?p (n_log l)) =
      Some (n2, True, 0, 0)"
    using eq by (simp add: appendEntriesFromLeader_def prev_conflict_def Let_def lf n2_def) (simp add: assms(3))
  have args: "append_args l (Suc ?p) = Some (args_after l ?p)"
    using assms(1) by (intro append_args_at) (simp_all add: repairing_def)
  let ?n3 = "follow_commit n2 (n_commitIndex l)"
  let ?r = "\<lparr>ar_Term = n_term l, ar_Success = True, ar_MatchIndex = length (n_log f), ar_ConflictIndex = 0, ar_ConflictTerm = 0\<rparr>"
  let ?m = "raft_msg ?n3 MsgRaftAppendResponse (EncodeAppendEntriesReply ?r)"
  have h: "handleAppendEntries f (append_msg l (args_after l ?p)) = (?n3, [(peerAddr f (n_selfID l), ?m)], True)"
    using follower_answer [OF assms(1) cl n1_def acc] by (simp add: Let_def n2_def lf)
  have "wf_AppendEntriesReply ?r" using assms(1) by (simp add: wf_AppendEntriesReply_def repairing_def)
  moreover obtain k where "retry_next l ?r = Some k" using retry_next_in by blast
  ultimately have resp: "fst (handleAppendResponse l ?m) =
      advanceCommitIndexLocked (l\<lparr>n_matchIndex := (n_matchIndex l)(n_selfID f \<mapsto> length (n_log f)),
         n_nextIndex := (n_nextIndex l)(n_selfID f \<mapsto> u64 (length (n_log f) + 1))\<rparr>)" (is "_ = advanceCommitIndexLocked ?l")
    using response_term [of l ?r ?m k] assms(1) lf(2) by (simp add: repairing_def raft_msg_def n2_def)
  have l1: "l1 = advanceCommitIndexLocked ?l" "f1 = ?n3"
    using h resp args assms(6) by (simp_all add: exchange_def cl)
  have "n_commitIndex l1 \<le> length (n_log l1)"
    using advance_commit_le [of ?l] assms(5) by (simp add: l1)
  moreover have "length (n_log l1) < map_get (n_matchIndex l1) (n_selfID f)" by (simp add: l1 assms(3))
  moreover have "n_role l1 = Leader" "n_peers l1 = [n_selfID f, b]" "n_log l1 = n_log l"
    using assms(1,2) by (simp_all add: l1 repairing_def)
  ultimately show ?thesis
    using propose_commits [OF _ _ _ _ assms(7)] by (simp add: l1 n2_def lf assms(3))
qed

section \<open>Witnesses\<close>

definition sample_log :: "LogEntry list" where
  "sample_log = [\<lparr>le_Term = 1, le_Index = 1, le_Command = Some [1]\<rparr>]"

definition stale_entry :: LogEntry where
  "stale_entry = \<lparr>le_Term = 1, le_Index = 2, le_Command = Some [2]\<rparr>"

definition sample_leader :: Node where
  "sample_leader = becomeLeaderLocked ((NewNode ''a'' [''b'', ''c''] None)\<lparr>
     n_state := \<lparr>ps_CurrentTerm = 2, ps_VotedFor = ''a'', ps_Log = sample_log\<rparr>\<rparr>)"

definition sample_follower :: Node where
  "sample_follower = (NewNode ''b'' [''a'', ''c''] None)\<lparr>
     n_state := \<lparr>ps_CurrentTerm = 1, ps_VotedFor = [], ps_Log = sample_log @ [stale_entry]\<rparr>\<rparr>"

lemma sample_next: "map_get (n_nextIndex sample_leader) ''b'' = 2"
  by (simp add: sample_leader_def becomeLeaderLocked_def NewNode_def map_get_def sample_log_def)

lemma sample_repairing: "repairing sample_leader sample_follower"
proof -
  have "1 \<le> clamp_next sample_leader ''b''"
    using sample_next by (simp add: clamp_next_def Let_def)
  then show ?thesis
    by (simp add: repairing_def sample_leader_def sample_follower_def NewNode_def peerAddr_def ascii_valid_utf8
        sample_log_def stale_entry_def wf_LogEntry_def term_prefix_def)
qed

definition diverged_follower :: Node where
  "diverged_follower = sample_follower\<lparr>n_state :=
     \<lparr>ps_CurrentTerm = 2, ps_VotedFor = [], ps_Log = [\<lparr>le_Term = 2, le_Index = 1, le_Command = Some [7]\<rparr>]\<rparr>\<rparr>"

theorem repair_converges_witness:
  "n_log diverged_follower \<noteq> [] \<and> hd (n_log diverged_follower) \<noteq> hd sample_log \<and>
   (\<exists>k l' f'. k \<le> 2 \<and> (exchange ^^ k) (sample_leader, diverged_follower) = (l', f') \<and> take 1 (n_log f') = sample_log)"
proof -
  have l: "n_log sample_leader = sample_log" "length sample_log = 1"
    by (simp_all add: sample_leader_def sample_log_def)
  have "repairing sample_leader diverged_follower"
    using sample_repairing
    by (simp add: repairing_def diverged_follower_def sample_follower_def sample_leader_def peerAddr_def wf_LogEntry_def NewNode_def)
  moreover have "term_prefix (n_log diverged_follower) (n_log sample_leader)"
    by (simp add: l(1) term_prefix_def diverged_follower_def sample_log_def)
  ultimately obtain k l' f' where "k \<le> Suc 1" "(exchange ^^ k) (sample_leader, diverged_follower) = (l', f')"
    "take 1 (n_log f') = sample_log"
    using repair_converges [of sample_leader diverged_follower] l by auto
  moreover have "n_log diverged_follower \<noteq> [] \<and> hd (n_log diverged_follower) \<noteq> hd sample_log"
    by (simp add: diverged_follower_def sample_log_def)
  ultimately show ?thesis by (auto intro!: exI [of _ k])
qed

theorem stale_suffix_commits_unreplicated_witness:
  "\<exists>l1 f1 l2 out. exchange (sample_leader, sample_follower) = (l1, f1) \<and>
     Propose l1 (Some [9]) = (l2, out, Some 2) \<and> n_commitIndex l2 = 2 \<and> n_log f1 ! 1 = stale_entry"
proof -
  obtain l1 f1 where e: "exchange (sample_leader, sample_follower) = (l1, f1)"
    by (cases "exchange (sample_leader, sample_follower)")
  obtain l2 out r where q: "Propose l1 (Some [9]) = (l2, out, r)" by (cases "Propose l1 (Some [9])")
  have l: "n_log sample_leader = sample_log" "length sample_log = 1" "n_commitIndex sample_leader = 0"
    "n_peers sample_leader = [n_selfID sample_follower, ''c'']" "n_selfID sample_follower = ''b''"
    "n_log sample_follower = n_log sample_leader @ stale_entry # []"
    by (simp_all add: sample_leader_def sample_follower_def sample_log_def NewNode_def)
  have "map_get (n_nextIndex sample_leader) (n_selfID sample_follower) = length (n_log sample_leader) + 1"
    using sample_next l by simp
  from stale_suffix_commits_unreplicated [OF sample_repairing l(4,6) this _ e q] l(1-3) e q
  show ?thesis by (simp add: nth_append)
qed

end
