(* ===== verification/Raft_Election.thy ===== *)
theory Raft_Election
  imports Raft_Replication
begin

text \<open>
  A cluster of Raft nodes on an asynchronous network: messages may be lost, delayed, repeated and
  reordered, and nodes may crash and restart from their state file. The theory shows that the
  election protocol elects at most one leader per term, as long as no AppendEntries message is
  delivered, and that with AppendEntries two nodes can lead in the same term, because handling one
  clears the vote of the current term.
\<close>

section \<open>Quorums\<close>

locale quorum_system =
  fixes is_quorum :: "'a set \<Rightarrow> bool"
  assumes quorums_meet: "is_quorum A \<Longrightarrow> is_quorum B \<Longrightarrow> A \<inter> B \<noteq> {}"
begin

lemma one_winner:
  assumes "is_quorum A" and "is_quorum B" and "\<And>v. v \<in> A \<Longrightarrow> ballot v a" and "\<And>v. v \<in> B \<Longrightarrow> ballot v b"
    and "\<And>v x y. ballot v x \<Longrightarrow> ballot v y \<Longrightarrow> x = y"
  shows "a = b"
proof -
  obtain v where "v \<in> A" "v \<in> B" using quorums_meet [OF assms(1,2)] by blast
  then show ?thesis using assms(3-5) by blast
qed

end

interpretation majority: quorum_system "\<lambda>A. A \<subseteq> set ids \<and> length ids < 2 * card A" for ids
proof
  fix A B
  assume q: "A \<subseteq> set ids \<and> length ids < 2 * card A" "B \<subseteq> set ids \<and> length ids < 2 * card B"
  show "A \<inter> B \<noteq> {}"
  proof
    assume e: "A \<inter> B = {}"
    have f: "finite A" "finite B" using q by (auto intro: finite_subset)
    have "card A + card B = card (A \<union> B)" using card_Un_disjoint [OF f e] by simp
    also have "\<dots> \<le> card (set ids)" using q by (intro card_mono) auto
    also have "\<dots> \<le> length ids" by (rule card_length)
    finally show False using q by linarith
  qed
qed

section \<open>The cluster\<close>

type_synonym raft_system = "(string \<Rightarrow> Node) \<times> (string \<times> RaftMessage) set"

definition fresh_node :: "string list \<Rightarrow> string \<Rightarrow> state_file \<Rightarrow> Node" where
  "fresh_node ids i store = Start (NewNode i (removeAll i ids) store)"

text \<open>
  The network keeps every message ever sent; delivering one does not remove it. \<open>allowed\<close> says
  which messages may be delivered. Counters stay below their maximum.
\<close>

inductive step :: "string list \<Rightarrow> (RaftMessage \<Rightarrow> bool) \<Rightarrow> raft_system \<Rightarrow> raft_system \<Rightarrow> bool"
  for ids allowed where
  step_timeout: "i \<in> set ids \<Longrightarrow> n_term (nodes i) + 1 < 2 ^ 64 \<Longrightarrow> handleElectionTimeout (nodes i) = (n', out) \<Longrightarrow>
    step ids allowed (nodes, net) (nodes(i := n'), net \<union> set out)"
| step_deliver: "i \<in> set ids \<Longrightarrow> (i, m) \<in> net \<Longrightarrow> allowed m \<Longrightarrow> run_msg (nodes i) m = (n', out, reset) \<Longrightarrow>
    step ids allowed (nodes, net) (nodes(i := n'), net \<union> set out)"
| step_heartbeat: "i \<in> set ids \<Longrightarrow> run_heartbeat (nodes i) = (n', out) \<Longrightarrow>
    step ids allowed (nodes, net) (nodes(i := n'), net \<union> set out)"
| step_propose: "i \<in> set ids \<Longrightarrow> length (n_log (nodes i)) + 1 < 2 ^ 64 \<Longrightarrow> Propose (nodes i) cmd = (n', out, r) \<Longrightarrow>
    step ids allowed (nodes, net) (nodes(i := n'), net \<union> set out)"
| step_restart: "i \<in> set ids \<Longrightarrow>
    step ids allowed (nodes, net) (nodes(i := fresh_node ids i (n_store (nodes i))), net)"

inductive_cases stepE: "step ids allowed s s'"

definition initial :: "string list \<Rightarrow> raft_system" where
  "initial ids = (\<lambda>i. fresh_node ids i None, {})"

definition not_append :: "RaftMessage \<Rightarrow> bool" where
  "not_append m \<longleftrightarrow> rm_Type m \<noteq> MsgRaftAppendEntries"

definition good_ids :: "string list \<Rightarrow> bool" where
  "good_ids ids \<longleftrightarrow> distinct ids \<and> 2 \<le> length ids \<and> list_all (\<lambda>i. i \<noteq> [] \<and> valid_utf8 i) ids"

section \<open>The invariant\<close>

text \<open>A vote that was sent: node \<open>v\<close> granted its vote of term \<open>t\<close> to \<open>c\<close>.\<close>

definition grant :: "(string \<times> RaftMessage) set \<Rightarrow> string \<Rightarrow> nat \<Rightarrow> string \<Rightarrow> bool" where
  "grant net v t c \<longleftrightarrow>
     (\<exists>m r. (c, m) \<in> net \<and> rm_Type m = MsgRaftVoteResponse \<and> rm_From m = v \<and>
        DecodeRequestVoteReply (rm_Body m) = Some r \<and> vr_VoteGranted r \<and> vr_Term r = t)"

text \<open>Identity, address book and storage of a node; what is in memory is in the file.\<close>

definition node_base :: "string list \<Rightarrow> string \<Rightarrow> Node \<Rightarrow> bool" where
  "node_base ids i n \<longleftrightarrow>
     n_selfID n = i \<and> n_peers n = removeAll i ids \<and> n_peerAddrMap n = Map.empty \<and> n_storeWorks n \<and>
     wf_PersistentState (n_state n) \<and> length (n_log n) < 2 ^ 64 \<and> Load (n_store n) = Some (n_state n)"

definition msg_ok :: "string list \<Rightarrow> RaftMessage \<Rightarrow> bool" where
  "msg_ok ids m \<longleftrightarrow>
     (rm_Type m = MsgRaftRequestVote \<and>
        (\<exists>a. DecodeRequestVoteArgs (rm_Body m) = Some a \<and> rv_CandidateID a \<in> set ids \<and> rv_Term a < 2 ^ 64)) \<or>
     (rm_Type m = MsgRaftVoteResponse \<and> rm_From m \<in> set ids \<and>
        (\<exists>r. DecodeRequestVoteReply (rm_Body m) = Some r \<and> vr_Term r < 2 ^ 64)) \<or>
     rm_Type m = MsgRaftAppendEntries"

text \<open>A node that campaigns or leads voted for itself and holds votes that were really cast.\<close>

definition campaign_ok :: "string list \<Rightarrow> (string \<times> RaftMessage) set \<Rightarrow> string \<Rightarrow> Node \<Rightarrow> bool" where
  "campaign_ok ids net i n \<longleftrightarrow>
     (n_role n \<noteq> Follower \<longrightarrow>
        n_votedFor n = i \<and> distinct (n_voteGranted n) \<and> set (n_voteGranted n) \<subseteq> set ids \<and>
        (\<forall>v\<in>set (n_voteGranted n). v = i \<or> grant net v (n_term n) i)) \<and>
     (n_role n = Leader \<longrightarrow> quorum n \<le> length (n_voteGranted n))"

definition votes_ok :: "string list \<Rightarrow> raft_system \<Rightarrow> bool" where
  "votes_ok ids s \<longleftrightarrow>
     (\<forall>v t c. grant (snd s) v t c \<longrightarrow>
        v \<in> set ids \<and> c \<noteq> [] \<and> t \<le> n_term (fst s v) \<and>
        (t = n_term (fst s v) \<longrightarrow> n_votedFor (fst s v) = c)) \<and>
     (\<forall>v t c c'. grant (snd s) v t c \<longrightarrow> grant (snd s) v t c' \<longrightarrow> c = c')"

definition election_inv :: "string list \<Rightarrow> raft_system \<Rightarrow> bool" where
  "election_inv ids s \<longleftrightarrow>
     (\<forall>i\<in>set ids. node_base ids i (fst s i) \<and> campaign_ok ids (snd s) i (fst s i)) \<and>
     (\<forall>(d, m)\<in>snd s. msg_ok ids m) \<and> votes_ok ids s"

lemma grant_mono: "grant net v t c \<Longrightarrow> net \<subseteq> net' \<Longrightarrow> grant net' v t c"
  by (auto simp: grant_def)

lemma campaign_mono: "campaign_ok ids net i n \<Longrightarrow> net \<subseteq> net' \<Longrightarrow> campaign_ok ids net' i n"
  using grant_mono by (fastforce simp: campaign_ok_def)

lemma campaign_follower: "n_role n = Follower \<Longrightarrow> campaign_ok ids net i n"
  by (simp add: campaign_ok_def)

lemma campaign_frame:
  assumes "campaign_ok ids net i n" and "n_role n' = n_role n" and "n_term n' = n_term n"
    and "n_role n \<noteq> Follower \<Longrightarrow> n_votedFor n' = n_votedFor n" and "n_voteGranted n' = n_voteGranted n" and "n_peers n' = n_peers n"
  shows "campaign_ok ids net i n'"
  using assms by (simp add: campaign_ok_def quorum_def)

lemma grant_union_other:
  "(\<forall>(d, m)\<in>out. rm_Type m \<noteq> MsgRaftVoteResponse) \<Longrightarrow> grant (net \<union> out) v t c = grant net v t c"
  by (fastforce simp: grant_def)

text \<open>
  A step that sends no vote keeps the invariant if the node keeps its base and campaign facts and
  its term does not fall, with the vote unchanged while the term is.
\<close>

lemma inv_quiet_step:
  assumes "election_inv ids (nodes, net)" and "i \<in> set ids"
    and "node_base ids i n'" and "campaign_ok ids net i n'"
    and "\<forall>(d, m)\<in>out. msg_ok ids m \<and> rm_Type m \<noteq> MsgRaftVoteResponse"
    and "n_term (nodes i) \<le> n_term n'"
    and "n_term n' = n_term (nodes i) \<Longrightarrow> n_votedFor n' = n_votedFor (nodes i)"
  shows "election_inv ids (nodes(i := n'), net \<union> out)"
proof -
  have g: "grant (net \<union> out) v t c = grant net v t c" for v t c
    using assms(5) by (intro grant_union_other) auto
  have c: "campaign_ok ids (net \<union> out) j n = campaign_ok ids net j n" for j n
    by (simp add: campaign_ok_def g)
  have "votes_ok ids (nodes(i := n'), net \<union> out)"
    using assms(1,6,7) by (fastforce simp: election_inv_def votes_ok_def g)
  then show ?thesis using assms(1-5) by (auto simp: election_inv_def c)
qed

lemma persist_base:
  assumes "n_selfID n = i" and "n_peers n = removeAll i ids" and "n_peerAddrMap n = Map.empty"
    and "n_storeWorks n" and "wf_PersistentState (n_state n)" and "length (n_log n) < 2 ^ 64"
  shows "node_base ids i (persistLocked n)"
  using assms by (simp add: node_base_def persistLocked_def Load_Save)

lemma base_frame:
  assumes "node_base ids i n" and "n_selfID n' = n_selfID n" and "n_peers n' = n_peers n"
    and "n_peerAddrMap n' = n_peerAddrMap n" and "n_storeWorks n' = n_storeWorks n"
    and "n_state n' = n_state n" and "n_store n' = n_store n"
  shows "node_base ids i n'"
  using assms by (simp add: node_base_def)

lemma good_idsD: "good_ids ids \<Longrightarrow> i \<in> set ids \<Longrightarrow> i \<noteq> [] \<and> valid_utf8 i"
  by (auto simp: good_ids_def list_all_iff)

lemma good_peers:
  assumes "good_ids ids" and "i \<in> set ids"
  shows "length (removeAll i ids) + 1 = length ids" "removeAll i ids \<noteq> []"
proof -
  have "distinct ids" "2 \<le> length ids" using assms(1) by (simp_all add: good_ids_def)
  moreover have "length (removeAll i ids) = length ids - 1"
    using assms(2) \<open>distinct ids\<close> by (simp add: distinct_remove1_removeAll [symmetric] length_remove1)
  ultimately show "length (removeAll i ids) + 1 = length ids" "removeAll i ids \<noteq> []" by auto
qed

lemma step_down_base:
  "node_base ids i n \<Longrightarrow> t < 2 ^ 64 \<Longrightarrow> node_base ids i (step_down n t)"
  unfolding step_down_def
  by (intro persist_base) (auto simp: node_base_def wf_PersistentState_def valid_utf8.simps)

lemma timeout_inv:
  assumes "good_ids ids" and "election_inv ids (nodes, net)" and "i \<in> set ids"
    and "n_term (nodes i) + 1 < 2 ^ 64" and "handleElectionTimeout (nodes i) = (n', out)"
  shows "election_inv ids (nodes(i := n'), net \<union> set out)"
proof (cases "n_role (nodes i) = Leader")
  case True
  then have "n' = nodes i" "out = []" using assms(5) by (simp_all add: handleElectionTimeout_def)
  then show ?thesis using assms(2) by simp
next
  case False
  let ?n = "nodes i"
  have b: "node_base ids i ?n" using assms(2,3) by (simp add: election_inv_def)
  then have id: "n_selfID ?n = i" "n_peers ?n = removeAll i ids" by (simp_all add: node_base_def)
  let ?n1 = "persistLocked (?n\<lparr>n_state := (n_state ?n)\<lparr>ps_CurrentTerm := u64 (n_term ?n + 1), ps_VotedFor := n_selfID ?n\<rparr>,
      n_role := Candidate, n_leaderID := [], n_leaderKnown := False, n_voteGranted := [n_selfID ?n]\<rparr>)"
  let ?a = "\<lparr>rv_Term = n_term ?n1, rv_CandidateID = n_selfID ?n1, rv_LastLogIndex = length (n_log ?n1),
      rv_LastLogTerm = (if n_log ?n1 = [] then 0 else le_Term (last (n_log ?n1)))\<rparr>"
  let ?m = "raft_msg ?n1 MsgRaftRequestVote (EncodeRequestVoteArgs ?a)"
  have t: "n_term ?n1 = n_term ?n + 1" "n_term ?n1 < 2 ^ 64" using assms(4) by simp_all
  have base: "node_base ids i ?n1"
    using b t(2) good_idsD [OF assms(1,3)]
    by (intro persist_base) (auto simp: node_base_def wf_PersistentState_def)
  have camp: "campaign_ok ids net i ?n1" using assms(3) id by (simp add: campaign_ok_def)
  have out: "n' = ?n1" "out = concat (map (\<lambda>peer. send_to ?n1 peer ?m) (n_peers ?n1))"
    using assms(5) False id good_peers [OF assms(1,3)] by (auto simp: handleElectionTimeout_def Let_def)
  have lt: "le_Term (last (n_log ?n)) < 2 ^ 64" if "n_log ?n \<noteq> []"
    using that b by (auto simp: node_base_def wf_PersistentState_def list_all_iff wf_LogEntry_def)
  have "wf_RequestVoteArgs ?a"
    using t lt good_idsD [OF assms(1,3)] id b by (auto simp: wf_RequestVoteArgs_def node_base_def)
  then have "msg_ok ids ?m \<and> rm_Type ?m \<noteq> MsgRaftVoteResponse"
    using t id assms(3) by (simp add: msg_ok_def raft_msg_def vote_args_codec.dec_enc msg_types)
  then have "\<forall>(d, m)\<in>set out. msg_ok ids m \<and> rm_Type m \<noteq> MsgRaftVoteResponse"
    by (auto simp: out(2) send_to_def Let_def split: if_splits)
  then show ?thesis
    using inv_quiet_step [OF assms(2,3) base camp] t(1) by (simp add: out(1))
qed

lemma vote_reply_msg:
  assumes "n_term n < 2 ^ 64" and "n_selfID n \<in> set ids"
    and "m = raft_msg n MsgRaftVoteResponse (EncodeRequestVoteReply \<lparr>vr_Term = t, vr_VoteGranted = g\<rparr>)" and "t < 2 ^ 64"
  shows "msg_ok ids m" "rm_Type m = MsgRaftVoteResponse" "rm_From m = n_selfID n"
    "DecodeRequestVoteReply (rm_Body m) = Some \<lparr>vr_Term = t, vr_VoteGranted = g\<rparr>"
proof -
  have "wf_RequestVoteReply \<lparr>vr_Term = t, vr_VoteGranted = g\<rparr>" using assms(4) by (simp add: wf_RequestVoteReply_def)
  then show "DecodeRequestVoteReply (rm_Body m) = Some \<lparr>vr_Term = t, vr_VoteGranted = g\<rparr>"
    "msg_ok ids m" "rm_Type m = MsgRaftVoteResponse" "rm_From m = n_selfID n"
    using assms by (simp_all add: raft_msg_def vote_reply_codec.dec_enc msg_ok_def msg_types)
qed

lemma cast_vote_base:
  assumes "node_base ids i n" and "valid_utf8 (rv_CandidateID a)"
  shows "node_base ids i (cast_vote n a)"
proof (cases "can_grant n a")
  case True
  have "node_base ids i (persistLocked (n\<lparr>n_state := (n_state n)\<lparr>ps_VotedFor := rv_CandidateID a\<rparr>\<rparr>))"
    using assms by (intro persist_base) (auto simp: node_base_def wf_PersistentState_def)
  then show ?thesis using True by (simp add: cast_vote_def)
qed (simp add: cast_vote_def assms(1))

lemma cast_vote_votedFor:
  "n_votedFor (cast_vote n a) = (if can_grant n a then rv_CandidateID a else n_votedFor n)"
  by (simp add: cast_vote_def)

text \<open>Answering a vote request is the only step that can create a grant.\<close>

lemma request_vote_inv:
  assumes "good_ids ids" and "election_inv ids (nodes, net)" and "i \<in> set ids"
    and "DecodeRequestVoteArgs (rm_Body m) = Some a" and "rv_CandidateID a \<in> set ids" and "rv_Term a < 2 ^ 64"
    and "handleRequestVote (nodes i) m = (n', out, reset)"
  shows "election_inv ids (nodes(i := n'), net \<union> set out)"
proof -
  let ?n = "nodes i" and ?c = "rv_CandidateID a"
  define n1 where "n1 = (if rv_Term a > n_term ?n then step_down ?n (rv_Term a) else ?n)"
  define g where "g = can_grant n1 a"
  have b: "node_base ids i ?n" and camp: "campaign_ok ids net i ?n"
    and V: "votes_ok ids (nodes, net)" and M: "\<forall>(d, m)\<in>net. msg_ok ids m"
    using assms(2,3) by (auto simp: election_inv_def)
  have c: "?c \<noteq> []" "valid_utf8 ?c" using good_idsD [OF assms(1,5)] by auto
  have b1: "node_base ids i n1" using b assms(6) by (simp add: n1_def step_down_base)
  have base: "node_base ids i (cast_vote n1 a)" by (rule cast_vote_base [OF b1 c(2)])
  have t1: "n_term ?n \<le> n_term n1" "n_term n1 < 2 ^ 64" "rv_Term a \<le> n_term n1"
    using b1 by (auto simp: n1_def node_base_def wf_PersistentState_def)
  let ?r = "\<lparr>vr_Term = n_term n1, vr_VoteGranted = g\<rparr>"
  let ?m = "raft_msg (cast_vote n1 a) MsgRaftVoteResponse (EncodeRequestVoteReply ?r)"
  have n': "n' = cast_vote n1 a" "out = [(?c, ?m)]"
    using assms(4,7) base c(1)
    by (auto simp: handleRequestVote_def Let_def n1_def [symmetric] g_def send_to_def peerAddr_def node_base_def)
  have self: "n_selfID (cast_vote n1 a) = i" using base by (simp add: node_base_def)
  note vm = vote_reply_msg [of "cast_vote n1 a" ids ?m "n_term n1" g, OF _ _ refl]
  have vm': "msg_ok ids ?m" "rm_Type ?m = MsgRaftVoteResponse" "rm_From ?m = i"
    "DecodeRequestVoteReply (rm_Body ?m) = Some ?r"
    using vm t1(2) self assms(3) by simp_all
  have G: "grant (net \<union> set out) v t d \<longleftrightarrow> grant net v t d \<or> (g \<and> v = i \<and> t = n_term n1 \<and> d = ?c)" for v t d
    using vm' by (auto simp: grant_def n'(2))
  have old: "t \<le> n_term n1 \<and> (t = n_term n1 \<longrightarrow> n_votedFor (cast_vote n1 a) = d \<and> (g \<longrightarrow> d = ?c))"
    if gr: "grant net i t d" for t d
  proof -
    have o: "t \<le> n_term ?n" "t = n_term ?n \<Longrightarrow> n_votedFor ?n = d" "d \<noteq> []"
      using V gr by (auto simp: votes_ok_def)
    show ?thesis
    proof (cases "t = n_term n1")
      case True
      then have same: "n1 = ?n" using o(1) t1 by (auto simp: n1_def split: if_splits)
      then have vf: "n_votedFor n1 = d" using o(2) True by simp
      then have "g \<Longrightarrow> d = ?c" using o(3) by (simp add: g_def can_grant_def)
      then show ?thesis using True vf by (auto simp: cast_vote_votedFor g_def)
    next
      case False
      then show ?thesis using o(1) t1(1) by simp
    qed
  qed
  have V': "votes_ok ids (nodes(i := n'), net \<union> set out)"
    unfolding votes_ok_def
  proof (intro conjI allI impI)
    fix v t d
    assume "grant (snd (nodes(i := n'), net \<union> set out)) v t d"
    then consider "grant net v t d" | "g" "v = i" "t = n_term n1" "d = ?c" using G by auto
    note cs = this
    show "v \<in> set ids" using cs V assms(3) by cases (auto simp: votes_ok_def)
    show "d \<noteq> []" using cs V c by cases (auto simp: votes_ok_def)
    show "t \<le> n_term (fst (nodes(i := n'), net \<union> set out) v)"
      using cs
    proof cases
      case 1
      then show ?thesis using V old [of t d] by (cases "v = i") (auto simp: votes_ok_def n'(1))
    qed (simp add: n'(1))
    show "n_votedFor (fst (nodes(i := n'), net \<union> set out) v) = d"
      if e: "t = n_term (fst (nodes(i := n'), net \<union> set out) v)"
      using cs
    proof cases
      case 1
      then show ?thesis using V e old [of t d] by (cases "v = i") (auto simp: votes_ok_def n'(1))
    next
      case 2
      then show ?thesis by (simp add: n'(1) cast_vote_votedFor g_def)
    qed
  next
    fix v t d d'
    assume "grant (snd (nodes(i := n'), net \<union> set out)) v t d" "grant (snd (nodes(i := n'), net \<union> set out)) v t d'"
    then show "d = d'" using V old G by (fastforce simp: votes_ok_def)
  qed
  have "campaign_ok ids net i n'"
  proof (cases "n1 = ?n")
    case True
    have "n_votedFor n' = n_votedFor ?n" if "n_role ?n \<noteq> Follower"
      using that camp True good_idsD [OF assms(1,3)]
      by (auto simp: campaign_ok_def n'(1) cast_vote_votedFor can_grant_def)
    then show ?thesis using True campaign_frame [OF camp, of n'] by (simp add: n'(1))
  next
    case False
    then show ?thesis by (intro campaign_follower) (simp add: n'(1) n1_def split: if_splits)
  qed
  then have "campaign_ok ids (net \<union> set out) i n'" by (rule campaign_mono) simp
  moreover have "campaign_ok ids (net \<union> set out) j (nodes j)" if "j \<in> set ids" for j
  proof (rule campaign_mono)
    show "campaign_ok ids net j (nodes j)" using assms(2) that by (simp add: election_inv_def)
  qed simp
  ultimately show ?thesis
    using assms(2) base V' vm'(1) n' by (auto simp: election_inv_def)
qed

lemma send_loop_types:
  "send_append_loop n ps = (n', out) \<Longrightarrow> \<forall>(d, m)\<in>set out. rm_Type m = MsgRaftAppendEntries"
proof (induction ps arbitrary: n n' out)
  case (Cons p ps)
  let ?n1 = "if map_get (n_nextIndex n) p > length (n_log n)
      then n\<lparr>n_nextIndex := (n_nextIndex n)(p \<mapsto> clamp_next n p)\<rparr> else n"
  obtain n2 out2 where r: "send_append_loop ?n1 ps = (n2, out2)" by (cases "send_append_loop ?n1 ps")
  obtain a where "append_args ?n1 (clamp_next n p) = Some a" using append_args_in by blast
  then have "out = send_to ?n1 p (raft_msg ?n1 MsgRaftAppendEntries (EncodeAppendEntriesArgs a)) @ out2"
    using Cons.prems r by (simp add: Let_def split: prod.splits)
  then show ?case using Cons.IH [OF r] by (auto simp: send_to_def raft_msg_def Let_def split: if_splits)
qed simp

lemma send_all_types:
  "sendAppendEntriesToAll n = (n', out) \<Longrightarrow> \<forall>(d, m)\<in>set out. rm_Type m = MsgRaftAppendEntries"
  by (auto simp: sendAppendEntriesToAll_def dest: send_loop_types split: if_splits)

lemma append_type_ok:
  "\<forall>(d, m)\<in>set out. rm_Type m = MsgRaftAppendEntries \<Longrightarrow>
   \<forall>(d, m)\<in>set out. msg_ok ids m \<and> rm_Type m \<noteq> MsgRaftVoteResponse"
  by (auto simp: msg_ok_def msg_types)

text \<open>A step that only sends AppendEntries messages and keeps the state of the node.\<close>

lemma inv_send_step:
  assumes "election_inv ids (nodes, net)" and "i \<in> set ids" and "n' = (nodes i)\<lparr>n_nextIndex := nx\<rparr>"
    and "\<forall>(d, m)\<in>set out. rm_Type m = MsgRaftAppendEntries"
  shows "election_inv ids (nodes(i := n'), net \<union> set out)"
proof -
  have b: "node_base ids i (nodes i)" "campaign_ok ids net i (nodes i)"
    using assms(1,2) by (auto simp: election_inv_def)
  have b': "node_base ids i n'" using assms(3) by (simp add: base_frame [OF b(1)])
  have c': "campaign_ok ids net i n'" using assms(3) by (simp add: campaign_frame [OF b(2)])
  show ?thesis
    using inv_quiet_step [OF assms(1,2) b' c' append_type_ok [OF assms(4)]] by (simp add: assms(3))
qed

lemma heartbeat_inv:
  assumes "election_inv ids (nodes, net)" and "i \<in> set ids" and "run_heartbeat (nodes i) = (n', out)"
  shows "election_inv ids (nodes(i := n'), net \<union> set out)"
proof -
  have s: "sendAppendEntriesToAll (nodes i) = (n', out)"
    using assms(3) by (auto simp: run_heartbeat_def sendAppendEntriesToAll_def split: if_splits)
  then obtain nx where "n' = (nodes i)\<lparr>n_nextIndex := nx\<rparr>" using send_all_frame by blast
  then show ?thesis using inv_send_step [OF assms(1,2) _ send_all_types [OF s]] by simp
qed

lemma propose_inv:
  assumes "election_inv ids (nodes, net)" and "i \<in> set ids" and "length (n_log (nodes i)) + 1 < 2 ^ 64"
    and "Propose (nodes i) cmd = (n', out, r)"
  shows "election_inv ids (nodes(i := n'), net \<union> set out)"
proof (cases "n_role (nodes i) = Leader")
  case True
  let ?n = "nodes i"
  let ?e = "\<lparr>le_Term = n_term ?n, le_Index = length (n_log ?n) + 1, le_Command = cmd\<rparr>"
  let ?n1 = "persistLocked (?n\<lparr>n_state := (n_state ?n)\<lparr>ps_Log := n_log ?n @ [?e]\<rparr>\<rparr>)"
  let ?n2 = "?n1\<lparr>n_proposals := List.insert (length (n_log ?n) + 1) (n_proposals ?n1)\<rparr>"
  have b: "node_base ids i ?n" "campaign_ok ids net i ?n" using assms(1,2) by (auto simp: election_inv_def)
  obtain n3 out3 where s: "sendAppendEntriesToAll ?n2 = (n3, out3)" by (cases "sendAppendEntriesToAll ?n2")
  then obtain nx where n3: "n3 = ?n2\<lparr>n_nextIndex := nx\<rparr>" using send_all_frame by blast
  have n': "n' = advanceCommitIndexLocked n3" "out = out3"
    using assms(4) True s by (auto simp: Propose_def Let_def)
  have b1: "node_base ids i ?n1"
    using b(1) assms(3)
    by (intro persist_base) (auto simp: node_base_def wf_PersistentState_def wf_LogEntry_def)
  have "node_base ids i n'" using base_frame [OF b1, of n'] by (simp add: n' n3)
  moreover have "campaign_ok ids net i n'" using campaign_frame [OF b(2), of n'] by (simp add: n' n3)
  ultimately show ?thesis
    using inv_quiet_step [OF assms(1,2) _ _ append_type_ok [OF send_all_types [OF s]], of n'] n'
    by (simp add: n3)
next
  case False
  then have "n' = nodes i" "out = []" using assms(4) by (simp_all add: Propose_def)
  then show ?thesis using assms(1) by simp
qed

lemma vote_response_inv:
  assumes "good_ids ids" and "election_inv ids (nodes, net)" and "i \<in> set ids" and "(i, m) \<in> net"
    and "rm_Type m = MsgRaftVoteResponse" and "handleVoteResponse (nodes i) m = (n', out, reset)"
  shows "election_inv ids (nodes(i := n'), net \<union> set out)"
proof -
  let ?n = "nodes i"
  have b: "node_base ids i ?n" "campaign_ok ids net i ?n" and mok: "msg_ok ids m"
    using assms(2-4) by (auto simp: election_inv_def)
  obtain r where r: "DecodeRequestVoteReply (rm_Body m) = Some r" "vr_Term r < 2 ^ 64" "rm_From m \<in> set ids"
    using mok assms(5) by (auto simp: msg_ok_def msg_types)
  let ?n1 = "?n\<lparr>n_voteGranted := List.insert (rm_From m) (n_voteGranted ?n)\<rparr>"
  consider (down) "vr_Term r > n_term ?n" | (skip) "n' = ?n" "out = []"
    | (vote) "vr_Term r = n_term ?n" "n_role ?n = Candidate" "vr_VoteGranted r"
    using assms(6) r(1) by (auto simp: handleVoteResponse_def Let_def split: if_splits)
  then show ?thesis
  proof cases
    case down
    then have "n' = step_down ?n (vr_Term r)" "out = []"
      using assms(6) r(1) by (auto simp: handleVoteResponse_def)
    moreover have "campaign_ok ids net i (step_down ?n (vr_Term r))" by (rule campaign_follower) simp
    ultimately show ?thesis
      using inv_quiet_step [OF assms(2,3) step_down_base [OF b(1) r(2)], of "{}"] down by simp
  next
    case skip
    then show ?thesis using assms(2) by simp
  next
    case vote
    have gr: "grant net (rm_From m) (n_term ?n) i"
      using assms(4,5) r(1) vote by (auto simp: grant_def)
    have c1: "campaign_ok ids net i ?n1"
      using b(2) gr r(3) vote(2) by (auto simp: campaign_ok_def)
    have b1: "node_base ids i ?n1" by (simp add: base_frame [OF b(1)])
    show ?thesis
    proof (cases "length (n_voteGranted ?n1) \<ge> quorum ?n1")
      case True
      obtain n2 out2 where s: "sendAppendEntriesToAll (becomeLeaderLocked ?n1) = (n2, out2)"
        by (cases "sendAppendEntriesToAll (becomeLeaderLocked ?n1)")
      then obtain nx where n2: "n2 = (becomeLeaderLocked ?n1)\<lparr>n_nextIndex := nx\<rparr>" using send_all_frame by blast
      have n': "n' = n2" "out = out2"
        using assms(6) r(1) vote True s by (auto simp: handleVoteResponse_def Let_def)
      have "node_base ids i n2" using base_frame [OF b1, of n2] by (simp add: n2)
      moreover have "campaign_ok ids net i n2"
        using c1 vote(2) True by (auto simp: campaign_ok_def n2 quorum_def)
      ultimately show ?thesis
        using inv_quiet_step [OF assms(2,3) _ _ append_type_ok [OF send_all_types [OF s]], of n2] n'
        by (simp add: n2)
    next
      case False
      then have "n' = ?n1" "out = []"
        using assms(6) r(1) vote by (auto simp: handleVoteResponse_def Let_def)
      then show ?thesis using inv_quiet_step [OF assms(2,3) b1 c1, of "{}"] by simp
    qed
  qed
qed

text \<open>Closing the proposals of a former leader does not touch the facts of the invariant.\<close>

lemma inv_close:
  assumes "election_inv ids (nodes(i := n1), net)" and "i \<in> set ids"
  shows "election_inv ids (nodes(i := n1\<lparr>n_closed := cs, n_proposals := ps\<rparr>), net)"
proof -
  let ?n = "n1\<lparr>n_closed := cs, n_proposals := ps\<rparr>"
  have b: "node_base ids i n1" "campaign_ok ids net i n1" using assms by (auto simp: election_inv_def)
  have "node_base ids i ?n" by (simp add: base_frame [OF b(1)])
  moreover have "campaign_ok ids net i ?n" by (simp add: campaign_frame [OF b(2)])
  ultimately show ?thesis
    using inv_quiet_step [OF assms, of ?n "{}"] by simp
qed

lemma deliver_inv:
  assumes "good_ids ids" and "election_inv ids (nodes, net)" and "i \<in> set ids" and "(i, m) \<in> net"
    and "not_append m" and "run_msg (nodes i) m = (n', out, reset)"
  shows "election_inv ids (nodes(i := n'), net \<union> set out)"
proof -
  have mok: "msg_ok ids m" using assms(2,4) by (auto simp: election_inv_def)
  obtain n1 out1 rs1 where d: "dispatchMsg (nodes i) m = (n1, out1, rs1)" by (cases "dispatchMsg (nodes i) m")
  consider (req) a where "rm_Type m = MsgRaftRequestVote" "DecodeRequestVoteArgs (rm_Body m) = Some a"
      "rv_CandidateID a \<in> set ids" "rv_Term a < 2 ^ 64"
    | (resp) "rm_Type m = MsgRaftVoteResponse"
    using mok assms(5) by (auto simp: msg_ok_def not_append_def)
  then have inv: "election_inv ids (nodes(i := n1), net \<union> set out1)"
  proof cases
    case req
    then have "handleRequestVote (nodes i) m = (n1, out1, rs1)" using d by (simp add: dispatchMsg_def)
    then show ?thesis using request_vote_inv [OF assms(1-3) req(2-4)] by simp
  next
    case resp
    then have "handleVoteResponse (nodes i) m = (n1, out1, rs1)" using d by (simp add: dispatchMsg_def msg_types)
    then show ?thesis using vote_response_inv [OF assms(1-4) resp] by simp
  qed
  have "out = out1" "n' = n1 \<or> n' = n1\<lparr>n_closed := n_closed n1 @ n_proposals n1, n_proposals := []\<rparr>"
    using assms(6) d by (auto simp: run_msg_def)
  then show ?thesis using inv inv_close [OF inv assms(3)] by auto
qed

lemma fresh_base:
  assumes "good_ids ids" and "i \<in> set ids" and "Load store = Some st" and "wf_PersistentState st" and "length (ps_Log st) < 2 ^ 64"
  shows "node_base ids i (fresh_node ids i store)" "n_state (fresh_node ids i store) = st"
    "n_role (fresh_node ids i store) = Follower"
  using assms good_peers [OF assms(1,2)]
  by (simp_all add: fresh_node_def Start_def NewNode_def node_base_def Let_def)

lemma restart_inv:
  assumes "good_ids ids" and "election_inv ids (nodes, net)" and "i \<in> set ids"
  shows "election_inv ids (nodes(i := fresh_node ids i (n_store (nodes i))), net)"
proof -
  let ?n = "nodes i" and ?f = "fresh_node ids i (n_store (nodes i))"
  have b: "node_base ids i ?n" using assms(2,3) by (simp add: election_inv_def)
  have f: "node_base ids i ?f" "n_state ?f = n_state ?n" "n_role ?f = Follower"
    using b fresh_base [OF assms(1,3), of "n_store ?n" "n_state ?n"] by (auto simp: node_base_def)
  then show ?thesis
    using inv_quiet_step [OF assms(2,3) f(1) campaign_follower [OF f(3)], of "{}"] by simp
qed

lemma initial_inv:
  assumes "good_ids ids"
  shows "election_inv ids (initial ids)"
proof -
  have z: "Load None = Some zero_PersistentState" "wf_PersistentState zero_PersistentState"
    "length (ps_Log zero_PersistentState) < 2 ^ 64"
    by (simp_all add: Load_def zero_PersistentState_def wf_PersistentState_def valid_utf8.simps)
  have "node_base ids i (fresh_node ids i None) \<and> campaign_ok ids {} i (fresh_node ids i None)" if "i \<in> set ids" for i
    using fresh_base [OF assms that z] by (auto intro: campaign_follower)
  then show ?thesis by (simp add: election_inv_def initial_def votes_ok_def grant_def)
qed

lemma step_inv:
  assumes "good_ids ids" and "election_inv ids s" and "step ids not_append s s'"
  shows "election_inv ids s'"
  using assms(3,2)
proof (cases rule: step.cases)
  case (step_timeout i nodes n' out net)
  then show ?thesis using timeout_inv [OF assms(1)] assms(2) by blast
next
  case (step_deliver i m net nodes n' out reset)
  then show ?thesis using deliver_inv [OF assms(1)] assms(2) by blast
next
  case (step_heartbeat i nodes n' out net)
  then show ?thesis using heartbeat_inv assms(2) by blast
next
  case (step_propose i nodes cmd n' out r net)
  then show ?thesis using propose_inv assms(2) by blast
next
  case (step_restart i nodes net)
  then show ?thesis using restart_inv [OF assms(1)] assms(2) by blast
qed

lemma reachable_inv:
  assumes "good_ids ids" and "(step ids not_append)\<^sup>*\<^sup>* (initial ids) s"
  shows "election_inv ids s"
  using assms(2)
proof (induction rule: rtranclp_induct)
  case base
  show ?case by (rule initial_inv [OF assms(1)])
next
  case (step s s')
  then show ?case using step_inv [OF assms(1)] by blast
qed

text \<open>C2. Election safety: in a cluster of any size, on a network that loses, delays, repeats and
  reorders messages, with nodes that crash and restart from their state file, no two nodes lead in
  the same term, as long as no AppendEntries message is delivered.\<close>

theorem election_safety:
  assumes "good_ids ids" and "(step ids not_append)\<^sup>*\<^sup>* (initial ids) (nodes, net)"
    and "a \<in> set ids" and "b \<in> set ids" and "n_role (nodes a) = Leader" and "n_role (nodes b) = Leader"
    and "n_term (nodes a) = n_term (nodes b)"
  shows "a = b"
proof -
  have inv: "election_inv ids (nodes, net)" using reachable_inv [OF assms(1,2)] .
  define t where "t = n_term (nodes a)"
  have V: "votes_ok ids (nodes, net)" using inv by (simp add: election_inv_def)
  have lead: "n_votedFor (nodes x) = x \<and> set (n_voteGranted (nodes x)) \<subseteq> set ids \<and>
      length ids < 2 * card (set (n_voteGranted (nodes x))) \<and>
      (\<forall>v\<in>set (n_voteGranted (nodes x)). v = x \<or> grant net v t x)"
    if "x \<in> set ids" "n_role (nodes x) = Leader" "n_term (nodes x) = t" for x
  proof -
    have n: "node_base ids x (nodes x)" "campaign_ok ids net x (nodes x)" using inv that by (auto simp: election_inv_def)
    have "quorum (nodes x) = length ids div 2 + 1"
      using n(1) good_peers(1) [OF assms(1) that(1)] by (simp add: quorum_def node_base_def)
    moreover have "card (set (n_voteGranted (nodes x))) = length (n_voteGranted (nodes x))"
      using n(2) that by (simp add: campaign_ok_def distinct_card)
    ultimately show ?thesis using n(2) that by (auto simp: campaign_ok_def)
  qed
  define ballot where "ballot v x \<longleftrightarrow> grant net v t x \<or> (v = x \<and> n_term (nodes v) = t \<and> n_votedFor (nodes v) = x)" for v x
  note la = lead [OF assms(3,5)] and lb = lead [OF assms(4,6)]
  have ta: "n_term (nodes a) = t" "n_term (nodes b) = t" using assms(7) by (simp_all add: t_def)
  show "a = b"
  proof (rule majority.one_winner [of "set (n_voteGranted (nodes a))" ids "set (n_voteGranted (nodes b))" ballot])
    show "x = y" if "ballot v x" "ballot v y" for v x y
      using that V by (auto simp: ballot_def votes_ok_def)
  qed (use la lb ta in \<open>auto simp: ballot_def\<close>)
qed

section \<open>Two leaders in one term\<close>

text \<open>
  Three nodes. Both \<open>a\<close> and \<open>c\<close> campaign in term 1; \<open>b\<close> votes for \<open>a\<close>, which becomes leader; its
  first AppendEntries clears the vote of \<open>b\<close>, which then also votes for \<open>c\<close> in term 1.
\<close>

definition abc :: "string list" where
  "abc = [''a'', ''b'', ''c'']"

abbreviation any_msg :: "RaftMessage \<Rightarrow> bool" where
  "any_msg \<equiv> \<lambda>_. True"

lemma abc_good: "good_ids abc"
  by (simp add: good_ids_def abc_def ascii_valid_utf8)

definition blank :: "string \<Rightarrow> Node" where
  "blank i = fresh_node abc i None"

lemma blank_fields [simp]:
  "i \<in> set abc \<Longrightarrow> n_selfID (blank i) = i" "i \<in> set abc \<Longrightarrow> n_peers (blank i) = removeAll i abc"
  "i \<in> set abc \<Longrightarrow> n_peerAddrMap (blank i) = Map.empty"
  "i \<in> set abc \<Longrightarrow> n_state (blank i) = zero_PersistentState" "i \<in> set abc \<Longrightarrow> n_role (blank i) = Follower"
proof -
  show "n_selfID (blank i) = i" "n_peers (blank i) = removeAll i abc" "n_peerAddrMap (blank i) = Map.empty"
    "n_state (blank i) = zero_PersistentState" "n_role (blank i) = Follower" if "i \<in> set abc"
    using good_peers(2) [OF abc_good that]
    by (simp_all add: blank_def fresh_node_def Start_def NewNode_def Load_def Let_def)
qed

definition rv_msg :: "string \<Rightarrow> RaftMessage" where
  "rv_msg i = \<lparr>rm_Type = MsgRaftRequestVote, rm_From = i, rm_Term = 1, rm_Body = EncodeRequestVoteArgs
     \<lparr>rv_Term = 1, rv_CandidateID = i, rv_LastLogIndex = 0, rv_LastLogTerm = 0\<rparr>\<rparr>"

definition vr_msg :: "string \<Rightarrow> RaftMessage" where
  "vr_msg i = \<lparr>rm_Type = MsgRaftVoteResponse, rm_From = i, rm_Term = 1, rm_Body = EncodeRequestVoteReply
     \<lparr>vr_Term = 1, vr_VoteGranted = True\<rparr>\<rparr>"

definition hb_msg :: "string \<Rightarrow> RaftMessage" where
  "hb_msg i = \<lparr>rm_Type = MsgRaftAppendEntries, rm_From = i, rm_Term = 1, rm_Body = EncodeAppendEntriesArgs
     \<lparr>ae_Term = 1, ae_LeaderID = i, ae_PrevLogIndex = 0, ae_PrevLogTerm = 0, ae_Entries = [], ae_LeaderCommit = 0\<rparr>\<rparr>"

lemma decode_msgs [simp]:
  "i \<in> set abc \<Longrightarrow> DecodeRequestVoteArgs (rm_Body (rv_msg i)) =
     Some \<lparr>rv_Term = 1, rv_CandidateID = i, rv_LastLogIndex = 0, rv_LastLogTerm = 0\<rparr>"
  "DecodeRequestVoteReply (rm_Body (vr_msg i)) = Some \<lparr>vr_Term = 1, vr_VoteGranted = True\<rparr>"
  "i \<in> set abc \<Longrightarrow> DecodeAppendEntriesArgs (rm_Body (hb_msg i)) =
     Some \<lparr>ae_Term = 1, ae_LeaderID = i, ae_PrevLogIndex = 0, ae_PrevLogTerm = 0, ae_Entries = [], ae_LeaderCommit = 0\<rparr>"
  using good_idsD [OF abc_good, of i]
  by (simp_all add: rv_msg_def vr_msg_def hb_msg_def vote_args_codec.dec_enc vote_reply_codec.dec_enc
      append_args_codec.dec_enc wf_RequestVoteArgs_def wf_RequestVoteReply_def wf_AppendEntriesArgs_def)

lemma msg_fields [simp]:
  "rm_Type (rv_msg i) = MsgRaftRequestVote" "rm_Type (vr_msg i) = MsgRaftVoteResponse"
  "rm_Type (hb_msg i) = MsgRaftAppendEntries" "rm_From (vr_msg i) = i"
  by (simp_all add: rv_msg_def vr_msg_def hb_msg_def)

definition candidate_of :: "string \<Rightarrow> Node \<Rightarrow> bool" where
  "candidate_of i n \<longleftrightarrow>
     n_selfID n = i \<and> n_peers n = removeAll i abc \<and> n_peerAddrMap n = Map.empty \<and> n_role n = Candidate \<and>
     n_term n = 1 \<and> n_log n = [] \<and> n_voteGranted n = [i] \<and> n_commitIndex n = 0"

lemma blank_commit [simp]: "i \<in> set abc \<Longrightarrow> n_commitIndex (blank i) = 0"
  using good_peers(2) [OF abc_good]
  by (simp add: blank_def fresh_node_def Start_def NewNode_def Load_def Let_def)

lemma campaign_blank:
  assumes "i \<in> set abc"
  obtains n out where "handleElectionTimeout (blank i) = (n, out)" "candidate_of i n"
    "\<And>j. j \<in> set abc \<Longrightarrow> j \<noteq> i \<Longrightarrow> (j, rv_msg i) \<in> set out"
proof -
  obtain n out where h: "handleElectionTimeout (blank i) = (n, out)" by (cases "handleElectionTimeout (blank i)")
  have p: "removeAll i abc \<noteq> []" using good_peers(2) [OF abc_good assms] .
  have "candidate_of i n"
    using h assms p by (auto simp: handleElectionTimeout_def Let_def candidate_of_def zero_PersistentState_def)
  moreover have "(j, rv_msg i) \<in> set out" if "j \<in> set abc" "j \<noteq> i" for j
    using h assms p that good_idsD [OF abc_good that(1)]
    by (auto simp: handleElectionTimeout_def Let_def send_to_def peerAddr_def raft_msg_def rv_msg_def
        zero_PersistentState_def)
  ultimately show ?thesis using that h by blast
qed

text \<open>A node that can still vote in term 1 grants its vote.\<close>

definition can_vote :: "string \<Rightarrow> Node \<Rightarrow> bool" where
  "can_vote v n \<longleftrightarrow>
     n_selfID n = v \<and> n_peerAddrMap n = Map.empty \<and> n_role n = Follower \<and> n_log n = [] \<and> n_commitIndex n = 0 \<and>
     (n_term n = 0 \<or> n_term n = 1 \<and> n_votedFor n = [])"

lemma request_vote_eq:
  "DecodeRequestVoteArgs (rm_Body m) = Some a \<Longrightarrow>
   n1 = (if rv_Term a > n_term n then step_down n (rv_Term a) else n) \<Longrightarrow>
   handleRequestVote n m =
     (cast_vote n1 a,
      send_to (cast_vote n1 a) (rv_CandidateID a) (raft_msg (cast_vote n1 a) MsgRaftVoteResponse
        (EncodeRequestVoteReply \<lparr>vr_Term = n_term n1, vr_VoteGranted = can_grant n1 a\<rparr>)),
      can_grant n1 a \<or> n_term n1 > n_term (cast_vote n1 a))"
  by (simp add: handleRequestVote_def Let_def del: if_split)

lemma vote_for:
  assumes "can_vote v n" and "i \<in> set abc"
  obtains n' reset where "run_msg n (rv_msg i) = (n', [(i, vr_msg v)], reset)"
    "n_selfID n' = v" "n_peerAddrMap n' = Map.empty" "n_term n' = 1" "n_role n' = Follower" "n_log n' = []" "n_commitIndex n' = 0"
proof -
  define n1 where "n1 = (if 1 > n_term n then step_down n 1 else n)"
  let ?a = "\<lparr>rv_Term = 1, rv_CandidateID = i, rv_LastLogIndex = 0, rv_LastLogTerm = 0\<rparr>"
  have n1: "n_term n1 = 1" "n_votedFor n1 = []" "n_log n1 = []" "n_selfID n1 = v" "n_peerAddrMap n1 = Map.empty"
    "n_role n1 = Follower" "n_commitIndex n1 = 0"
    using assms(1) by (auto simp: n1_def can_vote_def)
  have g: "can_grant n1 ?a" using n1 by (simp add: can_grant_def logUpToDate_def lastLogIndexAndTermLocked_def)
  have "handleRequestVote n (rv_msg i) = (cast_vote n1 ?a, [(i, vr_msg v)], True)"
    using request_vote_eq [OF decode_msgs(1) [OF assms(2)], of n1 n] n1 g good_idsD [OF abc_good assms(2)]
    by (simp add: n1_def [simplified] send_to_def peerAddr_def raft_msg_def vr_msg_def)
  then have "run_msg n (rv_msg i) = (cast_vote n1 ?a, [(i, vr_msg v)], True)"
    using assms(1) by (simp add: run_msg_def dispatchMsg_def rv_msg_def can_vote_def)
  then show ?thesis using that n1 by simp
qed

lemma win_election:
  assumes "candidate_of i n" and "i \<in> set abc" and "v \<in> set abc" and "v \<noteq> i"
  obtains n' out reset where "run_msg n (vr_msg v) = (n', out, reset)" "n_role n' = Leader" "n_term n' = 1"
    "\<And>j. j \<in> set abc \<Longrightarrow> j \<noteq> i \<Longrightarrow> (j, hb_msg i) \<in> set out"
proof -
  let ?n1 = "n\<lparr>n_voteGranted := List.insert v (n_voteGranted n)\<rparr>"
  let ?l = "becomeLeaderLocked ?n1"
  have c: "n_selfID n = i" "n_peers n = removeAll i abc" "n_role n = Candidate" "n_term n = 1" "n_log n = []"
    "n_voteGranted n = [i]" "n_peerAddrMap n = Map.empty" "n_commitIndex n = 0"
    using assms(1) by (simp_all add: candidate_of_def)
  have len: "length (removeAll i abc) = 2" using good_peers(1) [OF abc_good assms(2)] by (simp add: abc_def)
  obtain n2 out where s: "send_append_loop ?l (n_peers ?l) = (n2, out)" by (cases "send_append_loop ?l (n_peers ?l)")
  then obtain nx where n2: "n2 = ?l\<lparr>n_nextIndex := nx\<rparr>" using send_loop_frame by blast
  have nxt: "clamp_next ?l j = 1" if "j \<in> set (removeAll i abc)" for j
    using that assms(2) c
    by (auto simp: clamp_next_def becomeLeaderLocked_def map_get_def abc_def Let_def split: prod.split if_splits)
  have "run_msg n (vr_msg v) = (n2, out, False)"
    using c len s assms(4)
    by (simp add: run_msg_def dispatchMsg_def handleVoteResponse_def quorum_def sendAppendEntriesToAll_def
        Let_def msg_types)
  moreover have "(j, hb_msg i) \<in> set out" if "j \<in> set abc" "j \<noteq> i" for j
  proof -
    have "append_args ?l (clamp_next ?l j) = Some (args_after ?l 0)"
      using nxt [of j] that append_args_at [of 0 ?l] by simp
    moreover have "append_msg ?l (args_after ?l 0) = hb_msg i"
      using c by (simp add: append_msg_def args_after_def raft_msg_def hb_msg_def)
    ultimately show ?thesis
      using send_loop_out [of j "n_peers ?l" ?l n2 out] s that c good_idsD [OF abc_good that(1)]
      abc_good by (simp add: peerAddr_def good_ids_def distinct_removeAll)
  qed
  moreover have "n_role n2 = Leader" "n_term n2 = 1" using c by (simp_all add: n2)
  ultimately show ?thesis using that by blast
qed

lemma heartbeat_clears_vote:
  assumes "n_selfID n = v" and "n_peerAddrMap n = Map.empty" and "n_term n = 1" and "n_role n = Follower"
    and "n_log n = []" and "n_commitIndex n = 0" and "i \<in> set abc"
  obtains n' out reset where "run_msg n (hb_msg i) = (n', out, reset)" "can_vote v n'"
proof -
  obtain n' out reset where r: "run_msg n (hb_msg i) = (n', out, reset)" by (cases "run_msg n (hb_msg i)")
  have "can_vote v n'"
    using r assms
    by (auto simp: run_msg_def dispatchMsg_def msg_types handleAppendEntries_def appendEntriesFromLeader_def prev_conflict_def
        follow_commit_def Let_def can_vote_def)
  then show ?thesis using that r by blast
qed

text \<open>C32. Two leaders in one term: with AppendEntries messages delivered, a cluster of three nodes reaches
  a state in which two different nodes are leaders of term 1. Handling AppendEntries resets the vote
  of the current term, so a follower that has already elected the leader votes a second time.\<close>

theorem two_leaders_one_term:
  "\<exists>nodes net. (step abc any_msg)\<^sup>*\<^sup>* (initial abc) (nodes, net) \<and>
     n_role (nodes ''a'') = Leader \<and> n_role (nodes ''c'') = Leader \<and>
     n_term (nodes ''a'') = 1 \<and> n_term (nodes ''c'') = 1"
proof -
  have ids: "''a'' \<in> set abc" "''b'' \<in> set abc" "''c'' \<in> set abc" by (simp_all add: abc_def)
  have ne: "''b'' \<noteq> ''a''" "''b'' \<noteq> ''c''" "''c'' \<noteq> ''a''" "''a'' \<noteq> ''b''" by simp_all
  define s0 where "s0 = (\<lambda>i. blank i)"
  obtain a1 o1 where a1: "handleElectionTimeout (blank ''a'') = (a1, o1)" "candidate_of ''a'' a1"
    "(''b'', rv_msg ''a'') \<in> set o1" using campaign_blank [OF ids(1)] ids(2) ne(1) by metis
  obtain c1 o2 where c1: "handleElectionTimeout (blank ''c'') = (c1, o2)" "candidate_of ''c'' c1"
    "(''b'', rv_msg ''c'') \<in> set o2" using campaign_blank [OF ids(3)] ids(2) ne(2) by metis
  have "can_vote ''b'' (blank ''b'')" using ids(2) by (simp add: can_vote_def zero_PersistentState_def)
  then obtain b1 x1 where b1: "run_msg (blank ''b'') (rv_msg ''a'') = (b1, [(''a'', vr_msg ''b'')], x1)"
    "n_selfID b1 = ''b''" "n_peerAddrMap b1 = Map.empty" "n_term b1 = 1" "n_role b1 = Follower" "n_log b1 = []"
    "n_commitIndex b1 = 0" using vote_for ids(1) by metis
  obtain a2 o3 x2 where a2: "run_msg a1 (vr_msg ''b'') = (a2, o3, x2)" "n_role a2 = Leader" "n_term a2 = 1"
    "(''b'', hb_msg ''a'') \<in> set o3" using win_election [OF a1(2) ids(1,2) ne(1)] ids(2) ne(1) by metis
  obtain b2 o4 x3 where b2: "run_msg b1 (hb_msg ''a'') = (b2, o4, x3)" "can_vote ''b'' b2"
    using heartbeat_clears_vote [OF b1(2-7) ids(1)] by metis
  obtain b3 x4 where b3: "run_msg b2 (rv_msg ''c'') = (b3, [(''c'', vr_msg ''b'')], x4)"
    using vote_for [OF b2(2) ids(3)] by metis
  obtain c2 o5 x5 where c2: "run_msg c1 (vr_msg ''b'') = (c2, o5, x5)" "n_role c2 = Leader" "n_term c2 = 1"
    using win_election [OF c1(2) ids(3,2) ne(2)] by metis
  have z: "n_term (blank i) = 0" if "i \<in> set abc" for i using that by (simp add: zero_PersistentState_def)
  define f1 f2 f3 f4 f5 f6 f7 where "f1 = s0(''a'' := a1)" and "f2 = f1(''c'' := c1)" and "f3 = f2(''b'' := b1)"
    and "f4 = f3(''a'' := a2)" and "f5 = f4(''b'' := b2)" and "f6 = f5(''b'' := b3)" and "f7 = f6(''c'' := c2)"
  note fs = s0_def f1_def f2_def f3_def f4_def f5_def f6_def f7_def
  have vals: "s0 ''a'' = blank ''a''" "f1 ''c'' = blank ''c''" "f2 ''b'' = blank ''b''" "f3 ''a'' = a1" "f4 ''b'' = b1"
    "f5 ''b'' = b2" "f6 ''c'' = c1" "f7 ''a'' = a2" "f7 ''c'' = c2" by (simp_all add: fs)
  let ?S = "step abc any_msg"
  let ?n1 = "{} \<union> set o1" let ?n2 = "?n1 \<union> set o2" let ?n3 = "?n2 \<union> set [(''a'', vr_msg ''b'')]"
  let ?n4 = "?n3 \<union> set o3" let ?n5 = "?n4 \<union> set o4" let ?n6 = "?n5 \<union> set [(''c'', vr_msg ''b'')]"
  have "?S (s0, {}) (f1, ?n1)" unfolding f1_def
    by (rule step_timeout [OF ids(1)]) (simp_all only: vals z [OF ids(1)] a1, simp)
  moreover have "?S (f1, ?n1) (f2, ?n2)" unfolding f2_def
    by (rule step_timeout [OF ids(3)]) (simp_all only: vals z [OF ids(3)] c1, simp)
  moreover have "?S (f2, ?n2) (f3, ?n3)" unfolding f3_def
    by (rule step_deliver [OF ids(2), of "rv_msg ''a''"]) (simp_all add: vals a1(3) b1(1))
  moreover have "?S (f3, ?n3) (f4, ?n4)" unfolding f4_def
    by (rule step_deliver [OF ids(1), of "vr_msg ''b''"]) (simp_all add: vals a2(1))
  moreover have "?S (f4, ?n4) (f5, ?n5)" unfolding f5_def
    by (rule step_deliver [OF ids(2), of "hb_msg ''a''"]) (simp_all add: vals a2(4) b2(1))
  moreover have "?S (f5, ?n5) (f6, ?n6)" unfolding f6_def
    by (rule step_deliver [OF ids(2), of "rv_msg ''c''"]) (simp_all add: vals c1(3) b3(1))
  moreover have "?S (f6, ?n6) (f7, ?n6 \<union> set o5)" unfolding f7_def
    by (rule step_deliver [OF ids(3), of "vr_msg ''b''"]) (simp_all add: vals c2(1))
  ultimately have "?S\<^sup>*\<^sup>* (s0, {}) (f7, ?n6 \<union> set o5)"
    by (meson converse_rtranclp_into_rtranclp rtranclp.rtrancl_refl)
  moreover have "initial abc = (s0, {})" by (simp add: initial_def s0_def blank_def)
  ultimately show ?thesis
    using vals(8,9) a2(2,3) c2(2,3) by (intro exI [of _ f7] exI [of _ "?n6 \<union> set o5"]) simp
qed

section \<open>Witness\<close>

theorem election_safety_witness:
  "\<exists>nodes net. (step abc not_append)\<^sup>*\<^sup>* (initial abc) (nodes, net) \<and> n_role (nodes ''a'') = Leader \<and>
     n_term (nodes ''a'') = 1 \<and>
     (\<forall>x. x \<in> set abc \<and> n_role (nodes x) = Leader \<and> n_term (nodes x) = 1 \<longrightarrow> x = ''a'')"
proof -
  have ids: "''a'' \<in> set abc" "''b'' \<in> set abc" by (simp_all add: abc_def)
  have ne: "''b'' \<noteq> ''a''" by simp
  obtain a1 o1 where a1: "handleElectionTimeout (blank ''a'') = (a1, o1)" "candidate_of ''a'' a1"
    "(''b'', rv_msg ''a'') \<in> set o1" using campaign_blank [OF ids(1)] ids(2) ne by metis
  have "can_vote ''b'' (blank ''b'')" using ids(2) by (simp add: can_vote_def zero_PersistentState_def)
  then obtain b1 x1 where b1: "run_msg (blank ''b'') (rv_msg ''a'') = (b1, [(''a'', vr_msg ''b'')], x1)"
    using vote_for ids(1) by metis
  obtain a2 o3 x2 where a2: "run_msg a1 (vr_msg ''b'') = (a2, o3, x2)" "n_role a2 = Leader" "n_term a2 = 1"
    using win_election [OF a1(2) ids(1,2) ne] by metis
  let ?S = "step abc not_append"
  define f1 f2 f3 where "f1 = blank(''a'' := a1)" and "f2 = f1(''b'' := b1)" and "f3 = f2(''a'' := a2)"
  have vals: "f1 ''b'' = blank ''b''" "f2 ''a'' = a1" "f3 ''a'' = a2" by (simp_all add: f1_def f2_def f3_def)
  let ?n1 = "{} \<union> set o1" let ?n2 = "?n1 \<union> set [(''a'', vr_msg ''b'')]"
  have z: "n_term (blank ''a'') = 0" using ids(1) by (simp add: zero_PersistentState_def)
  have "?S (blank, {}) (f1, ?n1)" unfolding f1_def
    by (rule step_timeout [OF ids(1)]) (simp_all only: z a1, simp)
  moreover have "?S (f1, ?n1) (f2, ?n2)" unfolding f2_def
    by (rule step_deliver [OF ids(2), of "rv_msg ''a''"]) (simp_all add: vals a1(3) b1(1) not_append_def msg_types)
  moreover have "?S (f2, ?n2) (f3, ?n2 \<union> set o3)" unfolding f3_def
    by (rule step_deliver [OF ids(1), of "vr_msg ''b''"]) (simp_all add: vals a2(1) not_append_def msg_types)
  ultimately have "?S\<^sup>*\<^sup>* (blank, {}) (f3, ?n2 \<union> set o3)"
    by (meson converse_rtranclp_into_rtranclp rtranclp.rtrancl_refl)
  then have r: "?S\<^sup>*\<^sup>* (initial abc) (f3, ?n2 \<union> set o3)" by (simp add: initial_def blank_def [abs_def])
  have "x = ''a''" if "x \<in> set abc" "n_role (f3 x) = Leader" "n_term (f3 x) = 1" for x
    using election_safety [OF abc_good r that(1) ids(1) that(2)] that(3) vals(3) a2(2,3) by simp
  then show ?thesis using r vals(3) a2(2,3) by (intro exI [of _ f3] exI conjI) auto
qed

end
