(* ===== verification/Cluster_Members.thy ===== *)
theory Cluster_Members
  imports Raft_Rpc Topics
begin

text \<open>
  The data of a broker cluster: members and their registry (\<^verbatim>\<open>src/internal/cluster/member.go\<close>,
  \<^verbatim>\<open>membership.go\<close>), the assignment of partitions to nodes (\<^verbatim>\<open>partition_map.go\<close>), in-sync replicas
  and the wait for a quorum (\<^verbatim>\<open>isr.go\<close>, \<^verbatim>\<open>quorum.go\<close>), and the messages between nodes with their wire format
  (\<^verbatim>\<open>transport.go\<close>). Times are nanoseconds; a time that only travels in JSON is kept as its RFC 3339 text.
\<close>

section \<open>Members\<close>

record Member =
  mb_NodeID :: string
  mb_Addr :: string
  mb_HTTPAddr :: string
  mb_JoinedAt :: string

definition zero_Member :: Member where
  "zero_Member = \<lparr>mb_NodeID = [], mb_Addr = [], mb_HTTPAddr = [], mb_JoinedAt = ''0001-01-01T00:00:00Z''\<rparr>"

text \<open>The texts that \<open>time.Time\<close> accepts in JSON.\<close>

definition digits_at :: "string \<Rightarrow> nat \<Rightarrow> nat \<Rightarrow> nat option" where
  "digits_at s i n =
     (let t = take n (drop i s) in if length t = n \<and> list_all is_digit t then Some (read_nat t) else None)"

definition number_at :: "string \<Rightarrow> nat \<Rightarrow> nat \<Rightarrow> nat \<Rightarrow> bool" where
  "number_at s i lo hi = (case digits_at s i 2 of None \<Rightarrow> False | Some v \<Rightarrow> lo \<le> v \<and> v \<le> hi)"

definition daysIn :: "nat \<Rightarrow> nat \<Rightarrow> nat" where
  "daysIn month year =
     (if month = 2 then (if year mod 4 = 0 \<and> (year mod 100 \<noteq> 0 \<or> year mod 400 = 0) then 29 else 28)
      else if month \<in> {4, 6, 9, 11} then 30 else 31)"

definition zone_text :: "string \<Rightarrow> bool" where
  "zone_text z \<longleftrightarrow>
     z = ''Z'' \<or>
     length z = 6 \<and> (z ! 0 = CHR ''+'' \<or> z ! 0 = CHR ''-'') \<and> number_at z 1 0 23 \<and> z ! 3 = CHR '':'' \<and> number_at z 4 0 59"

definition rfc3339 :: "string \<Rightarrow> bool" where
  "rfc3339 s \<longleftrightarrow>
     20 \<le> length s \<and> s ! 4 = CHR ''-'' \<and> s ! 7 = CHR ''-'' \<and> s ! 10 = CHR ''T'' \<and> s ! 13 = CHR '':'' \<and> s ! 16 = CHR '':'' \<and>
     (case (digits_at s 0 4, digits_at s 5 2) of
        (Some year, Some month) \<Rightarrow> 1 \<le> month \<and> month \<le> 12 \<and> number_at s 8 1 (daysIn month year)
      | _ \<Rightarrow> False) \<and>
     number_at s 11 0 23 \<and> number_at s 14 0 59 \<and> number_at s 17 0 59 \<and>
     (if s ! 19 = CHR ''.'' then is_digit (s ! 20) \<and> zone_text (dropWhile is_digit (drop 20 s)) else zone_text (drop 19 s))"

definition as_time :: "(string \<Rightarrow> 'a \<Rightarrow> 'a) \<Rightarrow> 'a setter" where
  "as_time upd j x =
     (case j of JStr s \<Rightarrow> if rfc3339 s then Some (upd s x) else None | JNull \<Rightarrow> Some x | _ \<Rightarrow> None)"

definition Member_json :: "Member \<Rightarrow> json" where
  "Member_json m = JObj
     [(''node_id'', JStr (mb_NodeID m)), (''addr'', JStr (mb_Addr m)), (''http_addr'', JStr (mb_HTTPAddr m)),
      (''joined_at'', JStr (mb_JoinedAt m))]"

definition Member_fields :: "(string \<times> Member setter) list" where
  "Member_fields =
     [(''node_id'', as_string (\<lambda>s. mb_NodeID_update (\<lambda>_. s))), (''addr'', as_string (\<lambda>s. mb_Addr_update (\<lambda>_. s))),
      (''http_addr'', as_string (\<lambda>s. mb_HTTPAddr_update (\<lambda>_. s))), (''joined_at'', as_time (\<lambda>s. mb_JoinedAt_update (\<lambda>_. s)))]"

definition wf_Member :: "Member \<Rightarrow> bool" where
  "wf_Member m \<longleftrightarrow>
     valid_utf8 (mb_NodeID m) \<and> valid_utf8 (mb_Addr m) \<and> valid_utf8 (mb_HTTPAddr m) \<and>
     valid_utf8 (mb_JoinedAt m) \<and> rfc3339 (mb_JoinedAt m)"

record Membership =
  ms_self :: Member
  ms_members :: "(string \<times> Member) list"

definition NewMembership :: "Member \<Rightarrow> Membership" where
  "NewMembership self = \<lparr>ms_self = self, ms_members = [(mb_NodeID self, self)]\<rparr>"

definition Membership_Add :: "Membership \<Rightarrow> Member \<Rightarrow> Membership" where
  "Membership_Add m member = m\<lparr>ms_members := map_put (mb_NodeID member) member (ms_members m)\<rparr>"

definition Membership_Remove :: "Membership \<Rightarrow> string \<Rightarrow> Membership" where
  "Membership_Remove m nodeID =
     (if nodeID = mb_NodeID (ms_self m) then m
      else m\<lparr>ms_members := filter (\<lambda>(k, _). k \<noteq> nodeID) (ms_members m)\<rparr>)"

definition Membership_Get :: "Membership \<Rightarrow> string \<Rightarrow> Member option" where
  "Membership_Get m nodeID = map_of (ms_members m) nodeID"

definition Membership_All :: "Membership \<Rightarrow> Member list" where
  "Membership_All m = sort_key mb_NodeID (map snd (ms_members m))"

definition Membership_Len :: "Membership \<Rightarrow> nat" where
  "Membership_Len m = length (ms_members m)"

section \<open>Partition map\<close>

type_synonym PartitionMap = "(string \<times> (int \<times> string) list) list"

definition PartitionMap_Assign :: "PartitionMap \<Rightarrow> string \<Rightarrow> int \<Rightarrow> string list \<Rightarrow> PartitionMap" where
  "PartitionMap_Assign pm topic partitions nodes =
     (if nodes = [] \<or> partitions \<le> 0 then pm
      else map_put topic
        (foldl (\<lambda>a i. map_put (int32_of i) (nodes ! (nat i mod length nodes)) a) [] [0..partitions - 1]) pm)"

definition PartitionMap_Owner :: "PartitionMap \<Rightarrow> string \<Rightarrow> int \<Rightarrow> string" where
  "PartitionMap_Owner pm topic part =
     (case map_of pm topic of
        None \<Rightarrow> []
      | Some a \<Rightarrow> (case map_of a part of None \<Rightarrow> [] | Some node \<Rightarrow> node))"

definition PartitionMap_OwnedBy :: "PartitionMap \<Rightarrow> string \<Rightarrow> (string \<times> int list) list" where
  "PartitionMap_OwnedBy pm nodeID =
     filter (\<lambda>(_, ps). ps \<noteq> [])
       (map (\<lambda>(topic, a). (topic, sort (map fst (filter (\<lambda>(_, owner). owner = nodeID) a)))) pm)"

text \<open>
  The JSON form has partition numbers as object keys, in the order of their text. The decoder reads a topic's
  object into a fresh map and parses the keys; two keys for one number (\<open>1\<close> and \<open>01\<close>) are taken in the
  order of their text, where Go takes them in any order.
\<close>

definition PartitionMap_json :: "PartitionMap \<Rightarrow> json" where
  "PartitionMap_json pm = JObj
     [(''owner'', JObj (map (\<lambda>(topic, a).
         (topic, strmap_json (foldl (\<lambda>m (p, node). map_put (show_int p) node m) [] a))) pm))]"

definition Atoi :: "string \<Rightarrow> int option" where
  "Atoi s = num_in (- (2 ^ 63)) (2 ^ 63 - 1) (case s of [] \<Rightarrow> [] | c # r \<Rightarrow> if c = CHR ''+'' then (if r \<noteq> [] \<and> is_digit (hd r) then r else []) else s)"

fun put_owners :: "(string \<times> json) list \<Rightarrow> (string \<times> (string \<times> string) list) list \<Rightarrow>
    (string \<times> (string \<times> string) list) list option" where
  "put_owners [] m = Some m"
| "put_owners ((k, j) # fs) m =
     (case j of
        JObj gs \<Rightarrow> Option.bind (put_strings gs []) (\<lambda>a. put_owners fs (map_put k a m))
      | JNull \<Rightarrow> put_owners fs (map_put k [] m)
      | _ \<Rightarrow> None)"

definition as_owners :: "(string \<times> (string \<times> string) list) list setter" where
  "as_owners j m = (case j of JObj fs \<Rightarrow> put_owners fs m | JNull \<Rightarrow> Some [] | _ \<Rightarrow> None)"

fun parse_keys :: "(string \<times> string) list \<Rightarrow> (int \<times> string) list \<Rightarrow> (int \<times> string) list option" where
  "parse_keys [] a = Some a"
| "parse_keys ((pStr, node) # kvs) a =
     (case Atoi pStr of None \<Rightarrow> None | Some p \<Rightarrow> parse_keys kvs (map_put (int32_of p) node a))"

fun parse_owners :: "(string \<times> (string \<times> string) list) list \<Rightarrow> PartitionMap \<Rightarrow> PartitionMap option" where
  "parse_owners [] pm = Some pm"
| "parse_owners ((topic, kvs) # m) pm =
     (case parse_keys kvs [] of None \<Rightarrow> None | Some a \<Rightarrow> parse_owners m (map_put topic a pm))"

text \<open>\<open>UnmarshalJSON\<close>; the map that was there is replaced.\<close>

definition as_PartitionMap :: "PartitionMap setter" where
  "as_PartitionMap j pm =
     Option.bind (assign_struct [(''owner'', as_owners)] j []) (\<lambda>m. parse_owners m [])"

definition wf_PartitionMap :: "PartitionMap \<Rightarrow> bool" where
  "wf_PartitionMap pm \<longleftrightarrow>
     map_sorted pm \<and>
     list_all (\<lambda>(topic, a). valid_utf8 topic \<and> map_sorted a \<and> list_all (\<lambda>(p, node). int32_range p \<and> valid_utf8 node) a) pm"

section \<open>In-sync replicas\<close>

record ISRState =
  rs_NodeID :: string
  rs_LastOffset :: int
  rs_LastContact :: int

record ISRTracker =
  it_replicas :: "(string \<times> ISRState) list"
  it_maxLagMessages :: int
  it_maxLag :: int

definition NewISRTracker :: "int \<Rightarrow> int \<Rightarrow> ISRTracker" where
  "NewISRTracker maxLagMessages maxLagMs =
     \<lparr>it_replicas = [], it_maxLagMessages = maxLagMessages, it_maxLag = int64_of (maxLagMs * 1000000)\<rparr>"

definition ISR_Update :: "int \<Rightarrow> ISRTracker \<Rightarrow> string \<Rightarrow> int \<Rightarrow> ISRTracker" where
  "ISR_Update now t nodeID offset =
     (let s = (case map_of (it_replicas t) nodeID of None \<Rightarrow> \<lparr>rs_NodeID = nodeID, rs_LastOffset = 0, rs_LastContact = 0\<rparr> | Some s \<Rightarrow> s)
      in t\<lparr>it_replicas := map_put nodeID (s\<lparr>rs_LastOffset := offset, rs_LastContact := now\<rparr>) (it_replicas t)\<rparr>)"

definition ISR :: "int \<Rightarrow> ISRTracker \<Rightarrow> string \<Rightarrow> int \<Rightarrow> string list" where
  "ISR now t leaderID leaderOffset =
     leaderID # map fst (filter (\<lambda>(nodeID, s). nodeID \<noteq> leaderID \<and>
       leaderOffset - rs_LastOffset s \<le> it_maxLagMessages t \<and> now - rs_LastContact s \<le> it_maxLag t) (it_replicas t))"

definition ISR_Remove :: "ISRTracker \<Rightarrow> string \<Rightarrow> ISRTracker" where
  "ISR_Remove t nodeID = t\<lparr>it_replicas := filter (\<lambda>(k, _). k \<noteq> nodeID) (it_replicas t)\<rparr>"

definition ISR_Snapshot :: "ISRTracker \<Rightarrow> ISRState list" where
  "ISR_Snapshot t = map snd (it_replicas t)"

section \<open>Quorum\<close>

text \<open>
  \<open>obs i\<close> is the clock and the tracker at the \<open>i\<close>-th look; \<open>cancelled i\<close> says that the select before the
  \<open>i\<close>-th look takes the branch of the cancelled context. Waiting forever is \<^term>\<open>None\<close>.
\<close>

datatype quorum_error = QuorumCancelled

partial_function (option) quorum_loop ::
  "(nat \<Rightarrow> int \<times> ISRTracker) \<Rightarrow> (nat \<Rightarrow> bool) \<Rightarrow> string \<Rightarrow> int \<Rightarrow> nat \<Rightarrow> nat \<Rightarrow> (quorum_error, unit) result option" where
  "quorum_loop obs cancelled leaderID leaderOffset quorum i =
     (if cancelled i then Some (Inl QuorumCancelled)
      else if length (ISR (fst (obs i)) (snd (obs i)) leaderID leaderOffset) \<ge> quorum then Some (Inr ())
      else quorum_loop obs cancelled leaderID leaderOffset quorum (Suc i))"

definition WaitForQuorum ::
  "(nat \<Rightarrow> int \<times> ISRTracker) \<Rightarrow> (nat \<Rightarrow> bool) \<Rightarrow> string \<Rightarrow> int \<Rightarrow> nat \<Rightarrow> (quorum_error, unit) result option" where
  "WaitForQuorum obs cancelled leaderID leaderOffset quorum =
     (if length (ISR (fst (obs 0)) (snd (obs 0)) leaderID leaderOffset) \<ge> quorum then Some (Inr ())
      else quorum_loop obs cancelled leaderID leaderOffset quorum 1)"

text \<open>
  The broker's wait after a publish. The first look counts the in-sync replicas, the next ones are those of
  \<open>WaitForQuorum\<close>. No node or no tracker is \<^term>\<open>None\<close>.
\<close>

definition waitForQuorum ::
  "string option \<Rightarrow> bool \<Rightarrow> (nat \<Rightarrow> int \<times> ISRTracker) \<Rightarrow> (nat \<Rightarrow> bool) \<Rightarrow> int \<Rightarrow> (quorum_error, unit) result option" where
  "waitForQuorum clusterNode tracked obs cancelled offset =
     (case clusterNode of
        None \<Rightarrow> Some (Inr ())
      | Some nodeID \<Rightarrow>
          if \<not> tracked then Some (Inr ())
          else (let quorum = length (ISR (fst (obs 0)) (snd (obs 0)) nodeID offset) div 2 + 1
                in if quorum \<le> 1 then Some (Inr ())
                   else WaitForQuorum (\<lambda>i. obs (Suc i)) cancelled nodeID offset quorum))"

section \<open>Messages between nodes\<close>

definition MsgHeartbeat :: nat where "MsgHeartbeat = 1"

definition MsgVoteRequest :: nat where "MsgVoteRequest = 2"

definition MsgVoteGrant :: nat where "MsgVoteGrant = 3"

definition MsgVoteDeny :: nat where "MsgVoteDeny = 4"

definition MsgJoin :: nat where "MsgJoin = 5"

definition MsgJoinAck :: nat where "MsgJoinAck = 6"

definition MsgLeave :: nat where "MsgLeave = 7"

definition MsgMetaSync :: nat where "MsgMetaSync = 8"

definition MsgReplicaFetch :: nat where "MsgReplicaFetch = 9"

definition MsgReplicaData :: nat where "MsgReplicaData = 10"

definition MsgReplicaAck :: nat where "MsgReplicaAck = 11"

lemmas cluster_types =
  MsgHeartbeat_def MsgVoteRequest_def MsgVoteGrant_def MsgVoteDeny_def MsgJoin_def MsgJoinAck_def MsgLeave_def
  MsgMetaSync_def MsgReplicaFetch_def MsgReplicaData_def MsgReplicaAck_def

record ClusterMsg =
  cm_Type :: nat
  cm_From :: string
  cm_Term :: nat
  cm_Body :: bytes

definition ClusterMsg_json :: "ClusterMsg \<Rightarrow> json" where
  "ClusterMsg_json m = JObj
     ([(''type'', int_json (int (cm_Type m))), (''from'', JStr (cm_From m)), (''term'', int_json (int (cm_Term m)))] @
      opt_field (cm_Body m \<noteq> []) ''body'' (bytes_json (Some (cm_Body m))))"

definition ClusterMsg_fields :: "(string \<times> ClusterMsg setter) list" where
  "ClusterMsg_fields =
     [(''type'', as_uint 255 (\<lambda>n. cm_Type_update (\<lambda>_. n))), (''from'', as_string (\<lambda>s. cm_From_update (\<lambda>_. s))),
      (''term'', as_uint64 (\<lambda>n. cm_Term_update (\<lambda>_. n))),
      (''body'', as_bytes (\<lambda>b. cm_Body_update (\<lambda>_. case b of None \<Rightarrow> [] | Some bs \<Rightarrow> bs)))]"

definition maxMsgBody :: nat where
  "maxMsgBody = 4 * 1024 * 1024"

datatype wire_error =
    WireIO io_error
  | InvalidWireMagic byte byte
  | WireTooLarge nat
  | WireUnmarshal

definition writeMsg :: "ClusterMsg \<Rightarrow> bytes" where
  "writeMsg m =
     (let body = Marshal (ClusterMsg_json m)
      in [0xCB, 0x01, word_of_nat (cm_Type m)] @ rev (le_bytes 4 (length body)) @ body)"

definition readMsg :: "bytes \<Rightarrow> (wire_error, ClusterMsg \<times> bytes) result" where
  "readMsg r =
     (case readFull 7 r of
        Inl e \<Rightarrow> Inl (WireIO e)
      | Inr (hdr, r1) \<Rightarrow>
          if hdr ! 0 \<noteq> 0xCB \<or> hdr ! 1 \<noteq> 0x01 then Inl (InvalidWireMagic (hdr ! 0) (hdr ! 1))
          else (let bodyLen = le_nat (rev (drop 3 hdr))
                in if bodyLen > maxMsgBody then Inl (WireTooLarge bodyLen)
                   else case readFull bodyLen r1 of
                     Inl e \<Rightarrow> Inl (WireIO e)
                   | Inr (body, r2) \<Rightarrow>
                       (case Unmarshal (assign_struct ClusterMsg_fields) body
                               \<lparr>cm_Type = 0, cm_From = [], cm_Term = 0, cm_Body = []\<rparr> of
                          None \<Rightarrow> Inl WireUnmarshal
                        | Some m \<Rightarrow> Inr (m, r2))))"

definition wf_ClusterMsg :: "ClusterMsg \<Rightarrow> bool" where
  "wf_ClusterMsg m \<longleftrightarrow> cm_Type m < 256 \<and> valid_utf8 (cm_From m) \<and> cm_Term m < 2 ^ 64"

section \<open>Registry\<close>

text \<open>Every entry stands under its own node id, and the node itself is always registered.\<close>

definition members_inv :: "Membership \<Rightarrow> bool" where
  "members_inv m \<longleftrightarrow>
     map_sorted (ms_members m) \<and> list_all (\<lambda>(k, mb). mb_NodeID mb = k) (ms_members m) \<and>
     mb_NodeID (ms_self m) \<in> fst ` set (ms_members m)"

lemma map_put_set: "set (map_put k v m) \<subseteq> insert (k, v) (set m)"
  by (induction k v m rule: map_put.induct) auto

lemma map_sorted_filter: "map_sorted m \<Longrightarrow> map_sorted (filter P m)"
  unfolding map_sorted_def by (induction m) auto

lemma fst_map_put: "fst ` set (map_put k v m) = insert k (fst ` set m)"
  using set_keys_map_put [of k v m] by simp

lemma members_inv_New: "members_inv (NewMembership self)"
  by (simp add: members_inv_def NewMembership_def map_sorted_def)

lemma members_inv_Add: "members_inv m \<Longrightarrow> members_inv (Membership_Add m mb)"
  using map_put_set [of "mb_NodeID mb" mb "ms_members m"]
  by (auto simp: members_inv_def Membership_Add_def map_sorted_put list_all_iff fst_map_put)

lemma members_inv_Remove: "members_inv m \<Longrightarrow> members_inv (Membership_Remove m nodeID)"
  by (auto simp: members_inv_def Membership_Remove_def map_sorted_filter list_all_iff image_iff)

lemma sort_key_sorted: "sorted (map f xs) \<Longrightarrow> sort_key f xs = xs"
  by (induction xs) (auto simp: insort_is_Cons)

lemma All_ids:
  assumes "members_inv m"
  shows "map mb_NodeID (Membership_All m) = map fst (ms_members m)"
proof -
  have ids: "map mb_NodeID (map snd (ms_members m)) = map fst (ms_members m)"
    using assms by (auto simp: members_inv_def list_all_iff)
  have "sorted (map mb_NodeID (map snd (ms_members m)))"
    using assms unfolding ids by (simp add: members_inv_def map_sorted_def strict_sorted_imp_sorted)
  then have "Membership_All m = map snd (ms_members m)" unfolding Membership_All_def by (rule sort_key_sorted)
  then show ?thesis using ids by simp
qed

lemma All_sorted: "members_inv m \<Longrightarrow> sorted_wrt (<) (map mb_NodeID (Membership_All m))"
  using All_ids [of m] by (simp add: members_inv_def map_sorted_def)

lemma Get_Add: "members_inv m \<Longrightarrow> Membership_Get (Membership_Add m mb) k = (if k = mb_NodeID mb then Some mb else Membership_Get m k)"
  by (simp add: Membership_Get_def Membership_Add_def members_inv_def map_of_map_put)

section \<open>The partition map and its JSON form\<close>

lemma map_sorted_distinct: "map_sorted m \<Longrightarrow> distinct (map fst m)"
  by (simp add: map_sorted_def strict_sorted_iff)

lemma map_sorted_eq:
  assumes "map_sorted m" and "map_sorted m'" and "map_of m = map_of m'"
  shows "m = m'"
proof (rule map_sorted_distinct_set_unique [of fst])
  show "set m = set m'"
    using assms map_of_eq_Some_iff [OF map_sorted_distinct, of m] map_of_eq_Some_iff [OF map_sorted_distinct, of m']
    by auto
  show "inj_on fst (set m \<union> set m')" using \<open>set m = set m'\<close> map_sorted_distinct [OF assms(1)] by (simp add: distinct_map)
qed (use assms(1,2) in \<open>auto simp: map_sorted_def strict_sorted_iff\<close>)

definition owners_text :: "(int \<times> string) list \<Rightarrow> (string \<times> string) list" where
  "owners_text a = foldl (\<lambda>m (p, node). map_put (show_int p) node m) [] a"

lemma show_int_inject [simp]: "show_int i = show_int j \<longleftrightarrow> i = j"
  using read_show_int by (metis option.inject)

lemma foldl_put_sorted:
  "map_sorted acc \<Longrightarrow> map_sorted (foldl (\<lambda>m (p, node). map_put (f p) node m) acc a)"
  by (induction a arbitrary: acc) (auto simp: map_sorted_put)

lemma foldl_put_text:
  "map_sorted acc \<Longrightarrow> distinct (map fst a) \<Longrightarrow>
   map_of (foldl (\<lambda>m (p, node). map_put (show_int p) node m) acc a) (show_int q) =
     (case map_of a q of None \<Rightarrow> map_of acc (show_int q) | Some v \<Rightarrow> Some v)"
proof (induction a arbitrary: acc)
  case (Cons x a)
  obtain p node where x: "x = (p, node)" by (cases x)
  have "map_of a q = None" if "q = p" using Cons.prems(2) x that by (auto simp: map_of_eq_None_iff)
  then show ?case
    using Cons.IH [of "map_put (show_int p) node acc"] Cons.prems x
    by (auto simp: map_sorted_put map_of_map_put split: option.splits)
qed simp

lemma owners_text_of: "map_sorted a \<Longrightarrow> map_of (owners_text a) (show_int q) = map_of a q"
  using foldl_put_text [of "[]" a q] by (auto simp: owners_text_def map_sorted_distinct map_sorted_def split: option.splits)

lemma owners_text_sorted: "map_sorted (owners_text a)"
  using foldl_put_sorted [of "[]" show_int a] by (simp add: owners_text_def map_sorted_def)

lemma foldl_put_set:
  "set (foldl (\<lambda>m (p, node). map_put (f p) node m) acc a) \<subseteq> set acc \<union> (\<lambda>(p, node). (f p, node)) ` set a"
proof (induction a arbitrary: acc)
  case (Cons x a)
  obtain p node where "x = (p, node)" by (cases x)
  then show ?case using Cons [of "map_put (f p) node acc"] map_put_set [of "f p" node acc] by auto
qed simp

lemma owners_text_set: "set (owners_text a) \<subseteq> (\<lambda>(p, node). (show_int p, node)) ` set a"
  using foldl_put_set [of show_int "[]" a] by (simp add: owners_text_def)

lemma show_int_plus: "show_int i \<noteq> []" "hd (show_int i) \<noteq> CHR ''+''"
  by (rule show_int_Cons [of i]; auto simp: is_digit_def)+

lemma Atoi_show: "int32_range p \<Longrightarrow> Atoi (show_int p) = Some p"
proof -
  assume p: "int32_range p"
  obtain c r where c: "show_int p = c # r" "c \<noteq> CHR ''+''" using show_int_plus [of p] by (cases "show_int p") auto
  then have "Atoi (show_int p) = num_in (- (2 ^ 63)) (2 ^ 63 - 1) (show_int p)" by (simp add: Atoi_def)
  then show "Atoi (show_int p) = Some p" using p by (simp add: int32_range_def)
qed

lemma int32_of_id: "int32_range p \<Longrightarrow> int32_of p = p"
  by (simp add: int32_of_def int32_range_def signed_of_int signed_take_bit_int_eq_self)

lemma parse_keys_text:
  "map_sorted acc \<Longrightarrow> distinct (map fst kvs) \<Longrightarrow> (\<forall>k \<in> fst ` set kvs. \<exists>p. k = show_int p \<and> int32_range p) \<Longrightarrow>
   \<exists>a. parse_keys kvs acc = Some a \<and> map_sorted a \<and>
     (\<forall>q. map_of a q = (case map_of kvs (show_int q) of None \<Rightarrow> map_of acc q | Some v \<Rightarrow> Some v))"
proof (induction kvs arbitrary: acc)
  case (Cons x kvs)
  obtain p node where x: "x = (show_int p, node)" and p: "int32_range p" using Cons.prems(3) by (cases x) auto
  obtain a where a: "parse_keys kvs (map_put p node acc) = Some a" "map_sorted a"
    "\<forall>q. map_of a q = (case map_of kvs (show_int q) of None \<Rightarrow> map_of (map_put p node acc) q | Some v \<Rightarrow> Some v)"
    using Cons.IH [of "map_put p node acc"] Cons.prems by (auto simp: map_sorted_put)
  have "map_of kvs (show_int p) = None" using Cons.prems(2) x by (auto simp: map_of_eq_None_iff)
  then show ?case
    using a Cons.prems(1) x p by (auto simp: Atoi_show int32_of_id map_of_map_put split: option.splits)
qed simp

lemma parse_keys_owners:
  assumes "map_sorted a" and "list_all (\<lambda>(p, _). int32_range p) a"
  shows "parse_keys (owners_text a) [] = Some a"
proof -
  have "\<forall>k \<in> fst ` set (owners_text a). \<exists>p. k = show_int p \<and> int32_range p"
    using owners_text_set [of a] assms(2) by (fastforce simp: list_all_iff)
  moreover have "map_sorted ([] :: (int \<times> string) list)" by (simp add: map_sorted_def)
  ultimately obtain b where b: "parse_keys (owners_text a) [] = Some b" "map_sorted b"
    "\<forall>q. map_of b q = (case map_of (owners_text a) (show_int q) of None \<Rightarrow> map_of [] q | Some v \<Rightarrow> Some v)"
    using parse_keys_text [of "[]" "owners_text a"] map_sorted_distinct [OF owners_text_sorted [of a]] by blast
  have "map_of b = map_of a" using b(3) owners_text_of [OF assms(1)] by (auto simp: fun_eq_iff split: option.splits)
  then show ?thesis using map_sorted_eq [OF b(2) assms(1)] b(1) by simp
qed

lemma put_owners_sorted:
  "map_sorted (m @ h) \<Longrightarrow> list_all (\<lambda>(_, a). map_sorted a) h \<Longrightarrow>
   put_owners (map (\<lambda>(k, a). (k, strmap_json a)) h) m = Some (m @ h)"
proof (induction h arbitrary: m)
  case (Cons kv h)
  obtain k a where kv: "kv = (k, a)" by (cases kv)
  have "list_all (\<lambda>(x, _). x < k) m"
    using Cons.prems(1) kv by (auto simp: map_sorted_def sorted_wrt_append list_all_iff)
  then show ?case
    using Cons kv put_strings_sorted [of "[]" a] by (simp add: map_put_last strmap_json_def)
qed simp

lemma parse_owners_sorted:
  "map_sorted (pm @ h) \<Longrightarrow> list_all (\<lambda>(_, a). map_sorted a \<and> list_all (\<lambda>(p, _). int32_range p) a) h \<Longrightarrow>
   parse_owners (map (\<lambda>(k, a). (k, owners_text a)) h) pm = Some (pm @ h)"
proof (induction h arbitrary: pm)
  case (Cons kv h)
  obtain k a where kv: "kv = (k, a)" by (cases kv)
  have "list_all (\<lambda>(x, _). x < k) pm"
    using Cons.prems(1) kv by (auto simp: map_sorted_def sorted_wrt_append list_all_iff)
  then show ?case using Cons kv by (simp add: map_put_last parse_keys_owners)
qed simp

lemma fold_cluster_names [simp]:
  "fold_name ''owner'' = ''owner''" "fold_name ''node_id'' = ''node_id''" "fold_name ''addr'' = ''addr''"
  "fold_name ''http_addr'' = ''http_addr''" "fold_name ''joined_at'' = ''joined_at''" "fold_name ''type'' = ''type''"
  "fold_name ''from'' = ''from''" "fold_name ''term'' = ''term''" "fold_name ''body'' = ''body''"
  by (simp_all add: fold_name.simps lower_def in_range_def)

lemma as_PartitionMap_json:
  assumes "wf_PartitionMap pm"
  shows "as_PartitionMap (PartitionMap_json pm) old = Some pm"
proof -
  let ?t = "map (\<lambda>(topic, a). (topic, owners_text a)) pm"
  have j: "PartitionMap_json pm = JObj [(''owner'', JObj (map (\<lambda>(k, a). (k, strmap_json a)) ?t))]"
    by (simp add: PartitionMap_json_def owners_text_def comp_def case_prod_beta)
  have "map fst ?t = map fst pm" by auto
  then have s: "map_sorted ?t" using assms unfolding wf_PartitionMap_def map_sorted_def by metis
  have "list_all (\<lambda>(_, a). map_sorted a) ?t" by (auto simp: list_all_iff owners_text_sorted)
  then have "put_owners (map (\<lambda>(k, a). (k, strmap_json a)) ?t) [] = Some ?t"
    using put_owners_sorted [of "[]" ?t] s by simp
  moreover have "list_all (\<lambda>(_, a). map_sorted a \<and> list_all (\<lambda>(p, _). int32_range p) a) pm"
    using assms by (auto simp: wf_PartitionMap_def list_all_iff)
  then have "parse_owners ?t [] = Some pm"
    using parse_owners_sorted [of "[]" pm] assms by (simp add: wf_PartitionMap_def)
  ultimately show ?thesis unfolding j by (simp add: as_PartitionMap_def assign_struct_def as_owners_def)
qed

lemma valid_show_int [simp]: "valid_utf8 (show_int i)"
proof (rule ascii_valid_utf8)
  have "is_digit c \<Longrightarrow> (of_char c :: nat) < 128" for c by (simp add: is_digit_def in_range_def)
  then show "list_all (\<lambda>c. (of_char c :: nat) < 128) (show_int i)"
    using show_nat_digits [of "nat i"] show_nat_digits [of "nat (- i)"] by (auto simp: show_int_def list_all_iff)
qed

lemma PartitionMap_json_valid:
  assumes "wf_PartitionMap pm"
  shows "valid_json (PartitionMap_json pm)"
proof -
  have "valid_json (strmap_json (owners_text a))" if "list_all (\<lambda>(p, node). int32_range p \<and> valid_utf8 node) a" for a
    using that owners_text_set [of a] by (fastforce simp: list_all_iff)
  then show ?thesis
    using assms by (auto simp: PartitionMap_json_def wf_PartitionMap_def list_all_iff owners_text_def [symmetric] ascii_valid_utf8)
qed

section \<open>Assignment\<close>

lemma assign_nodes:
  assumes "int k \<le> 2 ^ 31"
  shows "foldl (\<lambda>a i. map_put (int32_of i) (f i) a) [] [0..int k - 1] = map (\<lambda>i. (i, f i)) [0..int k - 1]"
  using assms
proof (induction k)
  case (Suc k)
  have u: "[0..int (Suc k) - 1] = [0..int k - 1] @ [int k]" using upto_rec2 [of 0 "int k"] by simp
  have i: "int32_of (int k) = int k" using Suc.prems by (intro int32_of_id) (simp add: int32_range_def)
  have "list_all (\<lambda>(a, _). a < int k) (map (\<lambda>i. (i, f i)) [0..int k - 1])" by (auto simp: list_all_iff)
  from map_put_last [OF this] show ?case using Suc i unfolding u by simp
qed simp

lemma Assign_map:
  assumes "nodes \<noteq> []" and "0 < partitions" and "partitions \<le> 2 ^ 31"
  shows "PartitionMap_Assign pm topic partitions nodes =
    map_put topic (map (\<lambda>i. (i, nodes ! (nat i mod length nodes))) [0..partitions - 1]) pm"
  using assign_nodes [of "nat partitions" "\<lambda>i. nodes ! (nat i mod length nodes)"] assms by (simp add: PartitionMap_Assign_def)

lemma map_of_upto: "map_of (map (\<lambda>i. (i, f i)) [lo..hi]) p = (if lo \<le> p \<and> p \<le> hi then Some (f p) else None)"
  using map_of_map_restrict [of f "[lo..hi]"] by (simp add: restrict_map_def)

lemma Owner_put:
  "map_sorted pm \<Longrightarrow> PartitionMap_Owner (map_put topic a pm) t p =
     (if t = topic then (case map_of a p of None \<Rightarrow> [] | Some node \<Rightarrow> node) else PartitionMap_Owner pm t p)"
  by (simp add: PartitionMap_Owner_def map_of_map_put)

lemma Assign_owner:
  assumes "nodes \<noteq> []" and "0 < partitions" and "partitions \<le> 2 ^ 31" and "map_sorted pm"
  shows "PartitionMap_Owner (PartitionMap_Assign pm topic partitions nodes) t p =
    (if t = topic then (if 0 \<le> p \<and> p < partitions then nodes ! (nat p mod length nodes) else [])
     else PartitionMap_Owner pm t p)"
  using assms by (simp add: Assign_map Owner_put map_of_upto)

lemma wf_Assign:
  assumes "wf_PartitionMap pm" and "valid_utf8 topic" and "list_all valid_utf8 nodes" and "partitions \<le> 2 ^ 31"
  shows "wf_PartitionMap (PartitionMap_Assign pm topic partitions nodes)"
proof (cases "nodes = [] \<or> partitions \<le> 0")
  case True
  then show ?thesis using assms(1) by (simp add: PartitionMap_Assign_def)
next
  case False
  let ?a = "map (\<lambda>i. (i, nodes ! (nat i mod length nodes))) [0..partitions - 1]"
  have "map fst ?a = [0..partitions - 1]" by (simp add: comp_def)
  then have "map_sorted ?a" unfolding map_sorted_def by (simp add: strict_sorted_iff)
  moreover have "list_all (\<lambda>(p, node). int32_range p \<and> valid_utf8 node) ?a"
    using assms(3,4) False by (auto simp: list_all_iff int32_range_def)
  ultimately have "valid_utf8 topic \<and> map_sorted ?a \<and> list_all (\<lambda>(p, node). int32_range p \<and> valid_utf8 node) ?a"
    using assms(2) by simp
  then have "wf_PartitionMap (map_put topic ?a pm)"
    using assms(1) map_put_set [of topic ?a pm] map_sorted_put [of pm topic ?a]
    unfolding wf_PartitionMap_def list_all_iff by blast
  then show ?thesis using assms(4) False by (simp add: Assign_map)
qed

section \<open>Codecs of the messages\<close>

lemma Member_lookup [simp]:
  "map_of Member_fields ''node_id'' = Some (as_string (\<lambda>s. mb_NodeID_update (\<lambda>_. s)))"
  "map_of Member_fields ''addr'' = Some (as_string (\<lambda>s. mb_Addr_update (\<lambda>_. s)))"
  "map_of Member_fields ''http_addr'' = Some (as_string (\<lambda>s. mb_HTTPAddr_update (\<lambda>_. s)))"
  "map_of Member_fields ''joined_at'' = Some (as_time (\<lambda>s. mb_JoinedAt_update (\<lambda>_. s)))"
  by (simp_all add: Member_fields_def)

lemma assign_Member: "wf_Member m \<Longrightarrow> assign_struct Member_fields (Member_json m) x = Some m"
  by (cases m; cases x) (simp add: assign_struct_def Member_json_def wf_Member_def as_time_def)

lemma Member_json_valid: "wf_Member m \<Longrightarrow> valid_json (Member_json m)"
  by (simp add: Member_json_def wf_Member_def ascii_valid_utf8)

interpretation member_codec: byte_codec "\<lambda>m. Marshal (Member_json m)"
  "\<lambda>bs. Unmarshal (assign_struct Member_fields) bs zero_Member" wf_Member
  by unfold_locales (simp add: Member_json_valid assign_Member)

lemma ClusterMsg_lookup [simp]:
  "map_of ClusterMsg_fields ''type'' = Some (as_uint 255 (\<lambda>n. cm_Type_update (\<lambda>_. n)))"
  "map_of ClusterMsg_fields ''from'' = Some (as_string (\<lambda>s. cm_From_update (\<lambda>_. s)))"
  "map_of ClusterMsg_fields ''term'' = Some (as_uint64 (\<lambda>n. cm_Term_update (\<lambda>_. n)))"
  "map_of ClusterMsg_fields ''body'' = Some (as_bytes (\<lambda>b. cm_Body_update (\<lambda>_. case b of None \<Rightarrow> [] | Some bs \<Rightarrow> bs)))"
  by (simp_all add: ClusterMsg_fields_def)

lemma assign_ClusterMsg:
  "wf_ClusterMsg m \<Longrightarrow>
   assign_struct ClusterMsg_fields (ClusterMsg_json m) \<lparr>cm_Type = 0, cm_From = [], cm_Term = 0, cm_Body = []\<rparr> = Some m"
  by (cases m) (auto simp: assign_struct_def ClusterMsg_json_def opt_field_def wf_ClusterMsg_def)

lemma ClusterMsg_json_valid: "wf_ClusterMsg m \<Longrightarrow> valid_json (ClusterMsg_json m)"
  by (simp add: ClusterMsg_json_def wf_ClusterMsg_def opt_field_def ascii_valid_utf8)

interpretation cluster_codec: byte_codec "\<lambda>m. Marshal (ClusterMsg_json m)"
  "\<lambda>bs. Unmarshal (assign_struct ClusterMsg_fields) bs \<lparr>cm_Type = 0, cm_From = [], cm_Term = 0, cm_Body = []\<rparr>" wf_ClusterMsg
  by unfold_locales (simp add: ClusterMsg_json_valid assign_ClusterMsg)

text \<open>The header of a message as the reader sees it.\<close>

lemma readMsg_header:
  assumes "length (Marshal (ClusterMsg_json m)) < 2 ^ 32"
  shows "readFull 7 (writeMsg m @ r) = Inr ([0xCB, 0x01, word_of_nat (cm_Type m)] @ rev (le_bytes 4 (length (Marshal (ClusterMsg_json m)))),
      Marshal (ClusterMsg_json m) @ r)"
    and "le_nat (rev (drop 3 ([0xCB, 0x01, word_of_nat (cm_Type m)] @ rev (le_bytes 4 (length (Marshal (ClusterMsg_json m))))))) =
      length (Marshal (ClusterMsg_json m))"
  using assms by (simp_all add: writeMsg_def Let_def readFull_def le_nat_le_bytes)

text \<open>A message of at most four megabytes arrives as it was sent; a longer one is refused by the reader.\<close>

lemma readMsg_writeMsg:
  assumes "wf_ClusterMsg m" and "length (Marshal (ClusterMsg_json m)) \<le> maxMsgBody"
  shows "readMsg (writeMsg m @ r) = Inr (m, r)"
proof -
  have small: "length (Marshal (ClusterMsg_json m)) < 2 ^ 32" using assms(2) by (simp add: maxMsgBody_def)
  show ?thesis
    using assms readMsg_header(1) [OF small, of r] readMsg_header(2) [OF small] cluster_codec.dec_enc [OF assms(1)]
    by (simp add: readMsg_def not_less [symmetric] del: le_bytes.simps)
qed

lemma readMsg_too_large:
  assumes "maxMsgBody < length (Marshal (ClusterMsg_json m))" and "length (Marshal (ClusterMsg_json m)) < 2 ^ 32"
  shows "readMsg (writeMsg m @ r) = Inl (WireTooLarge (length (Marshal (ClusterMsg_json m))))"
  using readMsg_header(1) [OF assms(2), of r] readMsg_header(2) [OF assms(2)] assms(1) by (simp add: readMsg_def)

section \<open>Waiting for a quorum\<close>

text \<open>The wait ends at the first look with enough replicas, unless it is cancelled before.\<close>

lemma quorum_loop_reached:
  assumes "i \<le> j" and "length (ISR (fst (obs j)) (snd (obs j)) leader off) \<ge> quorum" and "\<And>k. i \<le> k \<Longrightarrow> k \<le> j \<Longrightarrow> \<not> cancelled k"
  shows "quorum_loop obs cancelled leader off quorum i = Some (Inr ())"
  using assms
proof (induction "j - i" arbitrary: i)
  case 0
  then show ?case by (simp add: quorum_loop.simps)
next
  case (Suc d)
  then have "quorum_loop obs cancelled leader off quorum (Suc i) = Some (Inr ())" by simp
  then show ?case using Suc.prems by (subst quorum_loop.simps) simp
qed

lemma quorum_loop_cancelled:
  assumes "i \<le> j" and "cancelled j"
  shows "\<exists>r. quorum_loop obs cancelled leader off quorum i = Some r"
  using assms
proof (induction "j - i" arbitrary: i)
  case 0
  then show ?case by (simp add: quorum_loop.simps)
next
  case (Suc d)
  then have "\<exists>r. quorum_loop obs cancelled leader off quorum (Suc i) = Some r" by simp
  then show ?case by (subst quorum_loop.simps) simp
qed

lemma ISR_leader: "leader \<in> set (ISR now t leader off)"
  by (simp add: ISR_def)

text \<open>The wait for a quorum does not wait: the quorum is a majority of the replicas that are in sync at the first
  look, and the wait is over as soon as that many replicas are in sync. When the second look finds what the first
  one found, a publish is acknowledged at once, whatever the followers have acknowledged.\<close>

theorem quorum_never_waits:
  assumes "obs 1 = obs 0"
  shows "waitForQuorum node tracked obs cancelled offset = Some (Inr ())"
  using assms by (auto simp: waitForQuorum_def WaitForQuorum_def Let_def split: option.splits)

definition lagging_tracker :: ISRTracker where
  "lagging_tracker = ISR_Update 0 (ISR_Update 0 (NewISRTracker 1000 10000) ''b'' 0) ''c'' 0"

theorem quorum_never_waits_witness:
  "list_all (\<lambda>s. rs_LastOffset s < 1000) (ISR_Snapshot lagging_tracker) \<and>
   ISR 0 lagging_tracker ''a'' 1000 = [''a'', ''b'', ''c''] \<and>
   waitForQuorum (Some ''a'') True (\<lambda>_. (0, lagging_tracker)) (\<lambda>_. False) 1000 = Some (Inr ())"
  using quorum_never_waits [of "\<lambda>_. (0, lagging_tracker)"]
  by (simp add: lagging_tracker_def ISR_Update_def NewISRTracker_def ISR_Snapshot_def ISR_def int64_of_def)

end
