(* ===== verification/Bully.thy ===== *)
theory Bully
  imports Cluster_Members
begin

text \<open>
  The bully election of \<^verbatim>\<open>src/internal/cluster/election.go\<close>: one function per handler of the election loop. A
  handler returns the new state and the messages to send, each with the address it goes to. Terms are natural
  numbers and wrap at \<open>2 ^ 64\<close>. A nil map is \<^term>\<open>None\<close>; storing into it is a panic, which is the result
  \<^term>\<open>None\<close> of a handler. Metrics and the leader callback are left out; the callback is the reassignment of
  partitions, which the node's theory has.
\<close>

section \<open>State machine\<close>

datatype BullyRole = RoleFollower | RoleCandidate | RoleLeader

record Election =
  el_self :: Member
  el_role :: BullyRole
  el_term :: nat
  el_leader :: "Member option"
  el_needed :: "string list option"
  el_had :: "string list option"

type_synonym effects = "(string \<times> ClusterMsg) list"

definition NewElection :: "Member \<Rightarrow> Election" where
  "NewElection self =
     \<lparr>el_self = self, el_role = RoleFollower, el_term = 0, el_leader = None, el_needed = None, el_had = None\<rparr>"

definition election_msg :: "nat \<Rightarrow> string \<Rightarrow> nat \<Rightarrow> ClusterMsg" where
  "election_msg ty from_id term = \<lparr>cm_Type = ty, cm_From = from_id, cm_Term = term, cm_Body = []\<rparr>"

text \<open>The loop over all members but the node itself.\<close>

definition to_others :: "Membership \<Rightarrow> string \<Rightarrow> ClusterMsg \<Rightarrow> effects" where
  "to_others ms selfID msg = map (\<lambda>m. (mb_Addr m, msg)) (filter (\<lambda>m. mb_NodeID m \<noteq> selfID) (Membership_All ms))"

definition becomeLeaderLocked :: "Membership \<Rightarrow> Election \<Rightarrow> Election \<times> effects" where
  "becomeLeaderLocked ms e =
     (e\<lparr>el_role := RoleLeader, el_leader := Some (el_self e), el_needed := None, el_had := None\<rparr>,
      to_others ms (mb_NodeID (el_self e)) (election_msg MsgHeartbeat (mb_NodeID (el_self e)) (el_term e)))"

definition setLeaderLocked :: "Membership \<Rightarrow> Election \<Rightarrow> string \<Rightarrow> nat \<Rightarrow> Election" where
  "setLeaderLocked ms e nodeID term =
     (let e1 = e\<lparr>el_term := term, el_role := RoleFollower, el_needed := None, el_had := None\<rparr>
      in case Membership_Get ms nodeID of None \<Rightarrow> e1 | Some m \<Rightarrow> e1\<lparr>el_leader := Some m\<rparr>)"

definition election_peer_addr :: "Membership \<Rightarrow> string \<Rightarrow> string" where
  "election_peer_addr ms nodeID = (case Membership_Get ms nodeID of None \<Rightarrow> [] | Some m \<Rightarrow> mb_Addr m)"

definition bully_timeout :: "Membership \<Rightarrow> Election \<Rightarrow> Election \<times> effects" where
  "bully_timeout ms e =
     (let selfID = mb_NodeID (el_self e);
          needed = filter (\<lambda>k. k < selfID) (map mb_NodeID (Membership_All ms));
          e1 = e\<lparr>el_term := u64 (el_term e + 1), el_role := RoleCandidate, el_needed := Some needed, el_had := Some []\<rparr>
      in if needed = [] then becomeLeaderLocked ms e1
         else (e1, to_others ms selfID (election_msg MsgVoteRequest selfID (el_term e1))))"

text \<open>The reply to a vote request goes out only to a known sender.\<close>

definition reply_to :: "Membership \<Rightarrow> string \<Rightarrow> ClusterMsg \<Rightarrow> effects" where
  "reply_to ms nodeID msg =
     (let addr = election_peer_addr ms nodeID in if addr \<noteq> [] then [(addr, msg)] else [])"

definition bully_vote_request :: "Membership \<Rightarrow> Election \<Rightarrow> ClusterMsg \<Rightarrow> Election \<times> bool \<times> effects" where
  "bully_vote_request ms e msg =
     (let selfID = mb_NodeID (el_self e)
      in if cm_From msg > selfID \<and> cm_Term msg \<ge> el_term e
         then (e\<lparr>el_term := cm_Term msg, el_role := RoleFollower, el_needed := None, el_had := None\<rparr>, True,
               reply_to ms (cm_From msg) (election_msg MsgVoteGrant selfID (cm_Term msg)))
         else (e, False, reply_to ms (cm_From msg) (election_msg MsgVoteDeny selfID (el_term e))))"

definition bully_vote_grant :: "Membership \<Rightarrow> Election \<Rightarrow> ClusterMsg \<Rightarrow> (Election \<times> bool \<times> effects) option" where
  "bully_vote_grant ms e msg =
     (if el_role e = RoleCandidate \<and> cm_Term msg = el_term e
      then (case el_had e of
              None \<Rightarrow> None
            | Some had \<Rightarrow>
                (let e1 = e\<lparr>el_had := Some (cm_From msg # had)\<rparr>;
                     needed = (case el_needed e of None \<Rightarrow> [] | Some ks \<Rightarrow> ks)
                 in if list_all (\<lambda>k. k \<in> set (cm_From msg # had)) needed
                    then (let (e2, effs) = becomeLeaderLocked ms e1 in Some (e2, False, effs))
                    else Some (e1, False, [])))
      else Some (e, False, []))"

definition bully_msg :: "Membership \<Rightarrow> Election \<Rightarrow> ClusterMsg \<Rightarrow> (Election \<times> bool \<times> effects) option" where
  "bully_msg ms e0 msg =
     (let e = (if cm_Term msg > el_term e0 then e0\<lparr>el_term := cm_Term msg\<rparr> else e0)
      in if cm_Type msg = MsgHeartbeat then
           (if cm_From msg > mb_NodeID (el_self e)
            then Some (setLeaderLocked ms e (cm_From msg) (cm_Term msg), True, [])
            else Some (e, False, []))
         else if cm_Type msg = MsgVoteRequest then Some (bully_vote_request ms e msg)
         else if cm_Type msg = MsgVoteGrant then bully_vote_grant ms e msg
         else Some (e, False, []))"

definition maybeSendHeartbeats :: "Membership \<Rightarrow> Election \<Rightarrow> effects" where
  "maybeSendHeartbeats ms e =
     (if el_role e = RoleLeader
      then to_others ms (mb_NodeID (el_self e)) (election_msg MsgHeartbeat (mb_NodeID (el_self e)) (el_term e))
      else [])"

definition ForceBecomeLeader :: "Membership \<Rightarrow> Election \<Rightarrow> Election" where
  "ForceBecomeLeader ms e =
     (if el_role e = RoleLeader then e
      else fst (becomeLeaderLocked ms (e\<lparr>el_term := u64 (el_term e + 1)\<rparr>)))"

text \<open>One turn of the loop of \<open>run\<close>. The flag says that the election timer is reset.\<close>

datatype election_event = ElectionTimer | Incoming ClusterMsg | HeartbeatTick

definition election_turn :: "Membership \<Rightarrow> Election \<Rightarrow> election_event \<Rightarrow> (Election \<times> bool \<times> effects) option" where
  "election_turn ms e ev =
     (case ev of
        ElectionTimer \<Rightarrow> (let (e', effs) = bully_timeout ms e in Some (e', True, effs))
      | Incoming msg \<Rightarrow> bully_msg ms e msg
      | HeartbeatTick \<Rightarrow> Some (e, False, maybeSendHeartbeats ms e))"

section \<open>A node by itself\<close>

text \<open>A candidate has its maps, so that a grant is never stored into a nil map.\<close>

definition election_inv :: "Election \<Rightarrow> bool" where
  "election_inv e \<longleftrightarrow> (el_role e = RoleCandidate \<longrightarrow> el_had e \<noteq> None \<and> el_needed e \<noteq> None)"

lemma inv_NewElection: "election_inv (NewElection self)"
  by (simp add: election_inv_def NewElection_def)

lemma inv_timeout: "bully_timeout ms e = (e', effs) \<Longrightarrow> election_inv e' \<and> el_self e' = el_self e"
  by (auto simp: bully_timeout_def becomeLeaderLocked_def election_inv_def Let_def split: if_splits)

lemma inv_setLeader: "election_inv (setLeaderLocked ms e k t)" "el_self (setLeaderLocked ms e k t) = el_self e"
  by (simp_all add: setLeaderLocked_def election_inv_def Let_def split: option.split)

lemma inv_vote_request:
  "election_inv e \<Longrightarrow> bully_vote_request ms e msg = (e', reset, effs) \<Longrightarrow> election_inv e' \<and> el_self e' = el_self e"
  by (auto simp: bully_vote_request_def election_inv_def Let_def split: if_splits)

lemma inv_vote_grant:
  assumes "election_inv e"
  shows "\<exists>e' reset effs. bully_vote_grant ms e msg = Some (e', reset, effs) \<and> election_inv e' \<and> el_self e' = el_self e"
proof (cases "el_role e = RoleCandidate \<and> cm_Term msg = el_term e")
  case True
  then obtain had needed where had: "el_had e = Some had" "el_needed e = Some needed" using assms by (auto simp: election_inv_def)
  show ?thesis
    using True had by (auto simp: bully_vote_grant_def becomeLeaderLocked_def election_inv_def Let_def)
next
  case False
  then have "bully_vote_grant ms e msg = Some (e, False, [])" unfolding bully_vote_grant_def by (rule if_not_P)
  then show ?thesis using assms by blast
qed

lemma inv_msg:
  assumes "election_inv e"
  shows "\<exists>e' reset effs. bully_msg ms e msg = Some (e', reset, effs) \<and> election_inv e' \<and> el_self e' = el_self e"
proof -
  define e1 where "e1 = (if cm_Term msg > el_term e then e\<lparr>el_term := cm_Term msg\<rparr> else e)"
  have e1: "election_inv e1" "el_self e1 = el_self e" using assms by (simp_all add: e1_def election_inv_def)
  have b: "bully_msg ms e msg =
      (if cm_Type msg = MsgHeartbeat then
         (if cm_From msg > mb_NodeID (el_self e1)
          then Some (setLeaderLocked ms e1 (cm_From msg) (cm_Term msg), True, []) else Some (e1, False, []))
       else if cm_Type msg = MsgVoteRequest then Some (bully_vote_request ms e1 msg)
       else if cm_Type msg = MsgVoteGrant then bully_vote_grant ms e1 msg
       else Some (e1, False, []))"
    by (simp add: bully_msg_def e1_def Let_def)
  obtain e2 r2 f2 where v: "bully_vote_request ms e1 msg = (e2, r2, f2)" by (cases "bully_vote_request ms e1 msg")
  show ?thesis
    using inv_vote_request [OF e1(1) v] inv_vote_grant [OF e1(1), of ms msg] e1 v unfolding b
    by (auto simp: inv_setLeader)
qed

text \<open>Whatever happens to a node, it does not panic.\<close>

lemma election_turn_ok:
  assumes "election_inv e"
  shows "\<exists>e' reset effs. election_turn ms e ev = Some (e', reset, effs) \<and> election_inv e' \<and> el_self e' = el_self e"
proof (cases ev)
  case ElectionTimer
  obtain e' effs where "bully_timeout ms e = (e', effs)" by (cases "bully_timeout ms e")
  then show ?thesis using inv_timeout ElectionTimer by (auto simp: election_turn_def)
qed (use assms inv_msg in \<open>auto simp: election_turn_def\<close>)

section \<open>The highest node wins\<close>

text \<open>
  Messages delivered one after another to the nodes at their addresses: \<open>st\<close> is the state by node id, and the
  answers are collected.
\<close>

definition node_at :: "Membership \<Rightarrow> string \<Rightarrow> string option" where
  "node_at ms addr = map_option mb_NodeID (find (\<lambda>m. mb_Addr m = addr) (Membership_All ms))"

fun deliver_all :: "Membership \<Rightarrow> (string \<Rightarrow> Election) \<Rightarrow> effects \<Rightarrow> ((string \<Rightarrow> Election) \<times> effects) option" where
  "deliver_all ms st [] = Some (st, [])"
| "deliver_all ms st ((addr, msg) # effs) =
     (case node_at ms addr of
        None \<Rightarrow> deliver_all ms st effs
      | Some k \<Rightarrow>
          Option.bind (bully_msg ms (st k) msg) (\<lambda>(e, _, out).
            map_option (\<lambda>(st', outs). (st', out @ outs)) (deliver_all ms (st(k := e)) effs)))"

text \<open>A cluster with distinct addresses, whose nodes know themselves by their registered data.\<close>

definition addresses_ok :: "Membership \<Rightarrow> bool" where
  "addresses_ok ms \<longleftrightarrow>
     members_inv ms \<and> distinct (map mb_Addr (Membership_All ms)) \<and> (\<forall>m \<in> set (Membership_All ms). mb_Addr m \<noteq> [])"

lemma node_at_member:
  assumes "addresses_ok ms" and "m \<in> set (Membership_All ms)"
  shows "node_at ms (mb_Addr m) = Some (mb_NodeID m)"
proof -
  have inj: "inj_on mb_Addr (set (Membership_All ms))" using assms(1) by (simp add: addresses_ok_def distinct_map)
  have "find (\<lambda>x. mb_Addr x = mb_Addr m) (Membership_All ms) \<noteq> None" using assms(2) by (auto simp: find_None_iff)
  then obtain x where x: "find (\<lambda>x. mb_Addr x = mb_Addr m) (Membership_All ms) = Some x" by auto
  then have "x \<in> set (Membership_All ms)" "mb_Addr x = mb_Addr m" by (auto simp: find_Some_iff)
  then have "x = m" using assms(2) by (intro inj_onD [OF inj])
  then show ?thesis using x by (simp add: node_at_def)
qed

lemma All_set: "set (Membership_All ms) = snd ` set (ms_members ms)"
  by (simp add: Membership_All_def)

lemma Get_member:
  assumes "members_inv ms" and "m \<in> set (Membership_All ms)"
  shows "Membership_Get ms (mb_NodeID m) = Some m"
proof -
  obtain k where k: "(k, m) \<in> set (ms_members ms)" using assms(2) All_set by fastforce
  then have "mb_NodeID m = k" using assms(1) by (auto simp: members_inv_def list_all_iff)
  moreover have "distinct (map fst (ms_members ms))" using assms(1) by (simp add: members_inv_def map_sorted_distinct)
  ultimately show ?thesis using k by (simp add: Membership_Get_def)
qed

text \<open>The three rounds: requests are granted, the last grant makes a leader, and its heartbeat is accepted.\<close>

definition granted :: "nat \<Rightarrow> Election \<Rightarrow> Election" where
  "granted t e = e\<lparr>el_term := t, el_role := RoleFollower, el_needed := None, el_had := None\<rparr>"

definition follows :: "Member \<Rightarrow> nat \<Rightarrow> Election \<Rightarrow> Election" where
  "follows hi t e = (granted t e)\<lparr>el_leader := Some hi\<rparr>"

lemma request_granted:
  assumes "addresses_ok ms" and "hi \<in> set (Membership_All ms)" and "mb_NodeID (el_self e) < mb_NodeID hi" and "el_term e \<le> t"
  shows "bully_msg ms e (election_msg MsgVoteRequest (mb_NodeID hi) t) =
    Some (granted t e, True, [(mb_Addr hi, election_msg MsgVoteGrant (mb_NodeID (el_self e)) t)])"
  using assms Get_member [OF _ assms(2)]
  by (auto simp: addresses_ok_def bully_msg_def bully_vote_request_def reply_to_def election_peer_addr_def election_msg_def
      granted_def cluster_types Let_def)

lemma heartbeat_followed:
  assumes "addresses_ok ms" and "hi \<in> set (Membership_All ms)" and "mb_NodeID (el_self e) < mb_NodeID hi"
  shows "bully_msg ms e (election_msg MsgHeartbeat (mb_NodeID hi) t) = Some (follows hi t e, True, [])"
  using assms Get_member [OF _ assms(2)]
  by (auto simp: addresses_ok_def bully_msg_def setLeaderLocked_def election_msg_def follows_def granted_def Let_def)

text \<open>Delivering one message to each of several nodes, where each is handled independently.\<close>

lemma deliver_each:
  assumes "addresses_ok ms" and "distinct (map mb_NodeID ns)"
    and "\<forall>m \<in> set ns. m \<in> set (Membership_All ms) \<and> bully_msg ms (st (mb_NodeID m)) msg = Some (f (st (mb_NodeID m)), reset, out m)"
  shows "deliver_all ms st (map (\<lambda>m. (mb_Addr m, msg)) ns) =
    Some ((\<lambda>k. if k \<in> mb_NodeID ` set ns then f (st k) else st k), concat (map out ns))"
  using assms(2,3)
proof (induction ns arbitrary: st)
  case (Cons m ns)
  let ?st = "st(mb_NodeID m := f (st (mb_NodeID m)))"
  have "mb_NodeID n \<noteq> mb_NodeID m" if "n \<in> set ns" for n using Cons.prems(1) imageI [OF that, of mb_NodeID] by auto
  then have "?st (mb_NodeID n) = st (mb_NodeID n)" if "n \<in> set ns" for n using that by simp
  then have "deliver_all ms ?st (map (\<lambda>m. (mb_Addr m, msg)) ns) =
      Some ((\<lambda>k. if k \<in> mb_NodeID ` set ns then f (?st k) else ?st k), concat (map out ns))"
    using Cons.prems by (intro Cons.IH) auto
  moreover have "(\<lambda>k. if k \<in> mb_NodeID ` set ns then f (?st k) else ?st k) =
      (\<lambda>k. if k \<in> mb_NodeID ` set (m # ns) then f (st k) else st k)"
    using Cons.prems(1) by (auto simp: fun_eq_iff)
  ultimately show ?case using Cons.prems node_at_member [OF assms(1)] by simp
qed simp

text \<open>The grants that arrive at the candidate: it becomes the leader with the last one.\<close>

lemma deliver_grants:
  assumes "addresses_ok ms" and "hi \<in> set (Membership_All ms)" and "ns \<noteq> []" and "distinct (map mb_NodeID ns)"
    and "e = st (mb_NodeID hi)" and "el_role e = RoleCandidate" and "el_term e = t" and "el_needed e = Some needed"
    and "el_had e = Some had" and "set needed = set had \<union> mb_NodeID ` set ns" and "set had \<inter> mb_NodeID ` set ns = {}"
  shows "\<exists>had'. deliver_all ms st (map (\<lambda>m. (mb_Addr hi, election_msg MsgVoteGrant (mb_NodeID m) t)) ns) =
    Some (st(mb_NodeID hi := fst (becomeLeaderLocked ms (e\<lparr>el_had := had'\<rparr>))), snd (becomeLeaderLocked ms e))"
  using assms(3-11)
proof (induction ns arbitrary: st e had)
  case (Cons m ns)
  let ?msg = "election_msg MsgVoteGrant (mb_NodeID m) t" and ?had = "mb_NodeID m # had"
  let ?e = "e\<lparr>el_had := Some ?had\<rparr>"
  have g: "bully_msg ms e ?msg = (if list_all (\<lambda>k. k \<in> set ?had) needed
      then Some (fst (becomeLeaderLocked ms ?e), False, snd (becomeLeaderLocked ms ?e)) else Some (?e, False, []))"
    using Cons.prems by (simp add: bully_msg_def bully_vote_grant_def election_msg_def cluster_types Let_def case_prod_beta)
  have leader: "snd (becomeLeaderLocked ms ?e) = snd (becomeLeaderLocked ms e)" by (simp add: becomeLeaderLocked_def)
  show ?case
  proof (cases "ns = []")
    case True
    then have "list_all (\<lambda>k. k \<in> set ?had) needed" using Cons.prems(8) by (auto simp: list_all_iff)
    then show ?thesis
      using True g leader node_at_member [OF assms(1,2)] Cons.prems(3) by (auto intro!: exI [of _ "Some ?had"])
  next
    case False
    then obtain n where n: "n \<in> set ns" by (meson last_in_set)
    have "mb_NodeID n \<in> set needed" "mb_NodeID n \<notin> set ?had" using n Cons.prems(2,8,9) by (auto simp: image_iff)
    then have "\<not> list_all (\<lambda>k. k \<in> set ?had) needed" by (auto simp: list_all_iff)
    then have step: "bully_msg ms e ?msg = Some (?e, False, [])" using g by simp
    have "\<exists>had'. deliver_all ms (st(mb_NodeID hi := ?e)) (map (\<lambda>m. (mb_Addr hi, election_msg MsgVoteGrant (mb_NodeID m) t)) ns) =
        Some ((st(mb_NodeID hi := ?e))(mb_NodeID hi := fst (becomeLeaderLocked ms (?e\<lparr>el_had := had'\<rparr>))), snd (becomeLeaderLocked ms ?e))"
      by (rule Cons.IH [where had = ?had]) (use False Cons.prems in \<open>auto simp: Un_commute\<close>)
    then obtain had' where "deliver_all ms (st(mb_NodeID hi := ?e)) (map (\<lambda>m. (mb_Addr hi, election_msg MsgVoteGrant (mb_NodeID m) t)) ns) =
        Some ((st(mb_NodeID hi := ?e))(mb_NodeID hi := fst (becomeLeaderLocked ms (?e\<lparr>el_had := had'\<rparr>))), snd (becomeLeaderLocked ms ?e))"
      by blast
    then show ?thesis
      using step leader node_at_member [OF assms(1,2)] Cons.prems(3) by (intro exI [of _ had']) (simp, simp add: fun_eq_iff)
  qed
qed simp

text \<open>C14. When the timer of the node with the highest id fires at a term that is not behind the others, and the
  messages it and the others then send arrive, that node is the leader and every other node follows it in that term.\<close>

theorem highest_node_wins:
  assumes "addresses_ok ms" and "hi \<in> set (Membership_All ms)" and "others = filter (\<lambda>m. mb_NodeID m \<noteq> mb_NodeID hi) (Membership_All ms)"
    and "others \<noteq> []" and "\<forall>m \<in> set others. mb_NodeID m < mb_NodeID hi" and "\<forall>m \<in> set (Membership_All ms). el_self (st (mb_NodeID m)) = m"
    and "t = el_term (st (mb_NodeID hi)) + 1" and "t < 2 ^ 64" and "\<forall>m \<in> set others. el_term (st (mb_NodeID m)) \<le> t"
    and "bully_timeout ms (st (mb_NodeID hi)) = (e, requests)"
  shows "\<exists>st1 grants st2 heartbeats st3.
    deliver_all ms (st(mb_NodeID hi := e)) requests = Some (st1, grants) \<and>
    deliver_all ms st1 grants = Some (st2, heartbeats) \<and> deliver_all ms st2 heartbeats = Some (st3, []) \<and>
    el_role (st3 (mb_NodeID hi)) = RoleLeader \<and> el_term (st3 (mb_NodeID hi)) = t \<and>
    (\<forall>m \<in> set others. el_role (st3 (mb_NodeID m)) = RoleFollower \<and> el_term (st3 (mb_NodeID m)) = t \<and>
      el_leader (st3 (mb_NodeID m)) = Some hi)"
proof -
  let ?hi = "mb_NodeID hi" and ?e0 = "st (mb_NodeID hi)"
  have ids: "sorted_wrt (<) (map mb_NodeID (Membership_All ms))" using assms(1) All_sorted by (simp add: addresses_ok_def)
  then have dist: "distinct (map mb_NodeID others)"
    unfolding assms(3) by (simp add: strict_sorted_iff distinct_map_filter)
  have self: "el_self ?e0 = hi" using assms(2,6) by simp
  let ?needed = "filter (\<lambda>k. k < ?hi) (map mb_NodeID (Membership_All ms))"
  have needed: "set ?needed = mb_NodeID ` set others" using assms(3,5) by auto
  then have "?needed \<noteq> []" using assms(4) by force
  then have e: "e = ?e0\<lparr>el_term := t, el_role := RoleCandidate, el_needed := Some ?needed, el_had := Some []\<rparr>"
    and reqs: "requests = map (\<lambda>m. (mb_Addr m, election_msg MsgVoteRequest ?hi t)) others"
    using assms(3,7,8,10) self by (auto simp: bully_timeout_def to_others_def Let_def)
  let ?st0 = "st(?hi := e)"
  have st0: "?st0 (mb_NodeID m) = st (mb_NodeID m) \<and> el_self (st (mb_NodeID m)) = m \<and> m \<in> set (Membership_All ms) \<and> mb_NodeID m < ?hi"
    if "m \<in> set others" for m using that assms(3,5,6) by auto
  have r1: "deliver_all ms ?st0 requests = Some ((\<lambda>k. if k \<in> mb_NodeID ` set others then granted t (?st0 k) else ?st0 k),
      concat (map (\<lambda>m. [(mb_Addr hi, election_msg MsgVoteGrant (mb_NodeID m) t)]) others))" (is "_ = Some (?st1, ?grants)")
    unfolding reqs
    by (rule deliver_each [where reset = True, OF assms(1) dist]) (use st0 request_granted [OF assms(1,2)] assms(9) in auto)
  have hi1: "?st1 ?hi = e" using assms(5) by force
  have grants: "?grants = map (\<lambda>m. (mb_Addr hi, election_msg MsgVoteGrant (mb_NodeID m) t)) others" by (induction others) auto
  obtain had where r2: "deliver_all ms ?st1 ?grants =
      Some (?st1(?hi := fst (becomeLeaderLocked ms (e\<lparr>el_had := had\<rparr>))), snd (becomeLeaderLocked ms e))" (is "_ = Some (?st2, ?hb)")
    using deliver_grants [of ms hi others e ?st1 t ?needed "[]"] assms(1,2,4) dist hi1 needed unfolding grants by (auto simp: e)
  have hb: "?hb = map (\<lambda>m. (mb_Addr m, election_msg MsgHeartbeat ?hi t)) others"
    using assms(3) self e by (simp add: becomeLeaderLocked_def to_others_def)
  have st2: "el_self (?st2 (mb_NodeID m)) = m" if "m \<in> set others" for m
    using st0 [OF that] that by (auto simp: granted_def)
  have r3: "deliver_all ms ?st2 ?hb = Some ((\<lambda>k. if k \<in> mb_NodeID ` set others then follows hi t (?st2 k) else ?st2 k),
      concat (map (\<lambda>m. []) others))" (is "_ = Some (?st3, _)")
    unfolding hb
    by (rule deliver_each [where reset = True, OF assms(1) dist]) (use st0 st2 heartbeat_followed [OF assms(1,2)] in auto)
  have hi3: "?st3 ?hi = fst (becomeLeaderLocked ms (e\<lparr>el_had := had\<rparr>))" using assms(5) by force
  have "el_role (?st3 ?hi) = RoleLeader" "el_term (?st3 ?hi) = t" unfolding hi3 by (simp_all add: becomeLeaderLocked_def e)
  moreover have "\<forall>m \<in> set others. el_role (?st3 (mb_NodeID m)) = RoleFollower \<and> el_term (?st3 (mb_NodeID m)) = t \<and>
      el_leader (?st3 (mb_NodeID m)) = Some hi"
    by (auto simp: follows_def granted_def)
  moreover have "concat (map (\<lambda>m. []) others) = []" by simp
  ultimately show ?thesis using r1 r2 r3 by auto
qed

definition member_a :: Member where
  "member_a = zero_Member\<lparr>mb_NodeID := ''a'', mb_Addr := ''a:1''\<rparr>"

definition member_b :: Member where
  "member_b = zero_Member\<lparr>mb_NodeID := ''b'', mb_Addr := ''b:1''\<rparr>"

definition two_members :: Membership where
  "two_members = Membership_Add (NewMembership member_a) member_b"

definition two_nodes :: "string \<Rightarrow> Election" where
  "two_nodes k = NewElection (if k = ''b'' then member_b else member_a)"

lemma two_members_eval:
  "ms_members two_members = [(''a'', member_a), (''b'', member_b)]" "Membership_All two_members = [member_a, member_b]"
  "mb_NodeID member_a = ''a''" "mb_NodeID member_b = ''b''" "mb_Addr member_a = ''a:1''" "mb_Addr member_b = ''b:1''"
  "Membership_Get two_members ''a'' = Some member_a" "Membership_Get two_members ''b'' = Some member_b"
  by (simp_all add: two_members_def NewMembership_def Membership_Add_def Membership_All_def Membership_Get_def member_a_def
      member_b_def)

lemma two_members_ok: "addresses_ok two_members"
  by (simp add: addresses_ok_def two_members_eval)
    (simp add: two_members_def members_inv_Add members_inv_New)

theorem highest_node_wins_witness:
  "\<exists>st1 grants st2 heartbeats st3.
    deliver_all two_members (two_nodes(''b'' := fst (bully_timeout two_members (two_nodes ''b''))))
      (snd (bully_timeout two_members (two_nodes ''b''))) = Some (st1, grants) \<and>
    deliver_all two_members st1 grants = Some (st2, heartbeats) \<and> deliver_all two_members st2 heartbeats = Some (st3, []) \<and>
    el_role (st3 ''b'') = RoleLeader \<and> el_leader (st3 ''a'') = Some member_b"
  using highest_node_wins [OF two_members_ok, of member_b "[member_a]" two_nodes 1]
  by (cases "bully_timeout two_members (two_nodes ''b'')") (auto simp: two_members_eval two_nodes_def NewElection_def)

section \<open>Leaders that do not last\<close>

text \<open>The leader with the highest id deposes itself: nothing any other node sends resets its election timer, and
  the heartbeats it sends do not either. When the timer fires, the leader becomes a candidate in a new term,
  and stays one until every other node has granted its vote again.\<close>

theorem leader_deposes_itself:
  assumes "el_role e = RoleLeader" and "m \<in> set (Membership_All ms)" and "mb_NodeID m < mb_NodeID (el_self e)"
  shows "(\<forall>msg e' reset effs. cm_From msg \<le> mb_NodeID (el_self e) \<longrightarrow>
      election_turn ms e (Incoming msg) = Some (e', reset, effs) \<longrightarrow> \<not> reset) \<and>
    (\<forall>e' reset effs. election_turn ms e HeartbeatTick = Some (e', reset, effs) \<longrightarrow> \<not> reset) \<and>
    (\<exists>e' effs. election_turn ms e ElectionTimer = Some (e', True, effs) \<and> el_role e' = RoleCandidate \<and>
      el_term e' = u64 (el_term e + 1) \<and> mb_NodeID m \<in> set (the (el_needed e')) \<and> el_had e' = Some [])"
proof -
  have "\<not> reset" if "cm_From msg \<le> mb_NodeID (el_self e)" "bully_msg ms e msg = Some (e', reset, effs)" for msg e' reset effs
    using that assms(1)
    by (auto simp: bully_msg_def bully_vote_request_def bully_vote_grant_def Let_def split: if_splits)
  moreover have "filter (\<lambda>k. k < mb_NodeID (el_self e)) (map mb_NodeID (Membership_All ms)) \<noteq> []"
    using assms(2,3) by (auto simp: filter_empty_conv)
  then have "\<exists>e' effs. election_turn ms e ElectionTimer = Some (e', True, effs) \<and> el_role e' = RoleCandidate \<and>
      el_term e' = u64 (el_term e + 1) \<and> mb_NodeID m \<in> set (the (el_needed e')) \<and> el_had e' = Some []"
    using assms(2,3) by (simp add: election_turn_def bully_timeout_def Let_def)
  ultimately show ?thesis by (intro conjI) (auto simp: election_turn_def)
qed

definition leading_b :: Election where
  "leading_b = fst (becomeLeaderLocked two_members ((two_nodes ''b'')\<lparr>el_term := 1\<rparr>))"

theorem leader_deposes_itself_witness:
  "el_role leading_b = RoleLeader \<and>
   (\<exists>e' effs. election_turn two_members leading_b ElectionTimer = Some (e', True, effs) \<and> el_role e' = RoleCandidate \<and>
      el_term e' = 2)"
  using leader_deposes_itself [of leading_b member_a two_members]
  by (auto simp: leading_b_def becomeLeaderLocked_def two_nodes_def NewElection_def two_members_eval)

text \<open>C1. Two leaders share a term without any message being lost: \<open>b\<close> is elected in term 1, the timer of \<open>a\<close> fires
  before \<open>b\<close>'s heartbeat arrives, and \<open>a\<close>, which has no lower node to ask, leads term 2 at once. Its heartbeat
  does not depose \<open>b\<close> but moves it to term 2.\<close>

theorem two_bully_leaders:
  "\<exists>st0 st1 st2 grants heartbeats ea late st3.
    st0 = two_nodes(''b'' := fst (bully_timeout two_members (two_nodes ''b''))) \<and>
    deliver_all two_members st0 (snd (bully_timeout two_members (two_nodes ''b''))) = Some (st1, grants) \<and>
    deliver_all two_members st1 grants = Some (st2, heartbeats) \<and>
    bully_timeout two_members (st2 ''a'') = (ea, late) \<and>
    deliver_all two_members (st2(''a'' := ea)) late = Some (st3, []) \<and>
    el_role (st3 ''a'') = RoleLeader \<and> el_role (st3 ''b'') = RoleLeader \<and> el_term (st3 ''a'') = el_term (st3 ''b'')"
  by (simp add: two_nodes_def NewElection_def bully_timeout_def to_others_def becomeLeaderLocked_def two_members_eval
      bully_msg_def bully_vote_request_def bully_vote_grant_def reply_to_def election_peer_addr_def election_msg_def
      node_at_def cluster_types Let_def u64_def)

end
