(* ===== verification/Replicator.thy ===== *)
theory Replicator
  imports Bully "HOL-Library.Product_Lexorder"
begin

text \<open>
  Replication of partition logs between the nodes of a cluster (\<^verbatim>\<open>src/internal/cluster/replicator.go\<close>): the
  leader pushes and answers fetches, the follower appends and acknowledges. A handler returns the new state and
  the messages to send; \<^term>\<open>None\<close> is a panic. The trackers of in-sync replicas, which the logs point to, are
  kept beside the logs. Go visits the partitions in any order; here it is the order of their keys.
\<close>

section \<open>Bodies\<close>

type_synonym partKey = "string \<times> int"

record ReplicaFetchBody =
  rf_Topic :: string
  rf_Partition :: int
  rf_FromOffset :: int

record ReplicaDataBody =
  rd_Topic :: string
  rd_Partition :: int
  rd_Messages :: "Message option list"

record ReplicaAckBody =
  ra_Topic :: string
  ra_Partition :: int
  ra_Offset :: int

definition ReplicaFetchBody_json :: "ReplicaFetchBody \<Rightarrow> json" where
  "ReplicaFetchBody_json b = JObj
     [(''topic'', JStr (rf_Topic b)), (''partition'', int_json (rf_Partition b)), (''from_offset'', int_json (rf_FromOffset b))]"

definition ReplicaFetchBody_fields :: "(string \<times> ReplicaFetchBody setter) list" where
  "ReplicaFetchBody_fields =
     [(''topic'', as_string (\<lambda>s. rf_Topic_update (\<lambda>_. s))), (''partition'', as_int32 (\<lambda>i. rf_Partition_update (\<lambda>_. i))),
      (''from_offset'', as_int64 (\<lambda>i. rf_FromOffset_update (\<lambda>_. i)))]"

definition message_ptr_json :: "Message option \<Rightarrow> json" where
  "message_ptr_json p = (case p of None \<Rightarrow> JNull | Some m \<Rightarrow> Message_json m)"

definition as_message_ptr :: "Message option setter" where
  "as_message_ptr j old =
     (if j = JNull then Some None
      else map_option Some (assign_struct Message_fields j (case old of None \<Rightarrow> zero_Message | Some m \<Rightarrow> m)))"

definition ReplicaDataBody_json :: "ReplicaDataBody \<Rightarrow> json" where
  "ReplicaDataBody_json b = JObj
     [(''topic'', JStr (rd_Topic b)), (''partition'', int_json (rd_Partition b)),
      (''messages'', list_json message_ptr_json (rd_Messages b))]"

definition ReplicaDataBody_fields :: "(string \<times> ReplicaDataBody setter) list" where
  "ReplicaDataBody_fields =
     [(''topic'', as_string (\<lambda>s. rd_Topic_update (\<lambda>_. s))), (''partition'', as_int32 (\<lambda>i. rd_Partition_update (\<lambda>_. i))),
      (''messages'', as_list as_message_ptr None rd_Messages (\<lambda>ms. rd_Messages_update (\<lambda>_. ms)))]"

definition ReplicaAckBody_json :: "ReplicaAckBody \<Rightarrow> json" where
  "ReplicaAckBody_json b = JObj
     [(''topic'', JStr (ra_Topic b)), (''partition'', int_json (ra_Partition b)), (''offset'', int_json (ra_Offset b))]"

definition ReplicaAckBody_fields :: "(string \<times> ReplicaAckBody setter) list" where
  "ReplicaAckBody_fields =
     [(''topic'', as_string (\<lambda>s. ra_Topic_update (\<lambda>_. s))), (''partition'', as_int32 (\<lambda>i. ra_Partition_update (\<lambda>_. i))),
      (''offset'', as_int64 (\<lambda>i. ra_Offset_update (\<lambda>_. i)))]"

definition fetch_of_body :: "bytes \<Rightarrow> ReplicaFetchBody option" where
  "fetch_of_body bs = Unmarshal (assign_struct ReplicaFetchBody_fields) bs \<lparr>rf_Topic = [], rf_Partition = 0, rf_FromOffset = 0\<rparr>"

definition data_of_body :: "bytes \<Rightarrow> ReplicaDataBody option" where
  "data_of_body bs = Unmarshal (assign_struct ReplicaDataBody_fields) bs \<lparr>rd_Topic = [], rd_Partition = 0, rd_Messages = []\<rparr>"

definition ack_of_body :: "bytes \<Rightarrow> ReplicaAckBody option" where
  "ack_of_body bs = Unmarshal (assign_struct ReplicaAckBody_fields) bs \<lparr>ra_Topic = [], ra_Partition = 0, ra_Offset = 0\<rparr>"

section \<open>State\<close>

record Replicator =
  rp_self :: Member
  rp_partitions :: "(partKey \<times> PartitionLog) list"
  rp_trackers :: "partKey \<rightharpoonup> ISRTracker"
  rp_followerOffsets :: "string \<rightharpoonup> (partKey \<rightharpoonup> int)"
  rp_lastFetch :: "partKey \<rightharpoonup> int"
  rp_prevRole :: BullyRole

definition NewReplicator :: "Member \<Rightarrow> Replicator" where
  "NewReplicator self = \<lparr>rp_self = self, rp_partitions = [], rp_trackers = Map.empty, rp_followerOffsets = Map.empty,
     rp_lastFetch = Map.empty, rp_prevRole = RoleFollower\<rparr>"

definition RegisterPartition :: "Replicator \<Rightarrow> string \<Rightarrow> int \<Rightarrow> PartitionLog \<Rightarrow> Replicator" where
  "RegisterPartition r topic part pl = r\<lparr>rp_partitions := map_put (topic, part) pl (rp_partitions r)\<rparr>"

text \<open>\<open>wirePartition\<close> of the broker: a new tracker for the log, then the registration.\<close>

definition wirePartition :: "Replicator \<Rightarrow> string \<Rightarrow> int \<Rightarrow> PartitionLog \<Rightarrow> Replicator" where
  "wirePartition r topic part pl =
     RegisterPartition (r\<lparr>rp_trackers := (rp_trackers r)((topic, part) \<mapsto> NewISRTracker 1000 10000)\<rparr>) topic part pl"

definition getFollowerOffset :: "Replicator \<Rightarrow> string \<Rightarrow> partKey \<Rightarrow> int" where
  "getFollowerOffset r nodeID key =
     (case rp_followerOffsets r nodeID of
        None \<Rightarrow> 0
      | Some m \<Rightarrow> (case m key of None \<Rightarrow> 0 | Some off \<Rightarrow> off))"

definition setFollowerOffset :: "Replicator \<Rightarrow> string \<Rightarrow> partKey \<Rightarrow> int \<Rightarrow> Replicator" where
  "setFollowerOffset r nodeID key offset =
     (let m = (case rp_followerOffsets r nodeID of None \<Rightarrow> Map.empty | Some m \<Rightarrow> m)
      in r\<lparr>rp_followerOffsets := (rp_followerOffsets r)(nodeID \<mapsto> m(key \<mapsto> offset))\<rparr>)"

definition replica_msg :: "Replicator \<Rightarrow> nat \<Rightarrow> json \<Rightarrow> ClusterMsg" where
  "replica_msg r ty body = \<lparr>cm_Type = ty, cm_From = mb_NodeID (rp_self r), cm_Term = 0, cm_Body = Marshal body\<rparr>"

definition data_msg :: "Replicator \<Rightarrow> partKey \<Rightarrow> Message list \<Rightarrow> ClusterMsg" where
  "data_msg r key msgs = replica_msg r MsgReplicaData
     (ReplicaDataBody_json \<lparr>rd_Topic = fst key, rd_Partition = snd key, rd_Messages = map Some msgs\<rparr>)"

definition fetch_msg :: "Replicator \<Rightarrow> partKey \<Rightarrow> int \<Rightarrow> ClusterMsg" where
  "fetch_msg r key fromOffset = replica_msg r MsgReplicaFetch
     (ReplicaFetchBody_json \<lparr>rf_Topic = fst key, rf_Partition = snd key, rf_FromOffset = fromOffset\<rparr>)"

definition ack_msg :: "Replicator \<Rightarrow> partKey \<Rightarrow> int \<Rightarrow> ClusterMsg" where
  "ack_msg r key offset = replica_msg r MsgReplicaAck
     (ReplicaAckBody_json \<lparr>ra_Topic = fst key, ra_Partition = snd key, ra_Offset = offset\<rparr>)"

section \<open>Ticks\<close>

text \<open>What the leader pushes to one member for one partition.\<close>

definition push_to :: "flate_lib \<Rightarrow> Replicator \<Rightarrow> partKey \<Rightarrow> PartitionLog \<Rightarrow> Member \<Rightarrow> effects" where
  "push_to lib r key pl m =
     (let followerOff = getFollowerOffset r (mb_NodeID m) key
      in if mb_NodeID m = mb_NodeID (rp_self r) \<or> followerOff \<ge> PartitionLog_NextOffset pl then []
         else case PartitionLog_Read lib pl followerOff 256 of
           Inl _ \<Rightarrow> []
         | Inr msgs \<Rightarrow> if msgs = [] then [] else [(mb_Addr m, data_msg r key msgs)])"

definition leaderTick :: "flate_lib \<Rightarrow> Membership \<Rightarrow> Replicator \<Rightarrow> effects" where
  "leaderTick lib ms r =
     concat (map (\<lambda>(key, pl). concat (map (push_to lib r key pl) (Membership_All ms))) (rp_partitions r))"

definition followerTick :: "int \<Rightarrow> Replicator \<Rightarrow> Member option \<Rightarrow> Replicator \<times> effects" where
  "followerTick now r leader =
     (case leader of
        None \<Rightarrow> (r, [])
      | Some l \<Rightarrow>
          if mb_NodeID l = mb_NodeID (rp_self r) then (r, [])
          else (let due = filter (\<lambda>(key, _). case rp_lastFetch r key of None \<Rightarrow> True | Some t \<Rightarrow> \<not> now - t < 500 * 1000000)
                     (rp_partitions r)
                in (r\<lparr>rp_lastFetch := rp_lastFetch r ++ map_of (map (\<lambda>(key, _). (key, now)) due)\<rparr>,
                    map (\<lambda>(key, pl). (mb_Addr l, fetch_msg r key (PartitionLog_NextOffset pl))) due)))"

definition sendFetchAll :: "int \<Rightarrow> Replicator \<Rightarrow> Member \<Rightarrow> Replicator \<times> effects" where
  "sendFetchAll now r leader =
     (r\<lparr>rp_lastFetch := rp_lastFetch r ++ map_of (map (\<lambda>(key, _). (key, now)) (rp_partitions r))\<rparr>,
      map (\<lambda>(key, pl). (mb_Addr leader, fetch_msg r key (PartitionLog_NextOffset pl))) (rp_partitions r))"

text \<open>One turn of the loop of \<open>run\<close>; \<open>t1\<close> and \<open>t2\<close> are the two readings of the clock.\<close>

definition replicator_turn ::
  "flate_lib \<Rightarrow> int \<Rightarrow> int \<Rightarrow> Membership \<Rightarrow> Replicator \<Rightarrow> BullyRole \<Rightarrow> Member option \<Rightarrow> Replicator \<times> effects" where
  "replicator_turn lib t1 t2 ms r0 role leader =
     (let (r1, effs1) = (if role = RoleFollower \<and> rp_prevRole r0 \<noteq> RoleFollower
            then (case leader of None \<Rightarrow> (r0, []) | Some l \<Rightarrow> sendFetchAll t1 r0 l) else (r0, []));
          r2 = r1\<lparr>rp_prevRole := role\<rparr>
      in case role of
           RoleLeader \<Rightarrow> (r2, effs1 @ leaderTick lib ms r2)
         | RoleFollower \<Rightarrow> (let (r3, effs2) = followerTick t2 r2 leader in (r3, effs1 @ effs2))
         | RoleCandidate \<Rightarrow> (r2, effs1))"

section \<open>Messages\<close>

datatype replicator_error =
    BadBody
  | ReadFailed segment_error
  | UnexpectedType nat

type_synonym handled = "Replicator \<times> (replicator_error, effects) result"

definition rep_handleFetch :: "flate_lib \<Rightarrow> Membership \<Rightarrow> Replicator \<Rightarrow> ClusterMsg \<Rightarrow> handled" where
  "rep_handleFetch lib ms r msg =
     (case fetch_of_body (cm_Body msg) of
        None \<Rightarrow> (r, Inl BadBody)
      | Some body \<Rightarrow>
          (let key = (rf_Topic body, rf_Partition body)
           in case map_of (rp_partitions r) key of
                None \<Rightarrow> (r, Inr [])
              | Some pl \<Rightarrow>
                  (let r1 = setFollowerOffset r (cm_From msg) key (rf_FromOffset body)
                   in if rf_FromOffset body \<ge> PartitionLog_NextOffset pl then (r1, Inr [])
                      else case PartitionLog_Read lib pl (rf_FromOffset body) 256 of
                        Inl e \<Rightarrow> (r1, Inl (ReadFailed e))
                      | Inr msgs \<Rightarrow>
                          if msgs = [] then (r1, Inr [])
                          else (case Membership_Get ms (cm_From msg) of
                                  None \<Rightarrow> (r1, Inr [])
                                | Some follower \<Rightarrow> (r1, Inr [(mb_Addr follower, data_msg r1 key msgs)])))))"

text \<open>The loop over the messages of a batch, with the clock and the disk at each append.\<close>

fun append_replica ::
  "flate_lib \<Rightarrow> (nat \<Rightarrow> int) \<Rightarrow> (nat \<Rightarrow> disk_fault) \<Rightarrow> nat \<Rightarrow> Message option list \<Rightarrow> PartitionLog \<Rightarrow> int \<Rightarrow>
   (PartitionLog \<times> int) option" where
  "append_replica lib clock flt i [] pl highest = Some (pl, highest)"
| "append_replica lib clock flt i (None # ms) pl highest = None"
| "append_replica lib clock flt i (Some m # ms) pl highest =
     (if m_Offset m < PartitionLog_NextOffset pl
      then append_replica lib clock flt (Suc i) ms pl (if m_Offset m > highest then m_Offset m else highest)
      else case PartitionLog_Append lib (clock i) (flt i) pl m of
        (pl', Inl _) \<Rightarrow> append_replica lib clock flt (Suc i) ms pl' highest
      | (pl', Inr offset) \<Rightarrow>
          append_replica lib clock flt (Suc i) ms pl' (if offset > highest then offset else highest))"

definition rep_handleData ::
  "flate_lib \<Rightarrow> int \<Rightarrow> (nat \<Rightarrow> int) \<Rightarrow> (nat \<Rightarrow> disk_fault) \<Rightarrow> Membership \<Rightarrow> Replicator \<Rightarrow> ClusterMsg \<Rightarrow> handled option" where
  "rep_handleData lib now clock flt ms r msg =
     (case data_of_body (cm_Body msg) of
        None \<Rightarrow> Some (r, Inl BadBody)
      | Some body \<Rightarrow>
          (let key = (rd_Topic body, rd_Partition body)
           in case map_of (rp_partitions r) key of
                None \<Rightarrow> Some (r, Inr [])
              | Some pl \<Rightarrow>
                  (case append_replica lib clock flt 0 (rd_Messages body) pl (- 1) of
                     None \<Rightarrow> None
                   | Some (pl', highest) \<Rightarrow>
                       (let r1 = r\<lparr>rp_lastFetch := (rp_lastFetch r)(key \<mapsto> now), rp_partitions := map_put key pl' (rp_partitions r)\<rparr>
                        in if highest < 0 then Some (r1, Inr [])
                           else case Membership_Get ms (cm_From msg) of
                             None \<Rightarrow> Some (r1, Inr [])
                           | Some sender \<Rightarrow> Some (r1, Inr [(mb_Addr sender, ack_msg r1 key highest)])))))"

definition rep_handleAck :: "int \<Rightarrow> Replicator \<Rightarrow> ClusterMsg \<Rightarrow> handled" where
  "rep_handleAck now r msg =
     (case ack_of_body (cm_Body msg) of
        None \<Rightarrow> (r, Inl BadBody)
      | Some body \<Rightarrow>
          (let key = (ra_Topic body, ra_Partition body);
               r1 = setFollowerOffset r (cm_From msg) key (ra_Offset body + 1)
           in case map_of (rp_partitions r) key of
                None \<Rightarrow> (r1, Inr [])
              | Some _ \<Rightarrow>
                  (case rp_trackers r key of
                     None \<Rightarrow> (r1, Inr [])
                   | Some t \<Rightarrow>
                       (r1\<lparr>rp_trackers := (rp_trackers r)(key \<mapsto> ISR_Update now t (cm_From msg) (ra_Offset body))\<rparr>, Inr []))))"

definition rep_OnMessage ::
  "flate_lib \<Rightarrow> int \<Rightarrow> (nat \<Rightarrow> int) \<Rightarrow> (nat \<Rightarrow> disk_fault) \<Rightarrow> Membership \<Rightarrow> Replicator \<Rightarrow> ClusterMsg \<Rightarrow> handled option" where
  "rep_OnMessage lib now clock flt ms r msg =
     (if cm_Type msg = MsgReplicaFetch then Some (rep_handleFetch lib ms r msg)
      else if cm_Type msg = MsgReplicaData then rep_handleData lib now clock flt ms r msg
      else if cm_Type msg = MsgReplicaAck then Some (rep_handleAck now r msg)
      else Some (r, Inl (UnexpectedType (cm_Type msg))))"

end
