(* ===== verification/Replica_Sync.thy ===== *)
theory Replica_Sync
  imports Replicator
begin

text \<open>
  A leader and a follower that replicate over a network which loses, repeats and reorders messages: the follower's
  logs are always a prefix of the leader's, the leader's picture of the follower is never ahead of it, and a
  fetch makes progress. When an append of the follower fails, or the leader's log no longer starts at 0, they diverge.
\<close>

section \<open>Codecs\<close>

lemma fold_replica_names [simp]: "fold_name ''from_offset'' = ''from_offset''" "fold_name ''messages'' = ''messages''"
  by (simp_all add: fold_name.simps lower_def in_range_def)

lemma replica_lookup [simp]:
  "map_of ReplicaFetchBody_fields ''topic'' = Some (as_string (\<lambda>s. rf_Topic_update (\<lambda>_. s)))"
  "map_of ReplicaFetchBody_fields ''partition'' = Some (as_int32 (\<lambda>i. rf_Partition_update (\<lambda>_. i)))"
  "map_of ReplicaFetchBody_fields ''from_offset'' = Some (as_int64 (\<lambda>i. rf_FromOffset_update (\<lambda>_. i)))"
  "map_of ReplicaDataBody_fields ''topic'' = Some (as_string (\<lambda>s. rd_Topic_update (\<lambda>_. s)))"
  "map_of ReplicaDataBody_fields ''partition'' = Some (as_int32 (\<lambda>i. rd_Partition_update (\<lambda>_. i)))"
  "map_of ReplicaDataBody_fields ''messages'' = Some (as_list as_message_ptr None rd_Messages (\<lambda>ms. rd_Messages_update (\<lambda>_. ms)))"
  "map_of ReplicaAckBody_fields ''topic'' = Some (as_string (\<lambda>s. ra_Topic_update (\<lambda>_. s)))"
  "map_of ReplicaAckBody_fields ''partition'' = Some (as_int32 (\<lambda>i. ra_Partition_update (\<lambda>_. i)))"
  "map_of ReplicaAckBody_fields ''offset'' = Some (as_int64 (\<lambda>i. ra_Offset_update (\<lambda>_. i)))"
  by (simp_all add: ReplicaFetchBody_fields_def ReplicaDataBody_fields_def ReplicaAckBody_fields_def)

definition wf_key :: "partKey \<Rightarrow> bool" where
  "wf_key key \<longleftrightarrow> valid_utf8 (fst key) \<and> int32_range (snd key)"

lemma fetch_body:
  "wf_key key \<Longrightarrow> fetch_of_body (cm_Body (fetch_msg r key off)) =
     (if int64_range off then Some \<lparr>rf_Topic = fst key, rf_Partition = snd key, rf_FromOffset = off\<rparr> else None)"
  by (auto simp: fetch_of_body_def fetch_msg_def replica_msg_def ReplicaFetchBody_json_def wf_key_def ascii_valid_utf8
      assign_struct_def int32_range_def int64_range_def)

lemma ack_body:
  "wf_key key \<Longrightarrow> ack_of_body (cm_Body (ack_msg r key off)) =
     (if int64_range off then Some \<lparr>ra_Topic = fst key, ra_Partition = snd key, ra_Offset = off\<rparr> else None)"
  by (auto simp: ack_of_body_def ack_msg_def replica_msg_def ReplicaAckBody_json_def wf_key_def ascii_valid_utf8
      assign_struct_def int32_range_def int64_range_def)

lemma message_ptr_codec: "wf_Message m \<Longrightarrow> as_message_ptr (message_ptr_json (Some m)) None = Some (Some m)"
  using assign_Message [of m] by (simp add: as_message_ptr_def message_ptr_json_def Message_json_def)

lemma data_body:
  assumes "wf_key key" and "list_all wf_Message msgs"
  shows "data_of_body (cm_Body (data_msg r key msgs)) =
    Some \<lparr>rd_Topic = fst key, rd_Partition = snd key, rd_Messages = map Some msgs\<rparr>"
proof -
  have "list_all (\<lambda>p. as_message_ptr (message_ptr_json p) None = Some p) (map Some msgs)"
    using assms(2) by (simp add: list_all_iff message_ptr_codec)
  moreover have "list_all (\<lambda>p. valid_json (message_ptr_json p)) (map Some msgs)"
    using assms(2) by (simp add: list_all_iff message_ptr_json_def Message_json_valid)
  ultimately show ?thesis
    using assms(1)
    by (simp add: data_of_body_def data_msg_def replica_msg_def ReplicaDataBody_json_def wf_key_def ascii_valid_utf8
        assign_struct_def int32_range_def)
qed

lemma replica_msg_fields [simp]:
  "cm_Type (fetch_msg r key off) = MsgReplicaFetch" "cm_Type (data_msg r key msgs) = MsgReplicaData"
  "cm_Type (ack_msg r key off) = MsgReplicaAck" "cm_From (fetch_msg r key off) = mb_NodeID (rp_self r)"
  "cm_From (data_msg r key msgs) = mb_NodeID (rp_self r)" "cm_From (ack_msg r key off) = mb_NodeID (rp_self r)"
  by (simp_all add: fetch_msg_def data_msg_def ack_msg_def replica_msg_def)

lemma replica_msg_self:
  "rp_self r = rp_self r' \<Longrightarrow> fetch_msg r key off = fetch_msg r' key off"
  "rp_self r = rp_self r' \<Longrightarrow> data_msg r key msgs = data_msg r' key msgs"
  "rp_self r = rp_self r' \<Longrightarrow> ack_msg r key off = ack_msg r' key off"
  by (simp_all add: fetch_msg_def data_msg_def ack_msg_def replica_msg_def)

section \<open>Logs that start at 0\<close>

text \<open>A log that holds the given messages at the offsets 0, 1, 2 and so on.\<close>

definition numbered :: "Message list \<Rightarrow> bool" where
  "numbered ms \<longleftrightarrow> (\<forall>i < length ms. m_Offset (ms ! i) = int i \<and> wf_Message (ms ! i))"

definition whole :: "PartitionLog \<Rightarrow> Message list \<Rightarrow> bool" where
  "whole pl ms \<longleftrightarrow>
     (\<exists>es. pl_holds pl es \<and> map e_msg es = ms \<and> map e_off es = map int [0..<length es]) \<and> numbered ms \<and>
     PartitionLog_NextOffset pl = int (length ms)"

lemma fits_next:
  assumes "pl_holds pl es" and "pl_fits lib now pl msg"
  shows "wf_Message (msg\<lparr>m_Offset := PartitionLog_NextOffset pl\<rparr>)"
proof -
  obtain ess where i: "pl_inv pl ess" using assms(1) by (auto simp: pl_holds_def)
  obtain ess' where r: "pl_inv (roll lib pl) ess'" "PartitionLog_NextOffset (roll lib pl) = PartitionLog_NextOffset pl"
    using i by (rule roll_inv)
  then have "s_nextOffset (active_after_roll lib pl) = PartitionLog_NextOffset pl"
    by (auto simp: active_after_roll_def PartitionLog_NextOffset_def pl_inv_def)
  then show ?thesis using assms(2) by (simp add: pl_fits_def fits_def wf_record_def)
qed

lemma whole_append:
  assumes "whole pl ms" and "pl_fits lib now pl msg"
  obtains pl' where "PartitionLog_Append lib now NoFault pl msg = (pl', Inr (int (length ms)))"
    "whole pl' (ms @ [msg\<lparr>m_Offset := int (length ms)\<rparr>])"
proof -
  obtain es where es: "pl_holds pl es" "map e_msg es = ms" "map e_off es = map int [0..<length es]" and n: "numbered ms"
    "PartitionLog_NextOffset pl = int (length ms)"
    using assms(1) by (auto simp: whole_def)
  have len: "length es = length ms" using es(2) by auto
  obtain pl' where pl': "PartitionLog_Append lib now NoFault pl msg = (pl', Inr (int (length ms)))"
    "PartitionLog_NextOffset pl' = int (length ms) + 1"
    "pl_holds pl' (es @ [(now, int (length ms), msg\<lparr>m_Offset := int (length ms)\<rparr>)])"
    using pl_log.append_law [OF es(1) assms(2)] n(2) by auto
  have "numbered (ms @ [msg\<lparr>m_Offset := int (length ms)\<rparr>])"
    using n fits_next [OF es(1) assms(2)] by (auto simp: numbered_def nth_append less_Suc_eq)
  moreover have "\<exists>es. pl_holds pl' es \<and> map e_msg es = ms @ [msg\<lparr>m_Offset := int (length ms)\<rparr>] \<and> map e_off es = map int [0..<length es]"
    by (rule exI [of _ "es @ [(now, int (length ms), msg\<lparr>m_Offset := int (length ms)\<rparr>)]"])
      (use pl'(3) es(2,3) len in \<open>simp add: e_msg_def e_off_def\<close>)
  ultimately show ?thesis using that [OF pl'(1)] pl'(2) by (simp add: whole_def)
qed

lemma entries_from_numbered:
  assumes "map e_off es = map int [0..<length es]" and "0 \<le> start"
  shows "entries_from start es = drop (nat start) (map e_msg es)"
  using assms(1)
proof (induction es rule: rev_induct)
  case (snoc e es)
  have e: "map e_off es = map int [0..<length es]" "e_off e = int (length es)" using snoc.prems by simp_all
  have "entries_from start (es @ [e]) = entries_from start es @ (if start \<le> int (length es) then [e_msg e] else [])"
    by (simp add: entries_from_def e(2))
  then show ?case using snoc.IH [OF e(1)] assms(2) by (auto simp: nat_le_iff)
qed (simp add: entries_from_def)

lemma whole_read:
  assumes "whole pl ms" and "0 \<le> start"
  shows "PartitionLog_Read lib pl start n = Inr (take (nat n) (drop (nat start) ms))"
  using assms pl_log.read_law entries_from_numbered [OF _ assms(2)] by (fastforce simp: whole_def)

lemma numbered_wf: "numbered ms \<Longrightarrow> list_all wf_Message (take k (drop s ms))"
  by (auto simp: numbered_def list_all_length)

section \<open>One batch at the follower\<close>

text \<open>Every message the batch makes the follower append fits into its log.\<close>

fun batch_room :: "flate_lib \<Rightarrow> (nat \<Rightarrow> int) \<Rightarrow> nat \<Rightarrow> Message option list \<Rightarrow> PartitionLog \<Rightarrow> bool" where
  "batch_room lib clock i [] pl \<longleftrightarrow> True"
| "batch_room lib clock i (None # ms) pl \<longleftrightarrow> False"
| "batch_room lib clock i (Some m # ms) pl \<longleftrightarrow>
     (if m_Offset m < PartitionLog_NextOffset pl then batch_room lib clock (Suc i) ms pl
      else pl_fits lib (clock i) pl m \<and> batch_room lib clock (Suc i) ms (fst (PartitionLog_Append lib (clock i) NoFault pl m)))"

lemma append_replica_prefix:
  assumes "numbered M" and "s + k \<le> length M" and "whole pf (take g M)" and "s \<le> g" and "g \<le> length M"
    and "batch_room lib clock i (map Some (take k (drop s M))) pf" and "h < int g"
  shows "\<exists>pf' h'. append_replica lib clock (\<lambda>_. NoFault) i (map Some (take k (drop s M))) pf h = Some (pf', h') \<and>
    whole pf' (take (max g (s + k)) M) \<and> h' < int (max g (s + k)) \<and> h \<le> h' \<and> (0 < k \<longrightarrow> int (s + k) \<le> h' + 1)"
  using assms(2-7)
proof (induction k arbitrary: s i g pf h)
  case 0
  then show ?case by (simp add: max_def)
next
  case (Suc k)
  have b: "take (Suc k) (drop s M) = M ! s # take k (drop (Suc s) M)"
    using Suc.prems(1) by (metis Cons_nth_drop_Suc Suc_le_lessD add_Suc_right le_add1 order.strict_trans1 not_less_eq_eq take_Suc_Cons)
  have off: "m_Offset (M ! s) = int s" using assms(1) Suc.prems(1) by (simp add: numbered_def)
  have nxt: "PartitionLog_NextOffset pf = int g" using Suc.prems(2,4) by (simp add: whole_def)
  show ?case
  proof (cases "s < g")
    case True
    let ?h = "if int s > h then int s else h"
    have "\<exists>pf' h'. append_replica lib clock (\<lambda>_. NoFault) (Suc i) (map Some (take k (drop (Suc s) M))) pf ?h = Some (pf', h') \<and>
        whole pf' (take (max g (Suc s + k)) M) \<and> h' < int (max g (Suc s + k)) \<and> ?h \<le> h' \<and> (0 < k \<longrightarrow> int (Suc s + k) \<le> h' + 1)"
      by (rule Suc.IH) (use Suc.prems True off nxt b in auto)
    then show ?thesis using True off nxt b by (cases k) (auto split: if_splits)
  next
    case False
    then have s: "s = g" using Suc.prems(3) by simp
    have fit: "pl_fits lib (clock i) pf (M ! s)" using Suc.prems(5) s off nxt b by simp
    obtain pf1 where pf1: "PartitionLog_Append lib (clock i) NoFault pf (M ! s) = (pf1, Inr (int g))"
      "whole pf1 (take g M @ [(M ! s)\<lparr>m_Offset := int g\<rparr>])"
      using whole_append [OF Suc.prems(2) fit] Suc.prems(4) by (auto simp: min_absorb2)
    have "take g M @ [(M ! s)\<lparr>m_Offset := int g\<rparr>] = take (Suc g) M"
      using off s Suc.prems(1) by (simp add: take_Suc_conv_app_nth)
    then have w: "whole pf1 (take (Suc g) M)" using pf1(2) by simp
    let ?h = "if int g > h then int g else h"
    have "\<exists>pf' h'. append_replica lib clock (\<lambda>_. NoFault) (Suc i) (map Some (take k (drop (Suc s) M))) pf1 ?h = Some (pf', h') \<and>
        whole pf' (take (max (Suc g) (Suc s + k)) M) \<and> h' < int (max (Suc g) (Suc s + k)) \<and> ?h \<le> h' \<and>
        (0 < k \<longrightarrow> int (Suc s + k) \<le> h' + 1)"
      by (rule Suc.IH) (use Suc.prems w s off nxt b pf1(1) in auto)
    then show ?thesis using s off nxt b pf1(1) by (cases k) (auto split: if_splits)
  qed
qed

section \<open>Leader, follower and network\<close>

text \<open>A message once sent stays in the network and may be delivered at any time and any number of times, or never.\<close>

record rep_sys =
  y_L :: Replicator
  y_F :: Replicator
  y_toF :: "ClusterMsg set"
  y_toL :: "ClusterMsg set"

definition sent_to :: "Member \<Rightarrow> effects \<Rightarrow> ClusterMsg set" where
  "sent_to m effs = {msg. (mb_Addr m, msg) \<in> set effs}"

definition effects_of :: "(replicator_error, effects) result \<Rightarrow> effects" where
  "effects_of r = (case r of Inl _ \<Rightarrow> [] | Inr effs \<Rightarrow> effs)"

definition follower_room :: "flate_lib \<Rightarrow> (nat \<Rightarrow> int) \<Rightarrow> Replicator \<Rightarrow> ClusterMsg \<Rightarrow> bool" where
  "follower_room lib clock r msg \<longleftrightarrow>
     (\<forall>body pf. data_of_body (cm_Body msg) = Some body \<longrightarrow> map_of (rp_partitions r) (rd_Topic body, rd_Partition body) = Some pf \<longrightarrow>
        batch_room lib clock 0 (rd_Messages body) pf)"

text \<open>The start: both nodes have the same partitions, all empty, and know nothing of each other.\<close>

definition rep_start :: "Member \<Rightarrow> Member \<Rightarrow> rep_sys \<Rightarrow> bool" where
  "rep_start lm fm s \<longleftrightarrow>
     rp_self (y_L s) = lm \<and> rp_self (y_F s) = fm \<and> y_toF s = {} \<and> y_toL s = {} \<and>
     map_sorted (rp_partitions (y_L s)) \<and> map_sorted (rp_partitions (y_F s)) \<and>
     map fst (rp_partitions (y_L s)) = map fst (rp_partitions (y_F s)) \<and>
     list_all (\<lambda>(key, pl). wf_key key \<and> whole pl []) (rp_partitions (y_L s)) \<and>
     list_all (\<lambda>(_, pl). whole pl []) (rp_partitions (y_F s)) \<and>
     rp_followerOffsets (y_L s) = Map.empty \<and> (\<forall>key t. rp_trackers (y_L s) key = Some t \<longrightarrow> it_replicas t = [])"

inductive rep_step :: "flate_lib \<Rightarrow> Membership \<Rightarrow> Member \<Rightarrow> Member \<Rightarrow> rep_sys \<Rightarrow> rep_sys \<Rightarrow> bool"
  for lib ms lm fm where
  publish: "map_of (rp_partitions (y_L s)) key = Some pl \<Longrightarrow> pl_fits lib now pl msg \<Longrightarrow>
     PartitionLog_Append lib now NoFault pl msg = (pl', r) \<Longrightarrow>
     rep_step lib ms lm fm s (s\<lparr>y_L := (y_L s)\<lparr>rp_partitions := map_put key pl' (rp_partitions (y_L s))\<rparr>\<rparr>)"
| leader_turn: "replicator_turn lib t1 t2 ms (y_L s) RoleLeader known = (r, effs) \<Longrightarrow>
     rep_step lib ms lm fm s (s\<lparr>y_L := r, y_toF := y_toF s \<union> sent_to fm effs\<rparr>)"
| follower_turn: "replicator_turn lib t1 t2 ms (y_F s) RoleFollower (Some lm) = (r, effs) \<Longrightarrow>
     rep_step lib ms lm fm s (s\<lparr>y_F := r, y_toL := y_toL s \<union> sent_to lm effs\<rparr>)"
| at_leader: "msg \<in> y_toL s \<Longrightarrow> rep_OnMessage lib now clock flt ms (y_L s) msg = Some (r, res) \<Longrightarrow>
     rep_step lib ms lm fm s (s\<lparr>y_L := r, y_toF := y_toF s \<union> sent_to fm (effects_of res)\<rparr>)"
| at_follower: "msg \<in> y_toF s \<Longrightarrow> follower_room lib clock (y_F s) msg \<Longrightarrow>
     rep_OnMessage lib now clock (\<lambda>_. NoFault) ms (y_F s) msg = Some (r, res) \<Longrightarrow>
     rep_step lib ms lm fm s (s\<lparr>y_F := r, y_toL := y_toL s \<union> sent_to lm (effects_of res)\<rparr>)"

inductive rep_reach :: "flate_lib \<Rightarrow> Membership \<Rightarrow> Member \<Rightarrow> Member \<Rightarrow> rep_sys \<Rightarrow> bool"
  for lib ms lm fm where
  start: "rep_start lm fm s \<Longrightarrow> rep_reach lib ms lm fm s"
| step: "rep_reach lib ms lm fm s \<Longrightarrow> rep_step lib ms lm fm s s' \<Longrightarrow> rep_reach lib ms lm fm s'"

section \<open>The invariant\<close>

text \<open>\<open>E key\<close> are the leader's messages of a partition, the first \<open>g key\<close> of which the follower has.\<close>

definition logs_ok :: "(partKey \<Rightarrow> Message list) \<Rightarrow> (partKey \<Rightarrow> nat) \<Rightarrow> Replicator \<Rightarrow> Replicator \<Rightarrow> bool" where
  "logs_ok E g l f \<longleftrightarrow>
     map_sorted (rp_partitions l) \<and> map_sorted (rp_partitions f) \<and>
     dom (map_of (rp_partitions l)) = dom (map_of (rp_partitions f)) \<and>
     (\<forall>key pl. map_of (rp_partitions l) key = Some pl \<longrightarrow> wf_key key \<and> whole pl (E key)) \<and>
     (\<forall>key pf. map_of (rp_partitions f) key = Some pf \<longrightarrow> whole pf (take (g key) (E key))) \<and>
     (\<forall>key. g key \<le> length (E key))"

definition toF_ok :: "partKey set \<Rightarrow> Member \<Rightarrow> (partKey \<Rightarrow> Message list) \<Rightarrow> (partKey \<Rightarrow> nat) \<Rightarrow> ClusterMsg set \<Rightarrow> bool" where
  "toF_ok keys lm E g net \<longleftrightarrow>
     (\<forall>msg \<in> net. \<exists>key s k. key \<in> keys \<and> msg = data_msg (NewReplicator lm) key (take k (drop s (E key))) \<and>
        s + k \<le> length (E key) \<and> s \<le> g key)"

definition toL_ok :: "partKey set \<Rightarrow> Member \<Rightarrow> (partKey \<Rightarrow> nat) \<Rightarrow> ClusterMsg set \<Rightarrow> bool" where
  "toL_ok keys fm g net \<longleftrightarrow>
     (\<forall>msg \<in> net. \<exists>key off. key \<in> keys \<and> 0 \<le> off \<and>
        (msg = fetch_msg (NewReplicator fm) key off \<and> off \<le> int (g key) \<or> msg = ack_msg (NewReplicator fm) key off \<and> off < int (g key)))"

definition view_ok :: "partKey set \<Rightarrow> string \<Rightarrow> (partKey \<Rightarrow> nat) \<Rightarrow> Replicator \<Rightarrow> bool" where
  "view_ok keys fid g l \<longleftrightarrow>
     (\<forall>key \<in> keys. 0 \<le> getFollowerOffset l fid key \<and> getFollowerOffset l fid key \<le> int (g key)) \<and>
     (\<forall>key \<in> keys. \<forall>t. rp_trackers l key = Some t \<longrightarrow> map_sorted (it_replicas t) \<and>
        (\<forall>st. map_of (it_replicas t) fid = Some st \<longrightarrow> rs_LastOffset st < int (g key)))"

definition part_keys :: "Replicator \<Rightarrow> partKey set" where
  "part_keys r = dom (map_of (rp_partitions r))"

definition rep_inv :: "Member \<Rightarrow> Member \<Rightarrow> (partKey \<Rightarrow> Message list) \<Rightarrow> (partKey \<Rightarrow> nat) \<Rightarrow> rep_sys \<Rightarrow> bool" where
  "rep_inv lm fm E g s \<longleftrightarrow>
     rp_self (y_L s) = lm \<and> rp_self (y_F s) = fm \<and> logs_ok E g (y_L s) (y_F s) \<and>
     toF_ok (part_keys (y_L s)) lm E g (y_toF s) \<and> toL_ok (part_keys (y_L s)) fm g (y_toL s) \<and>
     view_ok (part_keys (y_L s)) (mb_NodeID fm) g (y_L s)"

definition grows :: "(partKey \<Rightarrow> Message list) \<Rightarrow> (partKey \<Rightarrow> nat) \<Rightarrow> (partKey \<Rightarrow> Message list) \<Rightarrow> (partKey \<Rightarrow> nat) \<Rightarrow> bool" where
  "grows E g E' g' \<longleftrightarrow> (\<forall>key. (\<exists>zs. E' key = E key @ zs) \<and> g key \<le> g' key)"

lemma toF_mono:
  assumes "toF_ok keys lm E g net" and "grows E g E' g'"
  shows "toF_ok keys lm E' g' net"
  unfolding toF_ok_def
proof
  fix msg assume "msg \<in> net"
  then obtain key s k where m: "key \<in> keys" "msg = data_msg (NewReplicator lm) key (take k (drop s (E key)))"
    "s + k \<le> length (E key)" "s \<le> g key" using assms(1) by (auto simp: toF_ok_def)
  obtain zs where zs: "E' key = E key @ zs" "g key \<le> g' key" using assms(2) unfolding grows_def by blast
  have "take k (drop s (E' key)) = take k (drop s (E key))" using zs(1) m(3) by simp
  then show "\<exists>key s k. key \<in> keys \<and> msg = data_msg (NewReplicator lm) key (take k (drop s (E' key))) \<and>
      s + k \<le> length (E' key) \<and> s \<le> g' key"
    using m zs by (intro exI [of _ key] exI [of _ s] exI [of _ k]) simp
qed

lemma toL_mono: "toL_ok keys fm g net \<Longrightarrow> grows E g E' g' \<Longrightarrow> toL_ok keys fm g' net"
  unfolding toL_ok_def grows_def by (meson le_trans nat_int_comparison(2) nat_int_comparison(3) order.strict_trans2 order_trans)

lemma view_mono: "view_ok keys fid g l \<Longrightarrow> grows E g E' g' \<Longrightarrow> view_ok keys fid g' l"
  unfolding view_ok_def grows_def by (meson nat_int_comparison(3) order.strict_trans2 order_trans)

lemma toF_Un: "toF_ok keys lm E g (A \<union> B) \<longleftrightarrow> toF_ok keys lm E g A \<and> toF_ok keys lm E g B"
  by (auto simp: toF_ok_def)

lemma toL_Un: "toL_ok keys fm g (A \<union> B) \<longleftrightarrow> toL_ok keys fm g A \<and> toL_ok keys fm g B"
  by (auto simp: toL_ok_def)

lemma part_keys_put: "map_sorted (rp_partitions r) \<Longrightarrow> key \<in> part_keys r \<Longrightarrow>
  dom (map_of (map_put key pl (rp_partitions r))) = part_keys r"
  by (auto simp: part_keys_def map_of_map_put)

text \<open>A read of the leader for its follower is a batch the invariant allows.\<close>

lemma batch_ok:
  assumes "whole pl (E key)" and "key \<in> keys" and "0 \<le> off" and "off \<le> int (g key)" and "rp_self r = lm"
    and "g key \<le> length (E key)" and "PartitionLog_Read lib pl off 256 = Inr msgs"
  shows "toF_ok keys lm E g {data_msg r key msgs}"
proof -
  let ?k = "min 256 (length (E key) - nat off)"
  have "msgs = take 256 (drop (nat off) (E key))" using whole_read [OF assms(1,3), of lib 256] assms(7) by simp
  also have "\<dots> = take ?k (drop (nat off) (E key))" by (simp add: min_def)
  finally have "data_msg r key msgs = data_msg (NewReplicator lm) key (take ?k (drop (nat off) (E key)))"
    using replica_msg_self(2) [of r "NewReplicator lm"] assms(5) by (simp add: NewReplicator_def)
  moreover have "nat off + ?k \<le> length (E key)" "nat off \<le> g key" using assms(4,6) by auto
  ultimately show ?thesis using assms(2) unfolding toF_ok_def by blast
qed

section \<open>Steps keep the invariant\<close>

declare split_paired_All [simp del] split_paired_Ex [simp del]

lemma sorted_lookup: "map_sorted m \<Longrightarrow> (k, v) \<in> set m \<Longrightarrow> map_of m k = Some v"
  by (simp add: map_of_is_SomeI map_sorted_distinct)

lemma same_address:
  assumes "addresses_ok ms" and "m \<in> set (Membership_All ms)" and "n \<in> set (Membership_All ms)" and "mb_Addr m = mb_Addr n"
  shows "m = n"
  using assms by (auto simp: addresses_ok_def distinct_map dest: inj_onD)

lemma inv_publish:
  assumes "rep_inv lm fm E g s" and "map_of (rp_partitions (y_L s)) key = Some pl" and "pl_fits lib now pl msg"
    and "PartitionLog_Append lib now NoFault pl msg = (pl', r)"
  shows "\<exists>E'. rep_inv lm fm E' g (s\<lparr>y_L := (y_L s)\<lparr>rp_partitions := map_put key pl' (rp_partitions (y_L s))\<rparr>\<rparr>)"
proof -
  let ?l = "y_L s" and ?m = "msg\<lparr>m_Offset := int (length (E key))\<rparr>"
  let ?E = "E(key := E key @ [?m])"
  have lo: "logs_ok E g ?l (y_F s)" using assms(1) by (simp add: rep_inv_def)
  have w: "whole pl (E key)" using lo assms(2) by (simp add: logs_ok_def)
  have w': "whole pl' (E key @ [?m])" using whole_append [OF w assms(3)] assms(4) by auto
  have gr: "grows E g ?E g" by (auto simp: grows_def)
  have sorted: "map_sorted (rp_partitions ?l)" using lo by (simp add: logs_ok_def)
  have keys: "part_keys (?l\<lparr>rp_partitions := map_put key pl' (rp_partitions ?l)\<rparr>) = part_keys ?l"
    using part_keys_put [OF sorted, of key pl'] assms(2) by (auto simp: part_keys_def)
  have "take (g k) (?E k) = take (g k) (E k)" for k using lo by (simp add: logs_ok_def)
  then have "logs_ok ?E g (?l\<lparr>rp_partitions := map_put key pl' (rp_partitions ?l)\<rparr>) (y_F s)"
    using lo w' sorted assms(2) by (auto simp: logs_ok_def map_sorted_put map_of_map_put le_SucI)
  then have "rep_inv lm fm ?E g (s\<lparr>y_L := ?l\<lparr>rp_partitions := map_put key pl' (rp_partitions ?l)\<rparr>\<rparr>)"
    using assms(1) keys toF_mono [OF _ gr]
    by (auto simp: rep_inv_def view_ok_def getFollowerOffset_def)
  then show ?thesis by blast
qed

lemma leaderTick_ok:
  assumes "logs_ok E g l f" and "view_ok (part_keys l) (mb_NodeID fm) g l" and "rp_self l = lm" and "addresses_ok ms"
    and "fm \<in> set (Membership_All ms)"
  shows "toF_ok (part_keys l) lm E g (sent_to fm (leaderTick lib ms l))"
proof -
  have "toF_ok (part_keys l) lm E g {msg}" if sent: "(mb_Addr fm, msg) \<in> set (leaderTick lib ms l)" for msg
  proof -
    obtain key pl m where m: "(key, pl) \<in> set (rp_partitions l)" "m \<in> set (Membership_All ms)"
      "(mb_Addr fm, msg) \<in> set (push_to lib l key pl m)"
      using sent by (auto simp: leaderTick_def)
    have "mb_Addr m = mb_Addr fm" using m(3) by (auto simp: push_to_def Let_def split: if_splits sum.splits)
    then have "m = fm" using same_address [OF assms(4) m(2) assms(5)] by simp
    then obtain msgs where msgs: "PartitionLog_Read lib pl (getFollowerOffset l (mb_NodeID fm) key) 256 = Inr msgs"
      "msg = data_msg l key msgs"
      using m(3) by (cases "PartitionLog_Read lib pl (getFollowerOffset l (mb_NodeID fm) key) 256")
        (auto simp: push_to_def Let_def split: if_splits)
    have pl: "map_of (rp_partitions l) key = Some pl" using assms(1) sorted_lookup [OF _ m(1)] by (simp add: logs_ok_def)
    then have "key \<in> part_keys l" "whole pl (E key)" using assms(1) by (auto simp: part_keys_def logs_ok_def)
    then show ?thesis
      using batch_ok [of pl E key "part_keys l" _ g l lm lib msgs] msgs assms(1-3) by (auto simp: view_ok_def logs_ok_def)
  qed
  then show ?thesis by (auto simp: toF_ok_def sent_to_def)
qed

lemma inv_leader_turn:
  assumes "rep_inv lm fm E g s" and "addresses_ok ms" and "fm \<in> set (Membership_All ms)"
    and "replicator_turn lib t1 t2 ms (y_L s) RoleLeader known = (r, effs)"
  shows "rep_inv lm fm E g (s\<lparr>y_L := r, y_toF := y_toF s \<union> sent_to fm effs\<rparr>)"
proof -
  have r: "r = (y_L s)\<lparr>rp_prevRole := RoleLeader\<rparr>" "effs = leaderTick lib ms r"
    using assms(4) by (auto simp: replicator_turn_def Let_def)
  have l: "logs_ok E g r (y_F s)" "part_keys r = part_keys (y_L s)" "view_ok (part_keys r) (mb_NodeID fm) g r" "rp_self r = lm"
    using assms(1) r(1) by (auto simp: rep_inv_def logs_ok_def part_keys_def view_ok_def getFollowerOffset_def)
  show ?thesis
    using leaderTick_ok [OF l(1,3,4) assms(2,3), of lib] assms(1) l r(2) by (simp add: rep_inv_def toF_Un)
qed

lemma fetches_ok:
  assumes "logs_ok E g l f" and "rp_self f = fm" and "rp_self r = fm" and "set ps \<subseteq> set (rp_partitions f)"
  shows "toL_ok (part_keys l) fm g (sent_to lm (map (\<lambda>(key, pl). (addr, fetch_msg r key (PartitionLog_NextOffset pl))) ps))"
  unfolding toL_ok_def
proof
  fix msg assume "msg \<in> sent_to lm (map (\<lambda>(key, pl). (addr, fetch_msg r key (PartitionLog_NextOffset pl))) ps)"
  then obtain key pf where p: "(key, pf) \<in> set (rp_partitions f)" "msg = fetch_msg r key (PartitionLog_NextOffset pf)"
    using assms(4) by (auto simp: sent_to_def)
  have pf: "map_of (rp_partitions f) key = Some pf" using assms(1) sorted_lookup [OF _ p(1)] by (simp add: logs_ok_def)
  then have "whole pf (take (g key) (E key))" "g key \<le> length (E key)" "key \<in> part_keys l"
    using assms(1) by (auto simp: logs_ok_def part_keys_def)
  moreover have "msg = fetch_msg (NewReplicator fm) key (PartitionLog_NextOffset pf)"
    using p(2) replica_msg_self(1) [of r "NewReplicator fm"] assms(3) by (simp add: NewReplicator_def)
  ultimately show "\<exists>key off. key \<in> part_keys l \<and> 0 \<le> off \<and> (msg = fetch_msg (NewReplicator fm) key off \<and> off \<le> int (g key) \<or>
      msg = ack_msg (NewReplicator fm) key off \<and> off < int (g key))"
    by (intro exI [of _ key] exI [of _ "PartitionLog_NextOffset pf"]) (simp add: whole_def)
qed

lemma inv_follower_turn:
  assumes "rep_inv lm fm E g s" and "replicator_turn lib t1 t2 ms (y_F s) RoleFollower (Some lm) = (r, effs)"
  shows "rep_inv lm fm E g (s\<lparr>y_F := r, y_toL := y_toL s \<union> sent_to lm effs\<rparr>)"
proof -
  let ?f = "y_F s"
  have i: "logs_ok E g (y_L s) ?f" "rp_self ?f = fm" using assms(1) by (simp_all add: rep_inv_def)
  obtain ps qs r1 r2 where r: "rp_partitions r = rp_partitions ?f" "rp_self r = fm" "rp_self r1 = fm" "rp_self r2 = fm"
    "set ps \<subseteq> set (rp_partitions ?f)" "set qs \<subseteq> set (rp_partitions ?f)"
    "effs = map (\<lambda>(key, pl). (mb_Addr lm, fetch_msg r1 key (PartitionLog_NextOffset pl))) ps @
      map (\<lambda>(key, pl). (mb_Addr lm, fetch_msg r2 key (PartitionLog_NextOffset pl))) qs"
  proof -
    define r1 where "r1 = (if rp_prevRole ?f \<noteq> RoleFollower then fst (sendFetchAll t1 ?f lm) else ?f)\<lparr>rp_prevRole := RoleFollower\<rparr>"
    define ps where "ps = (if rp_prevRole ?f \<noteq> RoleFollower then rp_partitions ?f else [])"
    have r1: "rp_partitions r1 = rp_partitions ?f" "rp_self r1 = fm" using i(2) by (simp_all add: r1_def sendFetchAll_def)
    have t: "(r, effs) = (let (r3, effs2) = followerTick t2 r1 (Some lm) in
        (r3, map (\<lambda>(key, pl). (mb_Addr lm, fetch_msg ?f key (PartitionLog_NextOffset pl))) ps @ effs2))"
      using assms(2) by (auto simp: replicator_turn_def r1_def ps_def sendFetchAll_def)
    define qs where "qs = (if mb_NodeID lm = mb_NodeID (rp_self r1) then [] else
        filter (\<lambda>(key, _). case rp_lastFetch r1 key of None \<Rightarrow> True | Some t \<Rightarrow> \<not> t2 - t < 500 * 1000000) (rp_partitions r1))"
    have q: "rp_partitions (fst (followerTick t2 r1 (Some lm))) = rp_partitions r1" "rp_self (fst (followerTick t2 r1 (Some lm))) = rp_self r1"
      "snd (followerTick t2 r1 (Some lm)) = map (\<lambda>(key, pl). (mb_Addr lm, fetch_msg r1 key (PartitionLog_NextOffset pl))) qs"
      by (simp_all add: followerTick_def qs_def Let_def)
    have "set ps \<subseteq> set (rp_partitions ?f)" "set qs \<subseteq> set (rp_partitions ?f)" using r1(1) by (auto simp: ps_def qs_def)
    then show ?thesis using that [of ?f r1 ps qs] t q r1 i(2) by (simp add: case_prod_beta)
  qed
  have "toL_ok (part_keys (y_L s)) fm g (sent_to lm effs)"
    using fetches_ok [OF i r(3,5), of lm "mb_Addr lm"] fetches_ok [OF i r(4,6), of lm "mb_Addr lm"] r(7)
    by (auto simp: toL_ok_def sent_to_def)
  then show ?thesis using assms(1) i r(1,2) by (simp add: rep_inv_def toL_Un logs_ok_def)
qed

lemma getFollowerOffset_set:
  "getFollowerOffset (setFollowerOffset r n key off) n' key' = (if n' = n \<and> key' = key then off else getFollowerOffset r n' key')"
  by (auto simp: getFollowerOffset_def setFollowerOffset_def Let_def split: option.splits)

lemma setFollowerOffset_fields [simp]:
  "rp_partitions (setFollowerOffset r n key off) = rp_partitions r" "rp_self (setFollowerOffset r n key off) = rp_self r"
  "rp_trackers (setFollowerOffset r n key off) = rp_trackers r" "part_keys (setFollowerOffset r n key off) = part_keys r"
  by (simp_all add: setFollowerOffset_def part_keys_def Let_def)

lemma view_set:
  "view_ok keys fid g r \<Longrightarrow> key \<in> keys \<Longrightarrow> 0 \<le> off \<Longrightarrow> off \<le> int (g key) \<Longrightarrow> view_ok keys fid g (setFollowerOffset r fid key off)"
  by (auto simp: view_ok_def getFollowerOffset_set)

lemma inv_fetch:
  assumes "rep_inv lm fm E g s" and "Membership_Get ms (mb_NodeID fm) = Some fm" and "key \<in> part_keys (y_L s)"
    and "0 \<le> off" and "off \<le> int (g key)" and "rep_handleFetch lib ms (y_L s) (fetch_msg (NewReplicator fm) key off) = (r, res)"
  shows "rep_inv lm fm E g (s\<lparr>y_L := r, y_toF := y_toF s \<union> sent_to fm (effects_of res)\<rparr>)"
proof -
  let ?l = "y_L s" and ?r = "setFollowerOffset (y_L s) (mb_NodeID fm) key off"
  have i: "logs_ok E g ?l (y_F s)" "view_ok (part_keys ?l) (mb_NodeID fm) g ?l" "rp_self ?l = lm" using assms(1) by (simp_all add: rep_inv_def)
  obtain pl where pl: "map_of (rp_partitions ?l) key = Some pl" using assms(3) by (auto simp: part_keys_def)
  then have w: "wf_key key" "whole pl (E key)" using i(1) by (simp_all add: logs_ok_def)
  have from_id: "mb_NodeID (rp_self (NewReplicator fm)) = mb_NodeID fm" by (simp add: NewReplicator_def)
  show ?thesis
  proof (cases "int64_range off")
    case False
    then have "r = ?l" "effects_of res = []"
      using assms(6) fetch_body [OF w(1), of "NewReplicator fm" off] by (auto simp: rep_handleFetch_def effects_of_def)
    then show ?thesis using assms(1) by (simp add: sent_to_def)
  next
    case True
    then have r: "r = ?r"
      using assms(6) fetch_body [OF w(1), of "NewReplicator fm" off] pl from_id
      by (auto simp: rep_handleFetch_def Let_def split: if_splits sum.splits option.splits)
    have v: "view_ok (part_keys ?l) (mb_NodeID fm) g ?r" by (rule view_set [OF i(2) assms(3-5)])
    have "toF_ok (part_keys ?l) lm E g (sent_to fm (effects_of res))"
    proof (cases "effects_of res = []")
      case True
      then show ?thesis by (simp add: toF_ok_def sent_to_def)
    next
      case False
      then obtain msgs where m: "PartitionLog_Read lib pl off 256 = Inr msgs" "effects_of res = [(mb_Addr fm, data_msg ?r key msgs)]"
        using assms(2,6) fetch_body [OF w(1), of "NewReplicator fm" off] pl from_id \<open>int64_range off\<close>
        by (cases "PartitionLog_Read lib pl off 256") (auto simp: rep_handleFetch_def effects_of_def Let_def split: if_splits)
      have "toF_ok (part_keys ?l) lm E g {data_msg ?r key msgs}"
        using batch_ok [of pl E key "part_keys ?l" off g ?r lm lib msgs] w(2) assms(3-5) m(1) i by (simp add: logs_ok_def)
      then show ?thesis using m(2) by (simp add: sent_to_def toF_ok_def)
    qed
    then show ?thesis using assms(1) r v by (simp add: rep_inv_def toF_Un logs_ok_def)
  qed
qed

lemma inv_ack:
  assumes "rep_inv lm fm E g s" and "key \<in> part_keys (y_L s)" and "0 \<le> off" and "off < int (g key)"
    and "rep_handleAck now (y_L s) (ack_msg (NewReplicator fm) key off) = (r, res)"
  shows "rep_inv lm fm E g (s\<lparr>y_L := r, y_toF := y_toF s \<union> sent_to fm (effects_of res)\<rparr>)"
proof -
  let ?l = "y_L s" and ?fid = "mb_NodeID fm"
  let ?r = "setFollowerOffset ?l ?fid key (off + 1)"
  have i: "logs_ok E g ?l (y_F s)" "view_ok (part_keys ?l) ?fid g ?l" "rp_self ?l = lm" using assms(1) by (simp_all add: rep_inv_def)
  obtain pl where pl: "map_of (rp_partitions ?l) key = Some pl" using assms(2) by (auto simp: part_keys_def)
  then have w: "wf_key key" using i(1) by (simp add: logs_ok_def)
  have from_id: "mb_NodeID (rp_self (NewReplicator fm)) = ?fid" by (simp add: NewReplicator_def)
  have v: "view_ok (part_keys ?l) ?fid g ?r" by (rule view_set [OF i(2) assms(2)]) (use assms(3,4) in auto)
  have none: "effects_of res = []"
    using assms(5) by (auto simp: rep_handleAck_def effects_of_def Let_def split: option.splits)
  have "r = ?l \<or> r = ?r \<or> (\<exists>t. rp_trackers ?l key = Some t \<and> r = ?r\<lparr>rp_trackers := (rp_trackers ?l)(key \<mapsto> ISR_Update now t ?fid off)\<rparr>)"
    using assms(5) ack_body [OF w, of "NewReplicator fm" off] pl from_id
    by (auto simp: rep_handleAck_def Let_def split: option.splits if_splits)
  moreover have "view_ok (part_keys ?l) ?fid g (?r\<lparr>rp_trackers := (rp_trackers ?l)(key \<mapsto> ISR_Update now t ?fid off)\<rparr>)"
    if t: "rp_trackers ?l key = Some t" for t
  proof -
    have "map_sorted (it_replicas t)" using i(2) assms(2) t by (simp add: view_ok_def)
    then have "map_sorted (it_replicas (ISR_Update now t ?fid off))"
      "map_of (it_replicas (ISR_Update now t ?fid off)) ?fid = Some st \<Longrightarrow> rs_LastOffset st = off" for st
      by (auto simp: ISR_Update_def Let_def map_sorted_put map_of_map_put)
    then show ?thesis
      using v assms(4) by (auto simp: view_ok_def getFollowerOffset_def)
  qed
  ultimately have "view_ok (part_keys ?l) ?fid g r \<and> rp_partitions r = rp_partitions ?l \<and> rp_self r = lm"
    using v i by auto
  moreover from this have "part_keys r = part_keys ?l" "logs_ok E g r (y_F s)" using i(1) by (simp_all add: part_keys_def logs_ok_def)
  ultimately show ?thesis using assms(1) none by (simp add: rep_inv_def sent_to_def)
qed

lemma inv_at_leader:
  assumes "rep_inv lm fm E g s" and "Membership_Get ms (mb_NodeID fm) = Some fm" and "msg \<in> y_toL s"
    and "rep_OnMessage lib now clock flt ms (y_L s) msg = Some (r, res)"
  shows "rep_inv lm fm E g (s\<lparr>y_L := r, y_toF := y_toF s \<union> sent_to fm (effects_of res)\<rparr>)"
proof -
  obtain key off where k: "key \<in> part_keys (y_L s)" "0 \<le> off"
    "msg = fetch_msg (NewReplicator fm) key off \<and> off \<le> int (g key) \<or> msg = ack_msg (NewReplicator fm) key off \<and> off < int (g key)"
    using assms(1,3) by (auto simp: rep_inv_def toL_ok_def)
  from k(3) show ?thesis
  proof
    assume m: "msg = fetch_msg (NewReplicator fm) key off \<and> off \<le> int (g key)"
    then have "rep_handleFetch lib ms (y_L s) (fetch_msg (NewReplicator fm) key off) = (r, res)"
      using assms(4) by (simp add: rep_OnMessage_def)
    then show ?thesis using inv_fetch [OF assms(1,2) k(1,2)] m by simp
  next
    assume m: "msg = ack_msg (NewReplicator fm) key off \<and> off < int (g key)"
    then have "rep_handleAck now (y_L s) (ack_msg (NewReplicator fm) key off) = (r, res)"
      using assms(4) by (simp add: rep_OnMessage_def cluster_types)
    then show ?thesis using inv_ack [OF assms(1) k(1,2)] m by simp
  qed
qed

lemma ack_ok: "key \<in> keys \<Longrightarrow> 0 \<le> h \<Longrightarrow> h < int (g key) \<Longrightarrow> toL_ok keys fm g {ack_msg (NewReplicator fm) key h}"
  unfolding toL_ok_def by blast

lemma inv_at_follower:
  assumes "rep_inv lm fm E g s" and "Membership_Get ms (mb_NodeID lm) = Some lm" and "msg \<in> y_toF s"
    and "follower_room lib clock (y_F s) msg" and "rep_OnMessage lib now clock (\<lambda>_. NoFault) ms (y_F s) msg = Some (r, res)"
  shows "\<exists>g'. rep_inv lm fm E g' (s\<lparr>y_F := r, y_toL := y_toL s \<union> sent_to lm (effects_of res)\<rparr>)"
proof -
  let ?f = "y_F s" and ?keys = "part_keys (y_L s)"
  have i: "logs_ok E g (y_L s) ?f" "rp_self ?f = fm" using assms(1) by (simp_all add: rep_inv_def)
  obtain key b k where m: "key \<in> ?keys" "msg = data_msg (NewReplicator lm) key (take k (drop b (E key)))"
    "b + k \<le> length (E key)" "b \<le> g key"
    using assms(1,3) by (auto simp: rep_inv_def toF_ok_def)
  obtain pl pf where p: "map_of (rp_partitions (y_L s)) key = Some pl" "map_of (rp_partitions ?f) key = Some pf"
    using m(1) i(1) unfolding part_keys_def logs_ok_def by blast
  have w: "wf_key key" "whole pl (E key)" "whole pf (take (g key) (E key))" "g key \<le> length (E key)"
    using i(1) p by (simp_all add: logs_ok_def)
  have num: "numbered (E key)" using w(2) by (simp add: whole_def)
  have d: "data_of_body (cm_Body msg) =
      Some \<lparr>rd_Topic = fst key, rd_Partition = snd key, rd_Messages = map Some (take k (drop b (E key)))\<rparr>"
    unfolding m(2) by (rule data_body [OF w(1) numbered_wf [OF num]])
  have room: "batch_room lib clock 0 (map Some (take k (drop b (E key)))) pf"
    using assms(4) d p(2) by (simp add: follower_room_def)
  let ?g = "max (g key) (b + k)"
  obtain pf' h where a: "append_replica lib clock (\<lambda>_. NoFault) 0 (map Some (take k (drop b (E key)))) pf (- 1) = Some (pf', h)"
    "whole pf' (take ?g (E key))" "h < int ?g"
    using append_replica_prefix [OF num m(3) w(3) m(4) w(4) room, of "- 1"] by auto
  let ?r = "?f\<lparr>rp_lastFetch := (rp_lastFetch ?f)(key \<mapsto> now), rp_partitions := map_put key pf' (rp_partitions ?f)\<rparr>"
  have from_id: "cm_From msg = mb_NodeID lm" using m(2) by (simp add: NewReplicator_def)
  have "rep_handleData lib now clock (\<lambda>_. NoFault) ms ?f msg = Some (r, res)"
    using assms(5) m(2) by (simp add: rep_OnMessage_def cluster_types)
  then have r: "r = ?r" "effects_of res = (if h < 0 then [] else [(mb_Addr lm, ack_msg ?r key h)])"
    using d p(2) a(1) from_id assms(2) by (auto simp: rep_handleData_def effects_of_def Let_def split: if_splits)
  define g' where "g' = g(key := ?g)"
  have gr: "grows E g E g'" by (auto simp: grows_def g'_def)
  have "ack_msg ?r key h = ack_msg (NewReplicator fm) key h"
    by (rule replica_msg_self(3)) (simp add: i(2) NewReplicator_def)
  then have new: "toL_ok ?keys fm g' (sent_to lm (effects_of res))"
    using r(2) a(3) ack_ok [OF m(1), of h g' fm] by (cases "h < 0") (simp_all add: toL_ok_def sent_to_def g'_def)
  have "logs_ok E g' (y_L s) ?r"
    using i(1) a(2) p m(3) w(4) by (auto simp: logs_ok_def g'_def map_sorted_put map_of_map_put)
  then have "rep_inv lm fm E g' (s\<lparr>y_F := r, y_toL := y_toL s \<union> sent_to lm (effects_of res)\<rparr>)"
    using assms(1) i(2) r(1) new toF_mono [OF _ gr] toL_mono [OF _ gr] view_mono [OF _ gr]
    by (simp add: rep_inv_def toL_Un)
  then show ?thesis by blast
qed

lemma inv_start:
  assumes "rep_start lm fm s"
  shows "rep_inv lm fm (\<lambda>_. []) (\<lambda>_. 0) s"
proof -
  have "dom (map_of (rp_partitions (y_L s))) = dom (map_of (rp_partitions (y_F s)))"
    using assms by (metis dom_map_of_conv_image_fst list.set_map rep_start_def)
  then show ?thesis
    using assms
    by (auto simp: rep_inv_def rep_start_def logs_ok_def toF_ok_def toL_ok_def view_ok_def getFollowerOffset_def list_all_iff
        map_sorted_def dest!: map_of_SomeD)
qed

lemma inv_reach:
  assumes "rep_reach lib ms lm fm s" and "addresses_ok ms" and "lm \<in> set (Membership_All ms)" and "fm \<in> set (Membership_All ms)"
  shows "\<exists>E g. rep_inv lm fm E g s"
  using assms(1)
proof induction
  case (start s)
  then show ?case using inv_start by blast
next
  case (step s s')
  then obtain E g where i: "rep_inv lm fm E g s" by blast
  have get: "Membership_Get ms (mb_NodeID lm) = Some lm" "Membership_Get ms (mb_NodeID fm) = Some fm"
    using assms(2-4) Get_member by (simp_all add: addresses_ok_def)
  from step.hyps(2) show ?case
  proof cases
    case publish
    then show ?thesis using inv_publish [OF i] by blast
  next
    case leader_turn
    then show ?thesis using inv_leader_turn [OF i assms(2,4)] by blast
  next
    case follower_turn
    then show ?thesis using inv_follower_turn [OF i] by blast
  next
    case at_leader
    then show ?thesis using inv_at_leader [OF i get(2)] by blast
  next
    case at_follower
    then show ?thesis using inv_at_follower [OF i get(1)] by blast
  qed
qed

text \<open>C8. Whatever the network loses, repeats or reorders, and however the ticks interleave with publishes, as long as
  the appends of the follower do not fail every replicated log of the follower is a prefix of the leader's: reads within it return the same messages on both
  nodes. And no acknowledged offset the leader has recorded for its in-sync replicas is beyond it.\<close>

theorem replica_is_prefix:
  assumes "rep_reach lib ms lm fm s" and "addresses_ok ms" and "lm \<in> set (Membership_All ms)" and "fm \<in> set (Membership_All ms)"
    and "map_of (rp_partitions (y_L s)) key = Some pl" and "map_of (rp_partitions (y_F s)) key = Some pf"
  shows "PartitionLog_NextOffset pf \<le> PartitionLog_NextOffset pl \<and>
    (\<forall>start n. 0 \<le> start \<and> 0 \<le> n \<and> start + n \<le> PartitionLog_NextOffset pf \<longrightarrow>
       PartitionLog_Read lib pf start n = PartitionLog_Read lib pl start n) \<and>
    (\<forall>t st. rp_trackers (y_L s) key = Some t \<and> map_of (it_replicas t) (mb_NodeID fm) = Some st \<longrightarrow>
       rs_LastOffset st < PartitionLog_NextOffset pf)"
proof -
  obtain E g where i: "rep_inv lm fm E g s" using inv_reach [OF assms(1-4)] by blast
  have w: "whole pl (E key)" "whole pf (take (g key) (E key))" "g key \<le> length (E key)"
    using i assms(5,6) by (auto simp: rep_inv_def logs_ok_def)
  have n: "PartitionLog_NextOffset pf = int (g key)" "PartitionLog_NextOffset pl = int (length (E key))"
    using w by (simp_all add: whole_def)
  have "PartitionLog_Read lib pf start n = PartitionLog_Read lib pl start n"
    if "0 \<le> start" "0 \<le> n" "start + n \<le> int (g key)" for start n
  proof -
    have "nat n \<le> g key - nat start" using that by linarith
    then show ?thesis
      using whole_read [OF w(1) that(1), of lib n] whole_read [OF w(2) that(1), of lib n] w(3) by (simp add: drop_take)
  qed
  moreover have "rs_LastOffset st < int (g key)"
    if "rp_trackers (y_L s) key = Some t" "map_of (it_replicas t) (mb_NodeID fm) = Some st" for t st
    using i that assms(5) by (auto simp: rep_inv_def view_ok_def part_keys_def)
  ultimately show ?thesis using n w(3) by auto
qed

section \<open>Progress\<close>

lemma whole_int64: "whole pl ms \<Longrightarrow> g < length ms \<Longrightarrow> int64_range (int g)"
  by (auto simp: whole_def numbered_def wf_Message_def)

text \<open>C9. A follower that is behind catches up: when its fetch reaches the leader and the answer reaches the follower,
  it has up to 256 more of the leader's messages, and acknowledges the last of them.\<close>

theorem replica_catches_up:
  assumes "rep_reach lib ms lm fm s" and "addresses_ok ms" and "lm \<in> set (Membership_All ms)" and "fm \<in> set (Membership_All ms)"
    and "map_of (rp_partitions (y_L s)) key = Some pl" and "map_of (rp_partitions (y_F s)) key = Some pf"
    and "PartitionLog_NextOffset pf < PartitionLog_NextOffset pl"
    and "rep_handleFetch lib ms (y_L s) (fetch_msg (y_F s) key (PartitionLog_NextOffset pf)) = (l', Inr effs)"
    and "\<forall>(_, msg) \<in> set effs. follower_room lib clock (y_F s) msg"
  shows "\<exists>msg f' pf'. effs = [(mb_Addr fm, msg)] \<and>
    rep_handleData lib now clock (\<lambda>_. NoFault) ms (y_F s) msg =
      Some (f', Inr [(mb_Addr lm, ack_msg f' key (PartitionLog_NextOffset pf' - 1))]) \<and>
    map_of (rp_partitions f') key = Some pf' \<and>
    PartitionLog_NextOffset pf' = min (PartitionLog_NextOffset pl) (PartitionLog_NextOffset pf + 256)"
proof -
  let ?f = "y_F s" and ?l = "y_L s"
  obtain E g where i: "rep_inv lm fm E g s" using inv_reach [OF assms(1-4)] by blast
  have lo: "logs_ok E g ?l ?f" and self: "rp_self ?l = lm" "rp_self ?f = fm" using i by (simp_all add: rep_inv_def)
  have w: "wf_key key" "whole pl (E key)" "whole pf (take (g key) (E key))" "g key \<le> length (E key)"
    using lo assms(5,6) by (simp_all add: logs_ok_def)
  have get: "Membership_Get ms (mb_NodeID lm) = Some lm" "Membership_Get ms (mb_NodeID fm) = Some fm"
    using assms(2-4) Get_member by (simp_all add: addresses_ok_def)
  have n: "PartitionLog_NextOffset pf = int (g key)" "PartitionLog_NextOffset pl = int (length (E key))"
    using w by (simp_all add: whole_def)
  have behind: "g key < length (E key)" using assms(7) n by simp
  let ?k = "min 256 (length (E key) - g key)"
  let ?b = "take ?k (drop (g key) (E key))" and ?r = "setFollowerOffset ?l (mb_NodeID fm) key (int (g key))"
  have "PartitionLog_Read lib pl (int (g key)) 256 = Inr ?b"
    using whole_read [OF w(2), of "int (g key)" lib 256] by (simp add: min_def)
  moreover have "?b \<noteq> []" using behind by simp
  ultimately have effs: "effs = [(mb_Addr fm, data_msg ?r key ?b)]"
    using assms(5,8) fetch_body [OF w(1), of ?f "int (g key)"] whole_int64 [OF w(2) behind] n behind self(2) get(2)
    by (auto simp: rep_handleFetch_def Let_def split: if_splits)
  have num: "numbered (E key)" using w(2) by (simp add: whole_def)
  have d: "data_of_body (cm_Body (data_msg ?r key ?b)) = Some \<lparr>rd_Topic = fst key, rd_Partition = snd key, rd_Messages = map Some ?b\<rparr>"
    by (rule data_body [OF w(1) numbered_wf [OF num]])
  have room: "batch_room lib clock 0 (map Some ?b) pf"
    using assms(6,9) effs d by (simp add: follower_room_def)
  have bound: "g key + ?k \<le> length (E key)" "0 < ?k" "max (g key) (g key + ?k) = g key + ?k" using behind by auto
  obtain pf' h where a: "append_replica lib clock (\<lambda>_. NoFault) 0 (map Some ?b) pf (- 1) = Some (pf', h)"
    "whole pf' (take (g key + ?k) (E key))" "h < int (g key + ?k)" "int (g key + ?k) \<le> h + 1"
    using append_replica_prefix [OF num bound(1) w(3) order.refl w(4) room, of "- 1"] bound by auto
  have h: "h = int (g key + ?k) - 1" "0 \<le> h" using a(3,4) bound(2) by simp_all
  have n': "PartitionLog_NextOffset pf' = int (g key + ?k)" using a(2) bound(1) by (simp add: whole_def)
  let ?f' = "?f\<lparr>rp_lastFetch := (rp_lastFetch ?f)(key \<mapsto> now), rp_partitions := map_put key pf' (rp_partitions ?f)\<rparr>"
  have "h = PartitionLog_NextOffset pf' - 1" using n' h(1) by simp
  moreover have "rep_handleData lib now clock (\<lambda>_. NoFault) ms ?f (data_msg ?r key ?b) = Some (?f', Inr [(mb_Addr lm, ack_msg ?f' key h)])"
    using d assms(6) a(1) h(2) self(1) get(1) by (simp add: rep_handleData_def Let_def)
  moreover have "PartitionLog_NextOffset pf' = min (PartitionLog_NextOffset pl) (PartitionLog_NextOffset pf + 256)"
    unfolding n n' using behind by linarith
  moreover have "map_of (rp_partitions ?f') key = Some pf'" using lo by (simp add: logs_ok_def map_of_map_put)
  ultimately show ?thesis using effs by blast
qed

section \<open>Divergence\<close>

lemma failed_append:
  assumes "whole pl ms"
  shows "PartitionLog_Append lib now (LogWriteFault 0) pl msg = (roll lib pl, Inl LogWrite)" and "whole (roll lib pl) ms"
proof -
  obtain es where es: "pl_holds pl es" "map e_msg es = ms" "map e_off es = map int [0..<length es]" using assms by (auto simp: whole_def)
  obtain ess where ess: "pl_inv pl ess" "concat ess = es" using es(1) by (auto simp: pl_holds_def)
  obtain ess' where r: "pl_inv (roll lib pl) ess'" "concat ess' = concat ess" "PartitionLog_NextOffset (roll lib pl) = PartitionLog_NextOffset pl"
    using ess(1) by (rule roll_inv)
  have "pl_holds (roll lib pl) es" using r ess by (auto simp: pl_holds_def)
  then show "whole (roll lib pl) ms" using assms es(2,3) r(3) by (auto simp: whole_def)
  have "pl_segments (roll lib pl) \<noteq> []" using r(1) by (simp add: pl_inv_def)
  then show "PartitionLog_Append lib now (LogWriteFault 0) pl msg = (roll lib pl, Inl LogWrite)"
    by (simp add: PartitionLog_Append_def Segment_Write_def Let_def)
qed

text \<open>A failed append makes the replica diverge: the follower logs the failure and goes on with the batch, and the
  next message, which is not below its next offset, takes the place of the one that failed. The leader is
  told that this offset is replicated and never sends the lost message again.\<close>

theorem failed_append_shifts_replica:
  assumes "whole pf (take g M)" and "numbered M" and "g + 2 \<le> length M" and "wf_key key"
    and "map_of (rp_partitions f) key = Some pf" and "map_sorted (rp_partitions f)"
    and "Membership_Get ms (mb_NodeID (rp_self l)) = Some lm"
    and "flt 0 = LogWriteFault 0" and "flt 1 = NoFault" and "pl_fits lib (clock 1) (roll lib pf) (M ! (g + 1))"
  shows "\<exists>f' pf'. rep_handleData lib now clock flt ms f (data_msg l key (take 2 (drop g M))) =
      Some (f', Inr [(mb_Addr lm, ack_msg f' key (int g))]) \<and>
    map_of (rp_partitions f') key = Some pf' \<and>
    PartitionLog_Read lib pf' (int g) 1 = Inr [(M ! (g + 1))\<lparr>m_Offset := int g\<rparr>]"
proof -
  have b: "take 2 (drop g M) = [M ! g, M ! (g + 1)]"
  proof -
    have "drop g M = M ! g # M ! Suc g # drop (Suc (Suc g)) M" using assms(3) by (simp add: Cons_nth_drop_Suc)
    then show ?thesis by (simp add: numeral_2_eq_2)
  qed
  have d: "data_of_body (cm_Body (data_msg l key (take 2 (drop g M)))) =
      Some \<lparr>rd_Topic = fst key, rd_Partition = snd key, rd_Messages = [Some (M ! g), Some (M ! (g + 1))]\<rparr>"
    using data_body [OF assms(4) numbered_wf [OF assms(2)], of l 2 g] b by simp
  have off: "m_Offset (M ! g) = int g" "m_Offset (M ! (g + 1)) = int g + 1" using assms(2,3) by (auto simp: numbered_def)
  have len: "length (take g M) = g" using assms(3) by simp
  note fa = failed_append [OF assms(1), of lib]
  obtain pf' where p: "PartitionLog_Append lib (clock 1) NoFault (roll lib pf) (M ! (g + 1)) = (pf', Inr (int g))"
    "whole pf' (take g M @ [(M ! (g + 1))\<lparr>m_Offset := int g\<rparr>])"
    using whole_append [OF fa(2) assms(10)] unfolding len by blast
  have n: "PartitionLog_NextOffset pf = int g" "PartitionLog_NextOffset (roll lib pf) = int g"
    using assms(1) fa(2) len by (simp_all add: whole_def)
  have a: "append_replica lib clock flt 0 [Some (M ! g), Some (M ! (g + 1))] pf (- 1) = Some (pf', int g)"
    using off n fa(1) p(1) assms(8,9) by simp
  let ?f' = "f\<lparr>rp_lastFetch := (rp_lastFetch f)(key \<mapsto> now), rp_partitions := map_put key pf' (rp_partitions f)\<rparr>"
  have "rep_handleData lib now clock flt ms f (data_msg l key (take 2 (drop g M))) = Some (?f', Inr [(mb_Addr lm, ack_msg ?f' key (int g))])"
    using d assms(5,7) a by (simp add: rep_handleData_def Let_def)
  moreover have "map_of (rp_partitions ?f') key = Some pf'" using assms(6) by (simp add: map_of_map_put)
  moreover have "PartitionLog_Read lib pf' (int g) 1 = Inr [(M ! (g + 1))\<lparr>m_Offset := int g\<rparr>]"
    using whole_read [OF p(2), of "int g" lib 1] len by simp
  ultimately show ?thesis by blast
qed

section \<open>Witnesses\<close>

text \<open>A leader \<open>b\<close> and a follower \<open>a\<close> with one empty partition; the leader publishes one message.\<close>

definition tp0 :: partKey where
  "tp0 = (''t'', 0)"

definition leader0 :: Replicator where
  "leader0 = wirePartition (NewReplicator member_b) ''t'' 0 sample_pl0"

definition follower0 :: Replicator where
  "follower0 = RegisterPartition (NewReplicator member_a) ''t'' 0 sample_pl0"

definition leader1 :: Replicator where
  "leader1 = leader0\<lparr>rp_partitions := [(tp0, sample_pl1)]\<rparr>"

definition sys0 :: rep_sys where
  "sys0 = \<lparr>y_L = leader0, y_F = follower0, y_toF = {}, y_toL = {}\<rparr>"

definition sys1 :: rep_sys where
  "sys1 = \<lparr>y_L = leader1, y_F = follower0, y_toF = {}, y_toL = {}\<rparr>"

lemma sample_fields:
  "rp_partitions leader0 = [(tp0, sample_pl0)]" "rp_partitions leader1 = [(tp0, sample_pl1)]"
  "rp_partitions follower0 = [(tp0, sample_pl0)]" "rp_self leader0 = member_b" "rp_self leader1 = member_b"
  "rp_self follower0 = member_a" "rp_followerOffsets leader0 = Map.empty" "rp_followerOffsets leader1 = Map.empty"
  "rp_trackers leader0 = [tp0 \<mapsto> NewISRTracker 1000 10000]"
  by (simp_all add: leader0_def leader1_def follower0_def wirePartition_def RegisterPartition_def NewReplicator_def tp0_def)

lemma tp0_ok: "wf_key tp0"
  by (simp add: wf_key_def tp0_def int32_range_def ascii_valid_utf8)

lemma whole_pl0: "whole sample_pl0 []"
proof -
  have "pl_holds sample_pl0 []" using sample_pl0_inv by (auto simp: pl_holds_def)
  then show ?thesis by (simp add: whole_def numbered_def sample_pl0_next)
qed

lemma fits_pl0_sample: "pl_fits sample_lib now sample_pl0 sample_Message"
  by (simp add: pl_fits_def active_after_roll_def roll_def sample_pl0_segments Segment_IsFull_def fits_sample_at)

lemma append_sample: "PartitionLog_Append sample_lib 5 NoFault sample_pl0 sample_Message = (sample_pl1, Inr 0)"
  by (rule sample_pl1_segments)

lemma whole_pl1: "whole sample_pl1 [sample_Message]"
  using whole_append [OF whole_pl0 fits_pl0_sample, of 5] append_sample by (auto simp: sample_offset0)

lemma reach_sys1: "rep_reach sample_lib two_members member_b member_a sys1"
proof -
  have "rep_start member_b member_a sys0"
    by (simp add: rep_start_def sys0_def sample_fields map_sorted_def whole_pl0 tp0_ok NewISRTracker_def)
  then have "rep_reach sample_lib two_members member_b member_a sys0" by (rule rep_reach.start)
  moreover have "rep_step sample_lib two_members member_b member_a sys0
      (sys0\<lparr>y_L := (y_L sys0)\<lparr>rp_partitions := map_put tp0 sample_pl1 (rp_partitions (y_L sys0))\<rparr>\<rparr>)"
    by (rule rep_step.publish [OF _ fits_pl0_sample append_sample]) (simp add: sys0_def sample_fields)
  moreover have "sys0\<lparr>y_L := (y_L sys0)\<lparr>rp_partitions := map_put tp0 sample_pl1 (rp_partitions (y_L sys0))\<rparr>\<rparr> = sys1"
    by (simp add: sys0_def sys1_def sample_fields leader1_def)
  ultimately show ?thesis using rep_reach.step by metis
qed

abbreviation batch1 :: ClusterMsg where
  "batch1 \<equiv> data_msg leader1 tp0 [sample_Message]"

lemma batch1_body:
  "data_of_body (cm_Body (data_msg r tp0 [sample_Message])) = Some \<lparr>rd_Topic = ''t'', rd_Partition = 0, rd_Messages = [Some sample_Message]\<rparr>"
  using data_body [OF tp0_ok, of "[sample_Message]" r] wf_Message_sample by (simp add: tp0_def)

lemma sample_offset: "m_Offset sample_Message = 0"
  by (simp add: sample_Message_def zero_Message_def)

lemma batch1_room: "follower_room sample_lib (\<lambda>_. 5) follower0 (data_msg r tp0 [sample_Message])"
  by (simp add: follower_room_def batch1_body sample_fields tp0_def [symmetric] sample_offset sample_pl0_next fits_pl0_sample)

lemma batch1_handled:
  "\<exists>f'. rep_handleData sample_lib 5 (\<lambda>_. 5) (\<lambda>_. NoFault) two_members follower0 batch1 = Some (f', Inr [(''b:1'', ack_msg f' tp0 0)]) \<and>
     rp_partitions f' = [(tp0, sample_pl1)]"
  by (simp add: rep_handleData_def batch1_body sample_fields tp0_def [symmetric] sample_offset sample_pl0_next append_sample
      two_members_eval Let_def)

theorem replica_is_prefix_witness:
  "\<exists>s pf. rep_reach sample_lib two_members member_b member_a s \<and>
     map_of (rp_partitions (y_L s)) tp0 = Some sample_pl1 \<and> map_of (rp_partitions (y_F s)) tp0 = Some pf \<and>
     PartitionLog_NextOffset pf = 1 \<and> PartitionLog_Read sample_lib pf 0 1 = PartitionLog_Read sample_lib sample_pl1 0 1"
proof -
  let ?s2 = "sys1\<lparr>y_L := leader1\<lparr>rp_prevRole := RoleLeader\<rparr>, y_toF := {batch1}\<rparr>"
  have read: "PartitionLog_Read sample_lib sample_pl1 0 256 = Inr [sample_Message]" using whole_read [OF whole_pl1, of 0] by simp
  have next1: "PartitionLog_NextOffset sample_pl1 = 1" using whole_pl1 by (simp add: whole_def)
  have batch: "data_msg (leader1\<lparr>rp_prevRole := RoleLeader\<rparr>) tp0 [sample_Message] = batch1" by (rule replica_msg_self(2)) simp
  have turn: "replicator_turn sample_lib 0 0 two_members (y_L sys1) RoleLeader None =
      (leader1\<lparr>rp_prevRole := RoleLeader\<rparr>, [(''a:1'', batch1)])"
    using read next1 batch
    by (simp add: replicator_turn_def sys1_def leaderTick_def push_to_def sample_fields two_members_eval getFollowerOffset_def Let_def)
  have "rep_step sample_lib two_members member_b member_a sys1
      (sys1\<lparr>y_L := leader1\<lparr>rp_prevRole := RoleLeader\<rparr>, y_toF := y_toF sys1 \<union> sent_to member_a [(''a:1'', batch1)]\<rparr>)"
    by (rule rep_step.leader_turn [OF turn])
  then have r2: "rep_reach sample_lib two_members member_b member_a ?s2"
    using rep_reach.step [OF reach_sys1] by (simp add: sys1_def sent_to_def two_members_eval)
  obtain f' where f': "rep_handleData sample_lib 5 (\<lambda>_. 5) (\<lambda>_. NoFault) two_members follower0 batch1 = Some (f', Inr [(''b:1'', ack_msg f' tp0 0)])"
    "rp_partitions f' = [(tp0, sample_pl1)]"
    using batch1_handled by blast
  then have "rep_OnMessage sample_lib 5 (\<lambda>_. 5) (\<lambda>_. NoFault) two_members (y_F ?s2) batch1 = Some (f', Inr [(''b:1'', ack_msg f' tp0 0)])"
    by (simp add: rep_OnMessage_def cluster_types sys1_def)
  moreover have "follower_room sample_lib (\<lambda>_. 5) (y_F ?s2) batch1" using batch1_room by (simp add: sys1_def)
  ultimately have "rep_step sample_lib two_members member_b member_a ?s2
      (?s2\<lparr>y_F := f', y_toL := y_toL ?s2 \<union> sent_to member_b (effects_of (Inr [(''b:1'', ack_msg f' tp0 0)]))\<rparr>)" (is "rep_step _ _ _ _ _ ?s3")
    by (intro rep_step.at_follower) simp_all
  then have r3: "rep_reach sample_lib two_members member_b member_a ?s3" by (rule rep_reach.step [OF r2])
  have m: "member_b \<in> set (Membership_All two_members)" "member_a \<in> set (Membership_All two_members)" by (simp_all add: two_members_eval)
  have l3: "map_of (rp_partitions (y_L ?s3)) tp0 = Some sample_pl1" "map_of (rp_partitions (y_F ?s3)) tp0 = Some sample_pl1"
    using f'(2) by (simp_all add: sample_fields)
  have "PartitionLog_Read sample_lib sample_pl1 0 1 = PartitionLog_Read sample_lib sample_pl1 0 1 \<and>
      PartitionLog_NextOffset sample_pl1 \<le> PartitionLog_NextOffset sample_pl1"
    using replica_is_prefix [OF r3 two_members_ok m l3] next1 by simp
  then show ?thesis using r3 l3 next1 by blast
qed

theorem replica_catches_up_witness:
  "\<exists>msg f' pf'. rep_handleFetch sample_lib two_members leader1 (fetch_msg follower0 tp0 0) =
      (setFollowerOffset leader1 ''a'' tp0 0, Inr [(''a:1'', msg)]) \<and>
    rep_handleData sample_lib 5 (\<lambda>_. 5) (\<lambda>_. NoFault) two_members follower0 msg =
      Some (f', Inr [(''b:1'', ack_msg f' tp0 (PartitionLog_NextOffset pf' - 1))]) \<and>
    map_of (rp_partitions f') tp0 = Some pf' \<and> PartitionLog_NextOffset pf' = 1"
proof -
  have read: "PartitionLog_Read sample_lib sample_pl1 0 256 = Inr [sample_Message]" using whole_read [OF whole_pl1, of 0] by simp
  have next1: "PartitionLog_NextOffset sample_pl1 = 1" using whole_pl1 by (simp add: whole_def)
  let ?r = "setFollowerOffset leader1 ''a'' tp0 0"
  have f: "rep_handleFetch sample_lib two_members leader1 (fetch_msg follower0 tp0 0) = (?r, Inr [(''a:1'', data_msg ?r tp0 [sample_Message])])"
    using fetch_body [OF tp0_ok, of follower0 0] read next1
    by (simp add: rep_handleFetch_def int64_range_def sample_fields two_members_eval Let_def)
  show ?thesis
    using replica_catches_up [OF reach_sys1 two_members_ok, of tp0 sample_pl1 sample_pl0 ?r "[(''a:1'', data_msg ?r tp0 [sample_Message])]" "\<lambda>_. 5" 5]
      f batch1_room next1
    by (auto simp: sys1_def sample_fields two_members_eval sample_pl0_next)
qed

theorem failed_append_shifts_replica_witness:
  "\<exists>f' pf'. rep_handleData sample_lib 5 (\<lambda>_. 5) (\<lambda>i. if i = 0 then LogWriteFault 0 else NoFault) two_members follower0
      (data_msg leader1 tp0 [sample_Message, sample_Message\<lparr>m_Offset := 1, m_ID := ''x''\<rparr>]) =
      Some (f', Inr [(''b:1'', ack_msg f' tp0 0)]) \<and>
    map_of (rp_partitions f') tp0 = Some pf' \<and>
    PartitionLog_Read sample_lib pf' 0 1 = Inr [sample_Message\<lparr>m_ID := ''x''\<rparr>]"
proof -
  let ?m = "sample_Message\<lparr>m_Offset := 1, m_ID := ''x''\<rparr>"
  have num: "numbered [sample_Message, ?m]"
    using wf_Message_sample
    by (auto simp: numbered_def less_Suc_eq sample_offset wf_Message_def int64_range_def ascii_valid_utf8)
  have r0: "roll sample_lib sample_pl0 = sample_pl0" by (simp add: roll_def sample_pl0_segments Segment_IsFull_def)
  have "pl_fits sample_lib 5 sample_pl0 ?m"
    using wf_Message_sample
    by (simp add: pl_fits_def active_after_roll_def r0 sample_pl0_segments fits_def wf_record_def wf_Message_def int64_range_def
        length_encodeRecord recHeaderSize_def record_consts ascii_valid_utf8)
      (simp add: sample_Message_def zero_Message_def marshal_eval)
  moreover have "sample_Message\<lparr>m_ID := ''x'', m_Offset := 0\<rparr> = sample_Message\<lparr>m_ID := ''x''\<rparr>"
    by (simp add: sample_Message_def zero_Message_def)
  ultimately show ?thesis
    using failed_append_shifts_replica [of sample_pl0 0 "[sample_Message, ?m]" tp0 follower0 two_members leader1 member_b
        "\<lambda>i. if i = 0 then LogWriteFault 0 else NoFault" sample_lib "\<lambda>_. 5" 5] num whole_pl0 tp0_ok r0
    by (simp add: sample_fields two_members_eval map_sorted_def sample_offset0)
qed

declare split_paired_All [simp] split_paired_Ex [simp]

end
