(* ===== verification/Cluster_Node.thy ===== *)
theory Cluster_Node
  imports Replicator Raft
begin

text \<open>
  The coordinator of a cluster node (\<^verbatim>\<open>src/internal/cluster/node.go\<close>): joining and leaving, the synchronisation of
  members and of the partition map, and the routing of messages to the election, the Raft node or the replicator.
  An operation returns the new node and the messages it sends; a message that cannot be sent is only logged. The
  topics of the broker (\<open>SetTopicProvider\<close>) are an argument. The election and the Raft node run their loops beside
  the dispatcher; here a message is handled when it is dispatched. A won election starts the leader callback in a
  goroutine of its own: \<open>nd_callbacks\<close> counts those that have not run yet. The callback of the broker for a new
  partition map is left out.
\<close>

section \<open>State\<close>

record ClusterNode =
  nd_self :: Member
  nd_membership :: Membership
  nd_election :: Election
  nd_replicator :: Replicator
  nd_raft :: "Node option"
  nd_partMap :: PartitionMap
  nd_callbacks :: nat

type_synonym topic_provider = "(string \<times> int) list option"

datatype node_error = NodeIDRequired | BindAddrRequired

text \<open>
  \<open>addr\<close> is the address the listener is bound to and \<open>now\<close> the time in RFC 3339. The peers of the Raft node are
  the other members known at this moment.
\<close>

definition NewClusterNode ::
  "string \<Rightarrow> string \<Rightarrow> string \<Rightarrow> string \<Rightarrow> string \<Rightarrow> state_file \<Rightarrow> (node_error, ClusterNode) result" where
  "NewClusterNode nodeID bindAddr algorithm addr now store =
     (if nodeID = [] then Inl NodeIDRequired
      else if bindAddr = [] then Inl BindAddrRequired
      else
        let self0 = zero_Member\<lparr>mb_NodeID := nodeID, mb_Addr := bindAddr, mb_JoinedAt := now\<rparr>;
            self = self0\<lparr>mb_Addr := addr\<rparr>;
            ms = (NewMembership self0)\<lparr>ms_self := self, ms_members := map_put nodeID self (ms_members (NewMembership self0))\<rparr>;
            peerIDs = sort (filter (\<lambda>k. k \<noteq> nodeID) (map mb_NodeID (Membership_All ms)))
        in Inr \<lparr>nd_self = self, nd_membership = ms, nd_election = NewElection self, nd_replicator = NewReplicator self,
             nd_raft = (if algorithm = ''raft'' then Some (NewNode nodeID peerIDs store) else None), nd_partMap = [], nd_callbacks = 0\<rparr>)"

definition cluster_IsLeader :: "ClusterNode \<Rightarrow> bool" where
  "cluster_IsLeader n =
     (case nd_raft n of Some rn \<Rightarrow> n_role rn = Leader | None \<Rightarrow> el_role (nd_election n) = RoleLeader)"

definition cluster_Leader :: "ClusterNode \<Rightarrow> Member option" where
  "cluster_Leader n =
     (case nd_raft n of
        Some rn \<Rightarrow> if n_leaderKnown rn then Membership_Get (nd_membership n) (n_leaderID rn) else None
      | None \<Rightarrow> el_leader (nd_election n))"

definition OwnerOf :: "ClusterNode \<Rightarrow> string \<Rightarrow> int \<Rightarrow> string" where
  "OwnerOf n topic part = PartitionMap_Owner (nd_partMap n) topic part"

definition OwnsPartition :: "ClusterNode \<Rightarrow> string \<Rightarrow> int \<Rightarrow> bool" where
  "OwnsPartition n topic part \<longleftrightarrow> OwnerOf n topic part = [] \<or> OwnerOf n topic part = mb_NodeID (nd_self n)"

section \<open>Metadata\<close>

record metaSyncPayload =
  mp_Kind :: string
  mp_Data :: "json option"

text \<open>A \<open>json.RawMessage\<close> is kept as the value it holds; missing data is \<^term>\<open>None\<close>.\<close>

definition metaSync_json :: "string \<Rightarrow> json \<Rightarrow> json" where
  "metaSync_json kind data = JObj [(''kind'', JStr kind), (''data'', data)]"

definition metaSync_fields :: "(string \<times> metaSyncPayload setter) list" where
  "metaSync_fields =
     [(''kind'', as_string (\<lambda>s. mp_Kind_update (\<lambda>_. s))), (''data'', \<lambda>j x. Some (x\<lparr>mp_Data := Some j\<rparr>))]"

definition cluster_msg :: "ClusterNode \<Rightarrow> nat \<Rightarrow> bytes \<Rightarrow> ClusterMsg" where
  "cluster_msg n ty body = \<lparr>cm_Type = ty, cm_From = mb_NodeID (nd_self n), cm_Term = 0, cm_Body = body\<rparr>"

definition broadcastPartitionMap :: "ClusterNode \<Rightarrow> PartitionMap \<Rightarrow> effects" where
  "broadcastPartitionMap n pm =
     to_others (nd_membership n) (mb_NodeID (nd_self n))
       (cluster_msg n MsgMetaSync (Marshal (metaSync_json ''partitions'' (PartitionMap_json pm))))"

definition member_ids :: "ClusterNode \<Rightarrow> string list" where
  "member_ids n = sort (map mb_NodeID (Membership_All (nd_membership n)))"

definition AssignPartitions :: "ClusterNode \<Rightarrow> string \<Rightarrow> int \<Rightarrow> ClusterNode \<times> effects" where
  "AssignPartitions n topic partitions =
     (let pm = PartitionMap_Assign (nd_partMap n) topic partitions (member_ids n)
      in (n\<lparr>nd_partMap := pm\<rparr>, broadcastPartitionMap n pm))"

definition ReassignAll :: "topic_provider \<Rightarrow> ClusterNode \<Rightarrow> ClusterNode \<times> effects" where
  "ReassignAll provider n =
     (case provider of
        None \<Rightarrow> (n, [])
      | Some topics \<Rightarrow>
          (let pm = foldl (\<lambda>pm (name, partitions). PartitionMap_Assign pm name partitions (member_ids n)) (nd_partMap n) topics
           in (n\<lparr>nd_partMap := pm\<rparr>, broadcastPartitionMap n pm)))"

definition onBecomeLeader :: "topic_provider \<Rightarrow> ClusterNode \<Rightarrow> ClusterNode \<times> effects" where
  "onBecomeLeader provider n = ReassignAll provider n"

section \<open>Handlers\<close>

definition rebalance_if_leader :: "topic_provider \<Rightarrow> ClusterNode \<Rightarrow> ClusterNode \<times> effects" where
  "rebalance_if_leader provider n = (if cluster_IsLeader n then ReassignAll provider n else (n, []))"

definition handleJoin :: "topic_provider \<Rightarrow> ClusterNode \<Rightarrow> ClusterMsg \<Rightarrow> ClusterNode \<times> effects" where
  "handleJoin provider n msg =
     (case Unmarshal (assign_struct Member_fields) (cm_Body msg) zero_Member of
        None \<Rightarrow> (n, [])
      | Some joiner \<Rightarrow>
          (let n1 = n\<lparr>nd_membership := Membership_Add (nd_membership n) joiner\<rparr>;
               members = Membership_All (nd_membership n1);
               ack = (mb_Addr joiner, cluster_msg n1 MsgJoinAck (Marshal (JArr (map Member_json members))));
               sync = cluster_msg n1 MsgMetaSync (Marshal (metaSync_json ''member'' (Member_json joiner)));
               syncs = map (\<lambda>m. (mb_Addr m, sync))
                 (filter (\<lambda>m. \<not> (mb_NodeID m = mb_NodeID (nd_self n) \<or> mb_NodeID m = mb_NodeID joiner)) members);
               (n2, effs) = rebalance_if_leader provider n1
           in (n2, ack # syncs @ effs)))"

definition handleJoinAck :: "ClusterNode \<Rightarrow> ClusterMsg \<Rightarrow> ClusterNode" where
  "handleJoinAck n msg =
     (case Unmarshal (as_list (assign_struct Member_fields) zero_Member id (\<lambda>ms _. ms)) (cm_Body msg) [] of
        None \<Rightarrow> n
      | Some members \<Rightarrow> n\<lparr>nd_membership := foldl Membership_Add (nd_membership n) members\<rparr>)"

definition handleLeave :: "topic_provider \<Rightarrow> ClusterNode \<Rightarrow> ClusterMsg \<Rightarrow> ClusterNode \<times> effects" where
  "handleLeave provider n msg =
     rebalance_if_leader provider (n\<lparr>nd_membership := Membership_Remove (nd_membership n) (cm_From msg)\<rparr>)"

definition handleMetaSync :: "ClusterNode \<Rightarrow> ClusterMsg \<Rightarrow> ClusterNode" where
  "handleMetaSync n msg =
     (case Unmarshal (assign_struct metaSync_fields) (cm_Body msg) \<lparr>mp_Kind = [], mp_Data = None\<rparr> of
        None \<Rightarrow> n
      | Some payload \<Rightarrow>
          if mp_Kind payload = ''member'' then
            (case Option.bind (mp_Data payload) (\<lambda>j. assign_struct Member_fields j zero_Member) of
               None \<Rightarrow> n
             | Some m \<Rightarrow> n\<lparr>nd_membership := Membership_Add (nd_membership n) m\<rparr>)
          else if mp_Kind payload = ''partitions'' then
            (case Option.bind (mp_Data payload) (\<lambda>j. as_PartitionMap j []) of
               None \<Rightarrow> n
             | Some pm \<Rightarrow> n\<lparr>nd_partMap := pm\<rparr>)
          else n)"

text \<open>The transport of the Raft node wraps its messages into those of the cluster.\<close>

definition SendRaft :: "outbox \<Rightarrow> effects" where
  "SendRaft out = map (\<lambda>(addr, m).
     (addr, \<lparr>cm_Type = rm_Type m, cm_From = rm_From m, cm_Term = rm_Term m, cm_Body = rm_Body m\<rparr>)) out"

definition raft_of_cluster :: "ClusterMsg \<Rightarrow> RaftMessage" where
  "raft_of_cluster msg = \<lparr>rm_Type = cm_Type msg, rm_From = cm_From msg, rm_Term = cm_Term msg, rm_Body = cm_Body msg\<rparr>"

text \<open>The Raft node calls \<open>applyFn\<close> once for every entry it applies, whatever the command.\<close>

primrec apply_entries :: "nat \<Rightarrow> topic_provider \<Rightarrow> ClusterNode \<Rightarrow> ClusterNode \<times> effects" where
  "apply_entries 0 provider n = (n, [])"
| "apply_entries (Suc k) provider n =
     (let (n1, effs1) = onBecomeLeader provider n; (n2, effs2) = apply_entries k provider n1 in (n2, effs1 @ effs2))"

definition node_raft_msg :: "topic_provider \<Rightarrow> ClusterNode \<Rightarrow> Node \<Rightarrow> ClusterMsg \<Rightarrow> ClusterNode \<times> effects" where
  "node_raft_msg provider n rn msg =
     (let (rn', out, _) = run_msg rn (raft_of_cluster msg);
          (n1, effs) = apply_entries (length (n_applied rn') - length (n_applied rn)) provider n
      in (n1\<lparr>nd_raft := Some rn'\<rparr>, effs @ SendRaft out))"

text \<open>A turn of the election loop. The election is won when the timer or a grant makes the node leader.\<close>

definition election_won :: "Election \<Rightarrow> election_event \<Rightarrow> Election \<Rightarrow> bool" where
  "election_won e ev e' \<longleftrightarrow> el_role e' = RoleLeader \<and> (ev = ElectionTimer \<or> el_role e \<noteq> RoleLeader)"

definition node_election :: "ClusterNode \<Rightarrow> election_event \<Rightarrow> (ClusterNode \<times> effects) option" where
  "node_election n ev =
     map_option (\<lambda>(e, _, effs).
         (n\<lparr>nd_election := e, nd_callbacks := nd_callbacks n + (if election_won (nd_election n) ev e then 1 else 0)\<rparr>, effs))
       (election_turn (nd_membership n) (nd_election n) ev)"

definition fireLeaderCallback :: "topic_provider \<Rightarrow> ClusterNode \<Rightarrow> ClusterNode \<times> effects" where
  "fireLeaderCallback provider n =
     (if nd_callbacks n = 0 then (n, []) else onBecomeLeader provider (n\<lparr>nd_callbacks := nd_callbacks n - 1\<rparr>))"

text \<open>\<open>dispatch\<close>; a panic of a handler is \<^term>\<open>None\<close>.\<close>

definition node_dispatch ::
  "flate_lib \<Rightarrow> int \<Rightarrow> (nat \<Rightarrow> int) \<Rightarrow> (nat \<Rightarrow> disk_fault) \<Rightarrow> topic_provider \<Rightarrow> ClusterNode \<Rightarrow> ClusterMsg \<Rightarrow>
   (ClusterNode \<times> effects) option" where
  "node_dispatch lib now clock flt provider n msg =
     (let ty = cm_Type msg
      in if ty \<in> {MsgHeartbeat, MsgVoteRequest, MsgVoteGrant, MsgVoteDeny} then
           (case nd_raft n of Some _ \<Rightarrow> Some (n, []) | None \<Rightarrow> node_election n (Incoming msg))
         else if ty \<in> {MsgRaftRequestVote, MsgRaftVoteResponse, MsgRaftAppendEntries, MsgRaftAppendResponse} then
           (case nd_raft n of None \<Rightarrow> Some (n, []) | Some rn \<Rightarrow> Some (node_raft_msg provider n rn msg))
         else if ty = MsgJoin then Some (handleJoin provider n msg)
         else if ty = MsgJoinAck then Some (handleJoinAck n msg, [])
         else if ty = MsgLeave then Some (handleLeave provider n msg)
         else if ty = MsgMetaSync then Some (handleMetaSync n msg, [])
         else if ty \<in> {MsgReplicaFetch, MsgReplicaData, MsgReplicaAck} then
           map_option (\<lambda>(r, res). (n\<lparr>nd_replicator := r\<rparr>, case res of Inl _ \<Rightarrow> [] | Inr effs \<Rightarrow> effs))
             (rep_OnMessage lib now clock flt (nd_membership n) (nd_replicator n) msg)
         else Some (n, []))"

text \<open>
  \<open>Start\<close> in its two parts, as the dispatcher already runs while it sends the joins: messages may be handled
  between them. The loops it starts are the turns above.
\<close>

definition start_joins :: "string list \<Rightarrow> ClusterNode \<Rightarrow> effects" where
  "start_joins seeds n =
     map (\<lambda>seed. (seed, cluster_msg n MsgJoin (Marshal (Member_json (nd_self n)))))
       (filter (\<lambda>seed. seed \<noteq> mb_Addr (nd_self n)) seeds)"

definition start_consensus :: "ClusterNode \<Rightarrow> ClusterNode" where
  "start_consensus n =
     (let e = nd_election n;
          n1 = (if Membership_Len (nd_membership n) \<le> 1
                then n\<lparr>nd_election := ForceBecomeLeader (nd_membership n) e,
                       nd_callbacks := nd_callbacks n + (if el_role e \<noteq> RoleLeader then 1 else 0)\<rparr>
                else n)
      in n1\<lparr>nd_raft := map_option Start (nd_raft n1)\<rparr>)"

definition node_Stop :: "ClusterNode \<Rightarrow> effects" where
  "node_Stop n = to_others (nd_membership n) (mb_NodeID (nd_self n)) (cluster_msg n MsgLeave [])"

section \<open>The partition map is shared\<close>

definition node_ok :: "ClusterNode \<Rightarrow> bool" where
  "node_ok n \<longleftrightarrow>
     members_inv (nd_membership n) \<and> list_all valid_utf8 (map fst (ms_members (nd_membership n))) \<and> wf_PartitionMap (nd_partMap n)"

definition topics_ok :: "(string \<times> int) list \<Rightarrow> bool" where
  "topics_ok topics \<longleftrightarrow> distinct (map fst topics) \<and> list_all (\<lambda>(name, c). valid_utf8 name \<and> 0 < c \<and> c \<le> 2 ^ 31) topics"

lemma member_ids_sorted: "members_inv (nd_membership n) \<Longrightarrow> member_ids n = map fst (ms_members (nd_membership n))"
  using All_ids [of "nd_membership n"]
  by (simp add: member_ids_def members_inv_def map_sorted_def sort_key_sorted strict_sorted_imp_sorted)

lemma member_ids_nonempty: "members_inv (nd_membership n) \<Longrightarrow> member_ids n \<noteq> []"
  using member_ids_sorted [of n] by (auto simp: members_inv_def)

lemma assign_all:
  assumes "wf_PartitionMap pm" and "topics_ok topics" and "list_all valid_utf8 nodes" and "nodes \<noteq> []"
  shows "wf_PartitionMap (foldl (\<lambda>pm (name, c). PartitionMap_Assign pm name c nodes) pm topics) \<and>
    (\<forall>t p. PartitionMap_Owner (foldl (\<lambda>pm (name, c). PartitionMap_Assign pm name c nodes) pm topics) t p =
       (case map_of topics t of
          None \<Rightarrow> PartitionMap_Owner pm t p
        | Some c \<Rightarrow> if 0 \<le> p \<and> p < c then nodes ! (nat p mod length nodes) else []))"
  using assms(1,2)
proof (induction topics arbitrary: pm)
  case (Cons x topics)
  obtain name c where x: "x = (name, c)" by (cases x)
  let ?pm = "PartitionMap_Assign pm name c nodes"
  have c: "valid_utf8 name" "0 < c" "c \<le> 2 ^ 31" "topics_ok topics" "name \<notin> fst ` set topics"
    using Cons.prems(2) x by (auto simp: topics_ok_def)
  have "map_sorted pm" using Cons.prems(1) by (simp add: wf_PartitionMap_def)
  note own = Assign_owner [OF assms(4) c(2,3) this]
  have wf: "wf_PartitionMap ?pm" using wf_Assign [OF Cons.prems(1) c(1) assms(3) c(3)] .
  have "map_of topics name = None" using c(5) by (simp add: map_of_eq_None_iff)
  then show ?case using Cons.IH [OF wf c(4)] own x by (auto split: option.splits)
qed simp

lemma metaSync_lookup [simp]:
  "fold_name ''kind'' = ''kind''" "fold_name ''data'' = ''data''"
  "map_of metaSync_fields ''kind'' = Some (as_string (\<lambda>s. mp_Kind_update (\<lambda>_. s)))"
  "map_of metaSync_fields ''data'' = Some (\<lambda>j x. Some (x\<lparr>mp_Data := Some j\<rparr>))"
  by (simp_all add: metaSync_fields_def fold_name.simps lower_def in_range_def)

lemma metaSync_payload:
  "valid_utf8 kind \<Longrightarrow> valid_json data \<Longrightarrow>
   Unmarshal (assign_struct metaSync_fields) (Marshal (metaSync_json kind data)) \<lparr>mp_Kind = [], mp_Data = None\<rparr> =
     Some \<lparr>mp_Kind = kind, mp_Data = Some data\<rparr>"
  by (simp add: metaSync_json_def assign_struct_def ascii_valid_utf8)

text \<open>C10. The nodes agree on the owners: when a node reassigns the topics and another one processes what it broadcasts,
  both have the same partition map, and every partition of every topic belongs to exactly one member, dealt out
  in turn over the sorted node ids. The architecture document describes the owners as computed by consistent
  hashing; this is what the code does instead.\<close>

theorem partition_map_agreement:
  assumes "node_ok n" and "topics_ok topics" and "ReassignAll (Some topics) n = (n', effs)" and "(addr, msg) \<in> set effs"
    and "node_dispatch lib now clock flt provider f msg = Some (f', out)"
  shows "nd_partMap f' = nd_partMap n' \<and>
    (\<forall>(name, c) \<in> set topics. \<forall>p. 0 \<le> p \<and> p < c \<longrightarrow>
       OwnerOf f' name p = member_ids n ! (nat p mod length (member_ids n)) \<and> OwnerOf f' name p \<in> set (member_ids n))"
proof -
  let ?ids = "member_ids n"
  let ?pm = "foldl (\<lambda>pm (name, c). PartitionMap_Assign pm name c ?ids) (nd_partMap n) topics"
  have ids: "?ids \<noteq> []" "list_all valid_utf8 ?ids"
    using assms(1) member_ids_nonempty member_ids_sorted by (simp_all add: node_ok_def)
  have pm: "wf_PartitionMap ?pm" "\<forall>t p. PartitionMap_Owner ?pm t p = (case map_of topics t of
      None \<Rightarrow> PartitionMap_Owner (nd_partMap n) t p | Some c \<Rightarrow> if 0 \<le> p \<and> p < c then ?ids ! (nat p mod length ?ids) else [])"
    using assign_all [of "nd_partMap n" topics ?ids] assms(1,2) ids by (simp_all add: node_ok_def)
  have n': "nd_partMap n' = ?pm" "effs = broadcastPartitionMap n ?pm" using assms(3) by (auto simp: ReassignAll_def Let_def)
  have msg: "msg = cluster_msg n MsgMetaSync (Marshal (metaSync_json ''partitions'' (PartitionMap_json ?pm)))"
    using assms(4) n'(2) by (auto simp: broadcastPartitionMap_def to_others_def)
  have "handleMetaSync f msg = f\<lparr>nd_partMap := ?pm\<rparr>"
    using metaSync_payload [OF _ PartitionMap_json_valid [OF pm(1)], of "''partitions''"] as_PartitionMap_json [OF pm(1), of "[]"]
    by (simp add: handleMetaSync_def msg cluster_msg_def ascii_valid_utf8)
  moreover have "node_dispatch lib now clock flt provider f msg = Some (handleMetaSync f msg, [])"
    by (simp add: node_dispatch_def msg cluster_msg_def cluster_types msg_types Let_def)
  ultimately have f': "nd_partMap f' = ?pm" using assms(5) by auto
  have "OwnerOf f' name p = ?ids ! (nat p mod length ?ids) \<and> OwnerOf f' name p \<in> set ?ids"
    if "(name, c) \<in> set topics" "0 \<le> p" "p < c" for name c p
  proof -
    have "map_of topics name = Some c" using that(1) assms(2) by (simp add: topics_ok_def)
    then show ?thesis using pm(2) f' that(2,3) ids(1) by (simp add: OwnerOf_def)
  qed
  then show ?thesis using f' n'(1) by auto
qed

section \<open>Joining\<close>

lemma Get_self:
  assumes "members_inv m"
  shows "\<exists>mb. Membership_Get m (mb_NodeID (ms_self m)) = Some mb \<and> mb_NodeID mb = mb_NodeID (ms_self m)"
proof -
  have "mb_NodeID (ms_self m) \<in> fst ` set (ms_members m)" using assms by (simp add: members_inv_def)
  then obtain mb where mb: "map_of (ms_members m) (mb_NodeID (ms_self m)) = Some mb"
    by (metis domD dom_map_of_conv_image_fst)
  have "mb_NodeID mb = mb_NodeID (ms_self m)"
    using assms map_of_SomeD [OF mb] by (auto simp: members_inv_def list_all_iff)
  then show ?thesis using mb by (simp add: Membership_Get_def)
qed

lemma add_members:
  "members_inv m \<Longrightarrow> members_inv (foldl Membership_Add m ms) \<and> ms_self (foldl Membership_Add m ms) = ms_self m"
proof (induction ms arbitrary: m)
  case (Cons a ms)
  have "ms_self (Membership_Add m a) = ms_self m" by (simp add: Membership_Add_def)
  then show ?case using Cons.IH [OF members_inv_Add [OF Cons.prems], of a] by simp
qed simp

lemma Get_added:
  "members_inv m \<Longrightarrow> distinct (map mb_NodeID ms) \<Longrightarrow>
   Membership_Get (foldl Membership_Add m ms) k =
     (case find (\<lambda>x. mb_NodeID x = k) ms of None \<Rightarrow> Membership_Get m k | Some x \<Rightarrow> Some x)"
proof (induction ms arbitrary: m)
  case (Cons a ms)
  have "find (\<lambda>x. mb_NodeID x = mb_NodeID a) ms = None" using Cons.prems(2) by (simp add: find_None_iff) (metis image_eqI)
  then show ?case using Cons.IH [OF members_inv_Add [OF Cons.prems(1)]] Cons.prems
    by (auto simp: Get_Add split: option.split)
qed simp

lemma find_All:
  assumes "members_inv m"
  shows "find (\<lambda>x. mb_NodeID x = k) (Membership_All m) = Membership_Get m k"
proof -
  let ?xs = "map snd (ms_members m)"
  have ids: "map mb_NodeID ?xs = map fst (ms_members m)" using assms by (auto simp: members_inv_def list_all_iff)
  have "sorted (map fst (ms_members m))"
    using assms by (simp add: members_inv_def map_sorted_def strict_sorted_imp_sorted)
  then have "sorted (map mb_NodeID ?xs)" unfolding ids .
  then have all: "Membership_All m = ?xs" unfolding Membership_All_def by (rule sort_key_sorted)
  have "find (\<lambda>x. mb_NodeID x = k) (map snd al) = map_of al k" if "list_all (\<lambda>(k, mb). mb_NodeID mb = k) al" for al
    using that by (induction al) auto
  from this [of "ms_members m"] show ?thesis using assms unfolding all members_inv_def Membership_Get_def by blast
qed

lemma ack_members:
  assumes "list_all wf_Member members"
  shows "Unmarshal (as_list (assign_struct Member_fields) zero_Member id (\<lambda>ms _. ms)) (Marshal (JArr (map Member_json members))) [] =
    Some members"
proof -
  have "valid_json (JArr (map Member_json members))" using assms Member_json_valid by (auto simp: list_all_iff)
  moreover have "assign_elems (assign_struct Member_fields) zero_Member (map Member_json members) [] = Some members"
    using assms assign_Member by (intro assign_elems_map) (auto simp: list_all_iff)
  ultimately show ?thesis by (simp add: as_list_def)
qed

text \<open>C15. The join handshake: when a node processes the join that another one sends it, it has the joiner as a member, with
  the data the joiner announced, and its first answer goes to the joiner; once the joiner has processed that answer,
  it has every member of the other with the same data, and keeps the members it alone knew.\<close>

theorem join_handshake:
  assumes "members_inv (nd_membership n)" and "list_all wf_Member (Membership_All (nd_membership n))"
    and "members_inv (nd_membership j)" and "wf_Member (nd_self j)"
    and "(seed, msg) \<in> set (start_joins seeds j)"
    and "node_dispatch lib now clock flt provider n msg = Some (n', effs)"
  shows "Membership_Get (nd_membership n') (mb_NodeID (nd_self j)) = Some (nd_self j) \<and>
    (\<exists>ack rest j'. effs = (mb_Addr (nd_self j), ack) # rest \<and>
       node_dispatch lib2 now2 clock2 flt2 provider2 j ack = Some (j', []) \<and>
       (\<forall>k. Membership_Get (nd_membership j') k =
          (case Membership_Get (nd_membership n') k of None \<Rightarrow> Membership_Get (nd_membership j) k | Some m \<Rightarrow> Some m)))"
proof -
  let ?ms = "Membership_Add (nd_membership n) (nd_self j)"
  let ?n1 = "n\<lparr>nd_membership := ?ms\<rparr>"
  have msg: "msg = cluster_msg j MsgJoin (Marshal (Member_json (nd_self j)))" using assms(5) by (auto simp: start_joins_def)
  have "node_dispatch lib now clock flt provider n msg = Some (handleJoin provider n msg)"
    by (simp add: node_dispatch_def msg cluster_msg_def cluster_types msg_types Let_def)
  then have h: "handleJoin provider n msg = (n', effs)" using assms(6) by simp
  have "Unmarshal (assign_struct Member_fields) (cm_Body msg) zero_Member = Some (nd_self j)"
    using assms(4) assign_Member Member_json_valid by (simp add: msg cluster_msg_def)
  then obtain n2 rest where n2: "rebalance_if_leader provider ?n1 = (n2, rest)" and n': "n' = n2"
    and "\<exists>rest. effs = (mb_Addr (nd_self j), cluster_msg ?n1 MsgJoinAck (Marshal (JArr (map Member_json (Membership_All ?ms))))) # rest"
    using h by (cases "rebalance_if_leader provider ?n1") (auto simp: handleJoin_def Let_def)
  then obtain rest2 where effs:
    "effs = (mb_Addr (nd_self j), cluster_msg ?n1 MsgJoinAck (Marshal (JArr (map Member_json (Membership_All ?ms))))) # rest2" by blast
  have mem: "nd_membership n' = ?ms"
    using n2 n' by (auto simp: rebalance_if_leader_def ReassignAll_def Let_def split: if_splits option.splits)
  have inv: "members_inv ?ms" using assms(1) members_inv_Add by blast
  have "x \<in> insert (nd_self j) (set (Membership_All (nd_membership n)))" if "x \<in> set (Membership_All ?ms)" for x
    using that map_put_set [of "mb_NodeID (nd_self j)" "nd_self j" "ms_members (nd_membership n)"]
    by (auto simp: Membership_All_def Membership_Add_def image_iff)
  then have wf: "list_all wf_Member (Membership_All ?ms)" using assms(2,4) by (auto simp: list_all_iff)
  let ?ack = "cluster_msg ?n1 MsgJoinAck (Marshal (JArr (map Member_json (Membership_All ?ms))))"
  let ?j = "j\<lparr>nd_membership := foldl Membership_Add (nd_membership j) (Membership_All ?ms)\<rparr>"
  have ack: "node_dispatch lib2 now2 clock2 flt2 provider2 j ?ack = Some (?j, [])"
    using ack_members [OF wf]
    by (simp add: node_dispatch_def handleJoinAck_def cluster_msg_def cluster_types msg_types Let_def)
  have "distinct (map mb_NodeID (Membership_All ?ms))" using All_sorted [OF inv] strict_sorted_iff by blast
  then have get: "Membership_Get (nd_membership ?j) k =
      (case Membership_Get ?ms k of None \<Rightarrow> Membership_Get (nd_membership j) k | Some m \<Rightarrow> Some m)" for k
    using Get_added [OF assms(3)] find_All [OF inv] by simp
  have "Membership_Get ?ms (mb_NodeID (nd_self j)) = Some (nd_self j)" using Get_Add [OF assms(1)] by simp
  then show ?thesis using effs ack get mem by auto
qed

section \<open>Every node starts as the leader\<close>

text \<open>The answers to a join change the membership only, and keep its invariant.\<close>

lemma acks_keep:
  assumes "members_inv (nd_membership n)"
  shows "nd_raft (foldl handleJoinAck n acks) = nd_raft n \<and> members_inv (nd_membership (foldl handleJoinAck n acks)) \<and>
    ms_self (nd_membership (foldl handleJoinAck n acks)) = ms_self (nd_membership n)"
  using assms
proof (induction acks arbitrary: n)
  case (Cons a acks)
  have "nd_raft (handleJoinAck n a) = nd_raft n" "members_inv (nd_membership (handleJoinAck n a))"
    "ms_self (nd_membership (handleJoinAck n a)) = ms_self (nd_membership n)"
    using add_members [OF Cons.prems] Cons.prems by (simp_all add: handleJoinAck_def split: option.split)
  then show ?case using Cons.IH [of "handleJoinAck n a"] by simp
qed simp

text \<open>The node at its making: it knows itself only, and so its Raft node has no peers.\<close>

lemma NewClusterNode_alone:
  assumes "NewClusterNode nodeID bindAddr algorithm addr now store = Inr n"
  shows "nd_membership n = NewMembership (nd_self n)" and "mb_NodeID (nd_self n) = nodeID"
    and "nd_election n = NewElection (nd_self n)"
    and "nd_raft n = (if algorithm = ''raft'' then Some (NewNode nodeID [] store) else None)"
proof -
  let ?self = "zero_Member\<lparr>mb_NodeID := nodeID, mb_Addr := addr, mb_JoinedAt := now\<rparr>"
  have ms: "(NewMembership (zero_Member\<lparr>mb_NodeID := nodeID, mb_Addr := bindAddr, mb_JoinedAt := now\<rparr>))
      \<lparr>ms_self := ?self, ms_members := map_put nodeID ?self
         (ms_members (NewMembership (zero_Member\<lparr>mb_NodeID := nodeID, mb_Addr := bindAddr, mb_JoinedAt := now\<rparr>)))\<rparr> =
      NewMembership ?self"
    by (simp add: NewMembership_def zero_Member_def)
  have all: "Membership_All (NewMembership ?self) = [?self]" by (simp add: Membership_All_def NewMembership_def)
  have self: "zero_Member\<lparr>mb_NodeID := nodeID, mb_Addr := bindAddr, mb_JoinedAt := now, mb_Addr := addr\<rparr> = ?self"
    by (simp add: zero_Member_def)
  have n: "n = \<lparr>nd_self = ?self, nd_membership = NewMembership ?self, nd_election = NewElection ?self,
      nd_replicator = NewReplicator ?self, nd_raft = (if algorithm = ''raft'' then Some (NewNode nodeID [] store) else None),
      nd_partMap = [], nd_callbacks = 0\<rparr>"
    using assms unfolding NewClusterNode_def Let_def self ms all by (auto split: if_splits)
  show "nd_membership n = NewMembership (nd_self n)" "mb_NodeID (nd_self n) = nodeID" "nd_election n = NewElection (nd_self n)"
    "nd_raft n = (if algorithm = ''raft'' then Some (NewNode nodeID [] store) else None)"
    by (simp_all add: n)
qed

lemma Start_alone:
  "n_role (Start (NewNode nodeID [] None)) = Leader" "n_leaderKnown (Start (NewNode nodeID [] None))"
  "n_leaderID (Start (NewNode nodeID [] None)) = nodeID" "n_peers (Start (NewNode nodeID [] None)) = []"
  "n_term (Start (NewNode nodeID [] None)) = 1"
  by (simp_all add: Start_def NewNode_def Load_def zero_PersistentState_def persistLocked_def Raft.becomeLeaderLocked_def u64_def)

text \<open>C31. A node that joins a cluster takes the lead by itself. \<open>Start\<close> sends the joins to the seeds and does not wait
  for an answer. With the bully election, when no answer has been processed yet, the node takes the fast path of a
  single node. With Raft it is the leader of a cluster of one, whatever answers have been processed, since its peers
  were fixed when it was made, from a membership that held only the node itself. So any number of nodes that have
  each other as seeds are leaders at the same time, in the same term.\<close>

theorem every_node_starts_as_leader:
  assumes "NewClusterNode nodeID bindAddr algorithm addr now None = Inr n"
    and "n' = start_consensus (foldl handleJoinAck n acks)" and "algorithm = ''raft'' \<or> acks = []"
  shows "cluster_IsLeader n' \<and> map_option mb_NodeID (cluster_Leader n') = Some nodeID \<and>
    (case nd_raft n' of
       None \<Rightarrow> el_term (nd_election n') = 1
     | Some rn \<Rightarrow> n_peers rn = [] \<and> n_term rn = 1)"
proof -
  note n = NewClusterNode_alone [OF assms(1)]
  let ?m = "foldl handleJoinAck n acks"
  have "members_inv (nd_membership n)" using n(1) members_inv_New by simp
  note m = acks_keep [OF this, of acks]
  have raft: "nd_raft n' = map_option Start (nd_raft n)" "nd_membership n' = nd_membership ?m"
    using assms(2) m by (simp_all add: start_consensus_def Let_def)
  have "ms_self (nd_membership ?m) = nd_self n" using m n(1) by (simp add: NewMembership_def)
  then obtain mb where mb: "Membership_Get (nd_membership ?m) nodeID = Some mb" "mb_NodeID mb = nodeID"
    using Get_self [of "nd_membership ?m"] m n(2) by auto
  show ?thesis
  proof (cases "algorithm = ''raft''")
    case True
    then show ?thesis using mb raft n(4) Start_alone [of nodeID] by (simp add: cluster_IsLeader_def cluster_Leader_def)
  next
    case False
    then have "acks = []" using assms(3) by simp
    then have "nd_election n' = ForceBecomeLeader (NewMembership (nd_self n)) (NewElection (nd_self n))"
      using assms(2) n(1,3) by (simp add: start_consensus_def Membership_Len_def NewMembership_def Let_def)
    then show ?thesis using False raft n(2,4)
      by (simp add: cluster_IsLeader_def cluster_Leader_def ForceBecomeLeader_def NewElection_def Bully.becomeLeaderLocked_def u64_def)
  qed
qed

section \<open>Witnesses\<close>

definition raft_a :: ClusterNode where
  "raft_a = projr (NewClusterNode ''a'' ''a:1'' ''raft'' ''a:1'' ''2024-01-01T00:00:00Z'' None)"

definition raft_b :: ClusterNode where
  "raft_b = projr (NewClusterNode ''b'' ''b:1'' ''raft'' ''b:1'' ''2024-01-01T00:00:00Z'' None)"

theorem every_node_starts_as_leader_witness:
  "cluster_IsLeader (start_consensus raft_a) \<and> cluster_IsLeader (start_consensus raft_b) \<and>
   map fst (start_joins [''b:1''] raft_a) = [''b:1''] \<and> map fst (start_joins [''a:1''] raft_b) = [''a:1'']"
proof -
  have "NewClusterNode ''a'' ''a:1'' ''raft'' ''a:1'' ''2024-01-01T00:00:00Z'' None = Inr raft_a"
    "NewClusterNode ''b'' ''b:1'' ''raft'' ''b:1'' ''2024-01-01T00:00:00Z'' None = Inr raft_b"
    by (simp_all add: raft_a_def raft_b_def NewClusterNode_def Let_def)
  note l = this [THEN every_node_starts_as_leader]
  have "cluster_IsLeader (start_consensus raft_a)" "cluster_IsLeader (start_consensus raft_b)"
    using l(1) [of "start_consensus raft_a" "[]"] l(2) [of "start_consensus raft_b" "[]"] by simp_all
  then show ?thesis by (simp add: start_joins_def raft_a_def raft_b_def NewClusterNode_def Let_def)
qed

definition joined_a :: ClusterNode where
  "joined_a = raft_a\<lparr>nd_membership := Membership_Add (nd_membership raft_a) (nd_self raft_b)\<rparr>"

theorem partition_map_agreement_witness:
  "\<exists>n' msg f'. ReassignAll (Some [(''t'', 3)]) joined_a = (n', [(''b:1'', msg)]) \<and>
     node_dispatch sample_lib 0 (\<lambda>_. 0) (\<lambda>_. NoFault) None raft_b msg = Some (f', []) \<and>
     nd_partMap f' = nd_partMap n' \<and> OwnerOf f' ''t'' 0 = ''a'' \<and> OwnerOf f' ''t'' 1 = ''b'' \<and> OwnerOf f' ''t'' 2 = ''a''"
proof -
  have ms: "ms_members (nd_membership joined_a) = [(''a'', nd_self raft_a), (''b'', nd_self raft_b)]" "nd_partMap joined_a = []"
    "mb_NodeID (nd_self raft_a) = ''a''" "mb_NodeID (nd_self raft_b) = ''b''" "mb_Addr (nd_self raft_b) = ''b:1''"
    "nd_self joined_a = nd_self raft_a" "ms_self (nd_membership joined_a) = nd_self raft_a"
    by (simp_all add: joined_a_def raft_a_def raft_b_def NewClusterNode_def NewMembership_def Membership_Add_def zero_Member_def Let_def)
  have ok: "node_ok joined_a"
    using ms by (simp add: node_ok_def members_inv_def map_sorted_def wf_PartitionMap_def ascii_valid_utf8)
  have all: "Membership_All (nd_membership joined_a) = [nd_self raft_a, nd_self raft_b]"
    using ms by (simp add: Membership_All_def)
  have ids: "member_ids joined_a = [''a'', ''b'']" using all ms by (simp add: member_ids_def)
  have t: "topics_ok [(''t'', 3)]" by (simp add: topics_ok_def ascii_valid_utf8)
  obtain n' where n': "ReassignAll (Some [(''t'', 3)]) joined_a =
      (n', [(''b:1'', cluster_msg joined_a MsgMetaSync (Marshal (metaSync_json ''partitions'' (PartitionMap_json (nd_partMap n')))))])"
    using all ms by (simp add: ReassignAll_def broadcastPartitionMap_def to_others_def Let_def)
  let ?msg = "cluster_msg joined_a MsgMetaSync (Marshal (metaSync_json ''partitions'' (PartitionMap_json (nd_partMap n'))))"
  obtain f' where f': "node_dispatch sample_lib 0 (\<lambda>_. 0) (\<lambda>_. NoFault) None raft_b ?msg = Some (f', [])"
    by (simp add: node_dispatch_def cluster_msg_def cluster_types msg_types Let_def)
  have "nd_partMap f' = nd_partMap n' \<and> (\<forall>(name, c) \<in> set [(''t'', 3)]. \<forall>p. 0 \<le> p \<and> p < c \<longrightarrow>
      OwnerOf f' name p = member_ids joined_a ! (nat p mod length (member_ids joined_a)) \<and> OwnerOf f' name p \<in> set (member_ids joined_a))"
    by (rule partition_map_agreement [OF ok t n' _ f']) simp
  then have "nd_partMap f' = nd_partMap n'" "OwnerOf f' ''t'' p = [''a'', ''b''] ! (nat p mod 2)" if "0 \<le> p" "p < 3" for p
    using that by (simp_all add: ids numeral_2_eq_2)
  from this [of 0] this [of 1] this [of 2] show ?thesis using n' f' by (auto simp: numeral_2_eq_2)
qed

definition fresh_b :: ClusterNode where
  "fresh_b = projr (NewClusterNode ''b'' ''b:1'' ''bully'' ''b:1'' ''2024-01-01T00:00:00Z'' None)"

theorem join_handshake_witness:
  "\<exists>msg n' ack rest j'. start_joins [''a:1''] fresh_b = [(''a:1'', msg)] \<and>
     node_dispatch sample_lib 0 (\<lambda>_. 0) (\<lambda>_. NoFault) None raft_a msg = Some (n', (''b:1'', ack) # rest) \<and>
     node_dispatch sample_lib 0 (\<lambda>_. 0) (\<lambda>_. NoFault) None fresh_b ack = Some (j', []) \<and>
     Membership_Get (nd_membership n') ''b'' = Some (nd_self fresh_b) \<and>
     Membership_Get (nd_membership j') ''b'' = Some (nd_self fresh_b)"
proof -
  have new: "NewClusterNode ''a'' ''a:1'' ''raft'' ''a:1'' ''2024-01-01T00:00:00Z'' None = Inr raft_a"
    "NewClusterNode ''b'' ''b:1'' ''bully'' ''b:1'' ''2024-01-01T00:00:00Z'' None = Inr fresh_b"
    by (simp_all add: raft_a_def fresh_b_def NewClusterNode_def Let_def)
  note a = NewClusterNode_alone [OF new(1)] and b = NewClusterNode_alone [OF new(2)]
  have wf: "wf_Member (nd_self raft_a)" "wf_Member (nd_self fresh_b)" "mb_Addr (nd_self fresh_b) = ''b:1''"
    by (simp_all add: raft_a_def fresh_b_def NewClusterNode_def zero_Member_def Let_def wf_Member_def ascii_valid_utf8) code_simp+
  have all: "Membership_All (nd_membership raft_a) = [nd_self raft_a]" by (simp add: a Membership_All_def NewMembership_def)
  obtain msg where msg: "start_joins [''a:1''] fresh_b = [(''a:1'', msg)]" using wf(3) by (simp add: start_joins_def)
  have ty: "cm_Type msg = MsgJoin" using msg by (auto simp: start_joins_def cluster_msg_def split: if_splits)
  then obtain n' effs where d: "node_dispatch sample_lib 0 (\<lambda>_. 0) (\<lambda>_. NoFault) None raft_a msg = Some (n', effs)"
    by (cases "handleJoin None raft_a msg") (simp add: node_dispatch_def cluster_types msg_types Let_def)
  have "list_all wf_Member (Membership_All (nd_membership raft_a))" using all wf by simp
  from join_handshake [OF _ this _ wf(2) _ d, of "''a:1''" "[''a:1'']" sample_lib 0 "\<lambda>_. 0" "\<lambda>_. NoFault" None]
  show ?thesis using msg d a(1) b wf(3) members_inv_New by fastforce
qed

end
