(* ===== verification/Spec2Isabelle.thy ===== *)
theory Spec2Isabelle
  imports Key_Compactor Broker_Duplicates Raft_Election Replica_Sync Cluster_Node
begin

text \<open>
  Verification of the publish/subscribe broker under \<^verbatim>\<open>src/\<close>.

  \<^bold>\<open>The program.\<close> Clients send frames over TCP (\<^verbatim>\<open>internal/protocol\<close>). The dispatcher and the handlers of
  \<^verbatim>\<open>internal/broker\<close> check permissions (\<^verbatim>\<open>internal/auth\<close>), route a message to a partition
  (\<^verbatim>\<open>internal/partition\<close>), log the request (\<^verbatim>\<open>internal/wal\<close>) and let the producer
  (\<^verbatim>\<open>internal/producer\<close>) append it to the partition's log (\<^verbatim>\<open>internal/storage\<close>) of the topic
  (\<^verbatim>\<open>internal/topic\<close>). Consumer groups (\<^verbatim>\<open>internal/consumer\<close>) deliver it, keep committed offsets and a
  dead-letter queue. At the start the broker replays its three write-ahead logs. The nodes of a cluster
  (\<^verbatim>\<open>internal/cluster\<close>) exchange members and the map of partition owners, elect a leader by Raft
  (\<^verbatim>\<open>internal/cluster/raft\<close>) or by a bully election, and copy the partition logs of the leader.

  \<^bold>\<open>Conventions.\<close> Bytes are 8-bit words, Go strings are \<^typ>\<open>string\<close>, \<^verbatim>\<open>uint64\<close> and hashes are words and wrap,
  \<^verbatim>\<open>int64\<close> values are \<^typ>\<open>int\<close>; where a sum or product of theirs can leave the range from outside
  (a committed offset, configured times and sizes) it wraps by \<^const>\<open>int64_of\<close>, and offsets that a log gives out are
  in range by its invariant. Errors are values of a sum
  type whose left side names the source's error. A panic is a flag of the state or the result \<^term>\<open>None\<close>: the
  log of a Raft node is indexed by a partial function, and a channel that is closed is marked. Disk faults
  (short write, failed sync), the clock, fresh identifiers, the limiter's answer and the interleaving with other goroutines are arguments. A Go map is a
  sorted association list where it is serialised or listed, and a HOL map where it is only looked up. The
  DEFLATE and zlib streams of the standard library are the parameter \<open>flate_lib\<close>. Reading loops are structural on
  the bytes, or bounded by the length of the file they read, which every iteration shortens; a loop that may
  wait forever (the long poll, the replay of a group's backlog) is a partial function whose result
  \<^term>\<open>None\<close> is not returning.

  \<^bold>\<open>The theories\<close>, with the source each follows:
  \<^item> \<open>Prelude\<close>: shared lemmas on lists, maps and words, and 64-bit signed arithmetic.
  \<^item> \<open>Json\<close>, \<open>Broker_Types\<close>: \<^verbatim>\<open>encoding/json\<close> as the code uses it; \<^verbatim>\<open>pkg/types/types.go\<close> and the request
    bodies, with round trips, and the locale \<open>byte_codec\<close> (decoding what was encoded), which the encodings
    interpret.
  \<^item> \<open>Frame_Codec\<close>: \<^verbatim>\<open>protocol.go\<close>; the decoder accepts exactly the encodings.
  \<^item> \<open>Record_Codec\<close>, \<open>Segment_Store\<close>, \<open>Partition_Log\<close>, \<open>Key_Compactor\<close>: \<^verbatim>\<open>storage/\<close>. Segments and partition
    logs both interpret the locale \<open>append_log\<close> (an append extends the contents, a read returns them). Reading
    what was appended, reopening, recovery of a torn record, retention, raw transfer, search by time, and
    compaction against its specification. All of these are for uncompressed records, a condition that is part of
    the invariants \<^const>\<open>seg_inv\<close> and \<^const>\<open>pl_holds\<close> and of \<^const>\<open>fits\<close>: a record with the zlib codec can be
    written but not decoded, so reads fail at it and recovery stops at it, as \<open>zlib_record_blocks_segment\<close> shows.
  \<^item> \<open>Wal\<close>: \<^verbatim>\<open>wal.go\<close>, \<^verbatim>\<open>wal_offset.go\<close>, \<^verbatim>\<open>wal_topic.go\<close>. A crash at any byte keeps the acknowledged entries;
    replay of offsets and topics refines last-write-wins; checkpoints preserve it.
  \<^item> \<open>Partitioning\<close>, \<open>Topics\<close>: routing stays in range and names partitions that exist.
  \<^item> \<open>Dead_Letters\<close>, \<open>Consumer_Groups\<close>, \<open>Group_Manager\<close>: \<^verbatim>\<open>consumer.go\<close>. Every partition has one owner and loads
    are balanced; a message is delivered or dead-lettered; the long poll returns.
  \<^item> \<open>Dedup\<close>, \<open>Producer\<close>: \<^verbatim>\<open>dedup.go\<close> refines a finite memory (locale \<open>dedup_store\<close>); repeated exactly-once
    publishes write once.
  \<^item> \<open>Access\<close>: \<^verbatim>\<open>auth.go\<close>, \<^verbatim>\<open>rbac.go\<close>, the connection's identity. SHA-256 is defined from its standard.
  \<^item> \<open>Broker_Handlers\<close>: the handlers, the dispatcher and the start of the broker. \<open>Broker_Access\<close>: what a connection
    without permissions can change. \<open>Broker_Recovery\<close>: logged commits and plain keyed publishes across a crash and
    a restart, and a commit that is acknowledged but not logged.
    \<open>Broker_Duplicates\<close>: keyless and exactly-once messages that a restart doubles.
  \<^item> \<open>Raft_Rpc\<close>, \<open>Raft\<close>, \<open>Raft_Replication\<close>, \<open>Raft_Election\<close>: \<^verbatim>\<open>cluster/raft/\<close>. The node's handlers; that it
    never panics and applies its log in order, for any sequence of events; log repair, given log matching
    between the two logs as a hypothesis, which the code does not establish; and the cluster as a step relation over an unreliable
    network with crashes, where elections are safe (locale \<open>quorum_system\<close>) unless AppendEntries messages arrive.
    The state file can always be written in this relation.
  \<^item> \<open>Cluster_Members\<close>: \<^verbatim>\<open>membership.go\<close>, \<^verbatim>\<open>partition_map.go\<close>, \<^verbatim>\<open>isr.go\<close>, \<^verbatim>\<open>quorum.go\<close> and the message encoding of
    \<^verbatim>\<open>transport.go\<close>; the quorum a publish waits for never makes it wait. \<open>Bully\<close>: \<^verbatim>\<open>election.go\<close>; the highest
    node wins a complete round, and two leaders of one term are possible.
  \<^item> \<open>Replicator\<close>, \<open>Replica_Sync\<close>: \<^verbatim>\<open>replicator.go\<close>. One leader and one follower from empty logs as a step
    relation over an unreliable network: the replica is a prefix, and a fetch that is answered makes progress.
  \<^item> \<open>Cluster_Node\<close>: \<^verbatim>\<open>node.go\<close> and the wiring in \<^verbatim>\<open>broker/cluster.go\<close>. Joining, the agreement on the
    partition map, and the leader every node is at its start.

  Theorems of kind error state, on the model, what the code does where that is not what it means to do.

  \<^bold>\<open>Not modelled.\<close> Sockets, TLS, timers, tickers and goroutine scheduling; the HTTP administration, dashboard,
  explorer and gateway, which render modelled state; metrics, traces, logs and audit events; configuration
  files and hot reload; client libraries and command-line tools. The rate limiter counts tokens in floating
  point: its answer is an argument. In the handlers, the branches that need a cluster node and the goroutine that
  pushes messages to a connection are left out. Of the cluster, connection pooling and the loops that read from
  sockets are left out, and \<^verbatim>\<open>internal/replication\<close>, a second replication scheme over client connections.
\<close>

end
